(* ===== verification/Prelude.thy ===== *)
theory Prelude
  imports Main "HOL-Library.Word"
begin

text \<open>
  Shared vocabulary of the development.  A C function that may crash, hang or end its
  thread returns a value of a sum type: \<open>Inl\<close> stops the run, \<open>Inr\<close> carries the result to
  the next statement.  \<open>and_then\<close> is the sequencing of statements, \<open>deref\<close> the use of a
  pointer that may be NULL, \<open>holds\<close> the postcondition of a run (one predicate for the
  normal end, one for a stop).  The second half models the C string functions on
  NUL-free character lists: a buffer of \<open>n\<close> bytes holds a string of at most \<open>n - 1\<close>
  characters, and a write past it is a fault.
\<close>

named_theorems hoare \<open>postconditions of the operations, applied backwards\<close>
named_theorems frame \<open>fields an operation leaves alone\<close>

subsection \<open>Statements that may stop\<close>

definition and_then :: "'e + 'a \<Rightarrow> ('a \<Rightarrow> 'e + 'b) \<Rightarrow> 'e + 'b" where
  "and_then r k = (case r of Inl e \<Rightarrow> Inl e | Inr x \<Rightarrow> k x)"

lemma and_then_simps [simp]:
  "and_then (Inl e) k = Inl e"
  "and_then (Inr x) k = k x"
  by (simp_all add: and_then_def)

lemma and_then_assoc: "and_then (and_then r f) g = and_then r (\<lambda>x. and_then (f x) g)"
  by (cases r) simp_all

lemma and_then_Inr_right [simp]: "and_then r Inr = r"
  by (cases r) simp_all

lemma and_then_eq_Inr:
  "and_then r k = Inr y \<longleftrightarrow> (\<exists>x. r = Inr x \<and> k x = Inr y)"
  by (cases r) simp_all

lemma and_then_eq_Inl:
  "and_then r k = Inl e \<longleftrightarrow> r = Inl e \<or> (\<exists>x. r = Inr x \<and> k x = Inl e)"
  by (cases r) simp_all

lemma if_and_then: "and_then (if b then r else s) k = (if b then and_then r k else and_then s k)"
  by simp

definition holds :: "'e + 'a \<Rightarrow> ('a \<Rightarrow> bool) \<Rightarrow> ('e \<Rightarrow> bool) \<Rightarrow> bool" where
  "holds r Q E \<longleftrightarrow> (case r of Inl e \<Rightarrow> E e | Inr x \<Rightarrow> Q x)"

lemma holds_simps [simp]:
  "holds (Inl e) Q E \<longleftrightarrow> E e"
  "holds (Inr x) Q E \<longleftrightarrow> Q x"
  by (simp_all add: holds_def)

lemma holds_and_then [simp]: "holds (and_then r k) Q E \<longleftrightarrow> holds r (\<lambda>x. holds (k x) Q E) E"
  by (cases r) simp_all

lemma holds_if: "holds (if b then r else s) Q E \<longleftrightarrow> (b \<longrightarrow> holds r Q E) \<and> (\<not> b \<longrightarrow> holds s Q E)"
  by simp

lemma holds_mono:
  "holds r Q E \<Longrightarrow> (\<And>x. Q x \<Longrightarrow> Q' x) \<Longrightarrow> (\<And>e. E e \<Longrightarrow> E' e) \<Longrightarrow> holds r Q' E'"
  by (cases r) simp_all

lemma holds_conj:
  "holds r Q E \<Longrightarrow> holds r Q' E' \<Longrightarrow> holds r (\<lambda>x. Q x \<and> Q' x) (\<lambda>e. E e \<and> E' e)"
  by (cases r) simp_all

lemma holdsD: "holds r Q E \<Longrightarrow> r = Inr x \<Longrightarrow> Q x"
  by simp

lemma holdsE: "holds r Q E \<Longrightarrow> r = Inl e \<Longrightarrow> E e"
  by simp

text \<open>\<open>for_each\<close> runs a statement for every element of a list, in order.\<close>

primrec for_each :: "'a list \<Rightarrow> ('a \<Rightarrow> 's \<Rightarrow> 'e + 's) \<Rightarrow> 's \<Rightarrow> 'e + 's" where
  "for_each [] body s = Inr s"
| "for_each (x # xs) body s = and_then (body x s) (for_each xs body)"

lemma for_each_append:
  "for_each (xs @ ys) body s = and_then (for_each xs body s) (for_each ys body)"
proof (induction xs arbitrary: s)
  case Nil
  then show ?case by simp
next
  case (Cons x xs)
  then have "for_each (xs @ ys) body = (\<lambda>s. and_then (for_each xs body s) (for_each ys body))"
    by auto
  then show ?case by (simp add: and_then_assoc)
qed

lemma for_each_holds:
  assumes "\<And>x s. x \<in> set xs \<Longrightarrow> I s \<Longrightarrow> holds (body x s) I E"
  shows "I s \<Longrightarrow> holds (for_each xs body s) I E"
  using assms
proof (induction xs arbitrary: s)
  case Nil
  then show ?case by simp
next
  case (Cons x xs)
  have "holds (body x s) I E" using Cons.prems by simp
  moreover have "holds (for_each xs body t) I E" if "I t" for t
    using Cons.IH [OF that] Cons.prems(2) by simp
  ultimately show ?case by (auto elim: holds_mono)
qed

lemma for_each_cong [fundef_cong]:
  assumes "xs = ys" "s = t" "\<And>x u. x \<in> set ys \<Longrightarrow> f x u = g x u"
  shows "for_each xs f s = for_each ys g t"
proof -
  have "for_each ys f t = for_each ys g t"
    using assms(3)
  proof (induction ys arbitrary: t)
    case Nil
    then show ?case by simp
  next
    case (Cons y ys)
    then have "for_each ys f = for_each ys g" by auto
    with Cons.prems show ?case by simp
  qed
  with assms(1,2) show ?thesis by simp
qed

subsection \<open>Finding and updating records by key\<close>

lemma find_SomeD: "List.find P xs = Some x \<Longrightarrow> x \<in> set xs \<and> P x"
  by (auto simp: find_Some_iff)

lemma find_map_key:
  assumes "\<And>x. P (f x) = P x"
  shows "List.find P (map f xs) = map_option f (List.find P xs)"
  by (induction xs) (simp_all add: assms)

lemma find_None_set: "List.find P xs = None \<longleftrightarrow> (\<forall>x \<in> set xs. \<not> P x)"
  by (induction xs) auto

lemma find_unique_key:
  "distinct (map k xs) \<Longrightarrow> x \<in> set xs \<Longrightarrow> List.find (\<lambda>y. k y = k x) xs = Some x"
  by (induction xs) auto

primrec remove_first :: "('a \<Rightarrow> bool) \<Rightarrow> 'a list \<Rightarrow> 'a list" where
  "remove_first P [] = []"
| "remove_first P (x # xs) = (if P x then xs else x # remove_first P xs)"

lemma set_remove_first_subset: "set (remove_first P xs) \<subseteq> set xs"
  by (induction xs) auto

lemma remove_first_id: "\<forall>x \<in> set xs. \<not> P x \<Longrightarrow> remove_first P xs = xs"
  by (induction xs) auto

lemma remove_first_key:
  "distinct (map k xs) \<Longrightarrow> remove_first (\<lambda>y. k y = a) xs = filter (\<lambda>y. k y \<noteq> a) xs"
proof (induction xs)
  case Nil
  then show ?case by simp
next
  case (Cons x xs)
  show ?case
  proof (cases "k x = a")
    case True
    then have "\<forall>y \<in> set xs. k y \<noteq> a" using Cons.prems by (auto simp: image_iff)
    then have "filter (\<lambda>y. k y \<noteq> a) xs = xs" by (simp add: filter_id_conv)
    with True show ?thesis by simp
  next
    case False
    with Cons show ?thesis by simp
  qed
qed

lemma distinct_map_remove_first: "distinct (map k xs) \<Longrightarrow> distinct (map k (remove_first P xs))"
  by (induction xs) (use set_remove_first_subset in \<open>fastforce+\<close>)

subsection \<open>C strings\<close>

text \<open>\<open>NUL\<close> ends a C string; CR and LF end an IRC message.\<close>

abbreviation NUL :: char where "NUL \<equiv> CHR 0x00"
abbreviation CR :: char where "CR \<equiv> CHR 0x0D"
abbreviation LF :: char where "LF \<equiv> CHR 0x0A"

abbreviation CRLF :: string where "CRLF \<equiv> [CR, LF]"

text \<open>The C string that starts a byte sequence: everything before the first NUL.\<close>

definition cstring :: "string \<Rightarrow> string" where
  "cstring s = takeWhile (\<lambda>c. c \<noteq> NUL) s"

text \<open>\<open>snprintf(buf, n, ...)\<close> stores at most \<open>n - 1\<close> characters of the formatted text.\<close>

definition snprintf :: "nat \<Rightarrow> string \<Rightarrow> string" where
  "snprintf n s = take (n - 1) s"

lemma length_snprintf: "length (snprintf n s) \<le> n - 1"
  by (simp add: snprintf_def)

lemma snprintf_id: "length s < n \<Longrightarrow> snprintf n s = s"
  by (simp add: snprintf_def)

text \<open>\<open>strchr(s, c) != NULL\<close> for a character that is not NUL.\<close>

definition strchr :: "string \<Rightarrow> char \<Rightarrow> bool" where
  "strchr s c \<longleftrightarrow> c = NUL \<or> c \<in> set s"

text \<open>\<open>strpbrk(s, accept) != NULL\<close>.\<close>

definition strpbrk :: "string \<Rightarrow> string \<Rightarrow> bool" where
  "strpbrk s accept \<longleftrightarrow> (\<exists>c \<in> set s. c \<in> set accept)"

text \<open>
  The loop \<open>for(c = strchr(s, x); *c != 0; c++) *c = *(c+1)\<close> shifts the tail left over the
  first occurrence of \<open>x\<close>.
\<close>

definition shift_out :: "char \<Rightarrow> string \<Rightarrow> string" where
  "shift_out x s = remove_first (\<lambda>c. c = x) s"

lemma shift_out_distinct: "distinct s \<Longrightarrow> x \<notin> set (shift_out x s)"
  unfolding shift_out_def by (induction s) auto

lemma set_shift_out: "y \<noteq> x \<Longrightarrow> y \<in> set (shift_out x s) \<longleftrightarrow> y \<in> set s"
  unfolding shift_out_def by (induction s) auto

text \<open>Decimal output of an unsigned integer, as \<open>%u\<close> prints it.\<close>

fun dec :: "nat \<Rightarrow> string" where
  "dec n = (if n < 10 then [char_of (48 + n)] else dec (n div 10) @ [char_of (48 + n mod 10)])"

declare dec.simps [simp del]

lemma dec_small: "n < 10 \<Longrightarrow> dec n = [char_of (48 + n)]"
  by (simp add: dec.simps)

lemma dec_nonempty [simp]: "dec n \<noteq> []"
  by (subst dec.simps) simp

lemma length_dec_le: "n < 10 ^ k \<Longrightarrow> 0 < k \<Longrightarrow> length (dec n) \<le> k"
proof (induction k arbitrary: n)
  case 0
  then show ?case by simp
next
  case (Suc k)
  show ?case
  proof (cases "n < 10")
    case True
    then show ?thesis by (simp add: dec_small)
  next
    case False
    then have "0 < k" using Suc.prems by (cases k) simp_all
    moreover have "n div 10 < 10 ^ k" using Suc.prems by (simp add: less_mult_imp_div_less)
    ultimately have "length (dec (n div 10)) \<le> k" by (rule Suc.IH [rotated])
    with False show ?thesis by (subst dec.simps) simp
  qed
qed

lemma length_dec_gt: "10 ^ k \<le> n \<Longrightarrow> k < length (dec n)"
proof (induction k arbitrary: n)
  case 0
  then show ?case by simp
next
  case (Suc k)
  have "(1::nat) \<le> 10 ^ k" by simp
  then have "10 \<le> (10::nat) ^ Suc k" by simp
  with Suc.prems have big: "\<not> n < 10" by linarith
  have "10 ^ k \<le> n div 10" using Suc.prems by (simp add: div_le_mono less_eq_div_iff_mult_less_eq)
  then have "k < length (dec (n div 10))" by (rule Suc.IH)
  with big show ?case by (subst dec.simps) simp
qed

text \<open>\<open>%i\<close> of a signed integer.\<close>

definition dec_int :: "int \<Rightarrow> string" where
  "dec_int i = (if i < 0 then CHR ''-'' # dec (nat (- i)) else dec (nat i))"

text \<open>\<open>strtol(code, NULL, 10)\<close> on a string of digits.\<close>

primrec strtol_acc :: "nat \<Rightarrow> string \<Rightarrow> nat" where
  "strtol_acc acc [] = acc"
| "strtol_acc acc (c # cs) =
     (if 48 \<le> (of_char c :: nat) \<and> (of_char c :: nat) \<le> 57
      then strtol_acc (10 * acc + (of_char c - 48)) cs else acc)"

definition strtol :: "string \<Rightarrow> nat" where
  "strtol s = strtol_acc 0 s"

end
