(* ===== verification/Clist.thy ===== *)
theory Clist
  imports Prelude
begin

text \<open>
  The operations of simclist (\<open>simclist.c\<close>) that the chirc server and the STCP layer call,
  on the sequence of data pointers the list holds.  The doubly linked cells, the sentinels,
  the mid pointer and the spare cells are not visible to a caller; the iteration state is:
  an active iterator blocks every insertion and deletion, and a second
  \<open>list_iterator_start\<close> neither restarts it nor fails visibly.
\<close>

record 'a clist =
  els :: "'a list"
  iter_active :: bool
  iter_pos :: nat

definition list_init :: "'a clist" where
  "list_init = \<lparr>els = [], iter_active = False, iter_pos = 0\<rparr>"

definition list_size :: "'a clist \<Rightarrow> nat" where
  "list_size l = length (els l)"

text \<open>The pair is the return value and the list after the call.\<close>

definition list_insert_at :: "'a clist \<Rightarrow> 'a \<Rightarrow> nat \<Rightarrow> int \<times> 'a clist" where
  "list_insert_at l data pos =
     (if iter_active l \<or> pos > list_size l then (-1, l)
      else (1, l\<lparr>els := take pos (els l) @ data # drop pos (els l)\<rparr>))"

definition list_append :: "'a clist \<Rightarrow> 'a \<Rightarrow> int \<times> 'a clist" where
  "list_append l data = list_insert_at l data (list_size l)"

definition list_get_at :: "'a clist \<Rightarrow> nat \<Rightarrow> 'a option" where
  "list_get_at l pos = (if pos < list_size l then Some (els l ! pos) else None)"

definition list_delete_at :: "'a clist \<Rightarrow> nat \<Rightarrow> int \<times> 'a clist" where
  "list_delete_at l pos =
     (if iter_active l \<or> pos \<ge> list_size l then (-1, l)
      else (0, l\<lparr>els := take pos (els l) @ drop (Suc pos) (els l)\<rparr>))"

text \<open>
  \<open>list_locate\<close> returns the position of the first element that equals \<open>data\<close>, by the
  comparator or by reference; \<open>eq\<close> is that test.
\<close>

primrec locate :: "('a \<Rightarrow> bool) \<Rightarrow> 'a list \<Rightarrow> nat \<Rightarrow> int" where
  "locate eq [] pos = -1"
| "locate eq (x # xs) pos = (if eq x then int pos else locate eq xs (Suc pos))"

definition list_locate :: "('a \<Rightarrow> bool) \<Rightarrow> 'a clist \<Rightarrow> int" where
  "list_locate eq l = locate eq (els l) 0"

definition list_contains :: "('a \<Rightarrow> bool) \<Rightarrow> 'a clist \<Rightarrow> bool" where
  "list_contains eq l \<longleftrightarrow> list_locate eq l \<ge> 0"

definition list_delete :: "('a \<Rightarrow> bool) \<Rightarrow> 'a clist \<Rightarrow> int \<times> 'a clist" where
  "list_delete eq l =
     (let pos = list_locate eq l
      in if pos < 0 then (-1, l)
         else let (r, l') = list_delete_at l (nat pos) in if r < 0 then (-1, l') else (0, l'))"

text \<open>\<open>list_seek\<close> returns the first element the seeker accepts, NULL if there is none.\<close>

definition list_seek :: "('a \<Rightarrow> bool) \<Rightarrow> 'a clist \<Rightarrow> 'a option" where
  "list_seek seeker l = List.find seeker (els l)"

definition list_clear :: "'a clist \<Rightarrow> int \<times> 'a clist" where
  "list_clear l = (if iter_active l then (-1, l) else (int (list_size l), l\<lparr>els := []\<rparr>))"

definition list_iterator_start :: "'a clist \<Rightarrow> 'a clist" where
  "list_iterator_start l = (if iter_active l then l else l\<lparr>iter_active := True, iter_pos := 0\<rparr>)"

definition list_iterator_hasnext :: "'a clist \<Rightarrow> bool" where
  "list_iterator_hasnext l \<longleftrightarrow> iter_active l \<and> iter_pos l < list_size l"

definition list_iterator_next :: "'a clist \<Rightarrow> 'a option \<times> 'a clist" where
  "list_iterator_next l =
     (if \<not> iter_active l then (None, l)
      else ((if iter_pos l < list_size l then Some (els l ! iter_pos l) else None),
            l\<lparr>iter_pos := Suc (iter_pos l)\<rparr>))"

definition list_iterator_stop :: "'a clist \<Rightarrow> 'a clist" where
  "list_iterator_stop l = (if iter_active l then l\<lparr>iter_active := False, iter_pos := 0\<rparr> else l)"

text \<open>
  The elements a loop \<open>while(hasnext) next\<close> still visits.  Nothing can be inserted or
  deleted while the iterator is active, so a loop over a started list is a loop over this
  sequence.
\<close>

definition iter_rest :: "'a clist \<Rightarrow> 'a list" where
  "iter_rest l = (if iter_active l then drop (iter_pos l) (els l) else [])"

text \<open>\<open>iter_skip n\<close> is the iterator after \<open>n\<close> calls of \<open>list_iterator_next\<close>.\<close>

definition iter_skip :: "nat \<Rightarrow> 'a clist \<Rightarrow> 'a clist" where
  "iter_skip n l = (if iter_active l then l\<lparr>iter_pos := iter_pos l + n\<rparr> else l)"

lemma hasnext_iter_rest: "list_iterator_hasnext l \<longleftrightarrow> iter_rest l \<noteq> []"
  by (auto simp: list_iterator_hasnext_def iter_rest_def list_size_def)

lemma next_iter_rest:
  assumes "iter_rest l = x # xs"
  shows "list_iterator_next l = (Some x, iter_skip 1 l)" and "iter_rest (iter_skip 1 l) = xs"
  using assms
  by (auto simp: iter_rest_def list_iterator_next_def iter_skip_def list_size_def
      nth_via_drop drop_Suc tl_drop split: if_splits)
    (metis Nil_is_append_conv append_take_drop_id drop_all linorder_not_less list.simps(3),
     metis drop_Suc list.sel(3) tl_drop)

lemma iter_rest_start:
  "\<not> iter_active l \<Longrightarrow> iter_rest (list_iterator_start l) = els l"
  by (simp add: iter_rest_def list_iterator_start_def)

lemma stop_start [simp]:
  "\<not> iter_active l \<Longrightarrow> iter_pos l = 0 \<Longrightarrow> list_iterator_stop (list_iterator_start l) = l"
  by (cases l) (simp add: list_iterator_start_def list_iterator_stop_def)

lemma els_iter [simp]:
  "els (list_iterator_start l) = els l" "els (list_iterator_stop l) = els l"
  "els (iter_skip n l) = els l" "els (snd (list_iterator_next l)) = els l"
  by (simp_all add: list_iterator_start_def list_iterator_stop_def iter_skip_def
      list_iterator_next_def)

lemma active_iter [simp]:
  "iter_active (list_iterator_start l)" "\<not> iter_active (list_iterator_stop l)"
  "iter_active (iter_skip n l) = iter_active l"
  by (simp_all add: list_iterator_start_def list_iterator_stop_def iter_skip_def)

lemma locate_shift: "locate eq xs pos = (if locate eq xs 0 < 0 then -1 else locate eq xs 0 + int pos)"
proof (induction xs arbitrary: pos)
  case Nil
  then show ?case by simp
next
  case (Cons x xs)
  show ?case
    using Cons.IH [of "Suc pos"] Cons.IH [of 1] by auto
qed

lemma locate_neg: "locate eq xs 0 < 0 \<longleftrightarrow> (\<forall>x \<in> set xs. \<not> eq x)"
proof (induction xs)
  case Nil
  then show ?case by simp
next
  case (Cons x xs)
  then show ?case using locate_shift [of eq xs 1] by auto
qed

lemma list_contains_iff: "list_contains eq l \<longleftrightarrow> (\<exists>x \<in> set (els l). eq x)"
  using locate_neg [of eq "els l"] by (auto simp: list_contains_def list_locate_def)

lemma locate_remove_first:
  "0 \<le> locate eq xs 0 \<Longrightarrow>
     take (nat (locate eq xs 0)) xs @ drop (Suc (nat (locate eq xs 0))) xs = remove_first eq xs
     \<and> nat (locate eq xs 0) < length xs"
proof (induction xs)
  case Nil
  then show ?case by simp
next
  case (Cons x xs)
  show ?case
  proof (cases "eq x")
    case True
    then show ?thesis by simp
  next
    case False
    then have le: "0 \<le> locate eq xs 0" using Cons.prems locate_shift [of eq xs 1]
      by (auto split: if_splits)
    then have "locate eq (x # xs) 0 = locate eq xs 0 + 1"
      using False locate_shift [of eq xs 1] by simp
    then have "nat (locate eq (x # xs) 0) = Suc (nat (locate eq xs 0))" using le by simp
    with Cons.IH [OF le] False show ?thesis by simp
  qed
qed

text \<open>Deletion removes the first equal element, unless an iterator is active.\<close>

lemma els_list_delete:
  "els (snd (list_delete eq l)) = (if iter_active l then els l else remove_first eq (els l))"
proof (cases "list_locate eq l < 0")
  case True
  then have "\<forall>x \<in> set (els l). \<not> eq x"
    using locate_neg [of eq "els l"] by (simp add: list_locate_def)
  with True show ?thesis by (simp add: list_delete_def Let_def remove_first_id)
next
  case False
  then have "0 \<le> locate eq (els l) 0" by (simp add: list_locate_def)
  with False locate_remove_first [OF this] show ?thesis
    by (simp add: list_delete_def list_delete_at_def Let_def list_size_def list_locate_def)
qed

lemma iter_list_delete [simp]:
  "iter_active (snd (list_delete eq l)) = iter_active l"
  "iter_pos (snd (list_delete eq l)) = iter_pos l"
  by (simp_all add: list_delete_def list_delete_at_def Let_def split: prod.splits)

lemma els_list_append:
  "els (snd (list_append l x)) = (if iter_active l then els l else els l @ [x])"
  by (simp add: list_append_def list_insert_at_def list_size_def)

lemma iter_list_append [simp]:
  "iter_active (snd (list_append l x)) = iter_active l"
  "iter_pos (snd (list_append l x)) = iter_pos l"
  by (simp_all add: list_append_def list_insert_at_def)

lemma list_seek_Some: "list_seek P l = Some x \<Longrightarrow> x \<in> set (els l) \<and> P x"
  unfolding list_seek_def by (rule find_SomeD)

lemma list_seek_None: "list_seek P l = None \<longleftrightarrow> (\<forall>x \<in> set (els l). \<not> P x)"
  by (simp add: list_seek_def find_None_set)

end
