(* ===== verification/Chirc_State.thy ===== *)
theory Chirc_State
  imports Clist
begin

text \<open>
  The state of the chirc server (\<open>src/src/ircstructs.h\<close>), the list seekers of
  \<open>src/src/utils.c\<close>, and the statements every handler is built from: the mutexes, the
  \<open>send\<close> on a client socket and the removal of a client (\<open>channel_destroy\<close>, \<open>user_exit\<close>).

  A \<open>person\<close> is identified by its \<open>clientSocket\<close> (one entry of the user list per open
  socket), a \<open>channel\<close> by the address \<open>malloc\<close> gave it, \<open>ch_addr\<close>.  A pointer to either is
  that key, and its use looks the record up again.
\<close>

subsection \<open>The structures of ircstructs.h\<close>

abbreviation (input) MAXMSG :: nat where "MAXMSG \<equiv> 512"
abbreviation (input) MAXPARAMS :: nat where "MAXPARAMS \<equiv> 16"

record mychan =
  mname :: string
  mmode :: string

record person =
  clientSocket :: int
  nick :: string
  user :: string
  fullname :: string
  address :: string
  umode :: string
  away :: string
  my_chans :: "mychan clist"
  tid :: nat

record channel =
  ch_addr :: nat
  cname :: string
  topic :: string
  cmode :: string
  numusers :: int

record chirc_server =
  pw :: string
  servername :: string
  port :: string
  version :: string
  birthday :: string
  userlist :: "person clist"
  chanlist :: "channel clist"
  numregistered :: "32 word"

text \<open>
  The mutexes: the global \<open>lock\<close>, the \<open>c_lock\<close> of a person, the \<open>chan_lock\<close> of a channel.
\<close>

datatype mutex = Glock | C_lock int | Chan_lock nat

text \<open>
  What a handler can see and change.  \<open>out\<close> is everything handed to \<open>send\<close>, oldest first;
  \<open>closed\<close> the closed sockets; \<open>held\<close> the mutexes the running thread holds and \<open>misuse\<close> the
  unlocks of a mutex it did not hold; \<open>cancelled\<close> the threads it cancelled.  The rest is the
  environment: the running thread, the next address \<open>malloc\<close> gives, the sockets on which
  \<open>send\<close> fails, the usable size of a block \<open>malloc(n)\<close> returns, the contents of
  \<open>motd.txt\<close>, and what an uninitialised stack buffer holds (its \<open>strlen\<close> and a character).
\<close>

record world = chirc_server +
  out :: "(int \<times> string) list"
  closed :: "int list"
  held :: "mutex set"
  misuse :: "mutex list"
  cancelled :: "nat list"
  self :: nat
  next_addr :: nat
  broken :: "int set"
  usable :: "nat \<Rightarrow> nat"
  motd_file :: "string option"
  stack_len :: nat
  stack_char :: char

text \<open>
  How a run of a handler can end early: the thread leaves through \<open>pthread_exit\<close>, or the
  behaviour of the C program is undefined or it hangs.
\<close>

datatype fault =
    NullDeref | BufferOverflow | SelfDeadlock | UseAfterFree | OutOfBounds | Uninitialised

datatype stop = ThreadExit world | Fault fault

type_synonym run = "stop + world"

definition deref :: "'a option \<Rightarrow> ('a \<Rightarrow> stop + 'b) \<Rightarrow> stop + 'b" where
  "deref p k = (case p of None \<Rightarrow> Inl (Fault NullDeref) | Some x \<Rightarrow> k x)"

lemma deref_simps [simp]: "deref None k = Inl (Fault NullDeref)" "deref (Some x) k = k x"
  by (simp_all add: deref_def)

lemma and_then_deref [simp]: "and_then (deref p f) k = deref p (\<lambda>x. and_then (f x) k)"
  by (cases p) simp_all

lemma holds_deref [simp]:
  "holds (deref p k) Q E \<longleftrightarrow>
     (p = None \<longrightarrow> E (Fault NullDeref)) \<and> (\<forall>x. p = Some x \<longrightarrow> holds (k x) Q E)"
  by (cases p) simp_all

lemma deref_eq_Inr: "deref p k = Inr y \<longleftrightarrow> (\<exists>x. p = Some x \<and> k x = Inr y)"
  by (cases p) simp_all

text \<open>A write of the string \<open>s\<close> and its terminator into a buffer of \<open>n\<close> bytes.\<close>

definition into_buffer :: "nat \<Rightarrow> string \<Rightarrow> stop + string" where
  "into_buffer n s = (if length s < n then Inr s else Inl (Fault BufferOverflow))"

lemma into_buffer_Inr: "into_buffer n s = Inr t \<longleftrightarrow> t = s \<and> length s < n"
  by (auto simp: into_buffer_def)

lemma into_buffer_holds [simp]:
  "holds (into_buffer n s) Q E \<longleftrightarrow>
     (length s < n \<longrightarrow> Q s) \<and> (n \<le> length s \<longrightarrow> E (Fault BufferOverflow))"
  by (auto simp: into_buffer_def)

text \<open>\<open>char *cname = malloc(n); strcpy(cname, s)\<close>.\<close>

definition strdup_into :: "nat \<Rightarrow> string \<Rightarrow> world \<Rightarrow> stop + string" where
  "strdup_into n s w = into_buffer (usable w n) s"

subsection \<open>Pointers into the two lists\<close>

definition get_person :: "world \<Rightarrow> int \<Rightarrow> person option" where
  "get_person w u = List.find (\<lambda>p. clientSocket p = u) (els (userlist w))"

definition get_channel :: "world \<Rightarrow> nat \<Rightarrow> channel option" where
  "get_channel w a = List.find (\<lambda>c. ch_addr c = a) (els (chanlist w))"

definition upd_person :: "int \<Rightarrow> (person \<Rightarrow> person) \<Rightarrow> world \<Rightarrow> world" where
  "upd_person u f w =
     w\<lparr>userlist := (userlist w)\<lparr>els := map (\<lambda>p. if clientSocket p = u then f p else p) (els (userlist w))\<rparr>\<rparr>"

definition upd_channel :: "nat \<Rightarrow> (channel \<Rightarrow> channel) \<Rightarrow> world \<Rightarrow> world" where
  "upd_channel a f w =
     w\<lparr>chanlist := (chanlist w)\<lparr>els := map (\<lambda>c. if ch_addr c = a then f c else c) (els (chanlist w))\<rparr>\<rparr>"

subsection \<open>Seekers and comparator (utils.c)\<close>

text \<open>
  \<open>fun_seek\<close> selects the field the indicator names; an empty search value matches nothing,
  except for \<open>FD\<close>, which compares the socket.
\<close>

datatype person_field = NICK | USER | FULLNAME | ADDRESS

definition fun_seek_person :: "person_field \<Rightarrow> string \<Rightarrow> person \<Rightarrow> bool" where
  "fun_seek_person f v p \<longleftrightarrow> v \<noteq> [] \<and>
     (case f of NICK \<Rightarrow> nick p = v | USER \<Rightarrow> user p = v | FULLNAME \<Rightarrow> fullname p = v
      | ADDRESS \<Rightarrow> address p = v)"

definition fun_seek_fd :: "int \<Rightarrow> person \<Rightarrow> bool" where
  "fun_seek_fd fd p \<longleftrightarrow> clientSocket p = fd"

definition fun_seek_chan :: "string \<Rightarrow> channel \<Rightarrow> bool" where
  "fun_seek_chan v c \<longleftrightarrow> v \<noteq> [] \<and> cname c = v"

definition fun_seek_userchan :: "string \<Rightarrow> mychan \<Rightarrow> bool" where
  "fun_seek_userchan v m \<longleftrightarrow> v \<noteq> [] \<and> mname m = v"

text \<open>\<open>fun_compare\<close> is zero on two channel entries of the same name.\<close>

definition fun_compare :: "string \<Rightarrow> mychan \<Rightarrow> bool" where
  "fun_compare name m \<longleftrightarrow> mname m = name"

abbreviation seek_nick :: "world \<Rightarrow> string \<Rightarrow> person option" where
  "seek_nick w v \<equiv> list_seek (fun_seek_person NICK v) (userlist w)"

abbreviation seek_chan :: "world \<Rightarrow> string \<Rightarrow> channel option" where
  "seek_chan w v \<equiv> list_seek (fun_seek_chan v) (chanlist w)"

abbreviation on_chan :: "string \<Rightarrow> person \<Rightarrow> bool" where
  "on_chan name p \<equiv> list_contains (fun_compare name) (my_chans p)"

subsection \<open>Mutexes\<close>

text \<open>
  \<open>pthread_mutex_lock\<close> on a default mutex the thread already holds does not return; an
  unlock of a mutex it does not hold is recorded.
\<close>

definition mutex_lock :: "mutex \<Rightarrow> world \<Rightarrow> run" where
  "mutex_lock m w =
     (if m \<in> held w then Inl (Fault SelfDeadlock) else Inr (w\<lparr>held := insert m (held w)\<rparr>))"

definition mutex_unlock :: "mutex \<Rightarrow> world \<Rightarrow> world" where
  "mutex_unlock m w =
     w\<lparr>held := held w - {m},
       misuse := (if m \<in> held w then misuse w else misuse w @ [m])\<rparr>"

subsection \<open>Removing a channel and a client\<close>

definition channel_destroy :: "nat \<Rightarrow> world \<Rightarrow> run" where
  "channel_destroy a w =
     and_then (mutex_lock (Chan_lock a) w) (\<lambda>w.
     deref (get_channel w a) (\<lambda>chan.
     if numusers chan \<noteq> 0 then Inr (mutex_unlock (Chan_lock a) w)
     else
       and_then (mutex_lock Glock w) (\<lambda>w.
       Inr (mutex_unlock (Chan_lock a) (mutex_unlock Glock
         (w\<lparr>chanlist := snd (list_delete (\<lambda>c. ch_addr c = a) (chanlist w))\<rparr>))))))"

text \<open>One round of the loop of \<open>user_exit\<close> over the channels the user is on.\<close>

definition leave_channel :: "mychan \<Rightarrow> world \<Rightarrow> run" where
  "leave_channel m w =
     and_then (mutex_lock Glock w) (\<lambda>w.
     let chan = seek_chan w (mname m); w = mutex_unlock Glock w in
     deref chan (\<lambda>chan.
     and_then (mutex_lock (Chan_lock (ch_addr chan)) w) (\<lambda>w.
     let w = upd_channel (ch_addr chan) (\<lambda>c. c\<lparr>numusers := numusers c - 1\<rparr>) w;
         w = mutex_unlock (Chan_lock (ch_addr chan)) w in
     if numusers chan - 1 = 0 then channel_destroy (ch_addr chan) w else Inr w)))"

definition user_exit :: "int \<Rightarrow> world \<Rightarrow> run" where
  "user_exit u w =
     deref (get_person w u) (\<lambda>p.
     and_then (mutex_lock (C_lock u) w) (\<lambda>w.
     let w = w\<lparr>closed := closed w @ [u]\<rparr>;
         w = upd_person u (\<lambda>p. p\<lparr>my_chans := list_iterator_start (my_chans p)\<rparr>) w in
     and_then (for_each (iter_rest (list_iterator_start (my_chans p))) leave_channel w) (\<lambda>w.
     let w = upd_person u (\<lambda>p. p\<lparr>my_chans := snd (list_clear (list_iterator_stop (my_chans p)))\<rparr>) w in
     and_then (mutex_lock Glock w) (\<lambda>w.
     let w = w\<lparr>userlist := snd (list_delete (\<lambda>q. clientSocket q = u) (userlist w)),
               numregistered := numregistered w - 1\<rparr>;
         w = mutex_unlock (C_lock u) (mutex_unlock Glock w) in
     if tid p = self w then Inl (ThreadExit w)
     else Inr (w\<lparr>cancelled := cancelled w @ [tid p]\<rparr>)))))"

subsection \<open>Sending\<close>

text \<open>
  \<open>if(send(fd, msg, strlen(msg), 0) == -1) user_exit(...)\<close>: a failed send removes the client.
\<close>

definition send_or_exit :: "int \<Rightarrow> string \<Rightarrow> world \<Rightarrow> run" where
  "send_or_exit u msg w =
     (if u \<in> broken w then user_exit u w else Inr (w\<lparr>out := out w @ [(u, msg)]\<rparr>))"

text \<open>The same with the client's \<open>c_lock\<close> held around it, the form nearly every reply has.\<close>

definition send_locked :: "int \<Rightarrow> string \<Rightarrow> world \<Rightarrow> run" where
  "send_locked u msg w =
     and_then (mutex_lock (C_lock u) w) (\<lambda>w.
     and_then (send_or_exit u msg w) (\<lambda>w. Inr (mutex_unlock (C_lock u) w)))"

end
