(* ===== verification/Chirc_Reply.thy ===== *)
theory Chirc_Reply
  imports Chirc_State
begin

text \<open>
  \<open>constr_reply\<close> of \<open>src/src/utils.c\<close>: the text of every numeric reply, the full line
  \<open>:server code nick text CR LF\<close>, and the statement "construct a reply and send it to the
  client" that the handlers repeat.  The 512-byte buffers \<open>replmsg\<close>, \<open>prefix\<close> and \<open>reply\<close>
  are checked where the code writes them.
\<close>

subsection \<open>Reply codes (reply.h)\<close>

abbreviation RPL_WELCOME :: string where "RPL_WELCOME \<equiv> ''001''"
abbreviation RPL_YOURHOST :: string where "RPL_YOURHOST \<equiv> ''002''"
abbreviation RPL_CREATED :: string where "RPL_CREATED \<equiv> ''003''"
abbreviation RPL_MYINFO :: string where "RPL_MYINFO \<equiv> ''004''"
abbreviation RPL_LUSERCLIENT :: string where "RPL_LUSERCLIENT \<equiv> ''251''"
abbreviation RPL_LUSEROP :: string where "RPL_LUSEROP \<equiv> ''252''"
abbreviation RPL_LUSERUNKNOWN :: string where "RPL_LUSERUNKNOWN \<equiv> ''253''"
abbreviation RPL_LUSERCHANNELS :: string where "RPL_LUSERCHANNELS \<equiv> ''254''"
abbreviation RPL_LUSERME :: string where "RPL_LUSERME \<equiv> ''255''"
abbreviation RPL_AWAY :: string where "RPL_AWAY \<equiv> ''301''"
abbreviation RPL_UNAWAY :: string where "RPL_UNAWAY \<equiv> ''305''"
abbreviation RPL_NOWAWAY :: string where "RPL_NOWAWAY \<equiv> ''306''"
abbreviation RPL_WHOISUSER :: string where "RPL_WHOISUSER \<equiv> ''311''"
abbreviation RPL_WHOISSERVER :: string where "RPL_WHOISSERVER \<equiv> ''312''"
abbreviation RPL_WHOISOPERATOR :: string where "RPL_WHOISOPERATOR \<equiv> ''313''"
abbreviation RPL_ENDOFWHOIS :: string where "RPL_ENDOFWHOIS \<equiv> ''318''"
abbreviation RPL_WHOISCHANNELS :: string where "RPL_WHOISCHANNELS \<equiv> ''319''"
abbreviation RPL_WHOREPLY :: string where "RPL_WHOREPLY \<equiv> ''352''"
abbreviation RPL_ENDOFWHO :: string where "RPL_ENDOFWHO \<equiv> ''315''"
abbreviation RPL_LIST :: string where "RPL_LIST \<equiv> ''322''"
abbreviation RPL_LISTEND :: string where "RPL_LISTEND \<equiv> ''323''"
abbreviation RPL_CHANNELMODEIS :: string where "RPL_CHANNELMODEIS \<equiv> ''324''"
abbreviation RPL_NOTOPIC :: string where "RPL_NOTOPIC \<equiv> ''331''"
abbreviation RPL_TOPIC :: string where "RPL_TOPIC \<equiv> ''332''"
abbreviation RPL_NAMREPLY :: string where "RPL_NAMREPLY \<equiv> ''353''"
abbreviation RPL_ENDOFNAMES :: string where "RPL_ENDOFNAMES \<equiv> ''366''"
abbreviation RPL_MOTDSTART :: string where "RPL_MOTDSTART \<equiv> ''375''"
abbreviation RPL_MOTD :: string where "RPL_MOTD \<equiv> ''372''"
abbreviation RPL_ENDOFMOTD :: string where "RPL_ENDOFMOTD \<equiv> ''376''"
abbreviation RPL_YOUREOPER :: string where "RPL_YOUREOPER \<equiv> ''381''"
abbreviation ERR_NOSUCHNICK :: string where "ERR_NOSUCHNICK \<equiv> ''401''"
abbreviation ERR_NOSUCHCHANNEL :: string where "ERR_NOSUCHCHANNEL \<equiv> ''403''"
abbreviation ERR_CANNOTSENDTOCHAN :: string where "ERR_CANNOTSENDTOCHAN \<equiv> ''404''"
abbreviation ERR_UNKNOWNCOMMAND :: string where "ERR_UNKNOWNCOMMAND \<equiv> ''421''"
abbreviation ERR_NOMOTD :: string where "ERR_NOMOTD \<equiv> ''422''"
abbreviation ERR_NICKNAMEINUSE :: string where "ERR_NICKNAMEINUSE \<equiv> ''433''"
abbreviation ERR_USERNOTINCHANNEL :: string where "ERR_USERNOTINCHANNEL \<equiv> ''441''"
abbreviation ERR_NOTONCHANNEL :: string where "ERR_NOTONCHANNEL \<equiv> ''442''"
abbreviation ERR_NOTREGISTERED :: string where "ERR_NOTREGISTERED \<equiv> ''451''"
abbreviation ERR_ALREADYREGISTRED :: string where "ERR_ALREADYREGISTRED \<equiv> ''462''"
abbreviation ERR_PASSWDMISMATCH :: string where "ERR_PASSWDMISMATCH \<equiv> ''464''"
abbreviation ERR_UNKNOWNMODE :: string where "ERR_UNKNOWNMODE \<equiv> ''472''"
abbreviation ERR_CHANOPRIVISNEEDED :: string where "ERR_CHANOPRIVISNEEDED \<equiv> ''482''"
abbreviation ERR_UMODEUNKNOWNFLAG :: string where "ERR_UMODEUNKNOWNFLAG \<equiv> ''501''"
abbreviation ERR_USERSDONTMATCH :: string where "ERR_USERSDONTMATCH \<equiv> ''502''"

subsection \<open>The text of a reply\<close>

text \<open>
  The \<open>switch\<close> on the code.  \<open>nk\<close> is the client's nick (\<open>*\<close> when it has none), \<open>reply\<close> the
  old contents of the reply buffer, which two of the codes read, and \<open>extra\<close> the last
  argument, NULL for the codes that do not use it.  A code the switch does not know leaves
  \<open>replmsg\<close> uninitialised.
\<close>

definition replmsg :: "world \<Rightarrow> nat \<Rightarrow> string \<Rightarrow> person \<Rightarrow> string \<Rightarrow> string option \<Rightarrow> stop + string" where
  "replmsg w code nk p reply extra =
    (let text = into_buffer MAXMSG;
         with_extra = (\<lambda>f. deref extra (\<lambda>e. into_buffer MAXMSG (f e))) in
     if code = 1 then text ('':Welcome to the Internet Relay Network '' @ nk @ ''!'' @ user p @ ''@'' @ address p)
     else if code = 2 then text ('':Your host is '' @ servername w @ '' running version '' @ version w)
     else if code = 3 then text ('':This server was created '' @ birthday w)
     else if code = 4 then text (servername w @ '' '' @ version w @ '' ao mtov'')
     else if code = 251 then with_extra (\<lambda>e. '':There are '' @ e @ '' users and 0 services on 1 servers'')
     else if code = 252 then with_extra (\<lambda>e. e @ '' :operator(s) online'')
     else if code = 253 then with_extra (\<lambda>e. e @ '' :unknown connection(s)'')
     else if code = 254 then with_extra (\<lambda>e. e @ '' :channels formed'')
     else if code = 255 then with_extra (\<lambda>e. '':I have '' @ e @ '' clients and 1 servers'')
     else if code = 301 then with_extra (\<lambda>e. e)
     else if code = 305 then text '':You are no longer marked as being away''
     else if code = 306 then text '':You have been marked as being away''
     else if code = 311 then with_extra (\<lambda>e. e)
     else if code = 312 then with_extra (\<lambda>e. e)
     else if code = 313 then with_extra (\<lambda>e. e @ '' :is an IRC operator'')
     else if code = 315 then with_extra (\<lambda>e. e @ '' :End of WHO list'')
     else if code = 318 then with_extra (\<lambda>e. e @ '' :End of WHOIS list'')
     else if code = 319 then with_extra (\<lambda>e. e)
     else if code = 322 then with_extra (\<lambda>e. e)
     else if code = 323 then text '':End of LIST''
     else if code = 331 then with_extra (\<lambda>e. e @ '' :No topic is set'')
     else if code = 332 then text reply
     else if code = 352 then with_extra (\<lambda>e. e)
     else if code = 353 then with_extra (\<lambda>e. e)
     else if code = 366 then with_extra (\<lambda>e. e @ '' :End of NAMES list'')
     else if code = 375 then text ('':- '' @ servername w @ '' Message of the day - '')
     else if code = 372 then with_extra (\<lambda>e. '':- '' @ e)
     else if code = 376 then text '':- End of MOTD command''
     else if code = 381 then text '':You are now an IRC operator''
     else if code = 324 then with_extra (\<lambda>e. e)
     else if code = 401 then with_extra (\<lambda>e. e @ '' :No such nick/channel'')
     else if code = 403 then with_extra (\<lambda>e. e @ '' :No such channel'')
     else if code = 404 then with_extra (\<lambda>e. e @ '' :Cannot send to channel'')
     else if code = 421 then with_extra (\<lambda>e. e @ '' :Unknown command'')
     else if code = 422 then text '':MOTD File is missing''
     else if code = 433 then with_extra (\<lambda>e. e @ '' :Nickname is already in use'')
     else if code = 441 then with_extra (\<lambda>e. e @ '' :They aren't on that channel'')
     else if code = 442 then with_extra (\<lambda>e. e @ '' :You're not on that channel'')
     else if code = 451 then text '':You have not registered''
     else if code = 462 then text '':Unauthorized command (already registered)''
     else if code = 464 then text '':Password incorrect''
     else if code = 472 then with_extra (\<lambda>e. reply @ '' :is unknown mode char to me for '' @ e)
     else if code = 482 then with_extra (\<lambda>e. e @ '' :You're not channel operator'')
     else if code = 501 then text '':Unknown MODE flag''
     else if code = 502 then text '':Cannot change mode for other users''
     else Inl (Fault Uninitialised))"

text \<open>
  The whole line: \<open>snprintf(reply, MAXMSG - 2, "%s %s %s %s", prefix, code, nick, replmsg)\<close>
  and \<open>strcat(reply, CRLF)\<close>.
\<close>

definition constr_reply :: "string \<Rightarrow> person \<Rightarrow> string \<Rightarrow> world \<Rightarrow> string option \<Rightarrow> stop + string" where
  "constr_reply code p reply w extra =
     and_then (into_buffer MAXMSG (CHR '':'' # servername w)) (\<lambda>prefix.
     let nk = (if nick p = [] then ''*'' else nick p) in
     and_then (replmsg w (strtol code) nk p reply extra) (\<lambda>msg.
     into_buffer MAXMSG
       (snprintf (MAXMSG - 2) (prefix @ '' '' @ code @ '' '' @ nk @ '' '' @ msg) @ CRLF)))"

text \<open>
  \<open>constr_reply\<close> followed by the locked send to the client itself; \<open>reply\<close> is the text
  already in the buffer.
\<close>

definition send_reply_with :: "string \<Rightarrow> int \<Rightarrow> string \<Rightarrow> string option \<Rightarrow> world \<Rightarrow> run" where
  "send_reply_with reply u code extra w =
     deref (get_person w u) (\<lambda>p.
     and_then (constr_reply code p reply w extra) (\<lambda>line. send_locked u line w))"

abbreviation send_reply :: "int \<Rightarrow> string \<Rightarrow> string option \<Rightarrow> world \<Rightarrow> run" where
  "send_reply \<equiv> send_reply_with []"

text \<open>The client is registered when it has given both a nick and a user name.\<close>

definition registered :: "person \<Rightarrow> bool" where
  "registered p \<longleftrightarrow> nick p \<noteq> [] \<and> user p \<noteq> []"

subsection \<open>What a reply line looks like\<close>

lemma into_bufferE [elim]:
  assumes "into_buffer n s = Inr t"
  obtains "t = s" "length s < n"
  using assms by (simp add: into_buffer_Inr)

text \<open>
  Every line is \<open>:server code nick text\<close>, cut to 509 characters, and CR LF: it always fits
  the 512-byte buffer, so the last write cannot overflow.
\<close>

lemma constr_reply_shape:
  assumes "constr_reply code p reply w extra = Inr line"
  shows "\<exists>msg. line = take 509 (CHR '':'' # servername w @ '' '' @ code @ '' ''
            @ (if nick p = [] then ''*'' else nick p) @ '' '' @ msg) @ CRLF"
  using assms
  by (auto simp: constr_reply_def and_then_eq_Inr into_buffer_Inr snprintf_def Let_def)

lemma constr_reply_length:
  assumes "constr_reply code p reply w extra = Inr line"
  shows "length line \<le> 511"
  using constr_reply_shape [OF assms] by auto

end
