(* ===== verification/Chirc_Channel.thy ===== *)
theory Chirc_Channel
  imports Chirc_Reply
begin

text \<open>
  Messages to channels and the functions shared by several handlers: \<open>sendtochannel\<close>,
  \<open>sendtoallchans\<close> and \<open>send_names\<close> of \<open>utils.c\<close>, the handlers \<open>chirc_handle_LUSERS\<close> and
  \<open>chirc_handle_MOTD\<close> that \<open>do_registration\<close> runs, \<open>do_registration\<close> itself, and
  \<open>channel_join\<close> of \<open>channel.c\<close>.
\<close>

subsection \<open>Sending to the members of channels\<close>

text \<open>
  The body of the loop of \<open>sendtochannel\<close>: the member \<open>fd\<close> gets the message unless its nick
  is the sender's.
\<close>

definition relay :: "string \<Rightarrow> string \<Rightarrow> string option \<Rightarrow> int \<Rightarrow> world \<Rightarrow> run" where
  "relay name msg sender fd w =
     deref (get_person w fd) (\<lambda>p.
     if (sender = None \<or> Some (nick p) \<noteq> sender) \<and> on_chan name p then
       and_then (mutex_lock (C_lock fd) w) (\<lambda>w.
       and_then (send_or_exit fd msg w) (\<lambda>w.
       Inr (mutex_unlock (C_lock fd) w)))
     else Inr w)"

definition sendtochannel :: "nat option \<Rightarrow> string \<Rightarrow> string option \<Rightarrow> world \<Rightarrow> run" where
  "sendtochannel chan msg sender w =
     deref chan (\<lambda>a. deref (get_channel w a) (\<lambda>c.
     and_then (mutex_lock Glock w) (\<lambda>w.
     let w = w\<lparr>userlist := list_iterator_start (userlist w)\<rparr> in
     and_then (for_each (map clientSocket (iter_rest (userlist w))) (relay (cname c) msg sender) w) (\<lambda>w.
     Inr (mutex_unlock Glock (w\<lparr>userlist := list_iterator_stop (userlist w)\<rparr>))))))"

text \<open>One round of \<open>sendtoallchans\<close>.\<close>

definition relay_chan :: "int \<Rightarrow> string \<Rightarrow> mychan \<Rightarrow> world \<Rightarrow> run" where
  "relay_chan u msg m w =
     and_then (mutex_lock Glock w) (\<lambda>w.
     let chan = seek_chan w (mname m); w = mutex_unlock Glock w in
     deref (get_person w u) (\<lambda>p.
     sendtochannel (map_option ch_addr chan) msg (Some (nick p)) w))"

definition sendtoallchans :: "int \<Rightarrow> string \<Rightarrow> world \<Rightarrow> run" where
  "sendtoallchans u msg w =
     deref (get_person w u) (\<lambda>p.
     and_then (mutex_lock (C_lock u) w) (\<lambda>w.
     let chans = iter_rest (list_iterator_start (my_chans p));
         w = upd_person u (\<lambda>p. p\<lparr>my_chans := list_iterator_start (my_chans p)\<rparr>) w in
     and_then (for_each chans (relay_chan u msg) w) (\<lambda>w.
     let w = upd_person u (\<lambda>p. p\<lparr>my_chans := list_iterator_stop (my_chans p)\<rparr>) w in
     Inr (mutex_unlock (C_lock u) w))))"

subsection \<open>The names of a channel\<close>

text \<open>
  The loop of \<open>send_names\<close> appends every member's nick to \<open>chanusers\<close>, with its status
  characters.  It stops when fewer than three bytes are left.  The bound of \<open>strncat\<close> is
  computed from \<open>strlen(reply)\<close>, where \<open>reply\<close> is still uninitialised (\<open>stack_len\<close>); a
  negative bound is a huge unsigned one.
\<close>

primrec names_loop ::
  "string \<Rightarrow> int list \<Rightarrow> string \<Rightarrow> bool \<Rightarrow> world \<Rightarrow> stop + string \<times> world" where
  "names_loop name [] chanusers first w = Inr (chanusers, w)"
| "names_loop name (fd # fds) chanusers first w =
     (if \<not> length chanusers < MAXMSG - 3 then Inr (chanusers, w)
      else
        deref (get_person w fd) (\<lambda>p.
        and_then (mutex_lock (C_lock fd) w) (\<lambda>w.
        case list_seek (fun_seek_userchan name) (my_chans p) of
          None \<Rightarrow> names_loop name fds chanusers first (mutex_unlock (C_lock fd) w)
        | Some userchan \<Rightarrow>
            let prefix = (if first then [] else '' '')
                  @ (if strchr (mmode userchan) (CHR ''o'') then ''@'' else [])
                  @ (if strchr (mmode userchan) (CHR ''v'') then ''+'' else []);
                nk = (if stack_len w \<le> MAXMSG then take (MAXMSG - stack_len w) (nick p) else nick p)
            in and_then (into_buffer MAXMSG (chanusers @ prefix @ nk)) (\<lambda>chanusers.
               names_loop name fds chanusers False (mutex_unlock (C_lock fd) w)))))"

definition send_names :: "nat \<Rightarrow> int \<Rightarrow> world \<Rightarrow> run" where
  "send_names chan u w =
     deref (get_channel w chan) (\<lambda>c.
     and_then (mutex_lock (Chan_lock chan) w) (\<lambda>w.
     and_then (into_buffer MAXMSG (''= '' @ cname c @ '' :'')) (\<lambda>chanusers.
     let w = mutex_unlock (Chan_lock chan) w in
     and_then (mutex_lock Glock w) (\<lambda>w.
     let w = w\<lparr>userlist := list_iterator_start (userlist w)\<rparr> in
     and_then (names_loop (cname c) (map clientSocket (iter_rest (userlist w))) chanusers True w)
       (\<lambda>(chanusers, w).
     let w = mutex_unlock Glock (w\<lparr>userlist := list_iterator_stop (userlist w)\<rparr>) in
     send_reply u RPL_NAMREPLY (Some chanusers) w)))))"

subsection \<open>LUSERS\<close>

text \<open>The loop that counts the IRC operators.\<close>

primrec count_ops :: "int list \<Rightarrow> 32 word \<Rightarrow> world \<Rightarrow> stop + 32 word \<times> world" where
  "count_ops [] numops w = Inr (numops, w)"
| "count_ops (fd # fds) numops w =
     deref (get_person w fd) (\<lambda>p.
     and_then (mutex_lock (C_lock fd) w) (\<lambda>w.
     count_ops fds (if strchr (umode p) (CHR ''o'') then numops + 1 else numops)
       (mutex_unlock (C_lock fd) w)))"

text \<open>The five replies; \<open>stats\<close> is a buffer of five bytes.\<close>

definition lusers_replies :: "int \<Rightarrow> 32 word \<Rightarrow> 32 word \<Rightarrow> 32 word \<Rightarrow> 32 word \<Rightarrow> world \<Rightarrow> run" where
  "lusers_replies u known numops userme numchannels w =
     and_then (into_buffer 5 (dec (unat known))) (\<lambda>stats.
     and_then (send_reply u RPL_LUSERCLIENT (Some stats) w) (\<lambda>w.
     and_then (into_buffer 5 (dec (unat numops))) (\<lambda>stats.
     and_then (send_reply u RPL_LUSEROP (Some stats) w) (\<lambda>w.
     and_then (if userme \<ge> known then into_buffer 5 (dec (unat (userme - known))) else Inr ''err'') (\<lambda>stats.
     and_then (send_reply u RPL_LUSERUNKNOWN (Some stats) w) (\<lambda>w.
     and_then (into_buffer 5 (dec (unat numchannels))) (\<lambda>stats.
     and_then (send_reply u RPL_LUSERCHANNELS (Some stats) w) (\<lambda>w.
     and_then (into_buffer 5 (dec (unat userme))) (\<lambda>stats.
     send_reply u RPL_LUSERME (Some stats) w)))))))))"

definition chirc_handle_LUSERS :: "int \<Rightarrow> world \<Rightarrow> run" where
  "chirc_handle_LUSERS u w =
     and_then (mutex_lock Glock w) (\<lambda>w.
     let userme = word_of_nat (list_size (userlist w)) :: 32 word;
         numchannels = word_of_nat (list_size (chanlist w)) :: 32 word;
         known = numregistered w;
         w = w\<lparr>userlist := list_iterator_start (userlist w)\<rparr> in
     and_then (count_ops (map clientSocket (iter_rest (userlist w))) 0 w) (\<lambda>(numops, w).
     let w = mutex_unlock Glock (w\<lparr>userlist := list_iterator_stop (userlist w)\<rparr>) in
     deref (get_person w u) (\<lambda>p.
     if \<not> registered p then send_reply u ERR_NOTREGISTERED None w
     else lusers_replies u known numops userme numchannels w)))"

subsection \<open>MOTD\<close>

text \<open>\<open>fgets(buf, n, fp)\<close> on the rest of the file: the line it stores, and what is left.\<close>

definition fgets :: "nat \<Rightarrow> string \<Rightarrow> string \<times> string" where
  "fgets n s =
     (let l = takeWhile (\<lambda>c. c \<noteq> LF) s in
      if n - 1 \<le> length l then (take (n - 1) s, drop (n - 1) s)
      else if length l < length s then (l @ [LF], drop (Suc (length l)) s)
      else (l, []))"

lemma fgets_shorter: "s \<noteq> [] \<Longrightarrow> length (snd (fgets 80 s)) < length s"
  by (cases s) (auto simp: fgets_def Let_def)

text \<open>The lines a loop \<open>while(fgets(motd, sizeof(motd), fp) != NULL)\<close> reads, for \<open>motd[80]\<close>.\<close>

function motd_lines :: "string \<Rightarrow> string list" where
  "motd_lines s = (if s = [] then [] else fst (fgets 80 s) # motd_lines (snd (fgets 80 s)))"
  by pat_completeness auto
termination
  by (relation "measure length") (auto simp: fgets_shorter)

declare motd_lines.simps [simp del]

text \<open>A final newline is cut off.\<close>

definition chomp :: "string \<Rightarrow> string" where
  "chomp s = (if s \<noteq> [] \<and> last s = LF then butlast s else s)"

definition chirc_handle_MOTD :: "int \<Rightarrow> world \<Rightarrow> run" where
  "chirc_handle_MOTD u w =
     deref (get_person w u) (\<lambda>p.
     if \<not> registered p then send_reply u ERR_NOTREGISTERED None w
     else case motd_file w of
       None \<Rightarrow> send_reply u ERR_NOMOTD None w
     | Some fp \<Rightarrow>
         and_then (send_reply u RPL_MOTDSTART None w) (\<lambda>w.
         and_then (for_each (motd_lines fp) (\<lambda>motd. send_reply u RPL_MOTD (Some (chomp motd))) w) (\<lambda>w.
         send_reply u RPL_ENDOFMOTD None w)))"

subsection \<open>Registration\<close>

definition do_registration :: "int \<Rightarrow> world \<Rightarrow> run" where
  "do_registration u w =
     and_then (mutex_lock Glock w) (\<lambda>w.
     let w = mutex_unlock Glock (w\<lparr>numregistered := numregistered w + 1\<rparr>) in
     and_then (for_each [RPL_WELCOME, RPL_YOURHOST, RPL_CREATED, RPL_MYINFO]
                 (\<lambda>code. send_reply u code None) w) (\<lambda>w.
     and_then (chirc_handle_LUSERS u w) (\<lambda>w.
     chirc_handle_MOTD u w)))"

subsection \<open>Joining a channel (channel.c)\<close>

text \<open>A line \<open>:nick!user@address rest\<close> in the name of a client.\<close>

definition from_client :: "person \<Rightarrow> string \<Rightarrow> string" where
  "from_client p rest = CHR '':'' # nick p @ ''!'' @ user p @ ''@'' @ address p @ '' '' @ rest"

text \<open>The new channel record, with \<open>malloc\<close>'s next address.\<close>

definition new_channel :: "nat \<Rightarrow> string \<Rightarrow> channel" where
  "new_channel a name = \<lparr>ch_addr = a, cname = name, topic = [], cmode = [], numusers = 0\<rparr>"

text \<open>
  Look the channel up, create it if there is none.  The result is its address and whether
  the client becomes its operator.
\<close>

definition find_or_create :: "string \<Rightarrow> world \<Rightarrow> stop + (nat \<times> bool \<times> world)" where
  "find_or_create name w =
     and_then (mutex_lock Glock w) (\<lambda>w.
     let chan = seek_chan w name; w = mutex_unlock Glock w in
     case chan of
       Some c \<Rightarrow> Inr (ch_addr c, False, w)
     | None \<Rightarrow>
         let a = next_addr w; w = w\<lparr>next_addr := Suc a\<rparr> in
         and_then (mutex_lock Glock w) (\<lambda>w.
         let w = w\<lparr>chanlist := snd (list_append (chanlist w) (new_channel a name))\<rparr> in
         Inr (a, True, mutex_unlock Glock w)))"

text \<open>The entry appended to the client's list, and the counter of the channel.\<close>

definition add_member :: "int \<Rightarrow> nat \<Rightarrow> string \<Rightarrow> bool \<Rightarrow> world \<Rightarrow> run" where
  "add_member u a name oper w =
     and_then (mutex_lock (C_lock u) w) (\<lambda>w.
     let newchan = \<lparr>mname = name, mmode = (if oper then ''o'' else [])\<rparr>;
         w = upd_person u (\<lambda>p. p\<lparr>my_chans := snd (list_append (my_chans p) newchan)\<rparr>) w;
         w = mutex_unlock (C_lock u) w in
     and_then (mutex_lock (Chan_lock a) w) (\<lambda>w.
     let w = upd_channel a (\<lambda>c. c\<lparr>numusers := numusers c + 1\<rparr>) w in
     Inr (mutex_unlock (Chan_lock a) w)))"

text \<open>What a client that has just joined is told: the topic if there is one, the names.\<close>

definition join_replies :: "int \<Rightarrow> nat \<Rightarrow> string \<Rightarrow> world \<Rightarrow> run" where
  "join_replies u a name w =
     deref (get_channel w a) (\<lambda>c.
     and_then
       (if topic c \<noteq> [] then
          send_reply_with (snprintf (MAXMSG - 1) (name @ '' '' @ topic c)) u RPL_TOPIC None w
        else Inr w) (\<lambda>w.
     and_then (send_names a u w) (\<lambda>w.
     send_reply u RPL_ENDOFNAMES (Some name) w)))"

definition channel_join :: "int \<Rightarrow> string \<Rightarrow> world \<Rightarrow> run" where
  "channel_join u channel_name w =
     and_then (strdup_into (length channel_name) channel_name w) (\<lambda>name.
     and_then (find_or_create name w) (\<lambda>(a, oper, w).
     deref (get_person w u) (\<lambda>p.
     if on_chan name p then Inr w
     else
       and_then (add_member u a name oper w) (\<lambda>w.
       and_then (into_buffer MAXMSG
                   (snprintf (MAXMSG - 1) (from_client p (''JOIN '' @ name)) @ CRLF)) (\<lambda>reply.
       and_then (sendtochannel (Some a) reply None w) (\<lambda>w.
       join_replies u a name w))))))"

end
