(* ===== verification/Chirc_Handlers.thy ===== *)
theory Chirc_Handlers
  imports Chirc_Channel
begin

text \<open>
  The handlers of \<open>src/src/handlers.c\<close>, one definition per command (LUSERS and MOTD are in
  \<open>Chirc_Channel\<close>, MODE in \<open>Chirc_Mode\<close>).  A handler takes the client it runs for, the
  sixteen parameters of the message (\<open>params ! 0\<close> is the command) and the world.
\<close>

type_synonym chirc_message = "string list"

subsection \<open>NICK, USER, QUIT\<close>

text \<open>\<open>strcpy(user->nick, newnick)\<close> under the global lock.\<close>

definition set_nick :: "int \<Rightarrow> string \<Rightarrow> world \<Rightarrow> run" where
  "set_nick u newnick w =
     and_then (mutex_lock Glock w) (\<lambda>w.
     Inr (mutex_unlock Glock (upd_person u (\<lambda>p. p\<lparr>nick := newnick\<rparr>) w)))"

definition chirc_handle_NICK :: "int \<Rightarrow> chirc_message \<Rightarrow> world \<Rightarrow> run" where
  "chirc_handle_NICK u msg w =
     deref (get_person w u) (\<lambda>p.
     let newnick = msg ! 1 in
     and_then (mutex_lock Glock w) (\<lambda>w.
     let clientpt = seek_nick w newnick; w = mutex_unlock Glock w in
     if clientpt \<noteq> None then send_reply u ERR_NICKNAMEINUSE (Some newnick) w
     else if nick p \<noteq> [] then
       and_then (into_buffer MAXMSG
                   (snprintf (MAXMSG - 2) (from_client p (''NICK :'' @ newnick)) @ CRLF)) (\<lambda>reply.
       and_then (send_locked u reply w) (\<lambda>w.
       and_then (sendtoallchans u reply w) (\<lambda>w.
       set_nick u newnick w)))
     else
       and_then (set_nick u newnick w) (\<lambda>w.
       if user p \<noteq> [] then do_registration u w else Inr w)))"

definition chirc_handle_USER :: "int \<Rightarrow> chirc_message \<Rightarrow> world \<Rightarrow> run" where
  "chirc_handle_USER u msg w =
     deref (get_person w u) (\<lambda>p.
     let username = msg ! 1; fullnm = tl (msg ! 4) in
     if registered p then send_reply u ERR_ALREADYREGISTRED None w
     else
       and_then (mutex_lock Glock w) (\<lambda>w.
       let w = upd_person u (\<lambda>p. p\<lparr>user := username, fullname := fullnm\<rparr>) w;
           w = mutex_unlock Glock w in
       if nick p \<noteq> [] then do_registration u w else Inr w))"

text \<open>The last line to a client that quits; here a failed send has no consequence.\<close>

definition send_ignoring :: "int \<Rightarrow> string \<Rightarrow> world \<Rightarrow> world" where
  "send_ignoring u msg w = (if u \<in> broken w then w else w\<lparr>out := out w @ [(u, msg)]\<rparr>)"

definition chirc_handle_QUIT :: "int \<Rightarrow> chirc_message \<Rightarrow> world \<Rightarrow> run" where
  "chirc_handle_QUIT u msg w =
     deref (get_person w u) (\<lambda>p.
     let quitmsg = (if msg ! 1 \<noteq> [] then msg ! 1 else '':Client Quit'') in
     and_then (into_buffer MAXMSG
                 (snprintf (MAXMSG - 2) (from_client p (''QUIT '' @ quitmsg)) @ CRLF)) (\<lambda>reply.
     and_then (sendtoallchans u reply w) (\<lambda>w.
     and_then (into_buffer MAXMSG
                 (snprintf (MAXMSG - 2)
                    (''ERROR :Closing Link: '' @ address p @ '' ('' @ tl quitmsg @ '')'') @ CRLF)) (\<lambda>reply.
     and_then (mutex_lock (C_lock u) w) (\<lambda>w.
     user_exit u (mutex_unlock (C_lock u) (send_ignoring u reply w)))))))"

subsection \<open>PRIVMSG, NOTICE, PING\<close>

text \<open>A message to a client that exists, and the away reply it may cause.\<close>

definition privmsg_to_user :: "int \<Rightarrow> person \<Rightarrow> string \<Rightarrow> world \<Rightarrow> run" where
  "privmsg_to_user u recip priv_msg w =
     and_then (send_locked (clientSocket recip) priv_msg w) (\<lambda>w.
     if strchr (umode recip) (CHR ''a'') then
       and_then (mutex_lock (C_lock (clientSocket recip)) w) (\<lambda>w.
       let awaymsg = snprintf MAXMSG (nick recip @ '' '' @ away recip);
           w = mutex_unlock (C_lock (clientSocket recip)) w in
       send_reply u RPL_AWAY (Some awaymsg) w)
     else Inr w)"

text \<open>
  A message to a channel: the sender must be on it, and on a moderated one be an IRC
  operator, a channel operator or voiced.
\<close>

definition privmsg_to_chan :: "int \<Rightarrow> person \<Rightarrow> channel \<Rightarrow> string \<Rightarrow> string \<Rightarrow> world \<Rightarrow> run" where
  "privmsg_to_chan u p chan target_name priv_msg w =
     (if \<not> on_chan target_name p then send_reply u ERR_CANNOTSENDTOCHAN (Some target_name) w
      else if strchr (cmode chan) (CHR ''m'') \<and> \<not> strchr (umode p) (CHR ''o'') then
        and_then (mutex_lock Glock w) (\<lambda>w.
        let mychanpt = list_seek (fun_seek_userchan target_name) (my_chans p);
            w = mutex_unlock Glock w in
        deref mychanpt (\<lambda>mychanpt.
        if \<not> strchr (mmode mychanpt) (CHR ''o'') \<and> \<not> strchr (mmode mychanpt) (CHR ''v'')
        then send_reply u ERR_CANNOTSENDTOCHAN (Some target_name) w
        else sendtochannel (Some (ch_addr chan)) priv_msg (Some (nick p)) w))
      else sendtochannel (Some (ch_addr chan)) priv_msg (Some (nick p)) w)"

definition chirc_handle_PRIVMSG :: "int \<Rightarrow> chirc_message \<Rightarrow> world \<Rightarrow> run" where
  "chirc_handle_PRIVMSG u params w =
     deref (get_person w u) (\<lambda>p.
     let target_name = params ! 1 in
     if \<not> registered p then send_reply u ERR_NOTREGISTERED None w
     else
       and_then (mutex_lock Glock w) (\<lambda>w.
       let recippt = seek_nick w target_name; chanpt = seek_chan w target_name;
           w = mutex_unlock Glock w in
       if recippt = None \<and> chanpt = None then send_reply u ERR_NOSUCHNICK (Some target_name) w
       else
         and_then (mutex_lock (C_lock u) w) (\<lambda>w.
         and_then (into_buffer MAXMSG
             (snprintf (MAXMSG - 1) (from_client p (params ! 0 @ '' '' @ params ! 1 @ '' '' @ params ! 2))
              @ CRLF)) (\<lambda>priv_msg.
         let w = mutex_unlock (C_lock u) w in
         case recippt of
           Some recip \<Rightarrow> privmsg_to_user u recip priv_msg w
         | None \<Rightarrow> deref chanpt (\<lambda>chan. privmsg_to_chan u p chan target_name priv_msg w)))))"

text \<open>
  NOTICE frees \<open>seek_arg\<close> right after the two lookups, and the check of a moderated channel
  writes to it again.
\<close>

definition notice_to_chan :: "person \<Rightarrow> channel \<Rightarrow> string \<Rightarrow> string \<Rightarrow> world \<Rightarrow> run" where
  "notice_to_chan p chan target_name notice w =
     (if strchr (cmode chan) (CHR ''m'') \<and> \<not> strchr (umode p) (CHR ''o'')
      then Inl (Fault UseAfterFree)
      else if on_chan target_name p
      then sendtochannel (Some (ch_addr chan)) notice (Some (nick p)) w
      else Inr w)"

definition chirc_handle_NOTICE :: "int \<Rightarrow> chirc_message \<Rightarrow> world \<Rightarrow> run" where
  "chirc_handle_NOTICE u params w =
     deref (get_person w u) (\<lambda>p.
     let target_name = params ! 1 in
     and_then (mutex_lock Glock w) (\<lambda>w.
     let recippt = seek_nick w target_name; chanpt = seek_chan w target_name;
         w = mutex_unlock Glock w in
     if \<not> registered p then send_reply u ERR_NOTREGISTERED None w
     else
       and_then (into_buffer MAXMSG
           (snprintf (MAXMSG - 2) (from_client p (params ! 0 @ '' '' @ params ! 1 @ '' '' @ params ! 2))
            @ CRLF)) (\<lambda>notice.
       and_then (case recippt of Some recip \<Rightarrow> send_locked (clientSocket recip) notice w | None \<Rightarrow> Inr w) (\<lambda>w.
       case chanpt of Some chan \<Rightarrow> notice_to_chan p chan target_name notice w | None \<Rightarrow> Inr w))))"

definition chirc_handle_PING :: "int \<Rightarrow> chirc_message \<Rightarrow> world \<Rightarrow> run" where
  "chirc_handle_PING u params w =
     deref (get_person w u) (\<lambda>p.
     and_then (mutex_lock Glock w) (\<lambda>w.
     and_then (into_buffer MAXMSG (snprintf (MAXMSG - 2) (''PONG '' @ servername w) @ CRLF)) (\<lambda>pong.
     let w = mutex_unlock Glock w in
     if \<not> registered p then send_reply u ERR_NOTREGISTERED None w
     else send_locked u pong w)))"

subsection \<open>WHOIS\<close>

text \<open>
  The loop that lists the channels of the client asked about: the text so far, the room
  \<open>buff\<close> and the number of channels visited.
\<close>

primrec whois_loop :: "mychan list \<Rightarrow> string \<Rightarrow> nat \<Rightarrow> nat \<Rightarrow> stop + string \<times> nat" where
  "whois_loop [] wichannels buff numchans = Inr (wichannels, numchans)"
| "whois_loop (c # cs) wichannels buff numchans =
     (if buff = 0 then Inr (wichannels, numchans)
      else
        let status = (if strchr (mmode c) (CHR ''o'') then ''@'' else [])
              @ (if strchr (mmode c) (CHR ''v'') then ''+'' else []) in
        and_then (into_buffer MAXMSG (wichannels @ status)) (\<lambda>wichannels.
        let buff = MAXMSG - length wichannels in
        and_then (into_buffer MAXMSG (wichannels @ take buff (mname c) @ '' '')) (\<lambda>wichannels.
        whois_loop cs wichannels buff (Suc numchans))))"

text \<open>
  The loop over \<open>whoispt->my_chans\<close> is started but never stopped: the iterator stays active,
  at the position the loop has reached.
\<close>

definition whois_channels :: "int \<Rightarrow> person \<Rightarrow> string \<Rightarrow> world \<Rightarrow> run" where
  "whois_channels u whois target_nick w =
     and_then (mutex_lock (C_lock (clientSocket whois)) w) (\<lambda>w.
     and_then (whois_loop (iter_rest (list_iterator_start (my_chans whois)))
                 (snprintf (MAXMSG - 1) (target_nick @ '' :'')) (MAXMSG - 1) 0) (\<lambda>(wichannels, numchans).
     let w = upd_person (clientSocket whois)
               (\<lambda>p. p\<lparr>my_chans := iter_skip numchans (list_iterator_start (my_chans p))\<rparr>) w;
         w = mutex_unlock (C_lock (clientSocket whois)) w in
     if numchans \<noteq> 0 then send_reply u RPL_WHOISCHANNELS (Some wichannels) w else Inr w))"

definition whois_replies :: "int \<Rightarrow> person \<Rightarrow> string \<Rightarrow> world \<Rightarrow> run" where
  "whois_replies u whois target_nick w =
     and_then (send_reply u RPL_WHOISUSER (Some (snprintf (MAXMSG - 2)
         (target_nick @ '' '' @ user whois @ '' '' @ address whois @ '' * :'' @ fullname whois))) w) (\<lambda>w.
     and_then (whois_channels u whois target_nick w) (\<lambda>w.
     and_then (send_reply u RPL_WHOISSERVER (Some (snprintf (MAXMSG - 2)
         (target_nick @ '' '' @ address whois @ '' :'' @ ''chirc-0.3''))) w) (\<lambda>w.
     and_then (if strchr (umode whois) (CHR ''a'')
               then send_reply u RPL_AWAY
                      (Some (snprintf (MAXMSG - 2) (target_nick @ '' '' @ away whois))) w
               else Inr w) (\<lambda>w.
     and_then (if strchr (umode whois) (CHR ''o'')
               then send_reply u RPL_WHOISOPERATOR (Some target_nick) w else Inr w) (\<lambda>w.
     send_reply u RPL_ENDOFWHOIS (Some target_nick) w)))))"

definition chirc_handle_WHOIS :: "int \<Rightarrow> chirc_message \<Rightarrow> world \<Rightarrow> run" where
  "chirc_handle_WHOIS u params w =
     deref (get_person w u) (\<lambda>p.
     let target_nick = params ! 1 in
     and_then (mutex_lock Glock w) (\<lambda>w.
     let whoispt = seek_nick w target_nick; w = mutex_unlock Glock w in
     if \<not> registered p then send_reply u ERR_NOTREGISTERED None w
     else case whoispt of
       None \<Rightarrow> send_reply u ERR_NOSUCHNICK (Some target_nick) w
     | Some whois \<Rightarrow> whois_replies u whois target_nick w))"

subsection \<open>JOIN, PART, AWAY, TOPIC\<close>

definition chirc_handle_JOIN :: "int \<Rightarrow> chirc_message \<Rightarrow> world \<Rightarrow> run" where
  "chirc_handle_JOIN u params w = channel_join u (params ! 1) w"

text \<open>
  The end of PART: the entry of the client's list, the counter of the channel, and the
  channel itself when it is empty.
\<close>

definition remove_member :: "int \<Rightarrow> nat \<Rightarrow> string \<Rightarrow> world \<Rightarrow> run" where
  "remove_member u a name w =
     and_then (mutex_lock (C_lock u) w) (\<lambda>w.
     let w = upd_person u (\<lambda>p. p\<lparr>my_chans := snd (list_delete (fun_compare name) (my_chans p))\<rparr>) w;
         w = mutex_unlock (C_lock u) w in
     and_then (mutex_lock (Chan_lock a) w) (\<lambda>w.
     let w = upd_channel a (\<lambda>c. c\<lparr>numusers := numusers c - 1\<rparr>) w;
         w = mutex_unlock (Chan_lock a) w in
     deref (get_channel w a) (\<lambda>c.
     if numusers c = 0 then channel_destroy a w else Inr w)))"

definition chirc_handle_PART :: "int \<Rightarrow> chirc_message \<Rightarrow> world \<Rightarrow> run" where
  "chirc_handle_PART u params w =
     deref (get_person w u) (\<lambda>p.
     and_then (strdup_into (length (params ! 1)) (params ! 1) w) (\<lambda>name.
     and_then (strdup_into 8 name w) (\<lambda>dummy.
     and_then (mutex_lock Glock w) (\<lambda>w.
     let channelpt = seek_chan w name; w = mutex_unlock Glock w in
     case channelpt of
       None \<Rightarrow> send_reply u ERR_NOSUCHCHANNEL (Some name) w
     | Some c \<Rightarrow>
         if \<not> on_chan name p then send_reply u ERR_NOTONCHANNEL (Some name) w
         else
           and_then (into_buffer MAXMSG (snprintf (MAXMSG - 1) (from_client p
               (''PART '' @ params ! 1 @ (if params ! 2 = [] then [] else '' '' @ params ! 2))) @ CRLF)) (\<lambda>reply.
           and_then (sendtochannel (Some (ch_addr c)) reply None w) (\<lambda>w.
           remove_member u (ch_addr c) name w))))))"

definition chirc_handle_AWAY :: "int \<Rightarrow> chirc_message \<Rightarrow> world \<Rightarrow> run" where
  "chirc_handle_AWAY u params w =
     deref (get_person w u) (\<lambda>p.
     if \<not> registered p then send_reply u ERR_NOTREGISTERED None w
     else
       let is_away = strchr (umode p) (CHR ''a'') in
       if params ! 1 = [] then
         and_then
           (if is_away then
              and_then (mutex_lock (C_lock u) w) (\<lambda>w.
              Inr (mutex_unlock (C_lock u)
                (upd_person u (\<lambda>p. p\<lparr>umode := shift_out (CHR ''a'') (umode p)\<rparr>) w)))
            else Inr w) (\<lambda>w.
         send_reply u RPL_UNAWAY None w)
       else
         and_then
           (if \<not> is_away then
              and_then (mutex_lock (C_lock u) w) (\<lambda>w.
              and_then (into_buffer 5 (umode p @ ''a'')) (\<lambda>m.
              Inr (mutex_unlock (C_lock u) (upd_person u (\<lambda>p. p\<lparr>umode := m\<rparr>) w))))
            else Inr w) (\<lambda>w.
         and_then (mutex_lock (C_lock u) w) (\<lambda>w.
         let w = mutex_unlock (C_lock u) (upd_person u (\<lambda>p. p\<lparr>away := params ! 1\<rparr>) w) in
         send_reply u RPL_NOWAWAY None w)))"

text \<open>
  On a channel with mode \<open>t\<close> only a channel operator or an IRC operator may set the topic.
  The boolean says whether the handler goes on.
\<close>

definition topic_allowed :: "int \<Rightarrow> person \<Rightarrow> channel \<Rightarrow> string \<Rightarrow> world \<Rightarrow> stop + bool \<times> world" where
  "topic_allowed u p chan name w =
     (if \<not> strchr (cmode chan) (CHR ''t'') then Inr (True, w)
      else
        and_then (mutex_lock (C_lock u) w) (\<lambda>w.
        deref (list_seek (fun_seek_userchan name) (my_chans p)) (\<lambda>topichan.
        if \<not> strchr (mmode topichan) (CHR ''o'') \<and> \<not> strchr (umode p) (CHR ''o'') then
          and_then (constr_reply ERR_CHANOPRIVISNEEDED p [] w (Some name)) (\<lambda>reply.
          and_then (send_or_exit u reply w) (\<lambda>w.
          Inr (False, mutex_unlock (C_lock u) w)))
        else Inr (True, mutex_unlock (C_lock u) w))))"

definition topic_reply :: "int \<Rightarrow> nat \<Rightarrow> string \<Rightarrow> world \<Rightarrow> run" where
  "topic_reply u a name w =
     deref (get_channel w a) (\<lambda>c.
     if topic c = [] then send_reply u RPL_NOTOPIC (Some name) w
     else send_reply_with (snprintf (MAXMSG - 1) (name @ '' '' @ topic c)) u RPL_TOPIC None w)"

definition chirc_handle_TOPIC :: "int \<Rightarrow> chirc_message \<Rightarrow> world \<Rightarrow> run" where
  "chirc_handle_TOPIC u params w =
     deref (get_person w u) (\<lambda>p.
     and_then (strdup_into (length (params ! 1)) (params ! 1) w) (\<lambda>name.
     and_then (mutex_lock Glock w) (\<lambda>w.
     let channelpt = seek_chan w name; w = mutex_unlock Glock w in
     if \<not> on_chan name p then send_reply u ERR_NOTONCHANNEL (Some name) w
     else
       deref channelpt (\<lambda>chan.
       if params ! 2 = [] then topic_reply u (ch_addr chan) name w
       else
         and_then (topic_allowed u p chan name w) (\<lambda>(allowed, w).
         if \<not> allowed then Inr w
         else
           let w = upd_channel (ch_addr chan) (\<lambda>c. c\<lparr>topic := params ! 2\<rparr>) w in
           and_then (into_buffer MAXMSG (snprintf (MAXMSG - 1)
               (from_client p (''TOPIC '' @ name @ '' '' @ params ! 2)) @ CRLF)) (\<lambda>reply.
           and_then (sendtochannel (Some (ch_addr chan)) reply None w) (\<lambda>w.
           topic_reply u (ch_addr chan) name w)))))))"

end
