(* ===== verification/Chirc_Queries.thy ===== *)
theory Chirc_Queries
  imports Chirc_Handlers
begin

text \<open>
  The handlers that walk the user list or the channel list to answer a query, LIST, NAMES
  and WHO, and OPER and the reply to an unknown command (\<open>src/src/handlers.c\<close>).
\<close>

subsection \<open>LIST\<close>

definition list_entry :: "channel \<Rightarrow> stop + string" where
  "list_entry c = into_buffer MAXMSG
     (cname c @ '' '' @ dec_int (numusers c) @ (if topic c = [] then '' :'' else '' '' @ topic c))"

text \<open>One round of the loop: the global lock is released around the reply.\<close>

definition list_round :: "int \<Rightarrow> nat \<Rightarrow> world \<Rightarrow> run" where
  "list_round u a w =
     (let w = mutex_unlock Glock w in
      deref (get_channel w a) (\<lambda>c.
      and_then (list_entry c) (\<lambda>extra.
      and_then (send_reply u RPL_LIST (Some extra) w) (mutex_lock Glock))))"

definition chirc_handle_LIST :: "int \<Rightarrow> chirc_message \<Rightarrow> world \<Rightarrow> run" where
  "chirc_handle_LIST u params w =
     deref (get_person w u) (\<lambda>p.
     and_then (strdup_into (length (params ! 1)) (params ! 1) w) (\<lambda>name.
     if params ! 1 \<noteq> [] then
       and_then (mutex_lock Glock w) (\<lambda>w.
       let channelpt = seek_chan w name; w = mutex_unlock Glock w in
       deref channelpt (\<lambda>c.
       and_then (list_entry c) (\<lambda>extra.
       and_then (send_reply u RPL_LIST (Some extra) w) (\<lambda>w.
       send_reply u RPL_LISTEND None w))))
     else
       and_then (mutex_lock Glock w) (\<lambda>w.
       let w = w\<lparr>chanlist := list_iterator_start (chanlist w)\<rparr> in
       and_then (for_each (map ch_addr (iter_rest (chanlist w))) (list_round u) w) (\<lambda>w.
       let w = mutex_unlock Glock (w\<lparr>chanlist := list_iterator_stop (chanlist w)\<rparr>) in
       send_reply u RPL_LISTEND None w))))"

subsection \<open>NAMES\<close>

definition names_round :: "int \<Rightarrow> nat \<Rightarrow> world \<Rightarrow> run" where
  "names_round u a w = and_then (send_names a u (mutex_unlock Glock w)) (mutex_lock Glock)"

text \<open>The nicks of the clients that are on no channel.\<close>

primrec antisocial_loop ::
  "int list \<Rightarrow> string \<Rightarrow> bool \<Rightarrow> world \<Rightarrow> stop + string \<times> world" where
  "antisocial_loop [] antisocial first w = Inr (antisocial, w)"
| "antisocial_loop (fd # fds) antisocial first w =
     (if \<not> MAXMSG - length antisocial > 1 then Inr (antisocial, w)
      else
        deref (get_person w fd) (\<lambda>p.
        and_then (mutex_lock (C_lock fd) w) (\<lambda>w.
        if list_size (my_chans p) = 0 then
          let antisocial = antisocial @ (if first then [] else '' '');
              buff = MAXMSG - length antisocial in
          and_then (into_buffer MAXMSG (antisocial @ take buff (nick p))) (\<lambda>antisocial.
          antisocial_loop fds antisocial False (mutex_unlock (C_lock fd) w))
        else antisocial_loop fds antisocial first (mutex_unlock (C_lock fd) w))))"

definition names_all :: "int \<Rightarrow> world \<Rightarrow> run" where
  "names_all u w =
     and_then (mutex_lock Glock w) (\<lambda>w.
     let w = w\<lparr>chanlist := list_iterator_start (chanlist w)\<rparr> in
     and_then (for_each (map ch_addr (iter_rest (chanlist w))) (names_round u) w) (\<lambda>w.
     let w = w\<lparr>chanlist := list_iterator_stop (chanlist w),
               userlist := list_iterator_start (userlist w)\<rparr> in
     and_then (antisocial_loop (map clientSocket (iter_rest (userlist w))) ''* * :'' True w)
       (\<lambda>(antisocial, w).
     let w = mutex_unlock Glock (w\<lparr>userlist := list_iterator_stop (userlist w)\<rparr>) in
     if length antisocial > length ''* * :'' then send_reply u RPL_NAMREPLY (Some antisocial) w
     else Inr w)))"

text \<open>
  The request for one channel stores a pointer at offset 8 of a block of
  \<open>sizeof(seek_arg)\<close>, that is eight bytes.  The last reply is sent without the client's
  lock, which is then unlocked all the same.
\<close>

definition names_one :: "int \<Rightarrow> string \<Rightarrow> world \<Rightarrow> run" where
  "names_one u name w =
     (if usable w 8 < 16 then Inl (Fault BufferOverflow)
      else
        and_then (mutex_lock Glock w) (\<lambda>w.
        let chan = seek_chan w name; w = mutex_unlock Glock w in
        case chan of Some c \<Rightarrow> send_names (ch_addr c) u w | None \<Rightarrow> Inr w))"

definition chirc_handle_NAMES :: "int \<Rightarrow> chirc_message \<Rightarrow> world \<Rightarrow> run" where
  "chirc_handle_NAMES u params w =
     deref (get_person w u) (\<lambda>p.
     if \<not> registered p then send_reply u ERR_NOTREGISTERED None w
     else
       and_then (if params ! 1 = [] then names_all u w else names_one u (params ! 1) w) (\<lambda>w.
       and_then (constr_reply RPL_ENDOFNAMES p [] w (Some ''*'')) (\<lambda>reply.
       and_then (send_or_exit u reply w) (\<lambda>w.
       Inr (mutex_unlock (C_lock u) w)))))"

subsection \<open>WHO\<close>

text \<open>The inner loop: does the client share one of these channels with the user?\<close>

primrec shares_channel :: "int \<Rightarrow> mychan list \<Rightarrow> world \<Rightarrow> stop + bool \<times> world" where
  "shares_channel u [] w = Inr (False, w)"
| "shares_channel u (c # cs) w =
     deref (get_person w u) (\<lambda>p.
     and_then (mutex_lock (C_lock u) w) (\<lambda>w.
     let w' = mutex_unlock (C_lock u) w in
     if on_chan (mname c) p then Inr (True, w') else shares_channel u cs w'))"

definition who_flags :: "person \<Rightarrow> string" where
  "who_flags p = (if strchr (umode p) (CHR ''a'') then ''G'' else ''H'')
     @ (if strchr (umode p) (CHR ''o'') then ''*'' else [])"

definition who_entry :: "string \<Rightarrow> person \<Rightarrow> string \<Rightarrow> world \<Rightarrow> string" where
  "who_entry chan p flags w = snprintf (MAXMSG - 2)
     (chan @ '' '' @ user p @ '' '' @ address p @ '' '' @ servername w @ '' '' @ nick p @ '' ''
      @ flags @ '' :0 '' @ fullname p)"

text \<open>One client of the WHO without a channel: skipped if it shares a channel with the user.\<close>

definition who_skip :: "int \<Rightarrow> int \<Rightarrow> person \<Rightarrow> world \<Rightarrow> stop + bool \<times> world" where
  "who_skip u fd whouser w =
     (if fd = u then Inr (list_size (my_chans whouser) \<noteq> 0, w)
      else
        let w = upd_person fd (\<lambda>p. p\<lparr>my_chans := list_iterator_start (my_chans p)\<rparr>) w in
        and_then (shares_channel u (iter_rest (list_iterator_start (my_chans whouser))) w) (\<lambda>(skip, w).
        Inr (skip, upd_person fd (\<lambda>p. p\<lparr>my_chans := list_iterator_stop (my_chans p)\<rparr>) w)))"

definition who_all_round :: "int \<Rightarrow> int \<Rightarrow> world \<Rightarrow> run" where
  "who_all_round u fd w =
     deref (get_person w fd) (\<lambda>whouser.
     and_then (mutex_lock (C_lock fd) w) (\<lambda>w.
     and_then (who_skip u fd whouser w) (\<lambda>(skip, w).
     let w = mutex_unlock (C_lock fd) w in
     if skip then Inr w
     else send_reply u RPL_WHOREPLY (Some (who_entry ''*'' whouser (who_flags whouser) w)) w)))"

text \<open>
  One client of the WHO on a channel.  The reply is sent with the client's own lock, which
  is taken here only if the two nicks differ.
\<close>

definition who_chan_round :: "int \<Rightarrow> string \<Rightarrow> int \<Rightarrow> world \<Rightarrow> run" where
  "who_chan_round u chan fd w =
     deref (get_person w fd) (\<lambda>whouser.
     deref (get_person w u) (\<lambda>p.
     and_then (mutex_lock (C_lock fd) w) (\<lambda>w.
     and_then
       (case list_seek (fun_seek_userchan chan) (my_chans whouser) of
          None \<Rightarrow> Inr w
        | Some whochan \<Rightarrow>
            let flags = who_flags whouser
                  @ (if strchr (mmode whochan) (CHR ''o'') then ''@'' else [])
                  @ (if strchr (mmode whochan) (CHR ''v'') then ''+'' else []) in
            and_then (constr_reply RPL_WHOREPLY p [] w (Some (who_entry chan whouser flags w))) (\<lambda>reply.
            if nick whouser \<noteq> nick p then send_locked u reply w else send_or_exit u reply w)) (\<lambda>w.
     Inr (mutex_unlock (C_lock fd) w)))))"

definition who_walk :: "(int \<Rightarrow> world \<Rightarrow> run) \<Rightarrow> world \<Rightarrow> run" where
  "who_walk body w =
     and_then (mutex_lock Glock w) (\<lambda>w.
     let w = w\<lparr>userlist := list_iterator_start (userlist w)\<rparr> in
     and_then (for_each (map clientSocket (iter_rest (userlist w))) body w) (\<lambda>w.
     Inr (mutex_unlock Glock (w\<lparr>userlist := list_iterator_stop (userlist w)\<rparr>))))"

definition chirc_handle_WHO :: "int \<Rightarrow> chirc_message \<Rightarrow> world \<Rightarrow> run" where
  "chirc_handle_WHO u params w =
     deref (get_person w u) (\<lambda>p.
     if params ! 1 = [] \<or> hd (params ! 1) = CHR ''*'' then
       and_then (who_walk (who_all_round u) w) (\<lambda>w.
       send_reply u RPL_ENDOFWHO (Some ''*'') w)
     else
       and_then (who_walk (who_chan_round u (params ! 1)) w) (\<lambda>w.
       send_reply u RPL_ENDOFWHO (Some (params ! 1)) w))"

subsection \<open>OPER and unknown commands\<close>

definition chirc_handle_OPER :: "int \<Rightarrow> chirc_message \<Rightarrow> world \<Rightarrow> run" where
  "chirc_handle_OPER u params w =
     deref (get_person w u) (\<lambda>p.
     if params ! 2 \<noteq> pw w then send_reply u ERR_PASSWDMISMATCH (Some (params ! 0)) w
     else
       and_then
         (if strchr (umode p) (CHR ''o'') then Inr w
          else
            and_then (into_buffer 5 (umode p @ ''o'')) (\<lambda>m.
            Inr (upd_person u (\<lambda>p. p\<lparr>umode := m\<rparr>) w))) (\<lambda>w.
       send_reply u RPL_YOUREOPER None w))"

definition chirc_handle_UNKNOWN :: "int \<Rightarrow> chirc_message \<Rightarrow> world \<Rightarrow> run" where
  "chirc_handle_UNKNOWN u params w = send_reply u ERR_UNKNOWNCOMMAND (Some (params ! 0)) w"

end
