(* ===== verification/Chirc_Mode.thy ===== *)
theory Chirc_Mode
  imports Chirc_Queries
begin

text \<open>
  \<open>chirc_handle_MODE\<close>, in its three parts (member status modes, channel modes, user modes),
  and the dispatcher \<open>handle_chirc_message\<close> (\<open>src/src/handlers.c\<close>).
\<close>

text \<open>
  The character \<open>s[i]\<close>: the terminator at the end of the string, and past it whatever the
  stack holds.
\<close>

definition char_at :: "string \<Rightarrow> nat \<Rightarrow> world \<Rightarrow> char" where
  "char_at s i w = (if i < length s then s ! i else if i = length s then NUL else stack_char w)"

text \<open>\<open>sprintf(buf, "%c", c)\<close>, where a NUL makes the empty string.\<close>

definition sprintf_c :: "char \<Rightarrow> string" where
  "sprintf_c c = (if c = NUL then [] else [c])"

text \<open>A change of the first entry of a list that satisfies \<open>P\<close>, the one a seek returned.\<close>

primrec upd_first :: "('a \<Rightarrow> bool) \<Rightarrow> ('a \<Rightarrow> 'a) \<Rightarrow> 'a list \<Rightarrow> 'a list" where
  "upd_first P f [] = []"
| "upd_first P f (x # xs) = (if P x then f x # xs else x # upd_first P f xs)"

definition set_mmode :: "int \<Rightarrow> string \<Rightarrow> string \<Rightarrow> world \<Rightarrow> world" where
  "set_mmode fd name m w =
     upd_person fd (\<lambda>p. p\<lparr>my_chans := (my_chans p)\<lparr>els :=
       upd_first (fun_seek_userchan name) (\<lambda>c. c\<lparr>mmode := m\<rparr>) (els (my_chans p))\<rparr>\<rparr>) w"

subsection \<open>Member status modes\<close>

text \<open>\<open>constr_reply\<close>, an unlocked send and an unlock of the client's \<open>c_lock\<close>.\<close>

definition send_reply_unlock :: "int \<Rightarrow> string \<Rightarrow> string option \<Rightarrow> world \<Rightarrow> run" where
  "send_reply_unlock u code extra w =
     deref (get_person w u) (\<lambda>p.
     and_then (constr_reply code p [] w extra) (\<lambda>reply.
     and_then (send_or_exit u reply w) (\<lambda>w.
     Inr (mutex_unlock (C_lock u) w))))"

text \<open>The change of the member's status and the message to the channel.\<close>

definition mode_member_change ::
  "int \<Rightarrow> person \<Rightarrow> nat \<Rightarrow> int \<Rightarrow> mychan \<Rightarrow> chirc_message \<Rightarrow> world \<Rightarrow> run" where
  "mode_member_change u p a fd userchan params w =
     (let flag = char_at (params ! 2) 1 w in
      and_then
        (if char_at (params ! 2) 0 w = CHR ''+'' then
           if strchr (mmode userchan) flag then Inr w
           else
             and_then (into_buffer 5 (mmode userchan @ tl (params ! 2))) (\<lambda>m.
             Inr (set_mmode fd (params ! 1) m w))
         else if char_at (params ! 2) 0 w = CHR ''-'' then
           if strchr (mmode userchan) flag then
             and_then (mutex_lock (C_lock u) w) (\<lambda>w.
             Inr (mutex_unlock (C_lock u)
               (set_mmode fd (params ! 1) (shift_out flag (mmode userchan)) w)))
           else Inr w
         else Inr w) (\<lambda>w.
      and_then (into_buffer MAXMSG (snprintf (MAXMSG - 2)
          (from_client p (''MODE '' @ params ! 1 @ '' '' @ params ! 2 @ '' '' @ params ! 3)) @ CRLF)) (\<lambda>reply.
      sendtochannel (Some a) reply None w)))"

definition mode_member :: "int \<Rightarrow> person \<Rightarrow> channel \<Rightarrow> chirc_message \<Rightarrow> world \<Rightarrow> run" where
  "mode_member u p chan params w =
     and_then (mutex_lock Glock w) (\<lambda>w.
     let modeuser = list_seek (fun_seek_person USER (params ! 3)) (userlist w);
         w = mutex_unlock Glock w in
     case modeuser of
       None \<Rightarrow>
         and_then (into_buffer MAXMSG (params ! 3 @ '' '' @ params ! 1)) (\<lambda>reply_param.
         send_reply_unlock u ERR_USERNOTINCHANNEL (Some reply_param) w)
     | Some m \<Rightarrow>
         if \<not> on_chan (params ! 1) m then
           and_then (into_buffer MAXMSG (params ! 3 @ '' '' @ params ! 1)) (\<lambda>reply_param.
           send_reply_unlock u ERR_USERNOTINCHANNEL (Some reply_param) w)
         else if strpbrk (params ! 2) ''ov'' then
           and_then (mutex_lock (C_lock (clientSocket m)) w) (\<lambda>w.
           let userchan = list_seek (fun_seek_userchan (params ! 1)) (my_chans m);
               w = mutex_unlock (C_lock (clientSocket m)) w in
           deref userchan (\<lambda>userchan.
           mode_member_change u p (ch_addr chan) (clientSocket m) userchan params w))
         else
           send_reply_with (sprintf_c (char_at (params ! 2) 1 w)) u ERR_UNKNOWNMODE
             (Some (params ! 1)) w)"

definition mode_status :: "int \<Rightarrow> person \<Rightarrow> chirc_message \<Rightarrow> world \<Rightarrow> run" where
  "mode_status u p params w =
     and_then (mutex_lock Glock w) (\<lambda>w.
     let channelpt = seek_chan w (params ! 1); w = mutex_unlock Glock w in
     case channelpt of
       None \<Rightarrow> send_reply u ERR_NOSUCHCHANNEL (Some (params ! 1)) w
     | Some chan \<Rightarrow>
         and_then (mutex_lock (C_lock u) w) (\<lambda>w.
         let userchan = list_seek (fun_seek_userchan (params ! 1)) (my_chans p);
             w = mutex_unlock (C_lock u) w in
         case userchan of
           None \<Rightarrow> send_reply_unlock u ERR_CHANOPRIVISNEEDED (Some (params ! 1)) w
         | Some m \<Rightarrow>
             if \<not> strchr (umode p) (CHR ''o'') \<and> \<not> strchr (mmode m) (CHR ''o'')
             then send_reply_unlock u ERR_CHANOPRIVISNEEDED (Some (params ! 1)) w
             else mode_member u p chan params w))"

subsection \<open>Channel modes\<close>

text \<open>The message to the channel, built by an unbounded \<open>sprintf\<close>.\<close>

definition mode_relay :: "person \<Rightarrow> nat \<Rightarrow> string \<Rightarrow> string \<Rightarrow> world \<Rightarrow> run" where
  "mode_relay p a name flags w =
     and_then (into_buffer MAXMSG (from_client p (''MODE '' @ name @ '' '' @ flags) @ CRLF)) (\<lambda>reply.
     sendtochannel (Some a) reply None w)"

text \<open>
  \<open>None\<close>: the mode string has no sign, and the handler falls through to the user modes.
\<close>

definition mode_chan_change :: "person \<Rightarrow> channel \<Rightarrow> string \<Rightarrow> world \<Rightarrow> run option" where
  "mode_chan_change p chan flags w =
     (if char_at flags 0 w = CHR ''+'' then
        Some (and_then (into_buffer 5 (cmode chan @ tl flags)) (\<lambda>m.
              mode_relay p (ch_addr chan) (cname chan) flags
                (upd_channel (ch_addr chan) (\<lambda>c. c\<lparr>cmode := m\<rparr>) w)))
      else if char_at flags 0 w = CHR ''-'' then
        let x = char_at flags 1 w in
        Some (mode_relay p (ch_addr chan) (cname chan) flags
          (if strchr (cmode chan) x
           then upd_channel (ch_addr chan) (\<lambda>c. c\<lparr>cmode := shift_out x (cmode c)\<rparr>) w else w))
      else None)"

text \<open>
  The right to change the modes of a channel: an IRC operator, or a channel operator; the
  entry of a client that is not on the channel is a NULL pointer.
\<close>

definition mode_chan_allowed :: "person \<Rightarrow> string \<Rightarrow> world \<Rightarrow> stop + bool \<times> world" where
  "mode_chan_allowed p name w =
     (if strchr (umode p) (CHR ''o'') then Inr (True, w)
      else
        and_then (mutex_lock Glock w) (\<lambda>w.
        let mychanpt = list_seek (fun_seek_userchan name) (my_chans p); w = mutex_unlock Glock w in
        deref mychanpt (\<lambda>m. Inr (strchr (mmode m) (CHR ''o''), w))))"

subsection \<open>User modes\<close>

definition mode_user :: "int \<Rightarrow> person \<Rightarrow> chirc_message \<Rightarrow> world \<Rightarrow> run" where
  "mode_user u p params w =
     (if params ! 1 \<noteq> nick p then send_reply u ERR_USERSDONTMATCH None w
      else if \<not> strpbrk (params ! 2) ''ao'' then send_reply u ERR_UMODEUNKNOWNFLAG None w
      else if params ! 2 = ''-o'' then
        and_then
          (if strchr (umode p) (CHR ''@'') then
             and_then (mutex_lock (C_lock u) w) (\<lambda>w.
             Inr (mutex_unlock (C_lock u)
               (upd_person u (\<lambda>p. p\<lparr>umode := shift_out (CHR ''@'') (umode p)\<rparr>) w)))
           else Inr w) (\<lambda>w.
        and_then (into_buffer MAXMSG (snprintf (MAXMSG - 2)
            (CHR '':'' # params ! 1 @ '' MODE '' @ params ! 1 @ '' :'' @ params ! 2) @ CRLF)) (\<lambda>reply.
        send_locked u reply w))
      else Inr w)"

definition mode_chan :: "int \<Rightarrow> person \<Rightarrow> chirc_message \<Rightarrow> world \<Rightarrow> run" where
  "mode_chan u p params w =
     and_then (mutex_lock Glock w) (\<lambda>w.
     let channelpt = seek_chan w (params ! 1); w = mutex_unlock Glock w in
     case channelpt of
       None \<Rightarrow> send_reply u ERR_NOSUCHCHANNEL (Some (params ! 1)) w
     | Some chan \<Rightarrow>
         if params ! 2 = [] then
           and_then (into_buffer MAXMSG (cname chan @ '' +'' @ cmode chan)) (\<lambda>channelmodes.
           send_reply u RPL_CHANNELMODEIS (Some channelmodes) w)
         else
           and_then (mode_chan_allowed p (params ! 1) w) (\<lambda>(allowed, w).
           if \<not> allowed then send_reply u ERR_CHANOPRIVISNEEDED (Some (cname chan)) w
           else if \<not> strpbrk (params ! 2) ''mt'' then
             send_reply_with (sprintf_c (char_at (params ! 2) 1 w)) u ERR_UNKNOWNMODE
               (Some (cname chan)) w
           else case mode_chan_change p chan (params ! 2) w of
             Some r \<Rightarrow> r
           | None \<Rightarrow> mode_user u p params w))"

definition chirc_handle_MODE :: "int \<Rightarrow> chirc_message \<Rightarrow> world \<Rightarrow> run" where
  "chirc_handle_MODE u params w =
     deref (get_person w u) (\<lambda>p.
     if params ! 3 \<noteq> [] then mode_status u p params w
     else if params ! 1 \<noteq> [] \<and> hd (params ! 1) = CHR ''#'' then mode_chan u p params w
     else mode_user u p params w)"

subsection \<open>The dispatcher\<close>

definition handle_chirc_message :: "int \<Rightarrow> chirc_message \<Rightarrow> world \<Rightarrow> run" where
  "handle_chirc_message u params w =
     (let command = params ! 0 in
      if command = ''NICK'' then chirc_handle_NICK u params w
      else if command = ''USER'' then chirc_handle_USER u params w
      else if command = ''QUIT'' then chirc_handle_QUIT u params w
      else if command = ''PRIVMSG'' then chirc_handle_PRIVMSG u params w
      else if command = ''NOTICE'' then chirc_handle_NOTICE u params w
      else if command = ''WHOIS'' then chirc_handle_WHOIS u params w
      else if command = ''PING'' then chirc_handle_PING u params w
      else if command = ''PONG'' then Inr w
      else if command = ''LUSERS'' then chirc_handle_LUSERS u w
      else if command = ''MOTD'' then chirc_handle_MOTD u w
      else if command = ''JOIN'' then chirc_handle_JOIN u params w
      else if command = ''AWAY'' then chirc_handle_AWAY u params w
      else if command = ''PART'' then chirc_handle_PART u params w
      else if command = ''TOPIC'' then chirc_handle_TOPIC u params w
      else if command = ''NAMES'' then chirc_handle_NAMES u params w
      else if command = ''MODE'' then chirc_handle_MODE u params w
      else if command = ''OPER'' then chirc_handle_OPER u params w
      else if command = ''LIST'' then chirc_handle_LIST u params w
      else if command = ''WHO'' then chirc_handle_WHO u params w
      else chirc_handle_UNKNOWN u params w)"

end
