(* ===== verification/Chirc_Server.thy ===== *)
theory Chirc_Server
  imports Chirc_Parser
begin

text \<open>
  The start of the server (\<open>src/src/main.c\<close>) and of the thread of one client
  (\<open>src/src/server.c\<close>), and the step relation of the running server as far as it runs serially: a
  client connects, a client's thread handles one message, or sees the end of its connection, and
  the next thread goes on when this is done.  The program has one thread per client and does not
  enforce that order; what happens when two handlers overlap is the subject of \<open>Chirc_Races\<close>.
\<close>

subsection \<open>main\<close>

text \<open>
  The loop over \<open>getopt(argc, argv, "p:o:h")\<close>: the options it returns, with their arguments,
  set the port and the operator password; anything else ends the program.
\<close>

primrec main_options ::
  "(char \<times> string) list \<Rightarrow> string \<Rightarrow> string option \<Rightarrow> (string \<times> string option) option" where
  "main_options [] prt passwd = Some (prt, passwd)"
| "main_options (oa # oas) prt passwd =
     (if fst oa = CHR ''p'' then main_options oas (snd oa) passwd
      else if fst oa = CHR ''o'' then main_options oas prt (Some (snd oa))
      else None)"

text \<open>
  \<open>main\<close> fills the server structure; \<open>None\<close> is the exit without a password.  \<open>env\<close> holds
  the environment, \<open>now\<close> is the text \<open>ctime\<close> returns, whose newline is cut off.
\<close>

definition chirc_main :: "(char \<times> string) list \<Rightarrow> string \<Rightarrow> world \<Rightarrow> world option" where
  "chirc_main opts now env =
     (case main_options opts ''6667'' None of
        Some (prt, Some passwd) \<Rightarrow>
          Some (env\<lparr>pw := passwd, port := prt, version := ''chirc-0.1'', birthday := butlast now,
                    userlist := list_init, chanlist := list_init, numregistered := 0,
                    out := [], closed := [], held := {}, misuse := [], cancelled := []\<rparr>)
      | _ \<Rightarrow> None)"

text \<open>
  The first part of \<open>accept_clients\<close>: the server name, copied into a block without room for
  its terminator.
\<close>

definition accept_start :: "string \<Rightarrow> world \<Rightarrow> run" where
  "accept_start hostname w =
     and_then (mutex_lock Glock w) (\<lambda>w.
     and_then (strdup_into (length hostname) hostname w) (\<lambda>name.
     Inr (mutex_unlock Glock (w\<lparr>servername := name\<rparr>))))"

subsection \<open>The thread of a client\<close>

text \<open>
  The record of a new client.  The code leaves \<open>away\<close> uninitialised; it is read only when
  the mode has an \<open>a\<close>, and AWAY sets both.
\<close>

definition new_client :: "int \<Rightarrow> string \<Rightarrow> nat \<Rightarrow> person" where
  "new_client sock name thread =
     \<lparr>clientSocket = sock, nick = [], user = [], fullname = [], address = name, umode = [],
      away = [], my_chans = list_init, tid = thread\<rparr>"

definition add_client :: "int \<Rightarrow> string \<Rightarrow> nat \<Rightarrow> world \<Rightarrow> run" where
  "add_client sock name thread w =
     and_then (mutex_lock Glock w) (\<lambda>w.
     Inr (mutex_unlock Glock
       (w\<lparr>userlist := snd (list_append (userlist w) (new_client sock name thread))\<rparr>)))"

text \<open>
  The whole thread, on what \<open>recv\<close> returns from now on.  \<open>parse_message\<close> does not return in
  the program; what \<open>service_single_client\<close> does after it is not reached.
\<close>

definition service_single_client ::
  "int \<Rightarrow> string \<Rightarrow> string option list \<Rightarrow> world \<Rightarrow> stop + rx \<times> world" where
  "service_single_client sock name received w =
     and_then (add_client sock name (self w) w) (parse_message sock received)"

text \<open>
  One round of \<open>accept_clients\<close>, by what \<open>accept\<close> and \<open>getnameinfo\<close> return: the socket and
  the name of the client.  A client whose name is not found ends the accepting thread,
  which closes both sockets.
\<close>

definition accept_round ::
  "int \<Rightarrow> int option \<Rightarrow> string option \<Rightarrow> nat \<Rightarrow> world \<Rightarrow> run" where
  "accept_round serverSocket accepted name thread w =
     (case accepted of
        None \<Rightarrow> Inr w
      | Some sock \<Rightarrow>
          (case name of
             None \<Rightarrow> Inl (ThreadExit (w\<lparr>closed := closed w @ [sock, serverSocket]\<rparr>))
           | Some hostname \<Rightarrow>
               and_then (into_buffer (length hostname + 1) hostname) (\<lambda>clientname.
               add_client sock clientname thread w)))"

subsection \<open>The running server\<close>

text \<open>
  The state a run leaves behind: of a handler that returned, or of a thread that ended.
  A fault leaves none.
\<close>

fun after :: "run \<Rightarrow> world option" where
  "after (Inr w) = Some w"
| "after (Inl (ThreadExit w)) = Some w"
| "after (Inl (Fault f)) = None"

text \<open>
  What changes between two steps without the server: the running thread, the sockets that
  are broken, the contents of \<open>motd.txt\<close>, the stack.
\<close>

definition environment :: "nat \<Rightarrow> int set \<Rightarrow> string option \<Rightarrow> nat \<Rightarrow> char \<Rightarrow> world \<Rightarrow> world" where
  "environment thread bad motd n c w =
     w\<lparr>self := thread, broken := bad, motd_file := motd, stack_len := n, stack_char := c\<rparr>"

text \<open>
  A step of the server, run to its end before the next begins: the kernel gives a new client a socket no open connection has; a
  thread runs for its own client.
\<close>

inductive serial_step :: "world \<Rightarrow> world \<Rightarrow> bool" where
  serial_environment: "serial_step w (environment thread bad motd n c w)"
| serial_connect: "after (add_client sock name thread w) = Some w' \<Longrightarrow>
     \<forall>p \<in> set (els (userlist w)). clientSocket p \<noteq> sock \<Longrightarrow> serial_step w w'"
| serial_message: "get_person w u = Some p \<Longrightarrow> tid p = self w \<Longrightarrow>
     after (parse u msg w) = Some w' \<Longrightarrow> serial_step w w'"
| serial_end: "get_person w u = Some p \<Longrightarrow> tid p = self w \<Longrightarrow>
     after (user_exit u w) = Some w' \<Longrightarrow> serial_step w w'"

inductive serially_reachable :: "world \<Rightarrow> world \<Rightarrow> bool" where
  serial_init: "serially_reachable w w"
| serial_next: "serially_reachable w w' \<Longrightarrow> serial_step w' w'' \<Longrightarrow> serially_reachable w w''"

end
