(* ===== verification/Chirc_Sends.thy ===== *)
theory Chirc_Sends
  imports Chirc_Server
begin

text \<open>
  The handlers that only send.  \<open>sent w0 H w\<close> says that \<open>w\<close> differs from \<open>w0\<close> in the log of sends and
  in the mutexes held, which are \<open>H\<close>; most message handlers, the relays and the queries leave
  the state in this relation, whatever is sent and wherever a run stops.
\<close>

text \<open>
  How a run may stop: in a fault, or by the end of the thread in a state that satisfies \<open>J\<close>.
\<close>

definition ends :: "(world \<Rightarrow> bool) \<Rightarrow> stop \<Rightarrow> bool" where
  "ends J e \<longleftrightarrow> (case e of ThreadExit w \<Rightarrow> J w | Fault f \<Rightarrow> True)"

lemma ends_simps [simp]: "ends J (Fault f)" "ends J (ThreadExit w) \<longleftrightarrow> J w"
  by (simp_all add: ends_def)

lemma ends_mono: "ends J e \<Longrightarrow> (\<And>w. J w \<Longrightarrow> J' w) \<Longrightarrow> ends J' e"
  by (cases e) simp_all

abbreviation faulty :: "stop \<Rightarrow> bool" where
  "faulty \<equiv> ends (\<lambda>_. False)"

definition sent :: "world \<Rightarrow> mutex set \<Rightarrow> world \<Rightarrow> bool" where
  "sent w0 H w \<longleftrightarrow> (\<exists>ms. w = w0\<lparr>out := out w0 @ ms, held := H\<rparr>)"

lemma sent_refl [intro]: "held w = H \<Longrightarrow> sent w H w"
  unfolding sent_def by (rule exI [of _ "[]"]) auto

lemma sent_trans: "sent w0 H w \<Longrightarrow> sent w H' w' \<Longrightarrow> sent w0 H' w'"
  unfolding sent_def by auto

lemma sent_held: "sent w0 H w \<Longrightarrow> held w = H"
  unfolding sent_def by auto

lemma sent_out: "sent w0 H w \<Longrightarrow> sent w0 H (w\<lparr>out := out w @ ms\<rparr>)"
  unfolding sent_def by (elim exE, rule_tac x = "msa @ ms" in exI) (rule world.equality; simp)

lemma sent_held_update: "sent w0 H w \<Longrightarrow> sent w0 H' (w\<lparr>held := H'\<rparr>)"
  unfolding sent_def by (elim exE, rule exI) (rule world.equality; simp)

lemma mutex_lock_wp [hoare]:
  "sent w0 H w \<Longrightarrow> (\<And>w'. m \<notin> H \<Longrightarrow> sent w0 (insert m H) w' \<Longrightarrow> Q w') \<Longrightarrow>
     holds (mutex_lock m w) Q (ends J)"
  using sent_held_update [of w0 H w "insert m H"] by (auto simp: mutex_lock_def sent_held)

lemma mutex_unlock_sent:
  "sent w0 H w \<Longrightarrow> m \<in> H \<Longrightarrow> sent w0 (H - {m}) (mutex_unlock m w)"
  using sent_held_update [of w0 H w "H - {m}"] by (simp add: mutex_unlock_def sent_held)

lemma send_locked_eq:
  "send_locked u msg w =
     (if C_lock u \<in> held w then Inl (Fault SelfDeadlock)
      else if u \<notin> broken w then Inr (w\<lparr>out := out w @ [(u, msg)]\<rparr>)
      else if get_person w u = None then Inl (Fault NullDeref)
      else Inl (Fault SelfDeadlock))"
  by (auto simp: send_locked_def mutex_lock_def mutex_unlock_def send_or_exit_def user_exit_def
      get_person_def deref_def split: option.split)

lemma send_locked_sent:
  "sent w0 H w \<Longrightarrow> holds (send_locked u msg w) (sent w0 H) faulty"
  by (simp add: send_locked_eq sent_out)

lemma holds_weaken:
  "holds r P faulty \<Longrightarrow> (\<And>x. P x \<Longrightarrow> Q x) \<Longrightarrow> holds r Q (ends J)"
  by (cases r) (auto elim: ends_mono)

lemma bind_holds:
  "holds r P E \<Longrightarrow> (\<And>x. P x \<Longrightarrow> holds (k x) Q E) \<Longrightarrow> holds (and_then r k) Q E"
  by (cases r) simp_all

lemma deref_holds:
  "E (Fault NullDeref) \<Longrightarrow> (\<And>x. p = Some x \<Longrightarrow> holds (k x) Q E) \<Longrightarrow> holds (deref p k) Q E"
  by (cases p) simp_all

lemma into_buffer_holdsI:
  "E (Fault BufferOverflow) \<Longrightarrow> holds (into_buffer n s) (\<lambda>t. t = s \<and> length s < n) E"
  by (simp add: into_buffer_def)

lemma into_buffer_faulty: "holds (into_buffer n s) (\<lambda>t. t = s \<and> length s < n) faulty"
  by (simp add: into_buffer_def)

lemma strdup_faulty: "holds (strdup_into n s w) (\<lambda>t. t = s \<and> length s < usable w n) faulty"
  by (simp add: strdup_into_def)

lemma replmsg_faulty: "holds (replmsg w c nk p reply extra) (\<lambda>_. True) faulty"
  unfolding replmsg_def Let_def by (simp only: holds_if holds_deref into_buffer_holds) simp

lemma constr_reply_faulty:
  "holds (constr_reply code p reply w extra) (\<lambda>line. length line \<le> 511) faulty"
proof -
  have "holds (constr_reply code p reply w extra) (\<lambda>_. True) faulty"
    unfolding constr_reply_def Let_def
    by (rule bind_holds [OF into_buffer_faulty] bind_holds [OF replmsg_faulty])+ simp
  then show ?thesis
    by (cases "constr_reply code p reply w extra") (auto dest: constr_reply_length)
qed

lemma send_reply_with_sent:
  "sent w0 H w \<Longrightarrow> holds (send_reply_with reply u code extra w) (sent w0 H) faulty"
  unfolding send_reply_with_def
  by (intro deref_holds bind_holds [OF constr_reply_faulty] send_locked_sent) simp_all

lemma for_each_sent:
  assumes "\<And>x w. x \<in> set xs \<Longrightarrow> sent w0 H w \<Longrightarrow> holds (body x w) (sent w0 H) faulty"
    and "sent w0 H w"
  shows "holds (for_each xs body w) (sent w0 H) faulty"
  using assms by (rule for_each_holds)

definition idle :: "'a clist \<Rightarrow> bool" where
  "idle l \<longleftrightarrow> \<not> iter_active l \<and> iter_pos l = 0"

lemma sent_userlist: "sent w0 H w \<Longrightarrow> userlist w = userlist w0"
  unfolding sent_def by auto

lemma sent_chanlist: "sent w0 H w \<Longrightarrow> chanlist w = chanlist w0"
  unfolding sent_def by auto

lemma sent_walk_users:
  assumes "sent w0 H w" and "idle (userlist w0)"
    and "sent (w\<lparr>userlist := list_iterator_start (userlist w)\<rparr>) H' w'"
  shows "sent w0 H' (w'\<lparr>userlist := list_iterator_stop (userlist w')\<rparr>)"
proof -
  obtain ms ms' where w: "w = w0\<lparr>out := out w0 @ ms, held := H\<rparr>"
    and w': "w' = w\<lparr>userlist := list_iterator_start (userlist w), out := out w @ ms', held := H'\<rparr>"
    using assms(1,3) unfolding sent_def by auto
  have "list_iterator_stop (userlist w') = userlist w0"
    using assms(2) by (simp add: w' w idle_def)
  then show ?thesis
    unfolding sent_def by (intro exI [of _ "ms @ ms'"] world.equality; simp add: w' w)
qed

lemma sent_walk_chans:
  assumes "sent w0 H w" and "idle (chanlist w0)"
    and "sent (w\<lparr>chanlist := list_iterator_start (chanlist w)\<rparr>) H' w'"
  shows "sent w0 H' (w'\<lparr>chanlist := list_iterator_stop (chanlist w')\<rparr>)"
proof -
  obtain ms ms' where w: "w = w0\<lparr>out := out w0 @ ms, held := H\<rparr>"
    and w': "w' = w\<lparr>chanlist := list_iterator_start (chanlist w), out := out w @ ms', held := H'\<rparr>"
    using assms(1,3) unfolding sent_def by auto
  have "list_iterator_stop (chanlist w') = chanlist w0"
    using assms(2) by (simp add: w' w idle_def)
  then show ?thesis
    unfolding sent_def by (intro exI [of _ "ms @ ms'"] world.equality; simp add: w' w)
qed

lemma unlock_insert [hoare]:
  "sent w0 (insert m H) w \<Longrightarrow> m \<notin> H \<Longrightarrow> sent w0 H (mutex_unlock m w)"
  using mutex_unlock_sent [of w0 "insert m H" w m] by simp

lemmas sent_wp [hoare] =
  send_locked_sent [THEN holds_weaken] send_reply_with_sent [THEN holds_weaken]
  constr_reply_faulty [THEN holds_weaken]

lemma relay_unfold:
  "relay name msg sender fd w = deref (get_person w fd) (\<lambda>p.
     if (sender = None \<or> Some (nick p) \<noteq> sender) \<and> on_chan name p
     then send_locked fd msg w else Inr w)"
  unfolding relay_def send_locked_def ..

lemma relay_sent:
  "sent w0 H w \<Longrightarrow> holds (relay name msg sender fd w) (sent w0 H) faulty"
  by (auto simp: relay_unfold intro!: hoare)

lemma for_each_wp:
  assumes "sent w0 H w" and "\<And>x w. x \<in> set xs \<Longrightarrow> sent w0 H w \<Longrightarrow> holds (body x w) (sent w0 H) faulty"
    and "\<And>w'. sent w0 H w' \<Longrightarrow> Q w'"
  shows "holds (for_each xs body w) Q (ends J)"
  using for_each_sent [OF assms(2,1)] assms(3) by (rule holds_weaken)

lemma users_loop_wp:
  assumes s: "sent w0 H w" and i: "idle (userlist w0)"
    and body: "\<And>x w1 w. x \<in> set xs \<Longrightarrow> userlist w1 = list_iterator_start (userlist w0) \<Longrightarrow>
      sent w1 H w \<Longrightarrow> holds (body x w) (sent w1 H) faulty"
    and Q: "\<And>w'. sent w0 H (w'\<lparr>userlist := list_iterator_stop (userlist w')\<rparr>) \<Longrightarrow> Q w'"
  shows "holds (for_each xs body (w\<lparr>userlist := list_iterator_start (userlist w)\<rparr>)) Q (ends J)"
proof (rule for_each_wp [where H = H])
  show "sent (w\<lparr>userlist := list_iterator_start (userlist w)\<rparr>) H
      (w\<lparr>userlist := list_iterator_start (userlist w)\<rparr>)"
    using sent_held [OF s] by auto
next
  fix x v assume "x \<in> set xs" "sent (w\<lparr>userlist := list_iterator_start (userlist w)\<rparr>) H v"
  then show "holds (body x v) (sent (w\<lparr>userlist := list_iterator_start (userlist w)\<rparr>) H) faulty"
    using s by (intro body) (simp_all add: sent_userlist)
next
  fix v assume "sent (w\<lparr>userlist := list_iterator_start (userlist w)\<rparr>) H v"
  then show "Q v" by (rule Q [OF sent_walk_users [OF s i]])
qed

lemma sendtochannel_sent:
  assumes "sent w0 H w" and "idle (userlist w0)"
  shows "holds (sendtochannel chan msg sender w) (sent w0 H) faulty"
  using assms
  by (auto simp: sendtochannel_def Let_def intro!: hoare users_loop_wp relay_sent)

lemmas sendtochannel_wp [hoare] = sendtochannel_sent [THEN holds_weaken]

definition parked :: "world \<Rightarrow> bool" where
  "parked w \<longleftrightarrow> (\<forall>p \<in> set (els (userlist w)). idle (my_chans p))"

lemma sent_upd_back:
  assumes "sent w0 H w" and "sent (upd_person u f w) H' w'"
    and gf: "\<And>p. p \<in> set (els (userlist w0)) \<Longrightarrow> g (f p) = p"
    and key: "\<And>p. clientSocket (f p) = clientSocket p"
  shows "sent w0 H' (upd_person u g w')"
proof -
  obtain ms ms' where w: "w = w0\<lparr>out := out w0 @ ms, held := H\<rparr>"
    and w': "w' = (upd_person u f w)\<lparr>out := out w @ ms', held := H'\<rparr>"
    using assms(1,2) by (auto simp: sent_def upd_person_def)
  have "map ((\<lambda>p. if clientSocket p = u then g p else p) \<circ> (\<lambda>p. if clientSocket p = u then f p else p))
      (els (userlist w0)) = els (userlist w0)"
    by (rule map_idI) (simp add: gf key)
  then show ?thesis
    unfolding sent_def
    by (intro exI [of _ "ms @ ms'"] world.equality; simp add: w' w upd_person_def)
qed

lemma relay_chan_sent:
  "sent w0 H w \<Longrightarrow> idle (userlist w0) \<Longrightarrow> holds (relay_chan u msg m w) (sent w0 H) faulty"
  by (auto simp: relay_chan_def Let_def intro!: hoare)

lemma userlist_upd_person:
  "userlist (upd_person u f w) =
     (userlist w)\<lparr>els := map (\<lambda>p. if clientSocket p = u then f p else p) (els (userlist w))\<rparr>"
  by (simp add: upd_person_def)

lemma idle_els [simp]: "idle (l\<lparr>els := xs\<rparr>) \<longleftrightarrow> idle l"
  by (simp add: idle_def)

lemma sendtoallchans_sent:
  assumes s: "sent w0 H w" and i: "idle (userlist w0)" and p: "parked w0"
  shows "holds (sendtoallchans u msg w) (sent w0 H) faulty"
  unfolding sendtoallchans_def Let_def
proof (simp, intro allI impI mutex_lock_wp [OF s])
  fix x v
  let ?start = "\<lambda>p. p\<lparr>my_chans := list_iterator_start (my_chans p)\<rparr>"
  let ?stop = "\<lambda>p. p\<lparr>my_chans := list_iterator_stop (my_chans p)\<rparr>"
  assume m: "C_lock u \<notin> H" and v: "sent w0 (insert (C_lock u) H) v"
  have undo: "sent w0 (insert (C_lock u) H) (upd_person u ?stop v')"
    if "sent (upd_person u ?start v) (insert (C_lock u) H) v'" for v'
    by (rule sent_upd_back [OF v that]) (use p in \<open>auto simp: parked_def idle_def\<close>)
  have "sent (upd_person u ?start v) (insert (C_lock u) H) (upd_person u ?start v)"
    using sent_held [OF v] by (intro sent_refl) (simp add: upd_person_def)
  moreover have "idle (userlist (upd_person u ?start v))"
    using i v by (simp add: userlist_upd_person sent_userlist)
  ultimately show "holds (for_each (iter_rest (list_iterator_start (my_chans x))) (relay_chan u msg)
      (upd_person u ?start v)) (\<lambda>x. sent w0 H (mutex_unlock (C_lock u) (upd_person u ?stop x))) faulty"
    by (intro for_each_wp [where H = "insert (C_lock u) H"] relay_chan_sent)
      (auto intro: unlock_insert [OF undo m])
qed

lemma names_loop_sent:
  "sent w0 H w \<Longrightarrow>
     holds (names_loop name fds chanusers first w) (\<lambda>(s, w'). sent w0 H w') faulty"
proof (induction fds arbitrary: chanusers first w)
  case Nil
  then show ?case by simp
next
  case (Cons fd fds)
  then show ?case
    by (auto simp: Let_def split: option.split intro!: hoare)
qed

lemma into_buffer_wp [hoare]:
  "(length s < n \<Longrightarrow> Q s) \<Longrightarrow> holds (into_buffer n s) Q (ends J)"
  by (simp add: into_buffer_def)

lemma strdup_into_wp [hoare]:
  "(length s < usable w n \<Longrightarrow> Q s) \<Longrightarrow> holds (strdup_into n s w) Q (ends J)"
  by (simp add: strdup_into_def)

lemma send_names_sent:
  assumes s: "sent w0 H w" and i: "idle (userlist w0)"
  shows "holds (send_names chan u w) (sent w0 H) faulty"
proof -
  have loop: "holds (names_loop name fds t f (v\<lparr>userlist := list_iterator_start (userlist v)\<rparr>))
      (\<lambda>(s, v'). sent w0 (insert Glock H) (v'\<lparr>userlist := list_iterator_stop (userlist v')\<rparr>)) faulty"
    if "sent w0 (insert Glock H) v" for v name fds t f
    by (rule holds_weaken [OF names_loop_sent [OF sent_refl [OF refl]]])
      (use sent_walk_users [OF that i] sent_held [OF that] in auto)
  show ?thesis
    using s unfolding send_names_def Let_def
    by (auto intro!: hoare loop [THEN holds_weaken])
qed

lemmas send_names_wp [hoare] = send_names_sent [THEN holds_weaken]

lemma count_ops_sent:
  "sent w0 H w \<Longrightarrow> holds (count_ops fds n w) (\<lambda>(m, w'). sent w0 H w') faulty"
  by (induction fds arbitrary: n w) (auto simp: Let_def split: if_splits intro!: hoare)

lemma lusers_replies_sent:
  "sent w0 H w \<Longrightarrow> holds (lusers_replies u a b c d w) (sent w0 H) faulty"
  by (auto simp: lusers_replies_def intro!: hoare)

lemma chirc_handle_LUSERS_sent:
  assumes s: "sent w0 H w" and i: "idle (userlist w0)"
  shows "holds (chirc_handle_LUSERS u w) (sent w0 H) faulty"
proof -
  have loop: "holds (count_ops fds n (v\<lparr>userlist := list_iterator_start (userlist v)\<rparr>))
      (\<lambda>(s, v'). sent w0 (insert Glock H) (v'\<lparr>userlist := list_iterator_stop (userlist v')\<rparr>)) faulty"
    if "sent w0 (insert Glock H) v" for v n fds
    by (rule holds_weaken [OF count_ops_sent [OF sent_refl [OF refl]]])
      (use sent_walk_users [OF that i] sent_held [OF that] in auto)
  show ?thesis
    using s unfolding chirc_handle_LUSERS_def Let_def
    by (auto intro!: hoare loop [THEN holds_weaken] lusers_replies_sent)
qed

lemmas LUSERS_wp [hoare] = chirc_handle_LUSERS_sent [THEN holds_weaken]

lemma chirc_handle_MOTD_sent:
  assumes "sent w0 H w"
  shows "holds (chirc_handle_MOTD u w) (sent w0 H) faulty"
  using assms
  by (auto simp: chirc_handle_MOTD_def split: option.split intro!: hoare for_each_wp [where H = H])

lemmas MOTD_wp [hoare] = chirc_handle_MOTD_sent [THEN holds_weaken]

lemma chirc_handle_PRIVMSG_sent:
  assumes "sent w0 H w" and "idle (userlist w0)"
  shows "holds (chirc_handle_PRIVMSG u params w) (sent w0 H) faulty"
  using assms
  by (auto simp: chirc_handle_PRIVMSG_def privmsg_to_user_def privmsg_to_chan_def Let_def
      split: option.split intro!: hoare)

lemma chirc_handle_NOTICE_sent:
  assumes "sent w0 H w" and "idle (userlist w0)"
  shows "holds (chirc_handle_NOTICE u params w) (sent w0 H) faulty"
  using assms
  by (auto simp: chirc_handle_NOTICE_def notice_to_chan_def Let_def split: option.split intro!: hoare)

lemma chirc_handle_PING_sent:
  assumes "sent w0 H w"
  shows "holds (chirc_handle_PING u params w) (sent w0 H) faulty"
  using assms by (auto simp: chirc_handle_PING_def Let_def intro!: hoare)

lemma chirc_handle_UNKNOWN_sent:
  assumes "sent w0 H w"
  shows "holds (chirc_handle_UNKNOWN u params w) (sent w0 H) faulty"
  using assms by (auto simp: chirc_handle_UNKNOWN_def intro!: hoare)

lemma chans_loop_wp:
  assumes s: "sent w0 H w" and i: "idle (chanlist w0)"
    and body: "\<And>x w1 w. x \<in> set xs \<Longrightarrow> userlist w1 = userlist w0 \<Longrightarrow>
      sent w1 H w \<Longrightarrow> holds (body x w) (sent w1 H) faulty"
    and Q: "\<And>w'. sent w0 H (w'\<lparr>chanlist := list_iterator_stop (chanlist w')\<rparr>) \<Longrightarrow> Q w'"
  shows "holds (for_each xs body (w\<lparr>chanlist := list_iterator_start (chanlist w)\<rparr>)) Q (ends J)"
proof (rule for_each_wp [where H = H])
  show "sent (w\<lparr>chanlist := list_iterator_start (chanlist w)\<rparr>) H
      (w\<lparr>chanlist := list_iterator_start (chanlist w)\<rparr>)"
    using sent_held [OF s] by auto
next
  fix x v assume "x \<in> set xs" "sent (w\<lparr>chanlist := list_iterator_start (chanlist w)\<rparr>) H v"
  then show "holds (body x v) (sent (w\<lparr>chanlist := list_iterator_start (chanlist w)\<rparr>) H) faulty"
    using s by (intro body) (simp_all add: sent_userlist)
next
  fix v assume "sent (w\<lparr>chanlist := list_iterator_start (chanlist w)\<rparr>) H v"
  then show "Q v" by (rule Q [OF sent_walk_chans [OF s i]])
qed

lemma list_entry_wp [hoare]: "(\<And>s. Q s) \<Longrightarrow> holds (list_entry c) Q (ends J)"
  by (auto simp: list_entry_def intro!: hoare)

lemma chirc_handle_LIST_sent:
  assumes "sent w0 H w" and "idle (chanlist w0)"
  shows "holds (chirc_handle_LIST u params w) (sent w0 H) faulty"
  using assms
  by (auto simp: chirc_handle_LIST_def list_round_def Let_def intro!: hoare chans_loop_wp)

lemma antisocial_loop_sent:
  "sent w0 H w \<Longrightarrow> holds (antisocial_loop fds s first w) (\<lambda>(s, w'). sent w0 H w') faulty"
proof (induction fds arbitrary: s first w)
  case Nil
  then show ?case by simp
next
  case (Cons fd fds)
  then show ?case by (auto simp: Let_def intro!: hoare)
qed

lemma names_all_sent:
  assumes s: "sent w0 H w" and i: "idle (userlist w0)" and c: "idle (chanlist w0)"
  shows "holds (names_all u w) (sent w0 H) faulty"
proof -
  have loop: "holds (antisocial_loop fds t f (v\<lparr>userlist := list_iterator_start (userlist v)\<rparr>))
      (\<lambda>(s, v'). sent w0 (insert Glock H) (v'\<lparr>userlist := list_iterator_stop (userlist v')\<rparr>)) faulty"
    if "sent w0 (insert Glock H) v" for v fds t f
    by (rule holds_weaken [OF antisocial_loop_sent [OF sent_refl [OF refl]]])
      (use sent_walk_users [OF that i] sent_held [OF that] in auto)
  have loop': "holds (antisocial_loop fds t f
        (v\<lparr>chanlist := list_iterator_stop (chanlist v), userlist := list_iterator_start (userlist v)\<rparr>))
      (\<lambda>(s, v'). sent w0 (insert Glock H) (v'\<lparr>userlist := list_iterator_stop (userlist v')\<rparr>)) faulty"
    if "sent w0 (insert Glock H) (v\<lparr>chanlist := list_iterator_stop (chanlist v)\<rparr>)" for v fds t f
    using loop [OF that] by simp
  show ?thesis
    using s i c unfolding names_all_def names_round_def Let_def
    by (auto intro!: hoare chans_loop_wp loop' [THEN holds_weaken])
qed

lemma names_one_sent:
  assumes "sent w0 H w" and "idle (userlist w0)"
  shows "holds (names_one u name w) (sent w0 H) faulty"
  using assms by (auto simp: names_one_def Let_def split: option.split intro!: hoare)

lemma shares_channel_sent:
  "sent w0 H w \<Longrightarrow> holds (shares_channel u cs w) (\<lambda>(s, w'). sent w0 H w') faulty"
  by (induction cs arbitrary: w) (auto simp: Let_def intro!: hoare)

lemma who_skip_sent:
  assumes s: "sent w0 H w" and p: "parked w0"
  shows "holds (who_skip u fd q w) (\<lambda>(s, w'). sent w0 H w') faulty"
proof -
  let ?start = "\<lambda>p. p\<lparr>my_chans := list_iterator_start (my_chans p)\<rparr>"
  let ?stop = "\<lambda>p. p\<lparr>my_chans := list_iterator_stop (my_chans p)\<rparr>"
  have undo: "sent w0 H (upd_person fd ?stop v')" if "sent (upd_person fd ?start w) H v'" for v'
    by (rule sent_upd_back [OF s that]) (use p in \<open>auto simp: parked_def idle_def\<close>)
  have start: "sent (upd_person fd ?start w) H (upd_person fd ?start w)"
    using sent_held [OF s] by (intro sent_refl) (simp add: upd_person_def)
  show ?thesis
    unfolding who_skip_def Let_def
    using s by (auto intro!: holds_weaken [OF shares_channel_sent [OF start]] undo)
qed

lemma parked_start:
  "userlist w1 = list_iterator_start (userlist w0) \<Longrightarrow> parked w1 \<longleftrightarrow> parked w0"
  by (simp add: parked_def)

lemma who_all_round_sent:
  assumes "sent w0 H w" and "parked w0"
  shows "holds (who_all_round u fd w) (sent w0 H) faulty"
  using assms
  by (auto simp: who_all_round_def Let_def intro!: hoare who_skip_sent [THEN holds_weaken])

lemma user_exit_Glock: "Glock \<in> held w \<Longrightarrow> holds (user_exit u w) Q (ends J)"
proof -
  assume G: "Glock \<in> held w"
  have "holds (leave_channel m v) (\<lambda>v. Glock \<in> held v) faulty" if "Glock \<in> held v" for m v
    using that by (simp add: leave_channel_def mutex_lock_def)
  then have loop: "holds (for_each ms leave_channel v) (\<lambda>v. Glock \<in> held v) faulty"
    if "Glock \<in> held v" for ms v
    using that by (rule for_each_holds)
  show ?thesis
    unfolding user_exit_def Let_def
    using G by (auto simp: mutex_lock_def upd_person_def intro!: holds_weaken [OF loop])
qed

lemma who_chan_round_sent:
  assumes "sent w0 H w" and "Glock \<in> H"
  shows "holds (who_chan_round u name fd w) (sent w0 H) faulty"
  using assms
  by (auto simp: who_chan_round_def Let_def send_or_exit_def sent_held split: option.split
      intro!: hoare sent_out user_exit_Glock)

lemma chirc_handle_WHO_sent:
  assumes "sent w0 H w" and "idle (userlist w0)" and "parked w0"
  shows "holds (chirc_handle_WHO u params w) (sent w0 H) faulty"
  using assms
  by (auto simp: chirc_handle_WHO_def who_walk_def Let_def parked_start
      intro!: hoare users_loop_wp who_all_round_sent who_chan_round_sent)

end
