(* ===== verification/Chirc_Core.thy ===== *)
theory Chirc_Core
  imports Chirc_Sends
begin

text \<open>
  The handlers that keep the core of the state: the sockets, nicks and channels of every client and the
  names and counters of every channel.  \<open>quiet\<close> is the relation of a run that changes nothing of it,
  \<open>left_by\<close> the end of a client, and \<open>kept\<close> one of the two.  The rules of the collection \<open>qhoare\<close>
  carry the proofs through the statements of a handler.
\<close>

named_theorems qhoare

definition skel :: "person \<Rightarrow> int \<times> string \<times> nat \<times> string list" where
  "skel p = (clientSocket p, nick p, tid p, map mname (els (my_chans p)))"

definition skel_chan :: "channel \<Rightarrow> nat \<times> string \<times> int" where
  "skel_chan c = (ch_addr c, cname c, numusers c)"

definition core_eq :: "world \<Rightarrow> world \<Rightarrow> bool" where
  "core_eq w w' \<longleftrightarrow>
     map skel (els (userlist w')) = map skel (els (userlist w))
     \<and> map skel_chan (els (chanlist w')) = map skel_chan (els (chanlist w))
     \<and> iter_active (userlist w') = iter_active (userlist w)
     \<and> iter_pos (userlist w') = iter_pos (userlist w)
     \<and> iter_active (chanlist w') = iter_active (chanlist w)
     \<and> iter_pos (chanlist w') = iter_pos (chanlist w)
     \<and> next_addr w' = next_addr w"

definition quiet :: "bool \<Rightarrow> world \<Rightarrow> mutex set \<Rightarrow> world \<Rightarrow> bool" where
  "quiet b w0 H w \<longleftrightarrow> core_eq w0 w \<and> held w = H \<and> (b \<longrightarrow> parked w0 \<longrightarrow> parked w)"

lemma quiet_refl: "held w = H \<Longrightarrow> quiet b w H w"
  by (simp add: quiet_def core_eq_def)

lemma quiet_trans: "quiet b w0 H w1 \<Longrightarrow> quiet b w1 H' w2 \<Longrightarrow> quiet b w0 H' w2"
  by (simp add: quiet_def core_eq_def)

lemma quiet_sent: "quiet b w0 H w \<Longrightarrow> sent w H' w' \<Longrightarrow> quiet b w0 H' w'"
  by (auto simp: quiet_def core_eq_def sent_def parked_def)

lemma quiet_self: "quiet b w0 H w \<Longrightarrow> sent w H w"
  by (rule sent_refl) (simp add: quiet_def)

lemma quiet_idle:
  "quiet b w0 H w \<Longrightarrow> idle (userlist w) \<longleftrightarrow> idle (userlist w0)"
  "quiet b w0 H w \<Longrightarrow> idle (chanlist w) \<longleftrightarrow> idle (chanlist w0)"
  by (simp_all add: quiet_def core_eq_def idle_def)

lemma quiet_lock_wp [qhoare]:
  "quiet b w0 H w \<Longrightarrow> (\<And>w'. m \<notin> H \<Longrightarrow> quiet b w0 (insert m H) w' \<Longrightarrow> Q w') \<Longrightarrow>
     holds (mutex_lock m w) Q (ends J)"
  by (rule mutex_lock_wp [OF quiet_self]) (auto intro: quiet_sent)

lemma quiet_unlock [qhoare]:
  "quiet b w0 (insert m H) w \<Longrightarrow> m \<notin> H \<Longrightarrow> quiet b w0 H (mutex_unlock m w)"
  by (rule quiet_sent [OF _ unlock_insert [OF quiet_self]])

text \<open>An unlock of a mutex that is not held.\<close>

lemma quiet_unlock_free: "quiet b w0 H w \<Longrightarrow> m \<notin> H \<Longrightarrow> quiet b w0 H (mutex_unlock m w)"
  by (simp add: quiet_def core_eq_def mutex_unlock_def parked_def)

lemma quiet_send_locked_wp [qhoare]:
  "quiet b w0 H w \<Longrightarrow> (\<And>w'. quiet b w0 H w' \<Longrightarrow> Q w') \<Longrightarrow> holds (send_locked u msg w) Q (ends J)"
  by (rule holds_weaken [OF send_locked_sent [OF quiet_self]]) (auto intro: quiet_sent)

lemma quiet_send_reply_wp [qhoare]:
  "quiet b w0 H w \<Longrightarrow> (\<And>w'. quiet b w0 H w' \<Longrightarrow> Q w') \<Longrightarrow>
     holds (send_reply_with reply u code extra w) Q (ends J)"
  by (rule holds_weaken [OF send_reply_with_sent [OF quiet_self]]) (auto intro: quiet_sent)

lemma quiet_sendtochannel_wp [qhoare]:
  "quiet b w0 H w \<Longrightarrow> idle (userlist w0) \<Longrightarrow> (\<And>w'. quiet b w0 H w' \<Longrightarrow> Q w') \<Longrightarrow>
     holds (sendtochannel chan msg sender w) Q (ends J)"
  by (rule holds_weaken [OF sendtochannel_sent [OF quiet_self]]) (auto intro: quiet_sent simp: quiet_idle)

lemma quiet_send_names_wp [qhoare]:
  "quiet b w0 H w \<Longrightarrow> idle (userlist w0) \<Longrightarrow> (\<And>w'. quiet b w0 H w' \<Longrightarrow> Q w') \<Longrightarrow>
     holds (send_names a u w) Q (ends J)"
  by (rule holds_weaken [OF send_names_sent [OF quiet_self]]) (auto intro: quiet_sent simp: quiet_idle)

lemma quiet_LUSERS_wp [qhoare]:
  "quiet b w0 H w \<Longrightarrow> idle (userlist w0) \<Longrightarrow> (\<And>w'. quiet b w0 H w' \<Longrightarrow> Q w') \<Longrightarrow>
     holds (chirc_handle_LUSERS u w) Q (ends J)"
  by (rule holds_weaken [OF chirc_handle_LUSERS_sent [OF quiet_self]])
    (auto intro: quiet_sent simp: quiet_idle)

lemma quiet_MOTD_wp [qhoare]:
  "quiet b w0 H w \<Longrightarrow> (\<And>w'. quiet b w0 H w' \<Longrightarrow> Q w') \<Longrightarrow>
     holds (chirc_handle_MOTD u w) Q (ends J)"
  by (rule holds_weaken [OF chirc_handle_MOTD_sent [OF quiet_self]]) (auto intro: quiet_sent)

lemma quiet_for_each_wp:
  assumes "quiet b w0 H w"
    and "\<And>x w. x \<in> set xs \<Longrightarrow> quiet b w0 H w \<Longrightarrow> holds (body x w) (quiet b w0 H) faulty"
    and "\<And>w'. quiet b w0 H w' \<Longrightarrow> Q w'"
  shows "holds (for_each xs body w) Q (ends J)"
proof -
  have "holds (for_each xs body w) (quiet b w0 H) faulty"
    using assms(2,1) by (rule for_each_holds)
  then show ?thesis using assms(3) by (rule holds_weaken)
qed

lemma map_upd_key:
  "(\<And>x. k (f x) = k x) \<Longrightarrow> map (\<lambda>x. k (if P x then f x else x)) xs = map k xs"
  by simp

lemma quiet_upd_person [qhoare]:
  assumes "quiet b w0 H w" and "\<And>p. skel (f p) = skel p"
    and "\<And>p. b \<Longrightarrow> idle (my_chans p) \<Longrightarrow> idle (my_chans (f p))"
  shows "quiet b w0 H (upd_person u f w)"
proof -
  have "map skel (els (userlist (upd_person u f w))) = map skel (els (userlist w))"
    by (simp add: userlist_upd_person comp_def map_upd_key [of skel f, OF assms(2)] del: map_eq_conv)
  moreover have "b \<longrightarrow> parked w \<longrightarrow> parked (upd_person u f w)"
    using assms(3) by (auto simp: parked_def userlist_upd_person)
  moreover have "held (upd_person u f w) = held w" "chanlist (upd_person u f w) = chanlist w"
    "next_addr (upd_person u f w) = next_addr w"
    by (simp_all add: upd_person_def)
  moreover have "iter_active (userlist (upd_person u f w)) = iter_active (userlist w)"
    "iter_pos (userlist (upd_person u f w)) = iter_pos (userlist w)"
    by (simp_all add: upd_person_def)
  ultimately show ?thesis
    using assms(1) by (simp add: quiet_def core_eq_def del: map_eq_conv)
qed

lemma quiet_upd_channel [qhoare]:
  assumes "quiet b w0 H w" and "\<And>c. skel_chan (f c) = skel_chan c"
  shows "quiet b w0 H (upd_channel a f w)"
  using assms(1)
  by (simp add: quiet_def core_eq_def upd_channel_def comp_def parked_def
      map_upd_key [of skel_chan f, OF assms(2)] del: map_eq_conv)

lemma quiet_numregistered [qhoare]:
  "quiet b w0 H w \<Longrightarrow> quiet b w0 H (w\<lparr>numregistered := n\<rparr>)"
  by (simp add: quiet_def core_eq_def parked_def)

subsection \<open>The end of a client keeps the mutexes\<close>

lemma held_lock_wp:
  "held w = H \<Longrightarrow> (\<And>w'. m \<notin> H \<Longrightarrow> held w' = insert m H \<Longrightarrow> Q w') \<Longrightarrow>
     holds (mutex_lock m w) Q (ends J)"
  by (auto simp: mutex_lock_def)

lemma held_unlock [simp]: "held (mutex_unlock m w) = held w - {m}"
  by (simp add: mutex_unlock_def)

lemma held_upd [simp]: "held (upd_person u f w) = held w" "held (upd_channel a g w) = held w"
  by (simp_all add: upd_person_def upd_channel_def)

lemma channel_destroy_held: "holds (channel_destroy a w) (\<lambda>w'. held w' = held w) faulty"
  unfolding channel_destroy_def by (auto intro!: held_lock_wp)

lemma leave_channel_held: "holds (leave_channel m w) (\<lambda>w'. held w' = held w) faulty"
  unfolding leave_channel_def Let_def
  by (auto intro!: held_lock_wp channel_destroy_held [THEN holds_weaken])

lemma user_exit_held:
  "holds (user_exit u w) (\<lambda>w'. held w' = held w) (ends (\<lambda>w'. held w' = held w))"
proof -
  have loop: "holds (for_each ms leave_channel v) (\<lambda>v'. held v' = held v) faulty" for ms v
    by (rule for_each_holds) (auto intro: leave_channel_held [THEN holds_weaken])
  show ?thesis
    unfolding user_exit_def Let_def
    by (auto intro!: held_lock_wp loop [THEN holds_weaken])
qed

lemma after_Some: "after r = Some w \<longleftrightarrow> r = Inr w \<or> r = Inl (ThreadExit w)"
  by (cases r rule: sum.exhaust) (auto elim: after.elims)

lemma holds_after: "holds r Q (ends Q) \<longleftrightarrow> (\<forall>w. after r = Some w \<longrightarrow> Q w)"
proof (cases r)
  case (Inl e)
  then show ?thesis by (cases e) simp_all
next
  case (Inr w)
  then show ?thesis by simp
qed

lemma after_user_exit_held: "after (user_exit u w) = Some w' \<Longrightarrow> held w' = held w"
  using user_exit_held [of u w] by (simp add: holds_after)

definition left_by :: "int \<Rightarrow> bool \<Rightarrow> world \<Rightarrow> mutex set \<Rightarrow> world \<Rightarrow> bool" where
  "left_by u b w0 H w \<longleftrightarrow>
     (\<exists>w1 w2. quiet b w0 H w1 \<and> after (user_exit u w1) = Some w2 \<and> quiet b w2 H w)"

lemma quiet_send_or_exit_wp [qhoare]:
  assumes "quiet b w0 H w" and "\<And>w'. quiet b w0 H w' \<or> left_by u b w0 H w' \<Longrightarrow> Q w'"
    and "\<And>w'. left_by u b w0 H w' \<Longrightarrow> J w'"
  shows "holds (send_or_exit u msg w) Q (ends J)"
proof (cases "u \<in> broken w")
  case True
  have "left_by u b w0 H w'" if "after (user_exit u w) = Some w'" for w'
  proof -
    have "held w' = H" using assms(1) after_user_exit_held [OF that] by (simp add: quiet_def)
    then show ?thesis using assms(1) that quiet_refl unfolding left_by_def by blast
  qed
  then have "holds (user_exit u w) (left_by u b w0 H) (ends (left_by u b w0 H))"
    by (simp add: holds_after)
  with True assms(2,3) show ?thesis
    unfolding send_or_exit_def by (cases "user_exit u w") (auto elim: ends_mono)
next
  case False
  with assms(2) quiet_sent [OF assms(1) sent_out [OF quiet_self [OF assms(1)]]] show ?thesis
    by (simp add: send_or_exit_def)
qed

lemma user_exit_locked: "C_lock u \<in> held w \<Longrightarrow> holds (user_exit u w) Q (ends J)"
  by (auto simp: user_exit_def mutex_lock_def)

lemma quiet_send_under_lock:
  "quiet b w0 (insert (C_lock u) H) w \<Longrightarrow>
     (\<And>w'. quiet b w0 (insert (C_lock u) H) w' \<Longrightarrow> Q w') \<Longrightarrow> holds (send_or_exit u msg w) Q (ends J)"
  using quiet_sent [OF _ sent_out [OF quiet_self], of b w0 "insert (C_lock u) H" w]
  by (auto simp: send_or_exit_def intro!: user_exit_locked) (simp add: quiet_def)

subsection \<open>The handlers that keep the core\<close>

lemma skel_iter [simp]:
  "skel (p\<lparr>my_chans := list_iterator_start (my_chans p)\<rparr>) = skel p"
  "skel (p\<lparr>my_chans := list_iterator_stop (my_chans p)\<rparr>) = skel p"
  by (simp_all add: skel_def)

lemma skel_simps [simp]:
  "skel (p\<lparr>user := s\<rparr>) = skel p" "skel (p\<lparr>user := s, fullname := t\<rparr>) = skel p"
  "skel (p\<lparr>umode := s\<rparr>) = skel p" "skel (p\<lparr>away := s\<rparr>) = skel p"
  by (simp_all add: skel_def)

lemma skel_chan_simps [simp]:
  "skel_chan (c\<lparr>topic := s\<rparr>) = skel_chan c" "skel_chan (c\<lparr>cmode := s\<rparr>) = skel_chan c"
  by (simp_all add: skel_chan_def)

lemma relay_chan_quiet:
  "quiet b w0 H w \<Longrightarrow> idle (userlist w0) \<Longrightarrow> holds (relay_chan u msg m w) (quiet b w0 H) faulty"
  by (auto simp: relay_chan_def Let_def intro!: qhoare)

declare into_buffer_wp [qhoare] strdup_into_wp [qhoare]

lemmas constr_reply_wp [qhoare] = constr_reply_faulty [THEN holds_weaken]

text \<open>Without idle iterators in the clients, a walk over a client's channels keeps the core only.\<close>

lemma quiet_False: "\<not> (b \<and> parked w0) \<Longrightarrow> quiet b w0 H w \<longleftrightarrow> quiet False w0 H w"
  by (auto simp: quiet_def)

lemma sendtoallchans_quiet_False:
  "quiet False w0 H w \<Longrightarrow> idle (userlist w0) \<Longrightarrow>
     holds (sendtoallchans u msg w) (quiet False w0 H) faulty"
  unfolding sendtoallchans_def Let_def
  by (auto intro!: qhoare quiet_for_each_wp relay_chan_quiet)

lemma quiet_sendtoallchans_wp [qhoare]:
  assumes "quiet b w0 H w" and i: "idle (userlist w0)" and Q: "\<And>w'. quiet b w0 H w' \<Longrightarrow> Q w'"
  shows "holds (sendtoallchans u msg w) Q (ends J)"
proof (cases "b \<and> parked w0")
  case True
  then have "parked w" using assms(1) by (simp add: quiet_def)
  then show ?thesis
    using assms quiet_self [OF assms(1)]
    by (intro holds_weaken [OF sendtoallchans_sent [of w H]]) (auto intro: quiet_sent simp: quiet_idle)
next
  case False
  then show ?thesis
    using assms(1) Q
    by (intro holds_weaken [OF sendtoallchans_quiet_False [of w0 H]])
      (simp_all add: quiet_False [OF False] i)
qed

lemma do_registration_wp [qhoare]:
  assumes "quiet b w0 H w" and "idle (userlist w0)" and "\<And>w'. quiet b w0 H w' \<Longrightarrow> Q w'"
  shows "holds (do_registration u w) Q (ends J)"
  unfolding do_registration_def Let_def using assms
  by (auto simp del: for_each.simps intro!: qhoare quiet_for_each_wp)

lemma chirc_handle_USER_quiet:
  assumes "quiet b w0 H w" and "idle (userlist w0)"
  shows "holds (chirc_handle_USER u msg w) (quiet b w0 H) faulty"
  using assms by (auto simp: chirc_handle_USER_def Let_def intro!: qhoare)

lemma chirc_handle_AWAY_quiet:
  assumes "quiet b w0 H w"
  shows "holds (chirc_handle_AWAY u params w) (quiet b w0 H) faulty"
  using assms by (auto simp: chirc_handle_AWAY_def Let_def intro!: qhoare)

lemma chirc_handle_OPER_quiet:
  assumes "quiet b w0 H w"
  shows "holds (chirc_handle_OPER u params w) (quiet b w0 H) faulty"
  using assms by (auto simp: chirc_handle_OPER_def Let_def intro!: qhoare)

lemma topic_reply_quiet:
  assumes "quiet b w0 H w"
  shows "holds (topic_reply u a name w) (quiet b w0 H) faulty"
  using assms by (auto simp: topic_reply_def Let_def intro!: qhoare)

lemma topic_allowed_quiet:
  assumes "quiet b w0 H w"
  shows "holds (topic_allowed u p c name w) (\<lambda>(x, w'). quiet b w0 H w') faulty"
  using assms
  by (auto simp: topic_allowed_def Let_def intro!: quiet_lock_wp quiet_unlock quiet_send_under_lock
     constr_reply_faulty [THEN holds_weaken])

lemma chirc_handle_TOPIC_quiet:
  assumes "quiet b w0 H w" and "idle (userlist w0)"
  shows "holds (chirc_handle_TOPIC u params w) (quiet b w0 H) faulty"
  using assms
  by (auto simp: chirc_handle_TOPIC_def Let_def intro!: qhoare
      topic_reply_quiet [THEN holds_weaken] topic_allowed_quiet [THEN holds_weaken])

lemma parked_iter [simp]:
  "parked (w\<lparr>userlist := list_iterator_start (userlist v)\<rparr>) \<longleftrightarrow>
     (\<forall>p \<in> set (els (userlist v)). idle (my_chans p))"
  "parked (w\<lparr>userlist := list_iterator_stop (userlist v)\<rparr>) \<longleftrightarrow>
     (\<forall>p \<in> set (els (userlist v)). idle (my_chans p))"
  by (simp_all add: parked_def)

lemma quiet_walk_users:
  assumes "quiet b w0 H w" and "idle (userlist w0)"
    and "quiet b (w\<lparr>userlist := list_iterator_start (userlist w)\<rparr>) H' w'"
  shows "quiet b w0 H' (w'\<lparr>userlist := list_iterator_stop (userlist w')\<rparr>)"
proof -
  have "iter_active (userlist w')"
    and "idle (userlist w)"
    using assms by (simp_all add: quiet_def core_eq_def idle_def)
  then have "iter_pos (list_iterator_stop (userlist w')) = iter_pos (userlist w0)"
      and "iter_active (list_iterator_stop (userlist w')) = iter_active (userlist w0)"
    using assms(2) by (simp_all add: idle_def list_iterator_stop_def)
  moreover have "b \<longrightarrow> parked w0 \<longrightarrow> parked (w'\<lparr>userlist := list_iterator_stop (userlist w')\<rparr>)"
    using assms(1,3) by (simp add: quiet_def parked_def)
  moreover have "core_eq w0 w" "core_eq (w\<lparr>userlist := list_iterator_start (userlist w)\<rparr>) w'" "held w' = H'"
    using assms(1,3) by (simp_all only: quiet_def)
  ultimately show ?thesis
    unfolding quiet_def core_eq_def by (intro conjI) (elim conjE; simp)+
qed

lemma quiet_users_loop_wp:
  assumes s: "quiet b w0 H w" and i: "idle (userlist w0)"
    and body: "\<And>x w1 w. x \<in> set xs \<Longrightarrow> quiet b w1 H w \<Longrightarrow> holds (body x w) (quiet b w1 H) faulty"
    and Q: "\<And>w'. quiet b w0 H (w'\<lparr>userlist := list_iterator_stop (userlist w')\<rparr>) \<Longrightarrow> Q w'"
  shows "holds (for_each xs body (w\<lparr>userlist := list_iterator_start (userlist w)\<rparr>)) Q (ends J)"
proof (rule quiet_for_each_wp [where H = H])
  show "quiet b (w\<lparr>userlist := list_iterator_start (userlist w)\<rparr>) H
      (w\<lparr>userlist := list_iterator_start (userlist w)\<rparr>)"
    using s by (intro quiet_refl) (simp add: quiet_def)
next
  fix x v assume "x \<in> set xs" "quiet b (w\<lparr>userlist := list_iterator_start (userlist w)\<rparr>) H v"
  then show "holds (body x v) (quiet b (w\<lparr>userlist := list_iterator_start (userlist w)\<rparr>) H) faulty"
    by (rule body)
next
  fix v assume "quiet b (w\<lparr>userlist := list_iterator_start (userlist w)\<rparr>) H v"
  then show "Q v" by (rule Q [OF quiet_walk_users [OF s i]])
qed

lemma shares_channel_quiet:
  "quiet b w0 H w \<Longrightarrow> holds (shares_channel u cs w) (\<lambda>(s, w'). quiet b w0 H w') faulty"
  by (induction cs arbitrary: w) (auto simp: Let_def intro!: qhoare)

lemma who_skip_quiet:
  "quiet False w0 H w \<Longrightarrow> holds (who_skip u fd q w) (\<lambda>(s, w'). quiet False w0 H w') faulty"
  by (auto simp: who_skip_def Let_def intro!: qhoare shares_channel_quiet [THEN holds_weaken])

lemma who_all_round_quiet:
  "quiet False w0 H w \<Longrightarrow> holds (who_all_round u fd w) (quiet False w0 H) faulty"
  by (auto simp: who_all_round_def Let_def intro!: qhoare who_skip_quiet [THEN holds_weaken])

lemma who_chan_round_quiet:
  assumes "quiet b w0 H w" and "Glock \<in> H"
  shows "holds (who_chan_round u name fd w) (quiet b w0 H) faulty"
  using who_chan_round_sent [OF quiet_self [OF assms(1)] assms(2)]
  by (rule holds_weaken) (rule quiet_sent [OF assms(1)])

lemma chirc_handle_WHO_quiet:
  assumes "quiet b w0 H w" and i: "idle (userlist w0)"
  shows "holds (chirc_handle_WHO u params w) (quiet b w0 H) faulty"
proof (cases "b \<and> parked w0")
  case True
  then have "parked w" using assms(1) by (simp add: quiet_def)
  then show ?thesis
    using assms(1) i quiet_self [OF assms(1)]
    by (intro holds_weaken [OF chirc_handle_WHO_sent [of w H]]) (auto intro: quiet_sent simp: quiet_idle)
next
  case False
  then have "quiet False w0 H w" using assms(1) by (simp add: quiet_False [OF False])
  then have "holds (chirc_handle_WHO u params w) (quiet False w0 H) faulty"
    using i unfolding chirc_handle_WHO_def who_walk_def Let_def
    by (auto intro!: qhoare quiet_users_loop_wp who_all_round_quiet who_chan_round_quiet)
  then show ?thesis by (simp add: quiet_False [OF False, abs_def])
qed

text \<open>WHOIS leaves the iterator of its target active: it keeps the core, not the idle iterators.\<close>

lemma whois_loop_wp [qhoare]:
  "(\<And>t n. Q (t, n)) \<Longrightarrow> holds (whois_loop cs s b n) Q (ends J)"
  by (induction cs arbitrary: s b n) (auto simp: Let_def intro!: qhoare)

lemma chirc_handle_WHOIS_quiet:
  assumes "quiet False w0 H w"
  shows "holds (chirc_handle_WHOIS u params w) (quiet False w0 H) faulty"
  using assms
  by (auto simp: chirc_handle_WHOIS_def whois_replies_def whois_channels_def Let_def skel_def
      split: option.split intro!: qhoare)

definition kept :: "int \<Rightarrow> bool \<Rightarrow> world \<Rightarrow> mutex set \<Rightarrow> world \<Rightarrow> bool" where
  "kept u b w0 H w \<longleftrightarrow> quiet b w0 H w \<or> left_by u b w0 H w"

lemma quiet_kept [intro]: "quiet b w0 H w \<Longrightarrow> kept u b w0 H w"
  by (simp add: kept_def)

lemma left_by_kept [intro]: "left_by u b w0 H w \<Longrightarrow> kept u b w0 H w"
  by (simp add: kept_def)

lemma kept_unlock_free: "kept u b w0 H w \<Longrightarrow> m \<notin> H \<Longrightarrow> kept u b w0 H (mutex_unlock m w)"
  unfolding kept_def left_by_def using quiet_unlock_free by blast

lemma quiet_names_all_wp [qhoare]:
  "quiet b w0 H w \<Longrightarrow> idle (userlist w0) \<Longrightarrow> idle (chanlist w0) \<Longrightarrow>
     (\<And>w'. quiet b w0 H w' \<Longrightarrow> Q w') \<Longrightarrow> holds (names_all u w) Q (ends J)"
  by (rule holds_weaken [OF names_all_sent [OF quiet_self]]) (auto intro: quiet_sent simp: quiet_idle)

lemma quiet_names_one_wp [qhoare]:
  "quiet b w0 H w \<Longrightarrow> idle (userlist w0) \<Longrightarrow>
     (\<And>w'. quiet b w0 H w' \<Longrightarrow> Q w') \<Longrightarrow> holds (names_one u name w) Q (ends J)"
  by (rule holds_weaken [OF names_one_sent [OF quiet_self]]) (auto intro: quiet_sent simp: quiet_idle)

lemma chirc_handle_NAMES_kept:
  assumes "quiet b w0 H w" and "idle (userlist w0)" and "idle (chanlist w0)" and "C_lock u \<notin> H"
  shows "holds (chirc_handle_NAMES u params w) (kept u b w0 H) (ends (kept u b w0 H))"
  using assms
  by (auto simp: chirc_handle_NAMES_def intro!: qhoare kept_unlock_free simp flip: kept_def)

lemma send_reply_unlock_kept:
  assumes "quiet b w0 H w" and "C_lock u \<notin> H"
  shows "holds (send_reply_unlock u code extra w) (kept u b w0 H) (ends (kept u b w0 H))"
  using assms
  by (auto simp: send_reply_unlock_def intro!: qhoare kept_unlock_free simp flip: kept_def)

lemma holds_kept: "holds r (quiet b w0 H) faulty \<Longrightarrow> holds r (kept u b w0 H) (ends J)"
  by (auto elim!: holds_weaken)

lemma map_upd_first_key: "(\<And>x. k (f x) = k x) \<Longrightarrow> map k (upd_first P f xs) = map k xs"
  by (induction xs) simp_all

lemma quiet_set_mmode [qhoare]: "quiet b w0 H w \<Longrightarrow> quiet b w0 H (set_mmode fd name m w)"
  unfolding set_mmode_def
  by (rule quiet_upd_person) (simp_all add: skel_def map_upd_first_key)

lemma mode_member_change_quiet:
  assumes "quiet b w0 H w" and "idle (userlist w0)"
  shows "holds (mode_member_change u p a fd uc params w) (quiet b w0 H) faulty"
  using assms by (auto simp: mode_member_change_def Let_def intro!: qhoare)

lemma mode_status_kept:
  assumes "quiet b w0 H w" and "idle (userlist w0)" and "C_lock u \<notin> H"
  shows "holds (mode_status u p params w) (kept u b w0 H) (ends (kept u b w0 H))"
  using assms
  by (auto simp: mode_status_def mode_member_def Let_def split: option.split
      intro!: qhoare send_reply_unlock_kept holds_kept [OF mode_member_change_quiet])

lemma mode_relay_quiet:
  assumes "quiet b w0 H w" and "idle (userlist w0)"
  shows "holds (mode_relay p a name flags w) (quiet b w0 H) faulty"
  using assms by (auto simp: mode_relay_def intro!: qhoare)

lemma mode_chan_allowed_wp [qhoare]:
  "quiet b w0 H w \<Longrightarrow> (\<And>x w'. quiet b w0 H w' \<Longrightarrow> Q (x, w')) \<Longrightarrow>
     holds (mode_chan_allowed p name w) Q (ends J)"
  by (auto simp: mode_chan_allowed_def Let_def intro!: qhoare)

lemma mode_user_quiet:
  assumes "quiet b w0 H w"
  shows "holds (mode_user u p params w) (quiet b w0 H) faulty"
  using assms by (auto simp: mode_user_def Let_def intro!: qhoare)

lemma mode_chan_quiet:
  assumes "quiet b w0 H w" and "idle (userlist w0)"
  shows "holds (mode_chan u p params w) (quiet b w0 H) faulty"
  using assms
  by (auto simp: mode_chan_def mode_chan_change_def Let_def split: option.split
      intro!: qhoare mode_relay_quiet mode_user_quiet)

lemma chirc_handle_MODE_kept:
  assumes "quiet b w0 H w" and "idle (userlist w0)" and "C_lock u \<notin> H"
  shows "holds (chirc_handle_MODE u params w) (kept u b w0 H) (ends (kept u b w0 H))"
  using assms
  by (auto simp: chirc_handle_MODE_def
      intro!: mode_status_kept holds_kept [OF mode_chan_quiet] holds_kept [OF mode_user_quiet])

end
