(* ===== verification/Chirc_Membership.thy ===== *)
theory Chirc_Membership
  imports Chirc_Core
begin

text \<open>
  The operations that change who is where: JOIN, PART and the end of a client.  Each is shown to be one
  update of the state (\<open>joined\<close>, \<open>parted\<close>, \<open>exits\<close>) up to what is sent.
\<close>

subsection \<open>Updates under a run that only sends\<close>

lemma sent_frame:
  assumes "sent w0 H w" and "\<And>v ms H. F (v\<lparr>out := ms, held := H\<rparr>) = (F v)\<lparr>out := ms, held := H\<rparr>"
    and "\<And>v. out (F v) = out v"
  shows "sent (F w0) H (F w)"
  using assms unfolding sent_def by auto

lemma sent_upd_person: "sent w0 H w \<Longrightarrow> sent (upd_person u f w0) H (upd_person u f w)"
  by (erule sent_frame) (simp_all add: upd_person_def)

lemma sent_upd_channel: "sent w0 H w \<Longrightarrow> sent (upd_channel a f w0) H (upd_channel a f w)"
  by (erule sent_frame) (simp_all add: upd_channel_def)

lemma sent_get [simp]:
  "sent w0 H w \<Longrightarrow> get_person w u = get_person w0 u"
  "sent w0 H w \<Longrightarrow> get_channel w a = get_channel w0 a"
  "sent w0 H w \<Longrightarrow> seek_chan w name = seek_chan w0 name"
  "sent w0 H w \<Longrightarrow> next_addr w = next_addr w0"
  by (auto simp: sent_def get_person_def get_channel_def)

lemma upd_person_fields [simp]:
  "pw (upd_person u f w) = pw w"
  "servername (upd_person u f w) = servername w"
  "port (upd_person u f w) = port w"
  "version (upd_person u f w) = version w"
  "birthday (upd_person u f w) = birthday w"
  "numregistered (upd_person u f w) = numregistered w"
  "out (upd_person u f w) = out w"
  "closed (upd_person u f w) = closed w"
  "misuse (upd_person u f w) = misuse w"
  "cancelled (upd_person u f w) = cancelled w"
  "self (upd_person u f w) = self w"
  "next_addr (upd_person u f w) = next_addr w"
  "broken (upd_person u f w) = broken w"
  "usable (upd_person u f w) = usable w"
  "motd_file (upd_person u f w) = motd_file w"
  "stack_len (upd_person u f w) = stack_len w"
  "stack_char (upd_person u f w) = stack_char w"
  "chanlist (upd_person u f w) = chanlist w"
  "world.more (upd_person u f w) = world.more w"
  by (simp_all add: upd_person_def)

lemma upd_person_overwritten [simp]:
  "(upd_person u f w)\<lparr>userlist := l\<rparr> = w\<lparr>userlist := l\<rparr>"
  "(upd_person u f w)\<lparr>chanlist := cl, userlist := l\<rparr> = w\<lparr>chanlist := cl, userlist := l\<rparr>"
  "(upd_person u f w)\<lparr>chanlist := cl\<rparr> = upd_person u f (w\<lparr>chanlist := cl\<rparr>)"
  by (simp_all add: upd_person_def)

lemma upd_channel_fields [simp]:
  "pw (upd_channel a g w) = pw w"
  "servername (upd_channel a g w) = servername w"
  "port (upd_channel a g w) = port w"
  "version (upd_channel a g w) = version w"
  "birthday (upd_channel a g w) = birthday w"
  "numregistered (upd_channel a g w) = numregistered w"
  "out (upd_channel a g w) = out w"
  "closed (upd_channel a g w) = closed w"
  "misuse (upd_channel a g w) = misuse w"
  "cancelled (upd_channel a g w) = cancelled w"
  "self (upd_channel a g w) = self w"
  "next_addr (upd_channel a g w) = next_addr w"
  "broken (upd_channel a g w) = broken w"
  "usable (upd_channel a g w) = usable w"
  "motd_file (upd_channel a g w) = motd_file w"
  "stack_len (upd_channel a g w) = stack_len w"
  "stack_char (upd_channel a g w) = stack_char w"
  "userlist (upd_channel a g w) = userlist w"
  "world.more (upd_channel a g w) = world.more w"
  by (simp_all add: upd_channel_def)

lemma list_size_get_person: "get_person (upd_person u f w) u = map_option f (get_person w u)"
  if "\<And>p. clientSocket (f p) = clientSocket p"
proof -
  have "List.find (\<lambda>p. clientSocket p = u) (map (\<lambda>p. if clientSocket p = u then f p else p) xs)
      = map_option f (List.find (\<lambda>p. clientSocket p = u) xs)" for xs
    by (induction xs) (simp_all add: that)
  then show ?thesis by (simp add: get_person_def upd_person_def)
qed

subsection \<open>JOIN\<close>

definition opened :: "string \<Rightarrow> world \<Rightarrow> nat \<times> bool \<times> world" where
  "opened name w =
     (case seek_chan w name of
        Some c \<Rightarrow> (ch_addr c, False, w)
      | None \<Rightarrow>
          (next_addr w, True,
           w\<lparr>next_addr := Suc (next_addr w),
             chanlist := snd (list_append (chanlist w) (new_channel (next_addr w) name))\<rparr>))"

definition entered :: "int \<Rightarrow> nat \<Rightarrow> string \<Rightarrow> bool \<Rightarrow> world \<Rightarrow> world" where
  "entered u a name oper w =
     upd_channel a (\<lambda>c. c\<lparr>numusers := numusers c + 1\<rparr>)
       (upd_person u (\<lambda>p. p\<lparr>my_chans := snd (list_append (my_chans p)
          \<lparr>mname = name, mmode = (if oper then ''o'' else [])\<rparr>)\<rparr>) w)"

definition joined :: "int \<Rightarrow> string \<Rightarrow> world \<Rightarrow> world" where
  "joined u name w =
     (case opened name w of (a, oper, w1) \<Rightarrow>
        (case get_person w1 u of
           None \<Rightarrow> w1
         | Some p \<Rightarrow> if on_chan name p then w1 else entered u a name oper w1))"

lemma find_or_create_eq:
  "find_or_create name w =
     (if Glock \<in> held w then Inl (Fault SelfDeadlock) else Inr (opened name w))"
  by (auto simp: find_or_create_def mutex_lock_def mutex_unlock_def opened_def Let_def
      split: option.split)

lemma add_member_eq:
  "add_member u a name oper w =
     (if C_lock u \<in> held w \<or> Chan_lock a \<in> held w then Inl (Fault SelfDeadlock)
      else Inr (entered u a name oper w))"
  by (auto simp: add_member_def mutex_lock_def mutex_unlock_def entered_def Let_def
      upd_person_def upd_channel_def)

lemma join_replies_sent:
  "sent w0 H w \<Longrightarrow> idle (userlist w0) \<Longrightarrow> holds (join_replies u a name w) (sent w0 H) faulty"
  by (auto simp: join_replies_def intro!: hoare)

lemma idle_entered [simp]: "idle (userlist (entered u a name oper w)) = idle (userlist w)"
  by (simp add: entered_def upd_channel_def upd_person_def)

lemma idle_opened: "opened name w = (a, oper, w1) \<Longrightarrow> userlist w1 = userlist w \<and> held w1 = held w"
  by (auto simp: opened_def split: option.splits)

lemma held_entered [simp]: "held (entered u a name oper w) = held w"
  by (simp add: entered_def)

text \<open>JOIN is the update \<open>joined\<close>, some messages, and every mutex back where it was.\<close>

lemma channel_join_sent:
  assumes "idle (userlist w)"
  shows "holds (channel_join u name w) (sent (joined u name w) (held w)) faulty"
proof -
  obtain a oper w1 where o: "opened name w = (a, oper, w1)" by (cases "opened name w")
  then have w1: "userlist w1 = userlist w" "held w1 = held w" by (auto dest: idle_opened)
  show ?thesis
    using assms w1 unfolding channel_join_def find_or_create_eq add_member_eq joined_def o
    by (auto simp: o intro!: hoare sent_refl join_replies_sent)
qed

subsection \<open>PART\<close>

definition destroyed :: "nat \<Rightarrow> world \<Rightarrow> world" where
  "destroyed a w = w\<lparr>chanlist := snd (list_delete (\<lambda>c. ch_addr c = a) (chanlist w))\<rparr>"

definition vacated :: "nat \<Rightarrow> world \<Rightarrow> world" where
  "vacated a w =
     (let w = upd_channel a (\<lambda>c. c\<lparr>numusers := numusers c - 1\<rparr>) w in
      case get_channel w a of
        Some c \<Rightarrow> if numusers c = 0 then destroyed a w else w
      | None \<Rightarrow> w)"

definition dropped :: "int \<Rightarrow> string \<Rightarrow> world \<Rightarrow> world" where
  "dropped u name w =
     upd_person u (\<lambda>p. p\<lparr>my_chans := snd (list_delete (fun_compare name) (my_chans p))\<rparr>) w"

definition parted :: "int \<Rightarrow> string \<Rightarrow> world \<Rightarrow> world" where
  "parted u name w =
     (case (get_person w u, seek_chan w name) of
        (Some p, Some c) \<Rightarrow> if on_chan name p then vacated (ch_addr c) (dropped u name w) else w
      | _ \<Rightarrow> w)"

lemma channel_destroy_eq:
  "channel_destroy a w =
     (if Chan_lock a \<in> held w then Inl (Fault SelfDeadlock)
      else case get_channel w a of
        None \<Rightarrow> Inl (Fault NullDeref)
      | Some c \<Rightarrow>
          if numusers c \<noteq> 0 then Inr w
          else if Glock \<in> held w then Inl (Fault SelfDeadlock) else Inr (destroyed a w))"
  by (auto simp: channel_destroy_def mutex_lock_def mutex_unlock_def destroyed_def get_channel_def
      deref_def split: option.split)

lemma held_destroyed [simp]: "held (destroyed a w) = held w"
  by (simp add: destroyed_def)

lemma held_vacated [simp]: "held (vacated a w) = held w"
  by (auto simp: vacated_def Let_def split: option.split)

lemma held_dropped [simp]: "held (dropped u name w) = held w"
  by (simp add: dropped_def)

lemma remove_member_sent:
  "holds (remove_member u a name w) (sent (vacated a (dropped u name w)) (held w)) faulty"
  unfolding remove_member_def channel_destroy_eq
  by (auto simp: mutex_lock_def mutex_unlock_def Let_def vacated_def dropped_def deref_def
      get_channel_def upd_person_def upd_channel_def destroyed_def split: option.split intro!: sent_refl)

lemma sent_get_users [simp]: "sent w0 H w \<Longrightarrow> userlist w = userlist w0"
  by (simp add: sent_userlist)

lemma sent_destroyed: "sent w0 H w \<Longrightarrow> sent (destroyed a w0) H (destroyed a w)"
  by (erule sent_frame) (simp_all add: destroyed_def)

lemma sent_vacated: "sent w0 H w \<Longrightarrow> sent (vacated a w0) H (vacated a w)"
  using sent_upd_channel [of w0 H w a "\<lambda>c. c\<lparr>numusers := numusers c - 1\<rparr>"]
  by (auto simp: vacated_def Let_def sent_destroyed split: option.split)

lemma sent_dropped: "sent w0 H w \<Longrightarrow> sent (dropped u name w0) H (dropped u name w)"
  unfolding dropped_def by (rule sent_upd_person)

lemma remove_member_wp:
  assumes "sent w0 H w"
  shows "holds (remove_member u a name w) (sent (vacated a (dropped u name w0)) H) faulty"
  using remove_member_sent [of u a name w]
  by (rule holds_weaken)
    (use assms in \<open>auto simp: sent_held intro: sent_trans sent_vacated sent_dropped\<close>)

lemma chirc_handle_PART_sent:
  assumes "idle (userlist w)"
  shows "holds (chirc_handle_PART u params w) (sent (parted u (params ! 1) w) (held w)) faulty"
  using assms unfolding chirc_handle_PART_def Let_def
  by (auto simp: parted_def split: option.split intro!: hoare sent_refl remove_member_wp)

subsection \<open>QUIT\<close>

definition find_addr :: "nat \<Rightarrow> channel clist \<Rightarrow> channel option" where
  "find_addr a cl = List.find (\<lambda>c. ch_addr c = a) (els cl)"

definition vacate :: "nat \<Rightarrow> channel clist \<Rightarrow> channel clist" where
  "vacate a cl =
     (let cl = cl\<lparr>els := map (\<lambda>c. if ch_addr c = a then c\<lparr>numusers := numusers c - 1\<rparr> else c) (els cl)\<rparr> in
      case find_addr a cl of
        Some c \<Rightarrow> if numusers c = 0 then snd (list_delete (\<lambda>c. ch_addr c = a) cl) else cl
      | None \<Rightarrow> cl)"

lemma vacated_eq: "vacated a w = w\<lparr>chanlist := vacate a (chanlist w)\<rparr>"
  by (auto simp: vacated_def vacate_def Let_def upd_channel_def get_channel_def find_addr_def
      destroyed_def split: option.split)

primrec vacate_all :: "string list \<Rightarrow> channel clist \<Rightarrow> channel clist option" where
  "vacate_all [] cl = Some cl"
| "vacate_all (n # ns) cl =
     (case list_seek (fun_seek_chan n) cl of
        None \<Rightarrow> None
      | Some c \<Rightarrow> vacate_all ns (vacate (ch_addr c) cl))"

lemma find_addr_dec:
  assumes "distinct (map ch_addr (els cl))" and "c \<in> set (els cl)"
  shows "find_addr (ch_addr c)
      (cl\<lparr>els := map (\<lambda>d. if ch_addr d = ch_addr c then d\<lparr>numusers := numusers d - 1\<rparr> else d) (els cl)\<rparr>)
    = Some (c\<lparr>numusers := numusers c - 1\<rparr>)"
proof -
  have "List.find (\<lambda>d. ch_addr d = a)
      (map (\<lambda>d. if ch_addr d = a then d\<lparr>numusers := numusers d - 1\<rparr> else d) xs)
    = map_option (\<lambda>d. d\<lparr>numusers := numusers d - 1\<rparr>) (List.find (\<lambda>d. ch_addr d = a) xs)" for a and xs :: "channel list"
    by (induction xs) auto
  then show ?thesis
    using find_unique_key [OF assms] by (simp add: find_addr_def)
qed

lemma map_addr_dec [simp]:
  "map (ch_addr \<circ> (\<lambda>d. if ch_addr d = a then d\<lparr>numusers := f d\<rparr> else d)) xs = map ch_addr xs"
  by simp

lemma distinct_vacate:
  "distinct (map ch_addr (els cl)) \<Longrightarrow> distinct (map ch_addr (els (vacate a cl)))"
  unfolding vacate_def Let_def
  by (auto split: option.split simp: els_list_delete intro!: distinct_map_remove_first)

lemma leave_channel_vacates:
  assumes "distinct (map ch_addr (els (chanlist w)))"
  shows "holds (leave_channel m w)
    (\<lambda>w'. \<exists>c. seek_chan w (mname m) = Some c \<and> w' = w\<lparr>chanlist := vacate (ch_addr c) (chanlist w)\<rparr>) faulty"
proof (cases "seek_chan w (mname m)")
  case None
  then show ?thesis by (auto simp: leave_channel_def mutex_lock_def Let_def)
next
  case (Some c)
  then have "c \<in> set (els (chanlist w))" by (auto dest: list_seek_Some)
  note f = find_addr_dec [OF assms this]
  show ?thesis
    using Some f
    unfolding leave_channel_def channel_destroy_eq
    by (auto simp: mutex_lock_def mutex_unlock_def Let_def vacate_def get_channel_def find_addr_def
        upd_channel_def destroyed_def)
qed

lemma leave_channels_vacate:
  assumes "distinct (map ch_addr (els (chanlist w)))"
  shows "holds (for_each ms leave_channel w)
    (\<lambda>w'. \<exists>cl. vacate_all (map mname ms) (chanlist w) = Some cl \<and> w' = w\<lparr>chanlist := cl\<rparr>) faulty"
  using assms
proof (induction ms arbitrary: w)
  case Nil
  then show ?case by simp
next
  case (Cons m ms)
  have "holds (for_each ms leave_channel (w\<lparr>chanlist := vacate a (chanlist w)\<rparr>))
    (\<lambda>w'. \<exists>cl. vacate_all (map mname ms) (vacate a (chanlist w)) = Some cl \<and> w' = w\<lparr>chanlist := cl\<rparr>) faulty" for a
    using Cons.IH [of "w\<lparr>chanlist := vacate a (chanlist w)\<rparr>"] distinct_vacate [OF Cons.prems] by simp
  then show ?case
    by (auto intro!: holds_weaken [OF leave_channel_vacates [OF Cons.prems]])
qed

definition gone :: "int \<Rightarrow> person \<Rightarrow> channel clist \<Rightarrow> world \<Rightarrow> world" where
  "gone u p cl w =
     w\<lparr>userlist := (userlist w)\<lparr>els := filter (\<lambda>q. clientSocket q \<noteq> u) (els (userlist w))\<rparr>,
       chanlist := cl, numregistered := numregistered w - 1, closed := closed w @ [u],
       cancelled := (if tid p = self w then cancelled w else cancelled w @ [tid p])\<rparr>"

definition exits :: "int \<Rightarrow> world \<Rightarrow> world \<Rightarrow> bool" where
  "exits u w w' \<longleftrightarrow> (\<exists>p cl. get_person w u = Some p
     \<and> vacate_all (map mname (iter_rest (list_iterator_start (my_chans p)))) (chanlist w) = Some cl
     \<and> w' = gone u p cl w)"

lemma remove_first_socket:
  assumes "distinct (map clientSocket xs)"
    and "\<And>p. clientSocket (h p) = clientSocket p" and "\<And>p. clientSocket p \<noteq> u \<Longrightarrow> h p = p"
  shows "remove_first (\<lambda>q. clientSocket q = u) (map h xs) = filter (\<lambda>q. clientSocket q \<noteq> u) xs"
  using assms(1)
proof (induction xs)
  case Nil
  then show ?case by simp
next
  case (Cons x xs)
  show ?case
  proof (cases "clientSocket x = u")
    case True
    then have "\<forall>y \<in> set xs. clientSocket y \<noteq> u" using Cons.prems by (auto simp: image_iff)
    then have "filter (\<lambda>q. clientSocket q \<noteq> u) xs = xs" and "map h xs = xs"
      by (simp_all add: filter_id_conv map_idI assms(3))
    with True assms(2) show ?thesis by simp
  next
    case False
    with Cons assms(2,3) show ?thesis by simp
  qed
qed

lemma list_delete_eq:
  "snd (list_delete eq l) = l\<lparr>els := if iter_active l then els l else remove_first eq (els l)\<rparr>"
  by (rule clist.equality) (simp_all add: els_list_delete)

lemma user_exit_exits:
  assumes "distinct (map ch_addr (els (chanlist w)))" and "distinct (map clientSocket (els (userlist w)))"
    and "idle (userlist w)"
  shows "holds (user_exit u w) (exits u w) (ends (exits u w))"
proof (cases "get_person w u = None \<or> C_lock u \<in> held w")
  case True
  then show ?thesis by (auto simp: user_exit_def mutex_lock_def)
next
  case False
  then obtain p where p: "get_person w u = Some p" by auto
  let ?start = "\<lambda>p. p\<lparr>my_chans := list_iterator_start (my_chans p)\<rparr>"
  let ?clear = "\<lambda>p. p\<lparr>my_chans := snd (list_clear (list_iterator_stop (my_chans p)))\<rparr>"
  let ?chans = "iter_rest (list_iterator_start (my_chans p))"
  let ?v = "upd_person u ?start (w\<lparr>held := insert (C_lock u) (held w), closed := closed w @ [u]\<rparr>)"
  define v where "v = ?v"
  have v: "held v = insert (C_lock u) (held w)" "closed v = closed w @ [u]" "chanlist v = chanlist w"
      "userlist v = (userlist w)\<lparr>els := map (\<lambda>p. if clientSocket p = u then ?start p else p) (els (userlist w))\<rparr>"
      "self v = self w" "numregistered v = numregistered w" "cancelled v = cancelled w"
      "misuse v = misuse w"
    by (simp_all add: v_def upd_person_def)
  have rest: "v\<lparr>chanlist := cl, userlist := us, numregistered := n, held := held w\<rparr>
      = w\<lparr>userlist := us, chanlist := cl, numregistered := n, closed := closed w @ [u]\<rparr>" for cl us n
    by (rule world.equality; simp add: v_def)
  have users: "snd (list_delete (\<lambda>q. clientSocket q = u)
      (userlist (upd_person u ?clear (v\<lparr>chanlist := cl\<rparr>))))
    = (userlist w)\<lparr>els := filter (\<lambda>q. clientSocket q \<noteq> u) (els (userlist w))\<rparr>" for cl
    using assms(2,3)
    by (simp add: v list_delete_eq userlist_upd_person idle_def remove_first_socket)
  have "distinct (map ch_addr (els (chanlist v)))"
    using assms(1) by (simp add: v)
  note loop = leave_channels_vacate [OF this, of ?chans]
  show ?thesis
    using False p unfolding user_exit_def Let_def
    by (simp add: mutex_lock_def flip: v_def)
      (rule holds_weaken [OF loop],
       elim exE conjE,
       simp add: exits_def gone_def mutex_lock_def mutex_unlock_def v users rest)
qed

end
