(* ===== verification/Chirc_Invariants.thy ===== *)
theory Chirc_Invariants
  imports Chirc_Membership
begin

text \<open>
  The contract of an invariant of the server, as the locale \<open>server_invariant\<close>: an invariant that the
  updates of \<open>Chirc_Membership\<close>, a new nick and a new connection keep is kept by every message and by
  every step of the server.
\<close>

definition well_formed :: "world \<Rightarrow> bool" where
  "well_formed w \<longleftrightarrow>
     idle (userlist w) \<and> idle (chanlist w)
     \<and> distinct (map clientSocket (els (userlist w)))
     \<and> distinct (map ch_addr (els (chanlist w)))
     \<and> (\<forall>c \<in> set (els (chanlist w)). ch_addr c < next_addr w)"

lemma set_nick_eq:
  "set_nick u n w =
     (if Glock \<in> held w then Inl (Fault SelfDeadlock) else Inr (upd_person u (\<lambda>p. p\<lparr>nick := n\<rparr>) w))"
  by (auto simp: set_nick_def mutex_lock_def mutex_unlock_def upd_person_def)

lemma quiet_held: "quiet b w0 H w \<Longrightarrow> held w = H"
  by (simp add: quiet_def)

lemma quiet_seek_nick:
  assumes "quiet b w H w'"
  shows "seek_nick w' n = None \<longleftrightarrow> seek_nick w n = None"
proof -
  have none: "seek_nick v n = None \<longleftrightarrow> n = [] \<or> n \<notin> (fst \<circ> snd) ` set (map skel (els (userlist v)))" for v
    by (auto simp: list_seek_None fun_seek_person_def skel_def image_image)
  have "map skel (els (userlist w')) = map skel (els (userlist w))"
    using assms by (simp only: quiet_def core_eq_def)
  then show ?thesis by (simp only: none)
qed

lemma quiet_send_ignoring: "quiet b w0 H w \<Longrightarrow> quiet b w0 H (send_ignoring u msg w)"
  using quiet_sent [OF _ sent_out [OF quiet_self]] by (simp add: send_ignoring_def)

lemma left_by_exit:
  assumes "quiet b w0 H w"
  shows "holds (user_exit u w) (left_by u b w0 H) (ends (left_by u b w0 H))"
  unfolding holds_after
proof (intro allI impI)
  fix w' assume *: "after (user_exit u w) = Some w'"
  have "held w' = H" using assms after_user_exit_held [OF *] by (simp add: quiet_def)
  then show "left_by u b w0 H w'" using assms * quiet_refl unfolding left_by_def by blast
qed

lemma holds_mono_ends:
  "holds r P (ends K) \<Longrightarrow> (\<And>x. P x \<Longrightarrow> Q x) \<Longrightarrow> (\<And>x. K x \<Longrightarrow> J x) \<Longrightarrow> holds r Q (ends J)"
  by (cases r) (auto elim: ends_mono)

lemma chirc_handle_QUIT_left:
  assumes "quiet b w0 H w" and "idle (userlist w0)"
  shows "holds (chirc_handle_QUIT u params w) (left_by u b w0 H) (ends (left_by u b w0 H))"
  using assms
  by (auto simp: chirc_handle_QUIT_def Let_def
      intro!: qhoare quiet_send_ignoring left_by_exit)

lemma parse_eq:
  "Glock \<notin> held w \<Longrightarrow>
     parse u msg w = and_then (parse_params msg) (\<lambda>params. handle_chirc_message u params w)"
  by (simp add: parse_def mutex_lock_def mutex_unlock_def)

locale server_invariant =
  fixes I :: "world \<Rightarrow> bool" and b :: bool
  assumes wf: "I w \<Longrightarrow> well_formed w"
    and quiet: "I w \<Longrightarrow> quiet b w H w' \<Longrightarrow> I w'"
    and nick: "I w \<Longrightarrow> seek_nick w n = None \<Longrightarrow> I (upd_person u (\<lambda>p. p\<lparr>nick := n\<rparr>) w)"
    and join: "I w \<Longrightarrow> get_person w u \<noteq> None \<Longrightarrow> I (joined u name w)"
    and part: "I w \<Longrightarrow> I (parted u name w)"
    and exit: "I w \<Longrightarrow> exits u w w' \<Longrightarrow> I w'"
    and connect: "I w \<Longrightarrow> \<forall>p \<in> set (els (userlist w)). clientSocket p \<noteq> sock \<Longrightarrow>
      I (w\<lparr>userlist := snd (list_append (userlist w) (new_client sock name thread))\<rparr>)"
begin

abbreviation good :: "mutex set \<Rightarrow> world \<Rightarrow> bool" where
  "good H w \<equiv> I w \<and> held w = H"

lemma I_idle: "I w \<Longrightarrow> idle (userlist w)" "I w \<Longrightarrow> idle (chanlist w)"
  by (auto dest: wf simp: well_formed_def)

lemma quiet_good: "I w \<Longrightarrow> quiet b w H w' \<Longrightarrow> good H w'"
  using quiet by (auto simp: quiet_def)

lemma sent_good: "I w \<Longrightarrow> sent w H w' \<Longrightarrow> good H w'"
  using quiet_good [OF _ quiet_sent [OF quiet_refl [OF refl]]] .

lemma user_exit_good:
  assumes "I w"
  shows "holds (user_exit u w) (good (held w)) (ends (good (held w)))"
proof -
  have "holds (user_exit u w) (exits u w) (ends (exits u w))"
    using wf [OF assms] by (intro user_exit_exits) (simp_all add: well_formed_def)
  then show ?thesis
    using exit [OF assms] by (auto elim!: holds_mono_ends simp: exits_def gone_def)
qed

lemma left_by_good: "I w \<Longrightarrow> left_by u b w H w' \<Longrightarrow> good H w'"
  unfolding left_by_def
  using user_exit_good quiet_good by (metis holds_after)

lemma kept_good: "I w \<Longrightarrow> kept u b w H w' \<Longrightarrow> good H w'"
  unfolding kept_def using left_by_good quiet_good by blast

lemma registration_good:
  assumes "I w"
  shows "holds (do_registration u w) (good (held w)) (ends J)"
  using quiet_refl [OF refl] I_idle(1) [OF assms] by (rule do_registration_wp) (rule quiet_good [OF assms])

lemma set_nick_wp:
  assumes "I w" and "quiet b w H v" and "seek_nick v0 n = None" and "quiet b w H0 v0"
    and "\<And>v'. good H v' \<Longrightarrow> Q v'"
  shows "holds (set_nick u n v) Q (ends J)"
proof -
  have "I v" using quiet assms(1,2) by blast
  moreover have "seek_nick v n = None" using quiet_seek_nick [OF assms(2)] quiet_seek_nick [OF assms(4)] assms(3) by simp
  ultimately have "I (upd_person u (\<lambda>p. p\<lparr>nick := n\<rparr>) v)" by (rule nick)
  moreover have "held v = H" using assms(2) by (simp add: quiet_def)
  ultimately show ?thesis using assms(5) by (simp add: set_nick_eq)
qed

lemma NICK_good:
  assumes "I w"
  shows "holds (chirc_handle_NICK u params w) (good (held w)) (ends J)"
proof -
  have *: "holds (do_registration u v) (good H) (ends J)" if "good H v" for v H
    using registration_good [of v u J] that by auto
  show ?thesis
    using quiet_refl [OF refl, of b w] I_idle(1) [OF assms] 
    unfolding chirc_handle_NICK_def Let_def
    by (auto intro!: qhoare set_nick_wp [OF assms] * intro: quiet [OF assms] dest: quiet_held)
qed

lemma holds_quiet_good:
  "I w \<Longrightarrow> holds r (quiet b w (held w)) faulty \<Longrightarrow> holds r (good (held w)) (ends J)"
  by (erule holds_weaken) (rule quiet_good)

lemma holds_sent_good:
  "I w \<Longrightarrow> holds r (sent w (held w)) faulty \<Longrightarrow> holds r (good (held w)) (ends J)"
  by (erule holds_weaken) (rule sent_good)

lemma holds_kept_good:
  assumes "I w" and "holds r (kept u b w (held w)) (ends (kept u b w (held w)))"
  shows "holds r (good (held w)) (ends (good (held w)))"
  using assms(2) by (rule holds_mono_ends) (simp_all add: kept_good [OF assms(1)])

lemma JOIN_good:
  assumes "I w"
  shows "holds (chirc_handle_JOIN u params w) (good (held w)) (ends J)"
proof (cases "get_person w u")
  case None
  have "userlist w1 = userlist w" if "opened name w = (a, oper, w1)" for name a oper w1
    using idle_opened [OF that] ..
  then have "get_person w1 u = None" if "opened name w = (a, oper, w1)" for name a oper w1
    using None that by (simp add: get_person_def)
  then show ?thesis
    by (auto simp: chirc_handle_JOIN_def channel_join_def find_or_create_eq
        split: prod.split intro!: hoare)
next
  case (Some p)
  then have "I (joined u (params ! 1) w)" using assms by (intro join) simp_all
  then show ?thesis
    unfolding chirc_handle_JOIN_def
    by (rule_tac holds_weaken [OF channel_join_sent [OF I_idle(1) [OF assms]]]) (rule sent_good)
qed

lemma PART_good:
  assumes "I w"
  shows "holds (chirc_handle_PART u params w) (good (held w)) (ends J)"
  using chirc_handle_PART_sent [OF I_idle(1) [OF assms]]
  by (rule holds_weaken) (rule sent_good [OF part [OF assms]])

lemma QUIT_good:
  assumes "I w"
  shows "holds (chirc_handle_QUIT u params w) (good (held w)) (ends (good (held w)))"
  using chirc_handle_QUIT_left [OF quiet_refl [OF refl] I_idle(1) [OF assms]]
  by (rule holds_mono_ends) (rule left_by_good [OF assms], assumption)+

theorem handle_good:
  assumes "I w" and "held w = {}" and "b \<Longrightarrow> params ! 0 \<noteq> ''WHOIS''"
  shows "holds (handle_chirc_message u params w) (good {}) (ends (good {}))"
proof -
  note idle = I_idle [OF assms(1)]
  note q = quiet_refl [OF refl, of b w]
  have whois: "holds (chirc_handle_WHOIS u params w) (quiet b w (held w)) faulty" if "\<not> b"
    using chirc_handle_WHOIS_quiet [OF quiet_refl [OF refl], of u params w] that by simp
  note good =
    holds_quiet_good [OF assms(1) whois] 
    holds_quiet_good [OF assms(1) chirc_handle_USER_quiet [OF q idle(1)]]
    holds_quiet_good [OF assms(1) chirc_handle_AWAY_quiet [OF q]]
    holds_quiet_good [OF assms(1) chirc_handle_OPER_quiet [OF q]]
    holds_quiet_good [OF assms(1) chirc_handle_TOPIC_quiet [OF q idle(1)]]
    holds_quiet_good [OF assms(1) chirc_handle_WHO_quiet [OF q idle(1)]]
    holds_sent_good [OF assms(1) chirc_handle_PRIVMSG_sent [OF sent_refl [OF refl] idle(1)]]
    holds_sent_good [OF assms(1) chirc_handle_NOTICE_sent [OF sent_refl [OF refl] idle(1)]]
    holds_sent_good [OF assms(1) chirc_handle_PING_sent [OF sent_refl [OF refl]]]
    holds_sent_good [OF assms(1) chirc_handle_UNKNOWN_sent [OF sent_refl [OF refl]]]
    holds_sent_good [OF assms(1) chirc_handle_LUSERS_sent [OF sent_refl [OF refl] idle(1)]]
    holds_sent_good [OF assms(1) chirc_handle_MOTD_sent [OF sent_refl [OF refl]]]
    holds_sent_good [OF assms(1) chirc_handle_LIST_sent [OF sent_refl [OF refl] idle(2)]]
    holds_kept_good [OF assms(1) chirc_handle_NAMES_kept [OF q idle]]
    holds_kept_good [OF assms(1) chirc_handle_MODE_kept [OF q idle(1)]]
    NICK_good [OF assms(1)] JOIN_good [OF assms(1)] PART_good [OF assms(1)] QUIT_good [OF assms(1)]
  show ?thesis
    using assms(1,3) good unfolding handle_chirc_message_def Let_def
    by (cases b) (simp_all add: assms(2))
qed

theorem parse_good:
  assumes "I w" and "held w = {}" and "b \<Longrightarrow> holds (parse_params msg) (\<lambda>p. p ! 0 \<noteq> ''WHOIS'') (\<lambda>_. True)"
  shows "holds (parse u msg w) (good {}) (ends (good {}))"
proof -
  have p: "holds (parse_loop s n k ps) (\<lambda>_. True) faulty" for s n k ps
    by (induction s arbitrary: n k ps) (auto simp: set_param_def intro!: hoare)
  have "holds (parse_params msg) (\<lambda>p. b \<longrightarrow> p ! 0 \<noteq> ''WHOIS'') faulty"
    using p [of msg 0 0 "replicate MAXPARAMS []"] assms(3)
    unfolding parse_params_def by (cases "parse_loop msg 0 0 (replicate MAXPARAMS [])") auto
  then have params: "holds (parse_params msg) (\<lambda>p. b \<longrightarrow> p ! 0 \<noteq> ''WHOIS'') (ends (good {}))"
    by (rule holds_weaken)
  have "Glock \<notin> held w" using assms(2) by simp
  then show ?thesis
    unfolding parse_eq [OF \<open>Glock \<notin> held w\<close>]
    by (rule_tac bind_holds [OF params]) (rule handle_good [OF assms(1,2)], blast)
qed

theorem step_good:
  assumes "serial_step w w'" and "good {} w" and "\<not> b"
  shows "good {} w'"
  using assms
proof (induction rule: serial_step.induct)
  case (serial_environment w thread bad motd n c)
  have "quiet b w {} (environment thread bad motd n c w)"
    using serial_environment by (simp add: quiet_def core_eq_def environment_def)
  then show ?case using serial_environment quiet_good by blast
next
  case (serial_connect sock name thread w w')
  have "w' = w\<lparr>userlist := snd (list_append (userlist w) (new_client sock name thread))\<rparr>"
    using serial_connect by (auto simp: add_client_def mutex_lock_def mutex_unlock_def split: if_splits)
  then show ?case using serial_connect connect by simp
next
  case (serial_message w u p msg w')
  then show ?case using parse_good [of w msg u] by (simp add: holds_after)
next
  case (serial_end w u p w')
  then show ?case using user_exit_good [of w u] by (simp add: holds_after)
qed

theorem serially_reachable_good:
  "serially_reachable w w' \<Longrightarrow> good {} w \<Longrightarrow> \<not> b \<Longrightarrow> good {} w'"
  by (induction rule: serially_reachable.induct) (auto dest: step_good)

end

end
