(* ===== verification/Chirc_Unique.thy ===== *)
theory Chirc_Unique
  imports Chirc_Invariants
begin

text \<open>
  The first invariant: nicks, names of channels and sockets are unique.  It interprets the locale
  \<open>server_invariant\<close>.
\<close>

abbreviation nonempty :: "string list \<Rightarrow> string list" where
  "nonempty xs \<equiv> filter (\<lambda>s. s \<noteq> []) xs"

definition chans_ok :: "nat \<Rightarrow> channel clist \<Rightarrow> bool" where
  "chans_ok n cl \<longleftrightarrow> idle cl \<and> distinct (map ch_addr (els cl))
     \<and> (\<forall>c \<in> set (els cl). ch_addr c < n) \<and> distinct (nonempty (map cname (els cl)))"

definition unique_names :: "world \<Rightarrow> bool" where
  "unique_names w \<longleftrightarrow> well_formed w
     \<and> distinct (nonempty (map nick (els (userlist w))))
     \<and> distinct (nonempty (map cname (els (chanlist w))))"

lemma unique_names_alt:
  "unique_names w \<longleftrightarrow> idle (userlist w) \<and> distinct (map clientSocket (els (userlist w)))
     \<and> distinct (nonempty (map nick (els (userlist w)))) \<and> chans_ok (next_addr w) (chanlist w)"
  by (auto simp: unique_names_def well_formed_def chans_ok_def)

lemma unique_cong:
  assumes "map clientSocket (els (userlist w')) = map clientSocket (els (userlist w))"
    and "map nick (els (userlist w')) = map nick (els (userlist w))"
    and "map ch_addr (els (chanlist w')) = map ch_addr (els (chanlist w))"
    and "map cname (els (chanlist w')) = map cname (els (chanlist w))"
    and "idle (userlist w') = idle (userlist w)" and "idle (chanlist w') = idle (chanlist w)"
    and "next_addr w' = next_addr w"
  shows "unique_names w' \<longleftrightarrow> unique_names w"
proof -
  have below: "(\<forall>c \<in> set (els (chanlist v)). ch_addr c < n) \<longleftrightarrow>
      (\<forall>a \<in> set (map ch_addr (els (chanlist v))). a < n)" for v n
    by simp
  show ?thesis unfolding unique_names_def well_formed_def below assms ..
qed

lemma unique_core:
  assumes "core_eq w w'"
  shows "unique_names w' \<longleftrightarrow> unique_names w"
proof -
  have u: "map skel (els (userlist w')) = map skel (els (userlist w))"
    and c: "map skel_chan (els (chanlist w')) = map skel_chan (els (chanlist w))"
    using assms by (simp_all only: core_eq_def)
  have key: "map clientSocket (els (userlist v)) = map fst (map skel (els (userlist v)))"
      "map nick (els (userlist v)) = map (fst \<circ> snd) (map skel (els (userlist v)))"
      "map ch_addr (els (chanlist v)) = map fst (map skel_chan (els (chanlist v)))"
      "map cname (els (chanlist v)) = map (fst \<circ> snd) (map skel_chan (els (chanlist v)))" for v
    by (simp_all add: skel_def skel_chan_def)
  have "idle (userlist w') = idle (userlist w)" "idle (chanlist w') = idle (chanlist w)"
    "next_addr w' = next_addr w"
    using assms by (simp_all add: core_eq_def idle_def)
  then show ?thesis by (intro unique_cong) (simp_all only: key u c)
qed

lemma distinct_nonempty_remove_first:
  "distinct (nonempty (map f xs)) \<Longrightarrow> distinct (nonempty (map f (remove_first P xs)))"
  by (induction xs) (use set_remove_first_subset in \<open>fastforce+\<close>)

lemma distinct_nonempty_filter:
  "distinct (nonempty (map f xs)) \<Longrightarrow> distinct (nonempty (map f (filter P xs)))"
  by (induction xs) auto

lemma distinct_nonempty_set_one:
  assumes "distinct (map k xs)" and "distinct (nonempty (map f xs))" and "n = [] \<or> n \<notin> f ` set xs"
    and "\<And>x. f (g x) = n"
  shows "distinct (nonempty (map f (map (\<lambda>x. if k x = u then g x else x) xs)))"
  using assms(1-3)
proof (induction xs)
  case Nil
  then show ?case by simp
next
  case (Cons x xs)
  show ?case
  proof (cases "k x = u")
    case True
    then have "map (\<lambda>x. if k x = u then g x else x) xs = xs"
      using Cons.prems(1) by (intro map_idI) (auto simp: image_iff)
    with True Cons.prems assms(4) show ?thesis by (auto simp del: map_map split: if_splits)
  next
    case False
    moreover have "f x \<noteq> [] \<longrightarrow> f x \<notin> f ` set (map (\<lambda>x. if k x = u then g x else x) xs)"
      using Cons.prems assms(4) by auto
    ultimately show ?thesis using Cons by (auto simp del: map_map)
  qed
qed

lemma chans_ok_numusers:
  assumes "chans_ok n cl"
  shows "chans_ok n (cl\<lparr>els := map (\<lambda>c. if ch_addr c = a then c\<lparr>numusers := f c\<rparr> else c) (els cl)\<rparr>)"
    (is "chans_ok n ?cl")
proof -
  have "map cname (els ?cl) = map cname (els cl)" by simp
  moreover have "map ch_addr (els ?cl) = map ch_addr (els cl)" by simp
  ultimately show ?thesis
    using assms unfolding chans_ok_def by (auto simp del: map_map)
qed

lemma chans_ok_delete: "chans_ok n cl \<Longrightarrow> chans_ok n (snd (list_delete P cl))"
  using set_remove_first_subset [of P "els cl"] unfolding chans_ok_def
  by (auto simp: list_delete_eq intro: distinct_map_remove_first distinct_nonempty_remove_first)

lemma chans_ok_vacate: "chans_ok n cl \<Longrightarrow> chans_ok n (vacate a cl)"
  using chans_ok_numusers [of n cl a "\<lambda>c. numusers c - 1"] chans_ok_delete
  by (auto simp: vacate_def Let_def split: option.split)

lemma chans_ok_vacate_all:
  "chans_ok n cl \<Longrightarrow> vacate_all ns cl = Some cl' \<Longrightarrow> chans_ok n cl'"
  by (induction ns arbitrary: cl) (auto split: option.splits intro: chans_ok_vacate)

lemma unique_opened:
  assumes "unique_names w" and "opened name w = (a, oper, w')"
  shows "unique_names w'"
proof (cases "seek_chan w name")
  case None
  then have new: "name = [] \<or> name \<notin> cname ` set (els (chanlist w))"
    by (auto simp: list_seek_None fun_seek_chan_def)
  have "\<not> iter_active (chanlist w)" using assms(1) by (simp add: unique_names_def well_formed_def idle_def)
  then have w': "w' = w\<lparr>next_addr := Suc (next_addr w), chanlist := (chanlist w)\<lparr>els :=
      els (chanlist w) @ [new_channel (next_addr w) name]\<rparr>\<rparr>"
    using assms(2) None
    by (auto simp: opened_def list_append_def list_insert_at_def list_size_def)
  have ok: "chans_ok (next_addr w) (chanlist w)" using assms(1) by (simp add: unique_names_alt)
  then have "next_addr w \<notin> ch_addr ` set (els (chanlist w))"
    and "\<forall>c \<in> set (els (chanlist w)). ch_addr c < Suc (next_addr w)"
    by (auto simp: chans_ok_def less_Suc_eq)
  with new ok have "chans_ok (next_addr w') (chanlist w')"
    by (auto simp: w' chans_ok_def new_channel_def image_iff)
  with assms(1) show ?thesis by (simp add: unique_names_alt w')
next
  case (Some c)
  with assms show ?thesis by (simp add: opened_def)
qed

lemma unique_joined: "unique_names w \<Longrightarrow> unique_names (joined u name w)"
proof -
  assume *: "unique_names w"
  have keep: "unique_names (entered u a name oper v) \<longleftrightarrow> unique_names v" for a oper v
    by (rule unique_cong) (simp_all add: entered_def upd_channel_def upd_person_def)
  obtain a oper w1 where "opened name w = (a, oper, w1)" by (cases "opened name w")
  with unique_opened [OF * this] show ?thesis
    by (auto simp: joined_def keep split: option.split)
qed

lemma unique_parted: "unique_names w \<Longrightarrow> unique_names (parted u name w)"
proof -
  assume *: "unique_names w"
  have "unique_names (dropped u name w) \<longleftrightarrow> unique_names w"
    by (rule unique_cong) (simp_all add: dropped_def upd_person_def)
  with * have "unique_names (vacated a (dropped u name w))" for a
    by (auto simp: vacated_eq unique_names_alt intro: chans_ok_vacate)
  with * show ?thesis by (auto simp: parted_def split: option.split)
qed

lemma unique_exits: "unique_names w \<Longrightarrow> exits u w w' \<Longrightarrow> unique_names w'"
  by (auto simp: exits_def gone_def unique_names_alt distinct_map_filter
      intro: chans_ok_vacate_all distinct_nonempty_filter)

lemma unique_nick:
  assumes "unique_names w" and "seek_nick w n = None"
  shows "unique_names (upd_person u (\<lambda>p. p\<lparr>nick := n\<rparr>) w)"
proof -
  have "n = [] \<or> n \<notin> nick ` set (els (userlist w))"
    using assms(2) by (auto simp: list_seek_None fun_seek_person_def)
  then have "distinct (nonempty (map nick
      (map (\<lambda>p. if clientSocket p = u then p\<lparr>nick := n\<rparr> else p) (els (userlist w)))))"
    using assms(1) by (intro distinct_nonempty_set_one) (simp_all add: unique_names_alt)
  moreover have "map clientSocket (els (userlist (upd_person u (\<lambda>p. p\<lparr>nick := n\<rparr>) w)))
      = map clientSocket (els (userlist w))"
    by (simp add: userlist_upd_person)
  ultimately show ?thesis
    using assms(1) by (simp add: unique_names_alt) (simp add: userlist_upd_person)
qed

lemma unique_connect:
  assumes "unique_names w" and "\<forall>p \<in> set (els (userlist w)). clientSocket p \<noteq> sock"
  shows "unique_names (w\<lparr>userlist := snd (list_append (userlist w) (new_client sock name thread))\<rparr>)"
proof -
  have "\<not> iter_active (userlist w)"
    using assms(1) by (simp add: unique_names_alt idle_def)
  then have "snd (list_append (userlist w) (new_client sock name thread))
      = (userlist w)\<lparr>els := els (userlist w) @ [new_client sock name thread]\<rparr>"
    by (simp add: list_append_def list_insert_at_def list_size_def)
  with assms show ?thesis
    by (auto simp: unique_names_alt new_client_def)
qed

interpretation names: server_invariant unique_names False
proof
  show "well_formed w" if "unique_names w" for w using that by (simp add: unique_names_def)
  show "unique_names w'" if "unique_names w" "quiet False w H w'" for w H w'
    using that unique_core by (auto simp: quiet_def)
  show "unique_names (upd_person u (\<lambda>p. p\<lparr>nick := n\<rparr>) w)"
    if "unique_names w" "seek_nick w n = None" for w n u
    using that by (rule unique_nick)
  show "unique_names w'" if "unique_names w" "exits u w w'" for w u w'
    using that by (rule unique_exits)
qed (simp_all add: unique_joined unique_parted unique_connect)

end
