(* ===== verification/Chirc_Counts.thy ===== *)
theory Chirc_Counts
  imports Chirc_Unique
begin

text \<open>
  The second invariant: the counter of a channel is the number of its members, no channel is without
  members, and nobody is on a channel twice.  It interprets the locale \<open>server_invariant\<close>.
\<close>

definition members :: "string \<Rightarrow> world \<Rightarrow> person list" where
  "members n w = filter (on_chan n) (els (userlist w))"

definition count_of :: "channel clist \<Rightarrow> string \<Rightarrow> int" where
  "count_of cl n = (case list_seek (fun_seek_chan n) cl of None \<Rightarrow> 0 | Some c \<Rightarrow> numusers c)"

definition no_ghosts :: "channel clist \<Rightarrow> bool" where
  "no_ghosts cl \<longleftrightarrow> (\<forall>c \<in> set (els cl). cname c \<noteq> [] \<longrightarrow> numusers c \<noteq> 0)"

definition once :: "person \<Rightarrow> bool" where
  "once p \<longleftrightarrow> distinct (nonempty (map mname (els (my_chans p))))"

definition counted :: "world \<Rightarrow> bool" where
  "counted w \<longleftrightarrow> unique_names w \<and> parked w \<and> (\<forall>p \<in> set (els (userlist w)). once p)
     \<and> (\<forall>n. n \<noteq> [] \<longrightarrow> count_of (chanlist w) n = int (length (members n w)))
     \<and> no_ghosts (chanlist w)"

lemma on_chan_iff: "list_contains (fun_compare n) l \<longleftrightarrow> n \<in> mname ` set (els l)"
  by (auto simp: list_contains_iff fun_compare_def)

lemma length_filter_upd:
  assumes "distinct (map k xs)" and "x \<in> set xs"
  shows "int (length (filter P (map (\<lambda>y. if k y = k x then f y else y) xs)))
    = int (length (filter P xs)) - of_bool (P x) + of_bool (P (f x))"
  using assms
proof (induction xs)
  case Nil
  then show ?case by simp
next
  case (Cons y ys)
  show ?case
  proof (cases "y = x")
    case True
    then have "map (\<lambda>y. if k y = k x then f y else y) ys = ys"
      using Cons.prems(1) by (intro map_idI) (auto simp: image_iff)
    with True show ?thesis by simp
  next
    case False
    then have "x \<in> set ys" using Cons.prems(2) by simp
    moreover from this have "k y \<noteq> k x" using Cons.prems(1) by (auto simp: image_iff)
    ultimately show ?thesis using Cons by simp
  qed
qed

lemma length_filter_remove:
  assumes "distinct (map k xs)" and "x \<in> set xs"
  shows "int (length (filter P (filter (\<lambda>y. k y \<noteq> k x) xs)))
    = int (length (filter P xs)) - of_bool (P x)"
  using assms
proof (induction xs)
  case Nil
  then show ?case by simp
next
  case (Cons y ys)
  show ?case
  proof (cases "y = x")
    case True
    then have "filter (\<lambda>y. k y \<noteq> k x) ys = ys"
      using Cons.prems(1) by (auto simp: filter_id_conv image_iff)
    with True show ?thesis by simp
  next
    case False
    then have "x \<in> set ys" using Cons.prems(2) by simp
    moreover from this have "k y \<noteq> k x" using Cons.prems(1) by (auto simp: image_iff)
    ultimately show ?thesis using Cons by simp
  qed
qed

lemma seek_chan_upd:
  assumes "\<And>c. cname (f c) = cname c"
  shows "list_seek (fun_seek_chan n) (cl\<lparr>els := map (\<lambda>c. if ch_addr c = a then f c else c) (els cl)\<rparr>)
    = map_option (\<lambda>c. if ch_addr c = a then f c else c) (list_seek (fun_seek_chan n) cl)"
  by (simp add: list_seek_def find_map_key fun_seek_chan_def assms)

lemma find_filter_name:
  assumes "distinct (nonempty (map cname xs))"
  shows "List.find (fun_seek_chan n) (filter P xs)
    = (case List.find (fun_seek_chan n) xs of Some c \<Rightarrow> if P c then Some c else None | None \<Rightarrow> None)"
  using assms
proof (induction xs)
  case Nil
  then show ?case by simp
next
  case (Cons x xs)
  have "\<forall>y \<in> set xs. \<not> fun_seek_chan n y" if "fun_seek_chan n x"
    using that Cons.prems by (auto simp: fun_seek_chan_def) (metis imageI)
  then have "List.find (fun_seek_chan n) (filter P xs) = None" if "fun_seek_chan n x"
    using that by (simp add: find_None_set)
  with Cons show ?case by (auto split: if_splits)
qed

lemma seek_chan_addr:
  assumes "chans_ok k cl" and "list_seek (fun_seek_chan n) cl = Some c"
    and "list_seek (fun_seek_chan m) cl = Some d"
  shows "ch_addr d = ch_addr c \<longleftrightarrow> m = n"
proof -
  have c: "c \<in> set (els cl)" "cname c = n" and d: "d \<in> set (els cl)" "cname d = m"
    using list_seek_Some [OF assms(2)] list_seek_Some [OF assms(3)]
    by (simp_all add: fun_seek_chan_def)
  have "inj_on ch_addr (set (els cl))" using assms(1) by (simp add: chans_ok_def distinct_map)
  then have "ch_addr d = ch_addr c \<Longrightarrow> d = c" using c(1) d(1) by (simp add: inj_onD)
  moreover have "m = n \<Longrightarrow> d = c" using assms(2,3) by simp
  ultimately show ?thesis using c(2) d(2) by blast
qed

lemma count_vacate:
  assumes ok: "chans_ok k cl" and c: "list_seek (fun_seek_chan m) cl = Some c" and g: "no_ghosts cl"
  shows "count_of (vacate (ch_addr c) cl) n = count_of cl n - of_bool (n = m)"
    and "no_ghosts (vacate (ch_addr c) cl)"
proof -
  let ?f = "\<lambda>d. d\<lparr>numusers := numusers d - 1\<rparr>"
  let ?cl = "cl\<lparr>els := map (\<lambda>d. if ch_addr d = ch_addr c then ?f d else d) (els cl)\<rparr>"
  have in_cl: "c \<in> set (els cl)" and name: "cname c = m" "m \<noteq> []"
    using c by (auto dest!: list_seek_Some simp: fun_seek_chan_def)
  have found: "find_addr (ch_addr c) ?cl = Some (?f c)"
    using ok in_cl by (intro find_addr_dec) (simp_all add: chans_ok_def)
  have seek: "list_seek (fun_seek_chan n) ?cl
    = map_option (\<lambda>d. if ch_addr d = ch_addr c then ?f d else d) (list_seek (fun_seek_chan n) cl)" for n
    by (rule seek_chan_upd) simp
  have addr: "distinct (map ch_addr (els ?cl))" "distinct (nonempty (map cname (els ?cl)))" "\<not> iter_active ?cl"
    using chans_ok_numusers [OF ok, of "ch_addr c" "\<lambda>d. numusers d - 1"] ok
    by (simp_all only: chans_ok_def idle_def) (simp add: chans_ok_def idle_def)
  have seek': "list_seek (fun_seek_chan n) (snd (list_delete (\<lambda>d. ch_addr d = ch_addr c) ?cl))
    = (case list_seek (fun_seek_chan n) ?cl of Some d \<Rightarrow> if ch_addr d \<noteq> ch_addr c then Some d else None
       | None \<Rightarrow> None)" for n
    using addr find_filter_name [OF addr(2), of n]
    by (simp add: list_delete_eq list_seek_def remove_first_key)
  have vacate: "vacate (ch_addr c) cl =
      (if numusers c = 1 then snd (list_delete (\<lambda>d. ch_addr d = ch_addr c) ?cl) else ?cl)"
    using found by (simp add: vacate_def Let_def)
  show "count_of (vacate (ch_addr c) cl) n = count_of cl n - of_bool (n = m)"
  proof (cases "list_seek (fun_seek_chan n) cl")
    case None
    then have "n \<noteq> m" using c by auto
    with None show ?thesis by (simp add: count_of_def vacate seek seek')
  next
    case (Some d)
    then have "ch_addr d = ch_addr c \<longleftrightarrow> n = m" using seek_chan_addr [OF ok c] by simp
    moreover have "n = m \<longrightarrow> d = c" using Some c by auto
    ultimately show ?thesis using Some by (auto simp: count_of_def vacate seek seek')
  qed
  have only: "d = c" if "d \<in> set (els cl)" "ch_addr d = ch_addr c" for d
    using that in_cl ok by (auto simp: chans_ok_def distinct_map dest: inj_onD)
  show "no_ghosts (vacate (ch_addr c) cl)"
  proof (cases "numusers c = 1")
    case True
    have "els (vacate (ch_addr c) cl) = filter (\<lambda>d. ch_addr d \<noteq> ch_addr c) (els ?cl)"
      using True addr by (simp add: vacate list_delete_eq remove_first_key)
    then show ?thesis using g by (auto simp: no_ghosts_def)
  next
    case False
    then have "numusers d \<noteq> 1" if "d \<in> set (els cl)" "ch_addr d = ch_addr c" for d
      using only [OF that] by simp
    then show ?thesis using False g by (auto simp: no_ghosts_def vacate)
  qed
qed

lemma count_vacate_all:
  assumes "chans_ok k cl" and "no_ghosts cl" and "vacate_all ns cl = Some cl'"
  shows "no_ghosts cl' \<and> count_of cl' n = count_of cl n - int (count_list ns n) \<and> [] \<notin> set ns"
  using assms
proof (induction ns arbitrary: cl)
  case Nil
  then show ?case by simp
next
  case (Cons m ns)
  then obtain c where c: "list_seek (fun_seek_chan m) cl = Some c"
    and rest: "vacate_all ns (vacate (ch_addr c) cl) = Some cl'"
    by (auto split: option.splits)
  note v = count_vacate [OF Cons.prems(1) c Cons.prems(2)]
  have "m \<noteq> []" using list_seek_Some [OF c] by (simp add: fun_seek_chan_def)
  with Cons.IH [OF chans_ok_vacate [OF Cons.prems(1)] v(2) rest] v(1) [of n] show ?case by auto
qed

lemma count_list_distinct: "distinct xs \<Longrightarrow> count_list xs x = of_bool (x \<in> set xs)"
  by (induction xs) auto

lemma counted_exits:
  assumes "counted w" and "exits u w w'"
  shows "counted w'"
proof -
  from assms(2) obtain p cl where p: "get_person w u = Some p"
    and cl: "vacate_all (map mname (iter_rest (list_iterator_start (my_chans p)))) (chanlist w) = Some cl"
    and w': "w' = gone u p cl w"
    by (auto simp: exits_def)
  have in_w: "p \<in> set (els (userlist w))" and key: "clientSocket p = u"
    using p by (auto simp: get_person_def dest: find_SomeD)
  have u: "unique_names w" and parked: "parked w" and once: "once p" and g: "no_ghosts (chanlist w)"
    and n: "\<And>n. n \<noteq> [] \<Longrightarrow> count_of (chanlist w) n = int (length (members n w))"
    using assms(1) in_w by (simp_all add: counted_def)
  have "\<not> iter_active (my_chans p)" using parked in_w by (simp add: parked_def idle_def)
  then have cl': "vacate_all (map mname (els (my_chans p))) (chanlist w) = Some cl"
    using cl by (simp add: iter_rest_start)
  have ok: "chans_ok (next_addr w) (chanlist w)" using u by (simp add: unique_names_alt)
  have v: "no_ghosts cl"
      "count_of cl n = count_of (chanlist w) n - int (count_list (map mname (els (my_chans p))) n)"
      "[] \<notin> set (map mname (els (my_chans p)))" for n
    using count_vacate_all [OF ok g cl', of n] by auto
  have "nonempty (map mname (els (my_chans p))) = map mname (els (my_chans p))"
    by (intro filter_True) (metis v(3))
  then have "distinct (map mname (els (my_chans p)))" using once by (simp add: once_def)
  then have c: "count_of cl n = count_of (chanlist w) n - of_bool (on_chan n p)" for n
    using v(2) [of n] by (simp add: count_list_distinct on_chan_iff)
  have "distinct (map clientSocket (els (userlist w)))" using u by (simp add: unique_names_alt)
  then have "int (length (members n w')) = int (length (members n w)) - of_bool (on_chan n p)" for n
    using length_filter_remove [of clientSocket "els (userlist w)" p "on_chan n"] in_w key
    by (simp add: members_def w' gone_def)
  with n c v(1) assms u show ?thesis
    by (auto simp: counted_def unique_exits w' gone_def parked_def)
qed

lemma counted_core:
  assumes "core_eq w w'" and "parked w \<longrightarrow> parked w'" and "counted w"
  shows "counted w'"
proof -
  have u: "map skel (els (userlist w')) = map skel (els (userlist w))"
    and c: "map skel_chan (els (chanlist w')) = map skel_chan (els (chanlist w))"
    using assms(1) by (simp_all only: core_eq_def)
  have o: "(\<forall>p \<in> set (els (userlist v)). once p) \<longleftrightarrow>
      (\<forall>(s, k, t, ns) \<in> set (map skel (els (userlist v))). distinct (nonempty ns))" for v
    by (simp add: skel_def once_def)
  have 1: "(\<forall>p \<in> set (els (userlist w')). once p) \<longleftrightarrow> (\<forall>p \<in> set (els (userlist w)). once p)"
    by (simp only: o u)
  have m: "length (members n v) = length (filter (\<lambda>(s, k, t, ns). n \<in> set ns) (map skel (els (userlist v))))"
    for n v
    unfolding members_def by (simp add: filter_map comp_def skel_def on_chan_iff)
  have 2: "length (members n w') = length (members n w)" for n
    by (simp only: m u)
  have k: "count_of cl n = (case List.find (\<lambda>(a, m, k). n \<noteq> [] \<and> m = n) (map skel_chan (els cl)) of
      None \<Rightarrow> 0 | Some (a, m, k) \<Rightarrow> k)" for cl n
  proof -
    have "List.find (\<lambda>(a, m, k). n \<noteq> [] \<and> m = n) (map skel_chan xs)
      = map_option skel_chan (List.find (fun_seek_chan n) xs)" for xs
      by (induction xs) (auto simp: skel_chan_def fun_seek_chan_def)
    then show ?thesis by (simp add: count_of_def list_seek_def skel_chan_def split: option.split)
  qed
  have 3: "count_of (chanlist w') n = count_of (chanlist w) n" for n
    by (simp only: k c)
  have g: "no_ghosts cl \<longleftrightarrow> (\<forall>(a, m, k) \<in> set (map skel_chan (els cl)). m \<noteq> [] \<longrightarrow> k \<noteq> 0)" for cl
    by (simp add: no_ghosts_def skel_chan_def)
  have 4: "no_ghosts (chanlist w') \<longleftrightarrow> no_ghosts (chanlist w)"
    by (simp only: g c)
  have "unique_names w'" using unique_core [OF assms(1)] assms(3) by (simp add: counted_def)
  then show ?thesis using assms(2,3) 1 2 3 4 by (simp add: counted_def)
qed

lemma get_person_in: "get_person w u = Some p \<Longrightarrow> p \<in> set (els (userlist w)) \<and> clientSocket p = u"
  by (auto simp: get_person_def dest: find_SomeD)

lemma members_upd:
  assumes "distinct (map clientSocket (els (userlist w)))" and "get_person w u = Some p"
  shows "int (length (members n (upd_person u f w)))
    = int (length (members n w)) - of_bool (on_chan n p) + of_bool (on_chan n (f p))"
  using length_filter_upd [OF assms(1), of p "on_chan n" f] get_person_in [OF assms(2)]
  by (simp add: members_def userlist_upd_person)

lemma users_upd:
  assumes "\<forall>p \<in> set (els (userlist w)). P p" and "\<And>p. get_person w u = Some p \<Longrightarrow> P (f p)"
    and "distinct (map clientSocket (els (userlist w)))"
  shows "\<forall>p \<in> set (els (userlist (upd_person u f w))). P p"
proof -
  have "get_person w u = Some p" if "p \<in> set (els (userlist w))" "clientSocket p = u" for p
    using find_unique_key [OF assms(3) that(1)] that(2) by (simp add: get_person_def)
  then show ?thesis using assms(1,2) by (auto simp: userlist_upd_person)
qed

lemma remove_first_names:
  "distinct (nonempty (map mname ms)) \<Longrightarrow> name \<noteq> [] \<Longrightarrow> n \<noteq> [] \<Longrightarrow>
     n \<in> mname ` set (remove_first (fun_compare name) ms) \<longleftrightarrow> n \<in> mname ` set ms \<and> n \<noteq> name"
  by (induction ms) (auto simp: fun_compare_def split: if_splits)

lemma counted_parts:
  assumes "counted w"
  shows "unique_names w" "parked w" "\<And>p. p \<in> set (els (userlist w)) \<Longrightarrow> once p"
    "\<And>n. n \<noteq> [] \<Longrightarrow> count_of (chanlist w) n = int (length (members n w))"
    "no_ghosts (chanlist w)" "chans_ok (next_addr w) (chanlist w)"
    "distinct (map clientSocket (els (userlist w)))"
  using assms by (simp_all add: counted_def unique_names_alt)

lemma members_chanlist [simp]: "members n (w\<lparr>chanlist := cl\<rparr>) = members n w"
  by (simp add: members_def)

lemma parked_users: "parked w \<longleftrightarrow> (\<forall>p \<in> set (els (userlist w)). idle (my_chans p))"
  by (simp add: parked_def)

lemma counted_parted:
  assumes "counted w"
  shows "counted (parted u name w)"
proof (cases "\<exists>p c. get_person w u = Some p \<and> seek_chan w name = Some c \<and> on_chan name p")
  case False
  then have "parted u name w = w" by (auto simp: parted_def split: option.split)
  with assms show ?thesis by simp
next
  case True
  then obtain p c where p: "get_person w u = Some p" and c: "seek_chan w name = Some c"
    and on: "on_chan name p" by blast
  note parts = counted_parts [OF assms]
  let ?f = "\<lambda>p. p\<lparr>my_chans := snd (list_delete (fun_compare name) (my_chans p))\<rparr>"
  have name: "name \<noteq> []" using list_seek_Some [OF c] by (simp add: fun_seek_chan_def)
  have parted: "parted u name w = (dropped u name w)\<lparr>chanlist := vacate (ch_addr c) (chanlist w)\<rparr>"
    using p c on by (simp add: parted_def vacated_eq dropped_def)
  have in_w: "p \<in> set (els (userlist w))" using get_person_in [OF p] ..
  then have "\<not> iter_active (my_chans p)" using parts(2) by (simp add: parked_def idle_def)
  then have off: "on_chan n (?f p) \<longleftrightarrow> on_chan n p \<and> n \<noteq> name" if "n \<noteq> []" for n
    using remove_first_names [of "els (my_chans p)" name n] parts(3) [OF in_w] name that
    by (simp add: on_chan_iff els_list_delete once_def)
  have "int (length (members n (dropped u name w))) = int (length (members n w)) - of_bool (n = name)"
    if "n \<noteq> []" for n
    using members_upd [OF parts(7) p, of n ?f] off [OF that] on by (auto simp: dropped_def)
  moreover have "count_of (vacate (ch_addr c) (chanlist w)) n = count_of (chanlist w) n - of_bool (n = name)" for n
    by (rule count_vacate [OF parts(6) c parts(5)])
  moreover have "no_ghosts (vacate (ch_addr c) (chanlist w))"
    by (rule count_vacate [OF parts(6) c parts(5)])
  moreover have "\<forall>p \<in> set (els (userlist (dropped u name w))). once p"
    unfolding dropped_def
    by (rule users_upd) (use parts in \<open>auto dest: get_person_in
        simp: once_def els_list_delete distinct_nonempty_remove_first\<close>)
  moreover have "\<forall>p \<in> set (els (userlist (dropped u name w))). idle (my_chans p)"
    unfolding dropped_def
    by (rule users_upd) (use parts in \<open>auto dest: get_person_in simp: parked_def idle_def\<close>)
  ultimately show ?thesis
    using unique_parted [OF parts(1), of u name] parts(4)
    by (simp add: counted_def parted parked_users)
qed

lemma members_userlist: "userlist w' = userlist w \<Longrightarrow> members n w' = members n w"
  by (simp add: members_def)

lemma count_opened:
  assumes "counted w" and "opened name w = (a, oper, w1)"
  shows "count_of (chanlist w1) n = count_of (chanlist w) n"
    and "\<exists>c \<in> set (els (chanlist w1)). ch_addr c = a \<and> cname c = name"
    and "c \<in> set (els (chanlist w1)) \<Longrightarrow> ch_addr c \<noteq> a \<Longrightarrow> cname c \<noteq> [] \<Longrightarrow> numusers c \<noteq> 0"
    and "userlist w1 = userlist w"
proof -
  note parts = counted_parts [OF assms(1)]
  have "\<not> iter_active (chanlist w)" using parts(6) by (simp add: chans_ok_def idle_def)
  then have app: "snd (list_append (chanlist w) x) = (chanlist w)\<lparr>els := els (chanlist w) @ [x]\<rparr>" for x
    by (simp add: list_append_def list_insert_at_def list_size_def)
  have find: "List.find P (xs @ [x]) = (case List.find P xs of None \<Rightarrow> if P x then Some x else None | Some y \<Rightarrow> Some y)"
    for P x and xs :: "channel list"
    by (induction xs) auto
  show "count_of (chanlist w1) n = count_of (chanlist w) n"
    using assms(2) by (auto simp: opened_def app count_of_def list_seek_def find new_channel_def
        split: option.splits if_splits)
  show "\<exists>c \<in> set (els (chanlist w1)). ch_addr c = a \<and> cname c = name"
    using assms(2) by (auto simp: opened_def app new_channel_def fun_seek_chan_def
        split: option.splits dest!: list_seek_Some)
  show "c \<in> set (els (chanlist w1)) \<Longrightarrow> ch_addr c \<noteq> a \<Longrightarrow> cname c \<noteq> [] \<Longrightarrow> numusers c \<noteq> 0"
    using assms(2) parts(5) by (auto simp: opened_def app new_channel_def no_ghosts_def
        split: option.splits)
  show "userlist w1 = userlist w" using idle_opened [OF assms(2)] ..
qed

lemma seek_in:
  assumes ok: "chans_ok k cl" and c: "c \<in> set (els cl)" "cname c = n" "n \<noteq> []"
  shows "list_seek (fun_seek_chan n) cl = Some c"
proof -
  have "list_seek (fun_seek_chan n) cl \<noteq> None"
    using c by (auto simp: list_seek_None fun_seek_chan_def)
  then obtain d where d: "list_seek (fun_seek_chan n) cl = Some d" by blast
  have "d \<in> set (els cl)" "cname d = n" using list_seek_Some [OF d] by (simp_all add: fun_seek_chan_def)
  moreover have "inj_on cname {c \<in> set (els cl). cname c \<noteq> []}"
  proof -
    have "distinct (map cname (filter (\<lambda>c. cname c \<noteq> []) (els cl)))"
      using ok by (simp add: chans_ok_def filter_map comp_def)
    then show ?thesis by (simp add: distinct_map)
  qed
  ultimately show ?thesis using c d by (auto dest: inj_onD)
qed

lemma addr_in:
  "chans_ok k cl \<Longrightarrow> c \<in> set (els cl) \<Longrightarrow> d \<in> set (els cl) \<Longrightarrow> ch_addr d = ch_addr c \<longleftrightarrow> d = c"
  by (auto simp: chans_ok_def distinct_map dest: inj_onD)

lemma count_enter:
  assumes ok: "chans_ok k cl" and c: "c \<in> set (els cl)" "ch_addr c = a" "cname c = name"
    and n: "n \<noteq> []"
  shows "count_of (cl\<lparr>els := map (\<lambda>c. if ch_addr c = a then c\<lparr>numusers := numusers c + 1\<rparr> else c) (els cl)\<rparr>) n
    = count_of cl n + of_bool (n = name)"
proof (cases "list_seek (fun_seek_chan n) cl")
  case None
  then show ?thesis
    using seek_in [OF ok c(1,3)] n by (auto simp: count_of_def seek_chan_upd)
next
  case (Some d)
  then have "d \<in> set (els cl)" "cname d = n" using list_seek_Some [OF Some] by (simp_all add: fun_seek_chan_def)
  then have "ch_addr d = a \<longleftrightarrow> n = name" using seek_in [OF ok c(1,3)] Some c addr_in [OF ok c(1)] n by auto
  with Some show ?thesis by (simp add: count_of_def seek_chan_upd)
qed

lemma counted_joined:
  assumes "counted w" and u: "get_person w u \<noteq> None"
  shows "counted (joined u name w)"
proof -
  note parts = counted_parts [OF assms(1)]
  obtain a oper w1 where o: "opened name w = (a, oper, w1)" by (cases "opened name w")
  note opened = count_opened [OF assms(1) o]
  obtain p where p: "get_person w1 u = Some p" "get_person w u = Some p"
    using u opened(4) by (auto simp: get_person_def)
  note in_w = get_person_in [OF p(2)]
  have ok: "chans_ok (next_addr w1) (chanlist w1)"
    using unique_opened [OF parts(1) o] by (simp add: unique_names_alt)
  obtain c where c: "c \<in> set (els (chanlist w1))" "ch_addr c = a" "cname c = name"
    using opened(2) by blast
  show ?thesis
  proof (cases "on_chan name p")
    case True
    have "no_ghosts (chanlist w1)"
    proof (cases "name = []")
      case True
      have "d = c" if "d \<in> set (els (chanlist w1))" "ch_addr d = a" for d
        using addr_in [OF ok c(1) that(1)] that(2) c(2) by simp
      then show ?thesis using True c opened(3) unfolding no_ghosts_def by metis
    next
      case False
      have "0 < length (members name w)"
        using \<open>on_chan name p\<close> in_w by (auto simp: members_def filter_empty_conv)
      then have "seek_chan w name \<noteq> None" using parts(4) [OF False] by (auto simp: count_of_def split: option.splits)
      then have "w1 = w" using o by (auto simp: opened_def)
      then show ?thesis using parts(5) by simp
    qed
    moreover have "joined u name w = w1" using o p True by (simp add: joined_def)
    ultimately show ?thesis
      using unique_joined [OF parts(1), of u name] parts opened(1,4)
      by (simp add: counted_def parked_def members_def)
  next
    case False
    let ?f = "\<lambda>p. p\<lparr>my_chans := snd (list_append (my_chans p)
        \<lparr>mname = name, mmode = (if oper then ''o'' else [])\<rparr>)\<rparr>"
    let ?w = "upd_person u ?f w1"
    have "\<not> iter_active (my_chans p)" using parts(2) in_w by (simp add: parked_def idle_def)
    then have on: "on_chan n (?f p) \<longleftrightarrow> on_chan n p \<or> n = name" and names: "once (?f p)" for n
      using parts(3) [of p] in_w False by (auto simp: on_chan_iff els_list_append once_def)
    have sock: "distinct (map clientSocket (els (userlist w1)))" using parts(7) opened(4) by simp
    have joined: "joined u name w = entered u a name oper w1" using o p False by (simp add: joined_def)
    have chans: "chanlist (entered u a name oper w1) = (chanlist w1)\<lparr>els :=
        map (\<lambda>c. if ch_addr c = a then c\<lparr>numusers := numusers c + 1\<rparr> else c) (els (chanlist w1))\<rparr>"
      by (simp add: entered_def upd_channel_def)
    have users: "userlist (entered u a name oper w1) = userlist ?w"
      by (simp add: entered_def)
    have count1: "count_of (chanlist w1) n = int (length (members n w1))" if "n \<noteq> []" for n
      using opened(1) [of n] parts(4) [OF that] members_userlist [OF opened(4), of n] by simp
    have "members n (entered u a name oper w1) = members n ?w" for n
      by (rule members_userlist [OF users])
    then have "int (length (members n (entered u a name oper w1)))
        = int (length (members n w1)) + of_bool (n = name)" for n
      using members_upd [OF sock p(1), of n ?f] on False by auto
    moreover have "count_of (chanlist (entered u a name oper w1)) n
        = count_of (chanlist w1) n + of_bool (n = name)" if "n \<noteq> []" for n
      unfolding chans by (rule count_enter [OF ok c that])
    moreover have "no_ghosts (chanlist (entered u a name oper w1))"
    proof -
      have "numusers c + 1 \<noteq> 0" if "name \<noteq> []"
        using count1 [OF that] seek_in [OF ok c(1,3) that] by (simp add: count_of_def)
      moreover have "d = c" if "d \<in> set (els (chanlist w1))" "ch_addr d = a" for d
        using addr_in [OF ok c(1) that(1)] that(2) c(2) by simp
      ultimately show ?thesis using opened(3) c(3) by (auto simp: no_ghosts_def chans)
    qed
    moreover have "\<forall>p \<in> set (els (userlist ?w)). once p"
      by (rule users_upd) (use parts(3) opened(4) p names sock in auto)
    moreover have "\<forall>p \<in> set (els (userlist ?w)). idle (my_chans p)"
      by (rule users_upd) (use parts(2) opened(4) p sock in_w in \<open>auto simp: parked_def idle_def\<close>)
    ultimately show ?thesis
      using unique_joined [OF parts(1), of u name] count1 users
      by (simp add: counted_def joined parked_users)
  qed
qed

lemma counted_nick:
  assumes "counted w" and "seek_nick w n = None"
  shows "counted (upd_person u (\<lambda>p. p\<lparr>nick := n\<rparr>) w)"
proof -
  note parts = counted_parts [OF assms(1)]
  have "length (members m (upd_person u (\<lambda>p. p\<lparr>nick := n\<rparr>) w)) = length (members m w)" for m
    by (simp add: members_def userlist_upd_person filter_map comp_def if_distrib)
  moreover have "\<forall>p \<in> set (els (userlist (upd_person u (\<lambda>p. p\<lparr>nick := n\<rparr>) w))). once p \<and> idle (my_chans p)"
    by (rule users_upd) (use parts in \<open>auto simp: once_def parked_def dest: get_person_in\<close>)
  ultimately show ?thesis
    using unique_nick [OF parts(1) assms(2), of u] parts(4,5)
    by (simp add: counted_def parked_users)
qed

lemma counted_connect:
  assumes "counted w" and "\<forall>p \<in> set (els (userlist w)). clientSocket p \<noteq> sock"
  shows "counted (w\<lparr>userlist := snd (list_append (userlist w) (new_client sock name thread))\<rparr>)"
proof -
  note parts = counted_parts [OF assms(1)]
  have "\<not> iter_active (userlist w)"
    using parts(1) by (simp add: unique_names_alt idle_def)
  then have "els (snd (list_append (userlist w) (new_client sock name thread)))
      = els (userlist w) @ [new_client sock name thread]"
    by (simp add: els_list_append)
  moreover have "once (new_client sock name thread)" "idle (my_chans (new_client sock name thread))"
    "\<not> on_chan n (new_client sock name thread)" for n
    by (simp_all add: once_def new_client_def list_init_def idle_def on_chan_iff)
  ultimately show ?thesis
    using parts unique_connect [OF parts(1) assms(2), of name thread]
    by (auto simp: counted_def parked_users members_def)
qed

interpretation counts: server_invariant counted True
proof
  show "well_formed w" if "counted w" for w using that by (simp add: counted_def unique_names_def)
  show "counted w'" if "counted w" "quiet True w H w'" for w H w'
    using that counted_core by (auto simp: quiet_def)
qed (simp_all add: counted_joined counted_parted counted_connect counted_nick counted_exits)

end
