(* ===== verification/Chirc_Delivery.thy ===== *)
theory Chirc_Delivery
  imports Chirc_Counts
begin

text \<open>
  Who gets a message: \<open>sendtochannel\<close> sends to exactly the members, and PRIVMSG to a channel obeys the
  moderation rule.
\<close>

abbreviation gets :: "string \<Rightarrow> string option \<Rightarrow> person \<Rightarrow> bool" where
  "gets name sender p \<equiv> (sender = None \<or> Some (nick p) \<noteq> sender) \<and> on_chan name p"

definition recipients :: "string \<Rightarrow> string option \<Rightarrow> world \<Rightarrow> person list" where
  "recipients name sender w = filter (gets name sender) (els (userlist w))"

definition delivered :: "person list \<Rightarrow> string \<Rightarrow> world \<Rightarrow> world" where
  "delivered ps msg w = w\<lparr>out := out w @ map (\<lambda>p. (clientSocket p, msg)) ps\<rparr>"

definition can_get :: "mutex set \<Rightarrow> int set \<Rightarrow> person \<Rightarrow> bool" where
  "can_get H B p \<longleftrightarrow> C_lock (clientSocket p) \<notin> H \<and> clientSocket p \<notin> B"

lemma get_person_out [simp]: "get_person (w\<lparr>out := ms\<rparr>) u = get_person w u"
  by (simp add: get_person_def)

lemma get_person_unique:
  "distinct (map clientSocket (els (userlist w))) \<Longrightarrow> p \<in> set (els (userlist w)) \<Longrightarrow>
     get_person w (clientSocket p) = Some p"
  unfolding get_person_def by (rule find_unique_key)

lemma relays_exact:
  assumes "distinct (map clientSocket (els (userlist w)))" and "set ps \<subseteq> set (els (userlist w))"
    and "\<forall>p \<in> set ps. gets name sender p \<longrightarrow> can_get (held w) (broken w) p"
  shows "for_each (map clientSocket ps) (relay name msg sender) w
    = Inr (delivered (filter (gets name sender) ps) msg w)"
  using assms
proof (induction ps arbitrary: w)
  case Nil
  then show ?case by (simp add: delivered_def)
next
  case (Cons p ps)
  have "get_person w (clientSocket p) = Some p"
    using Cons.prems by (intro get_person_unique) simp_all
  then have "relay name msg sender (clientSocket p) w
      = Inr (if gets name sender p then w\<lparr>out := out w @ [(clientSocket p, msg)]\<rparr> else w)"
    using Cons.prems(3) by (simp add: relay_unfold send_locked_eq can_get_def)
  with Cons show ?case by (simp add: delivered_def)
qed

lemma sendtochannel_exact:
  assumes "get_channel w a = Some c" and "well_formed w" and "Glock \<notin> held w"
    and "\<forall>p \<in> set (recipients (cname c) sender w). can_get (held w) (broken w) p"
  shows "sendtochannel (Some a) msg sender w = Inr (delivered (recipients (cname c) sender w) msg w)"
proof -
  let ?w = "w\<lparr>held := insert Glock (held w), userlist := list_iterator_start (userlist w)\<rparr>"
  have idle: "idle (userlist w)" and d: "distinct (map clientSocket (els (userlist w)))"
    using assms(2) by (simp_all add: well_formed_def)
  have "for_each (map clientSocket (els (userlist w))) (relay (cname c) msg sender) ?w
      = Inr (delivered (filter (gets (cname c) sender) (els (userlist w))) msg ?w)"
    by (rule relays_exact) (use assms(4) d in \<open>auto simp: recipients_def can_get_def\<close>)
  moreover have "iter_rest (list_iterator_start (userlist w)) = els (userlist w)"
    using idle by (simp add: iter_rest_start idle_def)
  ultimately show ?thesis
    using assms(1,3) idle
    by (simp add: sendtochannel_def mutex_lock_def Let_def mutex_unlock_def delivered_def
        recipients_def idle_def)
qed

lemma held_same: "held w = H \<Longrightarrow> w\<lparr>held := H\<rparr> = w"
  by simp

lemma get_channel_unique:
  "distinct (map ch_addr (els (chanlist w))) \<Longrightarrow> c \<in> set (els (chanlist w)) \<Longrightarrow>
     get_channel w (ch_addr c) = Some c"
  unfolding get_channel_def by (rule find_unique_key)

definition status :: "person \<Rightarrow> string \<Rightarrow> string" where
  "status p t = (case list_seek (fun_seek_userchan t) (my_chans p) of Some m \<Rightarrow> mmode m | None \<Rightarrow> [])"

definition may_speak :: "person \<Rightarrow> channel \<Rightarrow> bool" where
  "may_speak p c \<longleftrightarrow> on_chan (cname c) p \<and>
     (CHR ''m'' \<in> set (cmode c) \<longrightarrow> CHR ''o'' \<in> set (umode p)
        \<or> CHR ''o'' \<in> set (status p (cname c)) \<or> CHR ''v'' \<in> set (status p (cname c)))"

definition numeric :: "string \<Rightarrow> person \<Rightarrow> world \<Rightarrow> string \<Rightarrow> string" where
  "numeric code p w text =
     take 509 (CHR '':'' # servername w @ '' '' @ code @ '' '' @ (if nick p = [] then ''*'' else nick p)
       @ '' '' @ text) @ CRLF"

lemma constr_reply_numeric:
  assumes "length (servername w) < 511"
    and "replmsg w (strtol code) (if nick p = [] then ''*'' else nick p) p reply extra = Inr text"
  shows "constr_reply code p reply w extra = Inr (numeric code p w text)"
  using assms by (simp add: constr_reply_def into_buffer_def numeric_def snprintf_def Let_def)

lemma strtol_codes:
  "strtol ''404'' = 404" "strtol ''451'' = 451" "strtol ''353'' = 353" "strtol ''366'' = 366"
  "strtol ''332'' = 332" "strtol ''401'' = 401" "strtol ''403'' = 403" "strtol ''442'' = 442"
  by (simp_all add: strtol_def)

lemma list_contains_seek:
  assumes "t \<noteq> []" and "list_contains (fun_compare t) l"
  obtains m where "list_seek (fun_seek_userchan t) l = Some m"
proof -
  have "list_seek (fun_seek_userchan t) l \<noteq> None"
    using assms by (auto simp: list_seek_None fun_seek_userchan_def list_contains_iff fun_compare_def)
  then show thesis using that by blast
qed

lemma privmsg_to_channel_exact:
  fixes params :: chirc_message
  defines "t \<equiv> params ! 1"
  assumes p: "get_person w u = Some p" and reg: "registered p" and wf: "well_formed w"
    and calm: "held w = {}" "broken w = {}"
    and target: "seek_nick w t = None" "seek_chan w t = Some c"
    and len: "length (from_client p (params ! 0 @ '' '' @ params ! 1 @ '' '' @ params ! 2)) < 510"
    and len': "length (servername w) < 511" "length t < 480"
  shows "chirc_handle_PRIVMSG u params w = Inr
    (if may_speak p c
     then delivered (recipients t (Some (nick p)) w)
       (from_client p (params ! 0 @ '' '' @ params ! 1 @ '' '' @ params ! 2) @ CRLF) w
     else w\<lparr>out := out w @ [(u, numeric ERR_CANNOTSENDTOCHAN p w (t @ '' :Cannot send to channel''))]\<rparr>)"
proof -
  have c: "c \<in> set (els (chanlist w))" "cname c = t" "t \<noteq> []"
    using list_seek_Some [OF target(2)] by (simp_all add: fun_seek_chan_def)
  have addr: "get_channel w (ch_addr c) = Some c"
    using wf c by (intro get_channel_unique) (simp_all add: well_formed_def)
  have send: "sendtochannel (Some (ch_addr c)) msg (Some (nick p)) w
      = Inr (delivered (recipients t (Some (nick p)) w) msg w)" for msg
    using sendtochannel_exact [OF addr wf, of "Some (nick p)" msg] calm c(2) by (simp add: can_get_def)
  have "constr_reply ERR_CANNOTSENDTOCHAN p [] w (Some t)
      = Inr (numeric ERR_CANNOTSENDTOCHAN p w (t @ '' :Cannot send to channel''))"
    using len' by (intro constr_reply_numeric) (simp_all add: replmsg_def strtol_codes into_buffer_def)
  then have refuse: "send_reply u ERR_CANNOTSENDTOCHAN (Some t) w
     = Inr (w\<lparr>out := out w @ [(u, numeric ERR_CANNOTSENDTOCHAN p w (t @ '' :Cannot send to channel''))]\<rparr>)"
    using p calm by (simp add: send_reply_with_def send_locked_eq)
  have pre: "chirc_handle_PRIVMSG u params w =
      privmsg_to_chan u p c t (from_client p (params ! 0 @ '' '' @ params ! 1 @ '' '' @ params ! 2) @ CRLF) w"
    using p reg calm len target
    by (simp add: chirc_handle_PRIVMSG_def t_def mutex_lock_def mutex_unlock_def Let_def
        into_buffer_def snprintf_def held_same [OF calm(1)])
  show ?thesis
  proof (cases "on_chan t p")
    case False
    then show ?thesis
      by (simp add: pre privmsg_to_chan_def refuse may_speak_def c(2))
  next
    case True
    obtain m where m: "list_seek (fun_seek_userchan t) (my_chans p) = Some m"
      using list_contains_seek [OF c(3) True] by blast
    show ?thesis
      using True calm m
      by (simp add: pre privmsg_to_chan_def refuse send may_speak_def c(2) strchr_def status_def
          mutex_lock_def mutex_unlock_def Let_def held_same [OF calm(1)])
  qed
qed

end
