(* ===== verification/Chirc_Total.thy ===== *)
theory Chirc_Total
  imports Chirc_Delivery
begin

text \<open>
  Runs that reach their end: with open sockets and names that fit the buffers of the program, JOIN and PART return.
  The copies both make of the name are the exception: \<open>malloc(strlen(name))\<close> is one byte short for
  \<open>strcpy\<close>, so the run goes on only when the allocator rounds the block up.  Both outcomes are stated.
  The rules of the collection \<open>total\<close> carry the proofs.
\<close>

named_theorems total

abbreviation never :: "stop \<Rightarrow> bool" where "never \<equiv> (\<lambda>_. False)"

definition roomy :: "world \<Rightarrow> bool" where
  "roomy w \<longleftrightarrow> unique_names w \<and> broken w = {} \<and> held w = {} \<and> length (servername w) \<le> 63
     \<and> (\<forall>p \<in> set (els (userlist w)).
          length (nick p) \<le> 9 \<and> length (user p) \<le> 10 \<and> length (address p) \<le> 63)"

text \<open>
  JOIN also lists the channel: at most thirty clients in all, and topics of at most 300 characters.
\<close>

definition listable :: "world \<Rightarrow> bool" where
  "listable w \<longleftrightarrow> length (els (userlist w)) \<le> 30
     \<and> (\<forall>c \<in> set (els (chanlist w)). length (topic c) \<le> 300)"

text \<open>The block \<open>malloc(n)\<close> gives holds the name and its terminator.\<close>

definition room_for :: "string \<Rightarrow> nat \<Rightarrow> world \<Rightarrow> bool" where
  "room_for name n w \<longleftrightarrow> length name < usable w n"

lemma strdup_into_eq:
  "strdup_into n s w = (if room_for s n w then Inr s else Inl (Fault BufferOverflow))"
  by (simp add: strdup_into_def into_buffer_def room_for_def)

lemma lock_total [total]:
  "sent w0 H w \<Longrightarrow> m \<notin> H \<Longrightarrow> (\<And>w'. sent w0 (insert m H) w' \<Longrightarrow> Q w') \<Longrightarrow>
     holds (mutex_lock m w) Q never"
  using sent_held [of w0 H w] sent_held_update [of w0 H w "insert m H"]
  by (simp add: mutex_lock_def)

lemma send_locked_total [total]:
  "sent w0 H w \<Longrightarrow> C_lock u \<notin> H \<Longrightarrow> u \<notin> broken w0 \<Longrightarrow> (\<And>w'. sent w0 H w' \<Longrightarrow> Q w') \<Longrightarrow>
     holds (send_locked u msg w) Q never"
proof -
  assume *: "sent w0 H w" "C_lock u \<notin> H" "u \<notin> broken w0" and Q: "\<And>w'. sent w0 H w' \<Longrightarrow> Q w'"
  have "broken w = broken w0" using *(1) by (auto simp: sent_def)
  with * sent_held [OF *(1)] show ?thesis by (simp add: send_locked_eq Q sent_out)
qed

lemma into_buffer_total [total]:
  "length s < n \<Longrightarrow> Q s \<Longrightarrow> holds (into_buffer n s) Q never"
  by (simp add: into_buffer_def)

lemma sent_fields:
  assumes "sent w0 H w"
  shows "servername w = servername w0" "broken w = broken w0" "usable w = usable w0"
    "stack_len w = stack_len w0" "version w = version w0" "well_formed w = well_formed w0"
proof -
  obtain ms where w: "w = w0\<lparr>out := out w0 @ ms, held := H\<rparr>" using assms unfolding sent_def by blast
  show "servername w = servername w0" "broken w = broken w0" "usable w = usable w0"
    "stack_len w = stack_len w0" "version w = version w0" "well_formed w = well_formed w0"
    by (simp_all add: w well_formed_def)
qed

lemma send_reply_total [total]:
  assumes s: "sent w0 H w" and p: "get_person w0 u = Some p" and "C_lock u \<notin> H" and "u \<notin> broken w0"
    and len: "length (servername w0) < 511"
    and r: "holds (replmsg w (strtol code) (if nick p = [] then ''*'' else nick p) p reply extra) (\<lambda>_. True) never"
    and Q: "\<And>w'. sent w0 H w' \<Longrightarrow> Q w'"
  shows "holds (send_reply_with reply u code extra w) Q never"
proof -
  obtain msg where "replmsg w (strtol code) (if nick p = [] then ''*'' else nick p) p reply extra = Inr msg"
    using r by (cases "replmsg w (strtol code) (if nick p = [] then ''*'' else nick p) p reply extra") auto
  then have "constr_reply code p reply w extra = Inr (numeric code p w msg)"
    using len by (intro constr_reply_numeric) (simp_all add: sent_fields [OF s])
  moreover have "get_person w u = Some p" using p sent_get(1) [OF s] by simp
  ultimately have "send_reply_with reply u code extra w = send_locked u (numeric code p w msg) w"
    by (simp add: send_reply_with_def)
  then show ?thesis using send_locked_total [OF s assms(3,4) Q] by simp
qed

lemma sendtochannel_total [total]:
  assumes s: "sent w0 {} w" and "get_channel w0 a = Some c" and "well_formed w0" and "broken w0 = {}"
    and Q: "\<And>w'. sent w0 {} w' \<Longrightarrow> Q w'"
  shows "holds (sendtochannel (Some a) msg sender w) Q never"
proof -
  have "sendtochannel (Some a) msg sender w = Inr (delivered (recipients (cname c) sender w) msg w)"
    using assms(2-4) by (intro sendtochannel_exact) (simp_all add: sent_get(2) [OF s] sent_fields [OF s] sent_held [OF s] can_get_def)
  then show ?thesis using sent_out [OF s] Q by (simp add: delivered_def)
qed

lemma names_loop_total:
  assumes "sent w0 H w" and "\<forall>fd \<in> set fds. \<exists>p. get_person w0 fd = Some p \<and> length (nick p) \<le> 9"
    and "\<forall>fd. C_lock fd \<notin> H" and "length chanusers + 12 * length fds < MAXMSG"
  shows "holds (names_loop name fds chanusers first w)
    (\<lambda>(s, w'). sent w0 H w' \<and> length s \<le> length chanusers + 12 * length fds) never"
  using assms
proof (induction fds arbitrary: chanusers first w)
  case Nil
  then show ?case by simp
next
  case (Cons fd fds)
  then obtain p where p: "get_person w0 fd = Some p" "length (nick p) \<le> 9" by auto
  let ?n = "length chanusers + 12 * length (fd # fds)"
  have step: "holds (names_loop name fds s f v) (\<lambda>(s, w'). sent w0 H w' \<and> length s \<le> ?n) never"
    if "sent w0 H v" "length s \<le> length chanusers + 12" for s f v
  proof -
    have "holds (names_loop name fds s f v) (\<lambda>(s', w'). sent w0 H w' \<and> length s' \<le> length s + 12 * length fds) never"
      using Cons.prems that by (intro Cons.IH) simp_all
    then show ?thesis using that(2) by (cases "names_loop name fds s f v") auto
  qed
  have lock: "C_lock fd \<notin> H" using Cons.prems(3) ..
  let ?pre = "\<lambda>m f. (if f then [] else '' '') @ (if strchr (mmode m) (CHR ''o'') then ''@'' else [])
      @ (if strchr (mmode m) (CHR ''v'') then ''+'' else [])"
  let ?nk = "\<lambda>v. if stack_len v \<le> MAXMSG then take (MAXMSG - stack_len v) (nick p) else nick p"
  have short: "length (?pre m first @ ?nk v) \<le> 12" for m v
  proof -
    have "length (?nk v) \<le> 9" using p(2) by (auto intro: min.coboundedI1)
    moreover have "length (?pre m first) \<le> 3" by simp
    ultimately show ?thesis unfolding length_append by linarith
  qed
  have room: "length chanusers + 12 < MAXMSG" using Cons.prems(4) by simp
  show ?case
  proof (cases "length chanusers < MAXMSG - 3")
    case False
    then show ?thesis using Cons.prems(1) by simp
  next
    case True
    have unlock: "sent w0 H (mutex_unlock (C_lock fd) v)" if "sent w0 (insert (C_lock fd) H) v" for v
      by (rule unlock_insert [OF that lock])
    have body: "holds (case list_seek (fun_seek_userchan name) (my_chans p) of
          None \<Rightarrow> names_loop name fds chanusers first (mutex_unlock (C_lock fd) v)
        | Some m \<Rightarrow> and_then (into_buffer MAXMSG (chanusers @ ?pre m first @ ?nk v)) (\<lambda>chanusers.
               names_loop name fds chanusers False (mutex_unlock (C_lock fd) v)))
       (\<lambda>(s, w'). sent w0 H w' \<and> length s \<le> ?n) never"
      if v: "sent w0 (insert (C_lock fd) H) v" for v
    proof (cases "list_seek (fun_seek_userchan name) (my_chans p)")
      case None
      then show ?thesis using step [OF unlock [OF v]] by simp
    next
      case (Some m)
      have "length (chanusers @ ?pre m first @ ?nk v) \<le> length chanusers + 12"
        using short [of m v] by simp
      then show ?thesis
        using step [OF unlock [OF v], of "chanusers @ ?pre m first @ ?nk v" False] room Some
        by (simp add: into_buffer_def)
    qed
    have "get_person w fd = Some p" using p sent_get(1) [OF Cons.prems(1)] by simp
    then show ?thesis
      using True
      by (simp only: names_loop.simps Let_def not_True_eq_False if_False deref_simps holds_and_then)
        (rule lock_total [OF Cons.prems(1) lock body])
  qed
qed

lemma send_names_total:
  assumes s: "sent w0 {} w" and c: "get_channel w0 a = Some c" and p: "get_person w0 u = Some p"
    and wf: "well_formed w0" and calm: "broken w0 = {}"
    and len: "length (servername w0) < 511" "length (cname c) \<le> 50" "length (els (userlist w0)) \<le> 30"
    and nicks: "\<forall>p \<in> set (els (userlist w0)). length (nick p) \<le> 9"
  shows "holds (send_names a u w) (sent w0 {}) never"
proof -
  have i: "idle (userlist w0)" and d: "distinct (map clientSocket (els (userlist w0)))"
    using wf by (simp_all add: well_formed_def)
  have loop: "holds (names_loop (cname c) (map clientSocket (iter_rest (list_iterator_start (userlist w0))))
         (CHR ''='' # CHR '' '' # cname c @ '' :'') True (v\<lparr>userlist := list_iterator_start (userlist w0)\<rparr>))
      (\<lambda>(t, v'). sent w0 {Glock} (v'\<lparr>userlist := list_iterator_stop (userlist v')\<rparr>) \<and> length t < MAXMSG) never"
    if v: "sent w0 {Glock} v" for v
  proof -
    let ?v = "v\<lparr>userlist := list_iterator_start (userlist v)\<rparr>"
    have users: "userlist v = userlist w0" by (rule sent_userlist [OF v])
    have rest: "iter_rest (list_iterator_start (userlist w0)) = els (userlist w0)"
      using i by (simp add: iter_rest_start idle_def)
    have self: "sent ?v {Glock} ?v" using sent_held [OF v] by (intro sent_refl) simp
    have "get_person ?v (clientSocket q) = Some q" if "q \<in> set (els (userlist w0))" for q
      using get_person_unique [of w0 q] d that users by (simp add: get_person_def)
    then have "holds (names_loop (cname c) (map clientSocket (els (userlist w0))) (''= '' @ cname c @ '' :'') True ?v)
      (\<lambda>(t, v'). sent ?v {Glock} v' \<and>
        length t \<le> length (''= '' @ cname c @ '' :'') + 12 * length (map clientSocket (els (userlist w0)))) never"
      using nicks len by (intro names_loop_total [OF self]) auto
    then show ?thesis
      unfolding rest users append_Cons append_Nil
      by (rule holds_mono) (use sent_walk_users [OF v i] len(2,3) users in auto)
  qed
  show ?thesis
    unfolding send_names_def Let_def
    using s c p calm len
    by (auto intro!: total holds_mono [OF loop] unlock_insert [where H = "{}"]
        simp: sent_get replmsg_def strtol_codes into_buffer_def)
qed

lemma join_replies_total:
  assumes s: "sent w0 {} w" and c: "get_channel w0 a = Some c" "cname c = name" and p: "get_person w0 u = Some p"
    and wf: "well_formed w0" and calm: "broken w0 = {}"
    and len: "length (servername w0) < 511" "length name \<le> 50" "length (els (userlist w0)) \<le> 30"
      "length (topic c) \<le> 300"
    and nicks: "\<forall>p \<in> set (els (userlist w0)). length (nick p) \<le> 9"
  shows "holds (join_replies u a name w) (sent w0 {}) never"
proof -
  have names: "holds (send_names a u v) Q never" if "sent w0 {} v" "\<And>v'. sent w0 {} v' \<Longrightarrow> Q v'" for v Q
    using send_names_total [OF that(1) c(1) p wf calm len(1) _ len(3) nicks] len(2) c(2) that(2)
    by (auto elim: holds_mono)
  have last: "holds (send_reply u RPL_ENDOFNAMES (Some name) v) (sent w0 {}) never" if "sent w0 {} v" for v
    using len by (intro send_reply_total [OF that p]) (simp_all add: calm replmsg_def strtol_codes into_buffer_def)
  have topic: "holds (send_reply_with (snprintf 511 (name @ CHR '' '' # topic c)) u RPL_TOPIC None w) Q never"
    if "\<And>v'. sent w0 {} v' \<Longrightarrow> Q v'" for Q
    using len that by (intro send_reply_total [OF s p])
      (simp_all add: calm replmsg_def strtol_codes into_buffer_def snprintf_def)
  show ?thesis
    unfolding join_replies_def
    using s c(1) p by (auto intro!: topic names last)
qed

lemma get_channel_entered:
  assumes "get_channel w a = Some c"
  shows "get_channel (entered u a name oper w) a = Some (c\<lparr>numusers := numusers c + 1\<rparr>)"
proof -
  have "List.find (\<lambda>d. ch_addr d = a) (map (\<lambda>d. if ch_addr d = a then d\<lparr>numusers := numusers d + 1\<rparr> else d) xs)
    = map_option (\<lambda>d. d\<lparr>numusers := numusers d + 1\<rparr>) (List.find (\<lambda>d. ch_addr d = a) xs)" for xs :: "channel list"
    by (induction xs) auto
  then show ?thesis
    using assms by (simp add: entered_def upd_channel_def get_channel_def upd_person_def)
qed

lemma opened_channel:
  assumes "unique_names w" and "opened name w = (a, oper, w1)" and "\<forall>c \<in> set (els (chanlist w)). length (topic c) \<le> 300"
  shows "\<exists>c. get_channel w1 a = Some c \<and> cname c = name \<and> length (topic c) \<le> 300"
proof (cases "seek_chan w name")
  case None
  have ok: "chans_ok (next_addr w) (chanlist w)" using assms(1) by (simp add: unique_names_alt)
  then have "\<forall>c \<in> set (els (chanlist w)). ch_addr c \<noteq> next_addr w" by (auto simp: chans_ok_def)
  then have "List.find (\<lambda>c. ch_addr c = next_addr w) (els (chanlist w)) = None" by (simp add: find_None_set)
  moreover have "List.find P (xs @ ys) = (case List.find P xs of None \<Rightarrow> List.find P ys | Some x \<Rightarrow> Some x)"
    for P and xs ys :: "channel list"
    by (induction xs) auto
  moreover have "\<not> iter_active (chanlist w)" using ok by (simp add: chans_ok_def idle_def)
  ultimately show ?thesis
    using assms(2) None by (auto simp: opened_def get_channel_def els_list_append new_channel_def)
next
  case (Some c)
  have "c \<in> set (els (chanlist w))" "cname c = name"
    using list_seek_Some [OF Some] by (simp_all add: fun_seek_chan_def)
  then show ?thesis
    using assms Some get_channel_unique [of w c] by (auto simp: opened_def unique_names_def well_formed_def)
qed

lemma channel_join_total:
  assumes room: "roomy w" "listable w" "room_for name (length name) w"
    and p: "get_person w u = Some p" and name: "length name \<le> 50"
  shows "\<exists>w'. channel_join u name w = Inr w' \<and> sent (joined u name w) {} w'"
proof -
  have uniq: "unique_names w" and calm: "broken w = {}" "held w = {}"
    and len: "length (servername w) < 511" "length (els (userlist w)) \<le> 30"
    and users: "\<forall>p \<in> set (els (userlist w)). length (nick p) \<le> 9 \<and> length (user p) \<le> 10 \<and> length (address p) \<le> 63"
    and topics: "\<forall>c \<in> set (els (chanlist w)). length (topic c) \<le> 300"
    using room by (auto simp: roomy_def listable_def)
  obtain a oper w1 where o: "opened name w = (a, oper, w1)" by (cases "opened name w")
  have users1: "userlist w1 = userlist w" "held w1 = {}" using idle_opened [OF o] calm by simp_all
  then have p1: "get_person w1 u = Some p" using p by (simp add: get_person_def)
  have same: "broken w1 = {}" "servername w1 = servername w"
    using o calm by (auto simp: opened_def split: option.splits)
  have start: "channel_join u name w = (if on_chan name p then Inr w1
      else and_then (into_buffer MAXMSG (snprintf (MAXMSG - 1) (from_client p (''JOIN '' @ name)) @ CRLF)) (\<lambda>reply.
           and_then (sendtochannel (Some a) reply None (entered u a name oper w1)) (\<lambda>w. join_replies u a name w)))"
    using room(3) o p1 users1 calm
    by (simp add: channel_join_def strdup_into_eq find_or_create_eq add_member_eq)
  show ?thesis
  proof (cases "on_chan name p")
    case True
    then have "joined u name w = w1" using o p1 by (simp add: joined_def)
    then show ?thesis using True start users1 by (auto intro: sent_refl)
  next
    case False
    let ?J = "entered u a name oper w1"
    let ?f = "\<lambda>p. p\<lparr>my_chans := snd (list_append (my_chans p)
        \<lparr>mname = name, mmode = (if oper then ''o'' else [])\<rparr>)\<rparr>"
    have J: "joined u name w = ?J" using o p1 False by (simp add: joined_def)
    obtain c where c: "get_channel w1 a = Some c" "cname c = name" "length (topic c) \<le> 300"
      using opened_channel [OF uniq o topics] by blast
    have wf: "well_formed ?J" using unique_joined [OF uniq, of u name] J by (simp add: unique_names_def)
    have self: "sent ?J {} ?J" by (rule sent_refl) (simp add: users1)
    have calmJ: "broken ?J = {}" "servername ?J = servername w"
      by (simp_all add: entered_def same)
    have usersJ: "els (userlist ?J) = map (\<lambda>p. if clientSocket p = u then ?f p else p) (els (userlist w))"
      by (simp add: entered_def userlist_upd_person users1)
    have pJ: "get_person ?J u = Some (?f p)"
      using list_size_get_person [of ?f u w1] p1 by (simp add: entered_def get_person_def)
    have join: "length (snprintf (MAXMSG - 1) (from_client p (''JOIN '' @ name)) @ CRLF) < MAXMSG"
    proof -
      have "p \<in> set (els (userlist w))" using get_person_in [OF p] ..
      then have "length (nick p) \<le> 9" "length (user p) \<le> 10" "length (address p) \<le> 63"
        using users by auto
      then have "length (from_client p (''JOIN '' @ name)) \<le> 141"
        using name by (simp add: from_client_def)
      then show ?thesis by (simp add: snprintf_id)
    qed
    have "holds (and_then (sendtochannel (Some a) reply None ?J) (join_replies u a name)) (sent ?J {}) never" for reply
      unfolding holds_and_then
      by (rule sendtochannel_total [OF self get_channel_entered [OF c(1)] wf calmJ(1)],
          rule join_replies_total [OF _ get_channel_entered [OF c(1)] _ pJ wf calmJ(1)])
        (use c len users name in \<open>auto simp: calmJ usersJ\<close>)
    then have "holds (channel_join u name w) (sent ?J {}) never"
      using start False join by (simp add: into_buffer_def)
    then show ?thesis unfolding J by (cases "channel_join u name w") auto
  qed
qed

lemma get_channel_upd:
  assumes "\<And>c. ch_addr (f c) = ch_addr c"
  shows "get_channel (upd_channel a f w) a = map_option f (get_channel w a)"
proof -
  have "List.find (\<lambda>c. ch_addr c = a) (map (\<lambda>c. if ch_addr c = a then f c else c) xs)
      = map_option f (List.find (\<lambda>c. ch_addr c = a) xs)" for xs
    by (induction xs) (simp_all add: assms)
  then show ?thesis by (simp add: get_channel_def upd_channel_def)
qed

lemma remove_member_eq:
  "remove_member u a name w =
     (if C_lock u \<in> held w \<or> Chan_lock a \<in> held w then Inl (Fault SelfDeadlock)
      else let w = upd_channel a (\<lambda>c. c\<lparr>numusers := numusers c - 1\<rparr>) (dropped u name w) in
        deref (get_channel w a) (\<lambda>c. if numusers c = 0 then channel_destroy a w else Inr w))"
  by (auto simp: remove_member_def mutex_lock_def mutex_unlock_def Let_def
      dropped_def upd_person_def upd_channel_def cong del: if_weak_cong)

lemma remove_member_exact:
  assumes "held w = {}" and "get_channel w a = Some c"
  shows "remove_member u a name w = Inr (vacated a (dropped u name w))"
proof -
  let ?w = "upd_channel a (\<lambda>c. c\<lparr>numusers := numusers c - 1\<rparr>) (dropped u name w)"
  have "get_channel (dropped u name w) a = Some c"
    using assms(2) by (simp add: dropped_def get_channel_def)
  then have "get_channel ?w a = Some (c\<lparr>numusers := numusers c - 1\<rparr>)"
    by (simp add: get_channel_upd)
  moreover have "held ?w = {}" using assms(1) by simp
  ultimately show ?thesis
    using assms(1) by (simp add: remove_member_eq channel_destroy_eq vacated_def Let_def)
qed

lemma chirc_handle_PART_total:
  fixes params :: chirc_message
  assumes room: "roomy w" and p: "get_person w u = Some p"
    and fits: "room_for (params ! 1) (length (params ! 1)) w" "room_for (params ! 1) 8 w"
    and name: "length (params ! 1) \<le> 50" and len2: "length (params ! 2) \<le> 300"
  shows "\<exists>w'. chirc_handle_PART u params w = Inr w' \<and> sent (parted u (params ! 1) w) {} w'"
proof -
  have uniq: "unique_names w" and calm: "broken w = {}" "held w = {}"
    and len: "length (servername w) < 511"
    and users: "\<forall>p \<in> set (els (userlist w)). length (nick p) \<le> 9 \<and> length (user p) \<le> 10 \<and> length (address p) \<le> 63"
    using room by (auto simp: roomy_def)
  have wf: "well_formed w" using uniq by (simp add: unique_names_def)
  have self: "sent w {} w" using calm(2) by (rule sent_refl)
  have reply: "holds (send_reply u code (Some (params ! 1)) w) (sent w {}) never"
    if "code = ERR_NOSUCHCHANNEL \<or> code = ERR_NOTONCHANNEL" for code
    using that name calm
    by (intro send_reply_total [OF self p _ _ len]) (auto simp: replmsg_def strtol_codes into_buffer_def)
  have line: "length (snprintf (MAXMSG - 1) (from_client p (''PART '' @ params ! 1
      @ (if params ! 2 = [] then [] else '' '' @ params ! 2))) @ CRLF) < MAXMSG"
  proof -
    have "length (nick p) \<le> 9" "length (user p) \<le> 10" "length (address p) \<le> 63"
      using users get_person_in [OF p] by auto
    then have "length (from_client p (''PART '' @ params ! 1 @ (if params ! 2 = [] then [] else '' '' @ params ! 2))) \<le> 450"
      using name len2 by (simp add: from_client_def)
    then show ?thesis by (simp add: snprintf_id)
  qed
  have start: "chirc_handle_PART u params w = (case seek_chan w (params ! 1) of
      None \<Rightarrow> send_reply u ERR_NOSUCHCHANNEL (Some (params ! 1)) w
    | Some c \<Rightarrow> if \<not> on_chan (params ! 1) p then send_reply u ERR_NOTONCHANNEL (Some (params ! 1)) w
        else and_then (sendtochannel (Some (ch_addr c)) (snprintf (MAXMSG - 1) (from_client p (''PART '' @ params ! 1
            @ (if params ! 2 = [] then [] else '' '' @ params ! 2))) @ CRLF) None w) (\<lambda>w.
          remove_member u (ch_addr c) (params ! 1) w))"
    using p fits line calm
    by (cases "params ! 2 = []")
      (simp_all add: chirc_handle_PART_def strdup_into_eq into_buffer_def mutex_lock_def mutex_unlock_def
        Let_def held_same [OF calm(2)] split: option.split)
  have "holds (chirc_handle_PART u params w) (sent (parted u (params ! 1) w) {}) never"
  proof (cases "seek_chan w (params ! 1)")
    case None
    then show ?thesis using start reply p by (simp add: parted_def)
  next
    case (Some c)
    then have "c \<in> set (els (chanlist w))" by (auto dest: list_seek_Some)
    then have c: "get_channel w (ch_addr c) = Some c"
      using wf by (intro get_channel_unique) (simp_all add: well_formed_def)
    have "holds (sendtochannel (Some (ch_addr c)) reply None w)
        (\<lambda>v. holds (remove_member u (ch_addr c) (params ! 1) v)
           (sent (vacated (ch_addr c) (dropped u (params ! 1) w)) {}) never) never" for reply
    proof (rule sendtochannel_total [OF self c wf calm(1)])
      fix v assume v: "sent w {} v"
      have "remove_member u (ch_addr c) (params ! 1) v = Inr (vacated (ch_addr c) (dropped u (params ! 1) v))"
        using sent_held [OF v] sent_get(2) [OF v] c by (intro remove_member_exact) simp_all
      then show "holds (remove_member u (ch_addr c) (params ! 1) v)
           (sent (vacated (ch_addr c) (dropped u (params ! 1) w)) {}) never"
        using sent_vacated [OF sent_dropped [OF v]] by simp
    qed
    then show ?thesis using start reply Some p by (simp add: parted_def)
  qed
  then show ?thesis by (cases "chirc_handle_PART u params w") auto
qed

text \<open>Without the room the copy of the name writes behind its block, before anything else is done.\<close>

lemma channel_join_overflow:
  "\<not> room_for name (length name) w \<Longrightarrow> channel_join u name w = Inl (Fault BufferOverflow)"
  by (simp add: channel_join_def strdup_into_eq)

lemma chirc_handle_PART_overflow:
  assumes "get_person w u = Some p"
    and "\<not> (room_for (params ! 1) (length (params ! 1)) w \<and> room_for (params ! 1) 8 w)"
  shows "chirc_handle_PART u params w = Inl (Fault BufferOverflow)"
  using assms by (simp add: chirc_handle_PART_def strdup_into_eq)

end
