(* ===== verification/Chirc_Stream.thy ===== *)
theory Chirc_Stream
  imports Chirc_Total
begin

text \<open>
  The parser against a reference: \<open>messages\<close> cuts a whole stream at CR LF, and the receive loop
  handles the same messages however the stream comes in; the parameters of a message that was
  written come back.
\<close>

function messages :: "string \<Rightarrow> string list \<times> string" where
  "messages s = (case strstr_crlf s of
     None \<Rightarrow> ([], s)
   | Some n \<Rightarrow> let (ms, r) = messages (drop (n + 2) s) in (take n s # ms, r))"
  by pat_completeness auto
termination
  by (relation "measure length") (auto dest: strstr_crlf_less)

declare messages.simps [simp del]

lemma messages_None: "strstr_crlf s = None \<Longrightarrow> messages s = ([], s)"
  by (simp add: messages.simps)

lemma messages_Some:
  "strstr_crlf s = Some n \<Longrightarrow>
     messages s = (take n s # fst (messages (drop (n + 2) s)), snd (messages (drop (n + 2) s)))"
  by (subst messages.simps) (simp add: case_prod_beta)

lemma strstr_crlf_append: "strstr_crlf s = Some n \<Longrightarrow> strstr_crlf (s @ t) = Some n"
  by (induction s arbitrary: n rule: strstr_crlf.induct) (auto split: if_splits)

lemma strstr_crlf_skip:
  assumes "strstr_crlf a = None" and "a = [] \<or> last a \<noteq> CR \<or> b = [] \<or> hd b \<noteq> LF"
  shows "strstr_crlf (a @ b) = map_option (\<lambda>n. length a + n) (strstr_crlf b)"
  using assms
proof (induction a)
  case Nil
  then show ?case by (simp add: option.map_ident)
next
  case (Cons c a)
  then show ?case
    by (cases a; cases b) (auto simp: option.map_comp comp_def split: if_splits)
qed

lemma messages_append:
  "messages (a @ b) = (fst (messages a) @ fst (messages (snd (messages a) @ b)), snd (messages (snd (messages a) @ b)))"
proof (induction a rule: messages.induct)
  case (1 s)
  show ?case
  proof (cases "strstr_crlf s")
    case None
    then show ?thesis by (simp add: messages_None)
  next
    case (Some n)
    note less = strstr_crlf_less [OF Some]
    have "messages (drop (n + 2) s @ b) = (fst (messages (drop (n + 2) s)) @ fst (messages (snd (messages (drop (n + 2) s)) @ b)),
        snd (messages (snd (messages (drop (n + 2) s)) @ b)))"
      using 1 [OF Some] .
    then show ?thesis
      using less by (simp add: messages_Some [OF Some] messages_Some [OF strstr_crlf_append [OF Some]])
  qed
qed

lemma messages_rest: "strstr_crlf (snd (messages s)) = None"
proof (induction s rule: messages.induct)
  case (1 s)
  then show ?case
    by (cases "strstr_crlf s") (simp_all add: messages_None messages_Some)
qed

lemma messages_rest_suffix: "\<exists>p. s = p @ snd (messages s)"
proof (induction s rule: messages.induct)
  case (1 s)
  show ?case
  proof (cases "strstr_crlf s")
    case None
    then show ?thesis by (simp add: messages_None)
  next
    case (Some n)
    then obtain p where "drop (n + 2) s = p @ snd (messages (drop (n + 2) s))" using 1 by blast
    then have "s = (take (n + 2) s @ p) @ snd (messages s)"
      by (simp add: messages_Some [OF Some]) 
    then show ?thesis by blast
  qed
qed

text \<open>A stretch of messages as the reference cuts it, handled one after the other.\<close>

lemma complete_messages_reference:
  assumes "strstr_crlf (rx_msg r) = None"
    and "rx_msg r = [] \<or> last (rx_msg r) \<noteq> CR \<or> s = [] \<or> hd s \<noteq> LF"
    and "rx_msglength r = length (rx_msg r)"
    and "\<forall>m \<in> set (fst (messages (rx_msg r @ s))). length m \<le> 510"
  shows "complete_messages u s start r w =
    (if fst (messages (rx_msg r @ s)) = [] then Inr (s, start, r, w)
     else and_then (for_each (fst (messages (rx_msg r @ s))) (parse u) w) (\<lambda>w.
       Inr (snd (messages (rx_msg r @ s)), start + length s - length (snd (messages (rx_msg r @ s))),
            r\<lparr>rx_msg := [], rx_msglength := 0\<rparr>, w)))"
  using assms
proof (induction "length s" arbitrary: s start r w rule: less_induct)
  case less
  note skip = strstr_crlf_skip [OF less.prems(1,2)]
  show ?case
  proof (cases "strstr_crlf s")
    case None
    then have "messages (rx_msg r @ s) = ([], rx_msg r @ s)" using skip by (intro messages_None) simp
    with None show ?thesis by (simp add: complete_messages.simps)
  next
    case (Some n)
    let ?s = "drop (n + 2) s" and ?r = "r\<lparr>rx_msg := [], rx_msglength := 0\<rparr>"
    have n: "Suc n < length s" by (rule strstr_crlf_less [OF Some])
    have at: "strstr_crlf (rx_msg r @ s) = Some (length (rx_msg r) + n)" using skip Some by simp
    have ms: "messages (rx_msg r @ s) = ((rx_msg r @ take n s) # fst (messages ?s), snd (messages ?s))"
      using messages_Some [OF at] by simp
    have len: "length (rx_msg r) + n \<le> 510" using less.prems(4) n by (simp add: ms)
    have IH: "complete_messages u ?s (start + n + 2) ?r v =
      (if fst (messages ?s) = [] then Inr (?s, start + n + 2, ?r, v)
       else and_then (for_each (fst (messages ?s)) (parse u) v) (\<lambda>w.
         Inr (snd (messages ?s), start + n + 2 + length ?s - length (snd (messages ?s)), ?r, w)))" for v
      using less.hyps [of ?s ?r "start + n + 2" v] n less.prems(4) by (simp add: ms)
    have rest: "length (snd (messages ?s)) \<le> length ?s"
      using messages_rest_suffix [of ?s] by (metis length_append le_add2)
    have none: "snd (messages ?s) = ?s" if "fst (messages ?s) = []"
    proof -
      have "strstr_crlf ?s = None"
      proof (rule ccontr)
        assume "strstr_crlf ?s \<noteq> None"
        then show False using that by (auto simp: messages_Some)
      qed
      then show ?thesis by (simp add: messages_None)
    qed
    have ar: "start + n + 2 + length ?s = start + length s" using n by simp
    have IH': "complete_messages u ?s (start + n + 2) ?r = (\<lambda>v.
       and_then (for_each (fst (messages ?s)) (parse u) v) (\<lambda>w.
         Inr (snd (messages ?s), start + length s - length (snd (messages ?s)), ?r, w)))"
    proof (rule ext)
      fix v
      show "complete_messages u ?s (start + n + 2) ?r v =
        and_then (for_each (fst (messages ?s)) (parse u) v) (\<lambda>w.
          Inr (snd (messages ?s), start + length s - length (snd (messages ?s)), ?r, w))"
        unfolding IH ar using none rest n by auto
    qed
    have "complete_messages u s start r w = and_then (parse u (rx_msg r @ take n s) w)
        (complete_messages u ?s (start + n + 2) ?r)"
      using Some len less.prems(3) n
      by (subst complete_messages.simps) (simp add: into_buffer_def)
    then show ?thesis
      by (simp only: IH' ms fst_conv snd_conv list.distinct if_False for_each.simps and_then_assoc)
  qed
qed

text \<open>
  Between two rounds the reader keeps what came after the last CR LF, and whether it ends in CR.
\<close>

definition ends_cr :: "string \<Rightarrow> bool" where
  "ends_cr p \<longleftrightarrow> p \<noteq> [] \<and> last p = CR"

definition rx_at :: "string \<Rightarrow> rx" where
  "rx_at p = \<lparr>rx_msg = p, rx_msglength = length p, rx_truncated = False, rx_CRLFsplit = ends_cr p\<rparr>"

lemma rx_at_Nil: "rx_at [] = rx_init"
  by (simp add: rx_at_def rx_init_def ends_cr_def)

text \<open>
  What the reader makes of the messages of one round: all of them as they are, but for one.  A message
  whose CR LF is torn, the CR the last byte of a chunk and the LF the first byte of the next, is handled
  without its last character (\<open>msg[msglength - 2] = NUL\<close> cuts the CR and the character before it).
\<close>

definition torn :: "string \<Rightarrow> string \<Rightarrow> bool" where
  "torn p c \<longleftrightarrow> ends_cr p \<and> c \<noteq> [] \<and> hd c = LF"

definition heard_round :: "string \<Rightarrow> string \<Rightarrow> string list" where
  "heard_round p c =
     (let ms = fst (messages (p @ c)) in if torn p c then butlast (hd ms) # tl ms else ms)"

primrec heard :: "string \<Rightarrow> string list \<Rightarrow> string list" where
  "heard p [] = []"
| "heard p (c # cs) = heard_round p c @ heard (snd (messages (p @ c))) cs"

definition proper_chunk :: "string \<Rightarrow> bool" where
  "proper_chunk c \<longleftrightarrow> c \<noteq> [] \<and> NUL \<notin> set c"

lemma cstring_id: "NUL \<notin> set s \<Longrightarrow> cstring s = s"
  unfolding cstring_def by (induction s) auto

lemma messages_no_fst: "fst (messages s) = [] \<Longrightarrow> snd (messages s) = s"
  by (cases "strstr_crlf s") (auto simp: messages_None messages_Some)

lemma messages_rest_le: "length (snd (messages s)) \<le> length s"
  using messages_rest_suffix [of s] by (metis length_append le_add2)

lemma messages_torn:
  assumes "torn p c" and "strstr_crlf p = None"
  shows "messages (p @ c) = (butlast p # fst (messages (tl c)), snd (messages (tl c)))"
proof -
  obtain q where p: "p = q @ [CR]" using assms(1) by (metis append_butlast_last_id ends_cr_def torn_def)
  obtain d where c: "c = LF # d" using assms(1) by (cases c) (auto simp: torn_def)
  have "strstr_crlf (xs @ [CR]) = None \<Longrightarrow> strstr_crlf xs = None \<and> (xs = [] \<or> last xs \<noteq> CR \<or> hd (CR # LF # d) \<noteq> LF)" for xs
    by (induction xs rule: strstr_crlf.induct) (auto split: if_splits)
  then have "strstr_crlf q = None" and "q = [] \<or> last q \<noteq> CR \<or> hd (CR # LF # d) \<noteq> LF"
    using assms(2) by (auto simp: p)
  then have "strstr_crlf (q @ CR # LF # d) = Some (length q)"
    using strstr_crlf_skip [of q "CR # LF # d"] by simp
  then show ?thesis by (simp add: messages_Some p c)
qed

text \<open>After the messages of a round the rest is kept.\<close>

lemma keep_rest:
  assumes "length q \<le> 510" and "q = [] \<longrightarrow> start \<noteq> 0"
  shows "keep_remainder u q start (rx_at []) w = Inr (rx_at q, w)"
  using assms
  by (auto simp: keep_remainder_def into_buffer_def rx_at_def ends_cr_def Let_def)

lemma keep_more:
  assumes "length (p @ c) \<le> 510" and "c \<noteq> []"
  shows "keep_remainder u c 0 ((rx_at p)\<lparr>rx_CRLFsplit := False\<rparr>) w = Inr (rx_at (p @ c), w)"
proof -
  have "length c \<le> 512 - length p - 1" using assms(1) by simp
  then show ?thesis
    using assms by (auto simp: keep_remainder_def into_buffer_def rx_at_def ends_cr_def Let_def)
qed

text \<open>The two ends of a round: from a fresh start, and behind what is kept.\<close>

lemma rest_of_round:
  assumes "\<forall>m \<in> set (fst (messages s)). length m \<le> 510" and "length (snd (messages s)) \<le> 510"
    and "start \<noteq> 0"
  shows "and_then (complete_messages u s start (rx_at []) w) (\<lambda>(s, start, r, w). keep_remainder u s start r w)
    = and_then (for_each (fst (messages s)) (parse u) w) (\<lambda>w. Inr (rx_at (snd (messages s)), w))"
proof -
  have fresh: "(rx_at [])\<lparr>rx_msg := [], rx_msglength := 0\<rparr> = rx_at []" by (simp add: rx_at_def)
  note loop = complete_messages_reference [of "rx_at []" s u start w]
  have "length (snd (messages s)) < start + length s" using assms(3) messages_rest_le [of s] by simp
  then have keep: "keep_remainder u (snd (messages s)) (start + length s - length (snd (messages s))) (rx_at []) v
      = Inr (rx_at (snd (messages s)), v)" for v
    using assms(2) by (intro keep_rest) auto
  have plain: "rx_msg (rx_at []) = []" "rx_msglength (rx_at []) = 0" by (simp_all add: rx_at_def)
  show ?thesis
  proof (cases "fst (messages s) = []")
    case True
    then show ?thesis
      using loop assms messages_no_fst [OF True] keep_rest [OF assms(2), of start u w] by (simp add: plain)
  next
    case False
    then show ?thesis using loop assms(1) keep by (simp add: plain fresh and_then_assoc)
  qed
qed

lemma behind_the_rest:
  assumes p: "strstr_crlf p = None" and c: "c \<noteq> []" and "\<not> torn p c"
    and short: "\<forall>m \<in> set (fst (messages (p @ c))). length m \<le> 510" "length (snd (messages (p @ c))) \<le> 510"
  shows "and_then (complete_messages u c 0 ((rx_at p)\<lparr>rx_CRLFsplit := False\<rparr>) w)
      (\<lambda>(s, start, r, w). keep_remainder u s start r w)
    = and_then (for_each (fst (messages (p @ c))) (parse u) w) (\<lambda>w. Inr (rx_at (snd (messages (p @ c))), w))"
proof -
  let ?ms = "fst (messages (p @ c))" and ?rest = "snd (messages (p @ c))"
  let ?r = "(rx_at p)\<lparr>rx_CRLFsplit := False\<rparr>"
  have fresh: "?r\<lparr>rx_msg := [], rx_msglength := 0\<rparr> = rx_at []" by (simp add: rx_at_def ends_cr_def)
  have fields: "rx_msg ?r = p" "rx_msglength ?r = length p" by (simp_all add: rx_at_def)
  have join: "p = [] \<or> last p \<noteq> CR \<or> c = [] \<or> hd c \<noteq> LF"
    using assms(3) by (auto simp: torn_def ends_cr_def)
  note loop = complete_messages_reference [of ?r c u 0 w, unfolded fields, OF p join refl short(1)]
  show ?thesis
  proof (cases "?ms = []")
    case True
    then have "?rest = p @ c" by (rule messages_no_fst)
    then show ?thesis using True loop keep_more [of p c u w] c short(2) by simp
  next
    case False
    have less: "length ?rest < length c"
    proof (cases "strstr_crlf c")
      case None
      then have "strstr_crlf (p @ c) = None" using strstr_crlf_skip [OF p join] by simp
      then show ?thesis using False by (simp add: messages_None)
    next
      case (Some n)
      then have at: "strstr_crlf (p @ c) = Some (length p + n)" using strstr_crlf_skip [OF p join] by simp
      have "?rest = snd (messages (drop (n + 2) c))" by (simp add: messages_Some [OF at])
      then show ?thesis
        using messages_rest_le [of "drop (n + 2) c"] strstr_crlf_less [OF Some] by simp
    qed
    have "keep_remainder u ?rest (length c - length ?rest) (rx_at []) v = Inr (rx_at ?rest, v)" for v
      using less short(2) by (intro keep_rest) auto
    then show ?thesis using False loop unfolding fresh by (simp add: and_then_assoc)
  qed
qed

lemma recv_round_reference:
  assumes p: "strstr_crlf p = None" "length p \<le> 510" and c: "proper_chunk c" and w: "Glock \<notin> held w"
    and full: "torn p c \<longrightarrow> [] \<notin> set (fst (messages (p @ c)))"
    and short: "\<forall>m \<in> set (fst (messages (p @ c))). length m \<le> 510"
      "length (snd (messages (p @ c))) \<le> 510"
  shows "recv_round u (Some c) (rx_at p) w =
      and_then (for_each (heard_round p c) (parse u) w) (\<lambda>w. Inr (rx_at (snd (messages (p @ c))), w))"
proof -
  have start: "recv_round u (Some c) (rx_at p) w =
      and_then (finish_split u c (rx_at p) w) (\<lambda>(start, r, w).
      and_then (finish_truncated c start r) (\<lambda>(start, r).
      and_then (complete_messages u (drop start c) start r w) (\<lambda>(s, start, r, w).
      keep_remainder u s start r w)))"
    using c w
    by (simp add: recv_round_def mutex_lock_def mutex_unlock_def proper_chunk_def cstring_id)
  have nonempty: "c \<noteq> []" using c by (simp add: proper_chunk_def)
  show ?thesis
  proof (cases "torn p c")
    case True
    note ms = messages_torn [OF True p(1)]
    have two: "2 \<le> length p"
    proof -
      have "butlast p \<noteq> []" using full True by (auto simp: ms)
      then show ?thesis by (cases p; cases "tl p") auto
    qed
    have cut: "take (length p - 2) p = butlast (butlast p)"
      using two by (simp add: butlast_conv_take numeral_2_eq_2)
    have split: "finish_split u c (rx_at p) w
        = and_then (parse u (butlast (butlast p)) w) (\<lambda>w. Inr (1, rx_at [], w))"
      using True two cut
      by (simp add: finish_split_def torn_def rx_at_def ends_cr_def Let_def)
    have rest: "and_then (complete_messages u (tl c) (Suc 0) (rx_at []) v) (\<lambda>(s, start, r, w). keep_remainder u s start r w)
        = and_then (for_each (fst (messages (tl c))) (parse u) v) (\<lambda>w. Inr (rx_at (snd (messages (tl c))), w))" for v
      using short by (intro rest_of_round) (simp_all add: ms)
    have fin: "finish_truncated c (Suc 0) (rx_at []) = Inr (Suc 0, rx_at [])"
      by (simp add: finish_truncated_def rx_at_def)
    show ?thesis
      using True by (simp add: start split fin rest heard_round_def ms drop_Suc and_then_assoc)
  next
    case False
    have split: "finish_split u c (rx_at p) w = Inr (0, (rx_at p)\<lparr>rx_CRLFsplit := False\<rparr>, w)"
      using False nonempty by (auto simp: finish_split_def torn_def rx_at_def Let_def)
    have fin: "finish_truncated c 0 ((rx_at p)\<lparr>rx_CRLFsplit := False\<rparr>) = Inr (0, (rx_at p)\<lparr>rx_CRLFsplit := False\<rparr>)"
      by (simp add: finish_truncated_def rx_at_def)
    show ?thesis
      using False behind_the_rest [OF p(1) nonempty False short]
      by (simp add: start split fin heard_round_def)
  qed
qed

lemma parses_keep:
  assumes "unique_names w" and "held w = {}"
  shows "holds (for_each ms (parse u) w) (\<lambda>w'. unique_names w' \<and> held w' = {}) (\<lambda>_. True)"
proof (rule for_each_holds)
  fix m v assume "unique_names v \<and> held v = {}"
  then have "holds (parse u m v) (\<lambda>w'. unique_names w' \<and> held w' = {}) (ends (\<lambda>w'. unique_names w' \<and> held w' = {}))"
    by (intro names.parse_good) simp_all
  then show "holds (parse u m v) (\<lambda>w'. unique_names w' \<and> held w' = {}) (\<lambda>_. True)"
    by (cases "parse u m v") simp_all
qed (use assms in simp)

lemma and_then_cong_holds:
  "holds r P (\<lambda>_. True) \<Longrightarrow> (\<And>x. P x \<Longrightarrow> f x = g x) \<Longrightarrow> and_then r f = and_then r g"
  by (cases r) simp_all

text \<open>
  The messages of a stream fit when the buffer of 511 bytes holds each of them, and its CR where a chunk
  may end in one; a torn empty message is the case \<open>msg[-1]\<close>.
\<close>

definition tears :: "string list \<Rightarrow> bool" where
  "tears chunks \<longleftrightarrow> (\<exists>c \<in> set chunks. ends_cr c)"

definition fitting :: "bool \<Rightarrow> string list \<times> string \<Rightarrow> bool" where
  "fitting t mr \<longleftrightarrow> (\<forall>m \<in> set (fst mr). length m \<le> (if t then 509 else 510) \<and> (t \<longrightarrow> m \<noteq> []))
     \<and> length (snd mr) \<le> 510"

text \<open>What is kept after a round is the start of a message, with its CR if the chunk ends in it.\<close>

lemma rest_fits:
  assumes "fitting t (messages (q @ s))" and "strstr_crlf q = None" and "ends_cr q \<longrightarrow> t"
  shows "length q \<le> 510"
proof (cases "torn q s")
  case True
  have "length (butlast q) \<le> 509"
    using True assms by (simp add: messages_torn [OF True assms(2)] fitting_def torn_def)
  then show ?thesis by (simp add: length_butlast) 
next
  case False
  then have skip: "strstr_crlf (q @ s) = map_option (\<lambda>n. length q + n) (strstr_crlf s)"
    using assms(2) by (intro strstr_crlf_skip) (auto simp: torn_def ends_cr_def)
  show ?thesis
  proof (cases "strstr_crlf s")
    case None
    then show ?thesis using skip assms(1) by (simp add: messages_None fitting_def)
  next
    case (Some n)
    then have "length (take (length q + n) (q @ s)) \<le> 510"
      using skip assms(1) by (simp add: messages_Some fitting_def split: if_splits)
    moreover have "Suc n < length s" by (rule strstr_crlf_less [OF Some])
    ultimately show ?thesis by simp
  qed
qed

lemma rest_ends_cr: "ends_cr (snd (messages s)) \<Longrightarrow> ends_cr s"
  using messages_rest_suffix [of s] by (metis append_is_Nil_conv ends_cr_def last_appendR)

lemma recv_rounds_reference:
  assumes "strstr_crlf p = None" and "ends_cr p \<longrightarrow> t" and "tears chunks \<longrightarrow> t"
    and "\<forall>c \<in> set chunks. proper_chunk c" and "unique_names w" and "held w = {}"
    and "fitting t (messages (p @ concat chunks))"
  shows "recv_rounds u (map Some chunks) (rx_at p) w =
    and_then (for_each (heard p chunks) (parse u) w)
      (\<lambda>w. Inr (rx_at (snd (messages (p @ concat chunks))), w))"
  using assms
proof (induction chunks arbitrary: p w)
  case Nil
  then show ?case by (simp add: messages_None)
next
  case (Cons c chunks)
  let ?ms = "fst (messages (p @ c))" and ?rest = "snd (messages (p @ c))"
  have app: "messages (p @ c @ concat chunks) =
      (?ms @ fst (messages (?rest @ concat chunks)), snd (messages (?rest @ concat chunks)))"
    using messages_append [of "p @ c" "concat chunks"] by simp
  have fits: "fitting t (messages (?rest @ concat chunks))"
    and ms: "\<forall>m \<in> set ?ms. length m \<le> (if t then 509 else 510) \<and> (t \<longrightarrow> m \<noteq> [])"
    using Cons.prems(7) by (auto simp: app fitting_def)
  have c: "c \<noteq> []" using Cons.prems(4) by (simp add: proper_chunk_def)
  have "ends_cr ?rest \<longrightarrow> t"
    using rest_ends_cr [of "p @ c"] c Cons.prems(3) by (auto simp: ends_cr_def tears_def)
  moreover have "tears chunks \<longrightarrow> t" using Cons.prems(3) by (auto simp: tears_def)
  ultimately have IH: "recv_rounds u (map Some chunks) (rx_at ?rest) v =
      and_then (for_each (heard ?rest chunks) (parse u) v)
        (\<lambda>w. Inr (rx_at (snd (messages (?rest @ concat chunks))), w))"
    if "unique_names v \<and> held v = {}" for v
    using that Cons.prems(4) by (intro Cons.IH messages_rest fits) simp_all
  have "recv_round u (Some c) (rx_at p) w =
      and_then (for_each (heard_round p c) (parse u) w) (\<lambda>w. Inr (rx_at ?rest, w))"
  proof (rule recv_round_reference)
    show "length p \<le> 510" using rest_fits [OF Cons.prems(7,1,2)] .
    show "length ?rest \<le> 510"
      using rest_fits [OF fits messages_rest] \<open>ends_cr ?rest \<longrightarrow> t\<close> by blast
    show "torn p c \<longrightarrow> [] \<notin> set ?ms" using ms Cons.prems(2) by (auto simp: torn_def)
    show "\<forall>m \<in> set ?ms. length m \<le> 510" using ms by (auto split: if_splits)
  qed (use Cons.prems in simp_all)
  then have "recv_rounds u (map Some (c # chunks)) (rx_at p) w =
      and_then (for_each (heard_round p c) (parse u) w) (\<lambda>w. recv_rounds u (map Some chunks) (rx_at ?rest) w)"
    by (simp add: and_then_assoc)
  also have "\<dots> = and_then (for_each (heard_round p c) (parse u) w) (\<lambda>w.
      and_then (for_each (heard ?rest chunks) (parse u) w)
        (\<lambda>w. Inr (rx_at (snd (messages (?rest @ concat chunks))), w)))"
    using parses_keep [OF Cons.prems(5,6)] IH by (rule and_then_cong_holds)
  finally show ?case by (simp add: app for_each_append and_then_assoc)
qed

text \<open>Without a torn CR LF what is heard is the stream; with one, messages lose at most their last character.\<close>

lemma heard_untorn:
  "\<not> ends_cr p \<Longrightarrow> \<not> tears chunks \<Longrightarrow> \<forall>c \<in> set chunks. c \<noteq> [] \<Longrightarrow>
     heard p chunks = fst (messages (p @ concat chunks))
     \<or> strstr_crlf p \<noteq> None"
proof (induction chunks arbitrary: p)
  case Nil
  then show ?case by (cases "strstr_crlf p") (simp_all add: messages_None)
next
  case (Cons c chunks)
  let ?rest = "snd (messages (p @ c))"
  have "\<not> ends_cr (p @ c)" using Cons.prems by (simp add: tears_def ends_cr_def)
  then have "\<not> ends_cr ?rest" using rest_ends_cr by blast
  then have "heard ?rest chunks = fst (messages (?rest @ concat chunks))"
    using Cons.IH [of ?rest] Cons.prems messages_rest [of "p @ c"] by (simp add: tears_def)
  then show ?case
    using Cons.prems(1) messages_append [of "p @ c" "concat chunks"]
    by (simp add: heard_round_def torn_def)
qed

lemma heard_shorter:
  assumes "strstr_crlf p = None"
  shows "list_all2 (\<lambda>m h. h = m \<or> h = butlast m) (fst (messages (p @ concat chunks))) (heard p chunks)"
  using assms
proof (induction chunks arbitrary: p)
  case Nil
  then show ?case by (simp add: messages_None)
next
  case (Cons c chunks)
  let ?R = "\<lambda>m h :: string. h = m \<or> h = butlast m"
  have "list_all2 ?R (fst (messages (p @ c))) (heard_round p c)"
  proof (cases "torn p c")
    case True
    then show ?thesis
      by (simp add: heard_round_def messages_torn [OF True Cons.prems] list.rel_refl)
  qed (simp add: heard_round_def list.rel_refl)
  then show ?case
    using Cons.IH [OF messages_rest] messages_append [of "p @ c" "concat chunks"]
    by (simp add: list_all2_appendI)
qed

subsection \<open>The parameters of a message come back\<close>

text \<open>A message on the wire: words separated by single spaces, and a trailing parameter.\<close>

fun wire :: "string list \<Rightarrow> string" where
  "wire [] = []"
| "wire [x] = x"
| "wire (x # xs) = x @ '' '' @ wire xs"

definition word_param :: "string \<Rightarrow> bool" where
  "word_param x \<longleftrightarrow> x \<noteq> [] \<and> CHR '' '' \<notin> set x \<and> hd x \<noteq> CHR '':''"

lemma parse_word:
  assumes "CHR '' '' \<notin> set x" and "k = 0 \<longrightarrow> x \<noteq> [] \<longrightarrow> hd x \<noteq> CHR '':''"
    and "n < 16" and "length params = 16" and "length (params ! n) = k" and "k + length x \<le> 510"
  shows "parse_loop (x @ rest) n k params = parse_loop rest n (k + length x) (params[n := params ! n @ x])"
  using assms
proof (induction x arbitrary: k params)
  case Nil
  then show ?case by simp
next
  case (Cons c x)
  have "c \<noteq> CHR '' ''" "\<not> (c = CHR '':'' \<and> k = 0)" using Cons.prems(1,2) by auto
  then have "parse_loop ((c # x) @ rest) n k params
      = parse_loop (x @ rest) n (Suc k) (params[n := params ! n @ [c]])"
    using Cons.prems(3-6) by (auto simp: set_param_def into_buffer_def)
  also have "\<dots> = parse_loop rest n (Suc k + length x) ((params[n := params ! n @ [c]])[n := params[n := params ! n @ [c]] ! n @ x])"
    using Cons.prems by (intro Cons.IH) simp_all
  finally show ?case using Cons.prems by simp
qed

lemma parse_words:
  assumes "xs \<noteq> []" and "\<forall>x \<in> set xs. word_param x" and "n + length xs \<le> 16"
    and "length params = 16" and "\<forall>i \<in> {n..<16}. params ! i = []" and "length (wire xs) \<le> 510"
  shows "parse_loop (wire xs @ rest) n 0 params
    = parse_loop rest (n + length xs - 1) (length (last xs)) (take n params @ xs @ drop (n + length xs) params)"
  using assms
proof (induction xs arbitrary: n params rule: wire.induct)
  case 1
  then show ?case by simp
next
  case (2 x)
  then have "parse_loop (x @ rest) n 0 params = parse_loop rest n (length x) (params[n := x])"
    by (subst parse_word) (simp_all add: word_param_def)
  moreover have "params[n := x] = take n params @ [x] @ drop (n + 1) params"
    using 2 by (simp add: upd_conv_take_nth_drop)
  ultimately show ?case by simp
next
  case (3 x y ys)
  let ?ps = "params[n := x]"
  have "parse_loop (wire (x # y # ys) @ rest) n 0 params
      = parse_loop ('' '' @ wire (y # ys) @ rest) n (length x) ?ps"
    using 3(2-) by (simp del: append_Cons) (subst parse_word, simp_all add: word_param_def)
  also have "\<dots> = parse_loop (wire (y # ys) @ rest) (Suc n) 0 ?ps"
    using 3(2-) by (simp add: set_param_def into_buffer_def word_param_def)
  also have "\<dots> = parse_loop rest (Suc n + length (y # ys) - 1) (length (last (y # ys)))
      (take (Suc n) ?ps @ (y # ys) @ drop (Suc n + length (y # ys)) ?ps)"
    using 3(2-) by (intro 3(1)) simp_all
  also have "take (Suc n) ?ps = take n params @ [x]"
    using 3(2-) by (simp add: take_Suc_conv_app_nth)
  finally show ?case using 3(2-) by simp
qed

lemma parse_params_words:
  assumes "xs \<noteq> []" and "\<forall>x \<in> set xs. word_param x" and "length xs \<le> 16" and "length (wire xs) \<le> 510"
  shows "parse_params (wire xs) = Inr (xs @ replicate (16 - length xs) [])"
  using parse_words [of xs 0 "replicate MAXPARAMS []" "[]"] assms
  by (simp add: parse_params_def)

lemma parse_params_trailing:
  assumes "xs \<noteq> []" and "\<forall>x \<in> set xs. word_param x" and "length xs \<le> 15"
    and "length (wire xs) + length t \<le> 508"
  shows "parse_params (wire xs @ '' :'' @ t) = Inr (xs @ [CHR '':'' # t] @ replicate (15 - length xs) [])"
proof -
  have xs: "take (length (last xs)) (last xs) = last xs" by simp
  have last: "(xs @ replicate (16 - length xs) []) ! (length xs - 1) = last xs"
    using assms(1) by (simp add: nth_append last_conv_nth)
  have len: "length (last xs) \<le> 510"
    using assms(1,4)
  proof (induction xs rule: wire.induct)
    case (3 x y ys)
    then show ?case by simp
  qed simp_all
  have "parse_params (wire xs @ '' :'' @ t) =
      parse_loop ('' :'' @ t) (length xs - 1) (length (last xs)) (xs @ replicate (16 - length xs) [])"
    using parse_words [of xs 0 "replicate MAXPARAMS []" "'' :'' @ t"] assms
    by (simp add: parse_params_def)
  also have "\<dots> = Inr ((xs @ replicate (16 - length xs) [])[length xs := CHR '':'' # t])"
  proof -
    have "set_param (length xs - 1) (last xs) (xs @ replicate (16 - length xs) [])
        = Inr (xs @ replicate (16 - length xs) [])"
      using assms(1,3) len last
      by (simp add: set_param_def into_buffer_def list_update_same_conv)
    then show ?thesis
      using assms(1,3,4) last by (simp add: set_param_def into_buffer_def)
  qed
  also have "(xs @ replicate (16 - length xs) [])[length xs := CHR '':'' # t]
      = xs @ [CHR '':'' # t] @ replicate (15 - length xs) []"
  proof -
    have "16 - length xs = Suc (15 - length xs)" using assms(3) by simp
    then show ?thesis by simp
  qed
  finally show ?thesis .
qed

end
