(* ===== verification/Chirc_Races.thy ===== *)
theory Chirc_Races
  imports Chirc_Total
begin

text \<open>
  What the atomic steps of \<open>Chirc_Server\<close> leave out.  Every client has a thread of its own, and two
  handlers give \<open>lock\<close> back between a test and the change that rests on it: NICK between the search for
  the nick and the copy of it (\<open>handlers.c:111\<close> and \<open>:143\<close>, \<open>:150\<close>), \<open>channel_join\<close> between the search for the
  channel and its creation (\<open>channel.c:53\<close> and \<open>:68\<close>).  Here both are cut where no mutex is held, the pieces
  are shown to be the handlers, and two threads run them one piece at a time.
\<close>

subsection \<open>The pieces\<close>

definition nick_check :: "string \<Rightarrow> world \<Rightarrow> stop + bool \<times> world" where
  "nick_check newnick w =
     and_then (mutex_lock Glock w) (\<lambda>w.
     Inr (seek_nick w newnick \<noteq> None, mutex_unlock Glock w))"

definition nick_change :: "int \<Rightarrow> string \<Rightarrow> bool \<Rightarrow> world \<Rightarrow> run" where
  "nick_change u newnick taken w =
     deref (get_person w u) (\<lambda>p.
     if taken then send_reply u ERR_NICKNAMEINUSE (Some newnick) w
     else if nick p \<noteq> [] then
       and_then (into_buffer MAXMSG
                   (snprintf (MAXMSG - 2) (from_client p (''NICK :'' @ newnick)) @ CRLF)) (\<lambda>reply.
       and_then (send_locked u reply w) (\<lambda>w.
       and_then (sendtoallchans u reply w) (\<lambda>w.
       set_nick u newnick w)))
     else
       and_then (set_nick u newnick w) (\<lambda>w.
       if user p \<noteq> [] then do_registration u w else Inr w))"

definition chan_check :: "string \<Rightarrow> world \<Rightarrow> stop + nat option \<times> world" where
  "chan_check name w =
     and_then (mutex_lock Glock w) (\<lambda>w.
     Inr (map_option ch_addr (seek_chan w name), mutex_unlock Glock w))"

definition chan_create :: "string \<Rightarrow> nat option \<Rightarrow> world \<Rightarrow> stop + (nat \<times> bool \<times> world)" where
  "chan_create name found w =
     (case found of
        Some a \<Rightarrow> Inr (a, False, w)
      | None \<Rightarrow>
          let a = next_addr w; w = w\<lparr>next_addr := Suc a\<rparr> in
          and_then (mutex_lock Glock w) (\<lambda>w.
          let w = w\<lparr>chanlist := snd (list_append (chanlist w) (new_channel a name))\<rparr> in
          Inr (a, True, mutex_unlock Glock w)))"

definition chan_enter :: "int \<Rightarrow> string \<Rightarrow> nat \<Rightarrow> bool \<Rightarrow> world \<Rightarrow> run" where
  "chan_enter u name a oper w =
     deref (get_person w u) (\<lambda>p.
     if on_chan name p then Inr w
     else
       and_then (add_member u a name oper w) (\<lambda>w.
       and_then (into_buffer MAXMSG
                   (snprintf (MAXMSG - 1) (from_client p (''JOIN '' @ name)) @ CRLF)) (\<lambda>reply.
       and_then (sendtochannel (Some a) reply None w) (\<lambda>w.
       join_replies u a name w))))"

text \<open>Run one after the other the pieces are the handlers.\<close>

lemma NICK_pieces:
  "chirc_handle_NICK u msg w =
     deref (get_person w u) (\<lambda>_. and_then (nick_check (msg ! 1) w) (\<lambda>(taken, w). nick_change u (msg ! 1) taken w))"
proof (cases "get_person w u")
  case (Some p)
  then have "get_person (mutex_unlock Glock (w\<lparr>held := insert Glock (held w)\<rparr>)) u = Some p"
    by (simp add: get_person_def mutex_unlock_def)
  with Some show ?thesis
    by (simp add: chirc_handle_NICK_def nick_check_def nick_change_def mutex_lock_def Let_def)
qed (simp add: chirc_handle_NICK_def)

lemma channel_join_pieces:
  "channel_join u name w =
     and_then (strdup_into (length name) name w) (\<lambda>name.
     and_then (chan_check name w) (\<lambda>(found, w).
     and_then (chan_create name found w) (\<lambda>(a, oper, w).
     chan_enter u name a oper w)))"
proof -
  have "find_or_create n v = and_then (chan_check n v) (\<lambda>(found, v). chan_create n found v)" for n v
    by (simp add: find_or_create_def chan_check_def chan_create_def mutex_lock_def mutex_unlock_def Let_def
        split: option.split)
  then show ?thesis
    by (simp add: channel_join_def chan_enter_def and_then_assoc split_def)
qed

subsection \<open>Two threads\<close>

text \<open>What a thread remembers between its pieces, and the pieces by the client they run for.\<close>

datatype waiting = Nick_seen string bool | Chan_seen string "nat option" | Chan_made string nat bool

datatype piece = Nick_check int string | Nick_change int
  | Chan_check int string | Chan_create int | Chan_enter int

type_synonym pending = "int \<rightharpoonup> waiting"

fun client_of :: "piece \<Rightarrow> int" where
  "client_of (Nick_check u n) = u" | "client_of (Nick_change u) = u"
| "client_of (Chan_check u n) = u" | "client_of (Chan_create u) = u" | "client_of (Chan_enter u) = u"

text \<open>A piece runs in the thread of its client; one that is not due does nothing.\<close>

definition run_piece :: "piece \<Rightarrow> pending \<times> world \<Rightarrow> stop + pending \<times> world" where
  "run_piece x s =
     (let (ps, w) = s; u = client_of x in
      deref (get_person w u) (\<lambda>p.
      let w = w\<lparr>self := tid p\<rparr> in
      case (x, ps u) of
        (Nick_check u n, None) \<Rightarrow>
          and_then (nick_check n w) (\<lambda>(taken, w). Inr (ps(u \<mapsto> Nick_seen n taken), w))
      | (Nick_change u, Some (Nick_seen n taken)) \<Rightarrow>
          and_then (nick_change u n taken w) (\<lambda>w. Inr (ps(u := None), w))
      | (Chan_check u n, None) \<Rightarrow>
          and_then (strdup_into (length n) n w) (\<lambda>n.
          and_then (chan_check n w) (\<lambda>(found, w). Inr (ps(u \<mapsto> Chan_seen n found), w)))
      | (Chan_create u, Some (Chan_seen n found)) \<Rightarrow>
          and_then (chan_create n found w) (\<lambda>(a, oper, w). Inr (ps(u \<mapsto> Chan_made n a oper), w))
      | (Chan_enter u, Some (Chan_made n a oper)) \<Rightarrow>
          and_then (chan_enter u n a oper w) (\<lambda>w. Inr (ps(u := None), w))
      | _ \<Rightarrow> Inr (ps, w)))"

definition interleaved :: "piece list \<Rightarrow> world \<Rightarrow> stop + pending \<times> world" where
  "interleaved xs w = for_each xs run_piece (Map.empty, w)"

text \<open>In the order of the serial server the pieces of one client are its handler.\<close>

lemma interleaved_NICK:
  assumes "get_person w u = Some p" and "tid p = self w"
  shows "and_then (interleaved [Nick_check u (msg ! 1), Nick_change u] w) (\<lambda>(_, w). Inr w)
    = chirc_handle_NICK u msg w"
proof (cases "Glock \<in> held w")
  case False
  have "w\<lparr>self := tid p\<rparr> = w" using assms(2) by simp
  moreover have "get_person (mutex_unlock Glock (w\<lparr>held := insert Glock (held w)\<rparr>)) u = Some p"
    using assms(1) by (simp add: get_person_def mutex_unlock_def)
  moreover have "(mutex_unlock Glock (w\<lparr>held := insert Glock (held w)\<rparr>))\<lparr>self := tid p\<rparr>
      = mutex_unlock Glock (w\<lparr>held := insert Glock (held w)\<rparr>)"
    using assms(2) by (simp add: mutex_unlock_def)
  ultimately show ?thesis
    using assms(1) False
    by (simp add: interleaved_def run_piece_def NICK_pieces nick_check_def mutex_lock_def and_then_assoc Let_def)
qed (use assms in \<open>simp add: interleaved_def run_piece_def NICK_pieces nick_check_def mutex_lock_def\<close>)

subsection \<open>The races\<close>

text \<open>Clients that have given neither a nick nor a user name yet.\<close>

definition newcomer :: "world \<Rightarrow> int \<Rightarrow> bool" where
  "newcomer w u \<longleftrightarrow> (\<exists>p. get_person w u = Some p \<and> nick p = [] \<and> user p = [])"

lemma get_person_self [simp]: "get_person (w\<lparr>self := t\<rparr>) u = get_person w u"
  by (simp add: get_person_def)

lemma get_person_upd_nick:
  "get_person (upd_person v (\<lambda>p. p\<lparr>nick := n\<rparr>) w) u
     = map_option (\<lambda>p. if v = u then p\<lparr>nick := n\<rparr> else p) (get_person w u)"
proof -
  have "List.find (\<lambda>p. clientSocket p = u) (map (\<lambda>p. if clientSocket p = v then p\<lparr>nick := n\<rparr> else p) ps)
    = map_option (\<lambda>p. if v = u then p\<lparr>nick := n\<rparr> else p) (List.find (\<lambda>p. clientSocket p = u) ps)" for ps
    by (induction ps) auto
  then show ?thesis by (simp add: get_person_def upd_person_def)
qed

lemma nick_check_free: "held w = {} \<Longrightarrow> nick_check n w = Inr (seek_nick w n \<noteq> None, w)"
  by (simp add: nick_check_def mutex_lock_def mutex_unlock_def held_same)

lemma nick_change_newcomer:
  assumes "held w = {}" and "newcomer w u"
  shows "nick_change u n False w = Inr (upd_person u (\<lambda>p. p\<lparr>nick := n\<rparr>) w)"
proof -
  have "mutex_unlock Glock (upd_person u f (w\<lparr>held := insert Glock (held w)\<rparr>)) = upd_person u f w" for f
    using assms(1) by (simp add: mutex_unlock_def upd_person_def held_same)
  then show ?thesis
    using assms by (auto simp: newcomer_def nick_change_def set_nick_def mutex_lock_def)
qed

text \<open>
  Both searches run before either copy: two clients end up with the same nick.
\<close>

lemma nick_race:
  assumes "held w = {}" and "newcomer w a" and "newcomer w b" and "a \<noteq> b" and "seek_nick w n = None"
  shows "\<exists>ps w' p q. interleaved [Nick_check a n, Nick_check b n, Nick_change a, Nick_change b] w = Inr (ps, w')
    \<and> get_person w' a = Some p \<and> get_person w' b = Some q \<and> nick p = n \<and> nick q = n"
proof -
  obtain p q where a: "get_person w a = Some p" "nick p = []" "user p = []"
    and b: "get_person w b = Some q" "nick q = []" "user q = []"
    using assms(2,3) by (auto simp: newcomer_def)
  let ?set = "upd_person a (\<lambda>p. p\<lparr>nick := n\<rparr>) (w\<lparr>self := tid p\<rparr>)"
  have self: "newcomer (v\<lparr>self := t\<rparr>) u \<longleftrightarrow> newcomer v u" for v t u by (simp add: newcomer_def)
  have qb: "get_person ?set b = Some q" using b assms(4) by (simp add: get_person_upd_nick)
  then have "newcomer (?set\<lparr>self := tid q\<rparr>) b" using b by (simp add: newcomer_def)
  moreover have "held (?set\<lparr>self := tid q\<rparr>) = {}" using assms(1) by simp
  ultimately have "interleaved [Nick_check a n, Nick_check b n, Nick_change a, Nick_change b] w
      = Inr (Map.empty(a := None, b := None), upd_person b (\<lambda>p. p\<lparr>nick := n\<rparr>) (?set\<lparr>self := tid q\<rparr>))"
    using assms a b qb
    by (simp add: interleaved_def run_piece_def nick_check_free nick_change_newcomer self Let_def)
  then show ?thesis using a b assms(4) by (simp add: get_person_upd_nick)
qed

text \<open>
  The same with JOIN: both searches run before either creation, and the server has two channels of the
  same name, each client operator of its own.
\<close>

lemma chan_check_free: "held w = {} \<Longrightarrow> chan_check n w = Inr (map_option ch_addr (seek_chan w n), w)"
  by (simp add: chan_check_def mutex_lock_def mutex_unlock_def held_same)

lemma chan_create_free:
  assumes "held w = {}" and "idle (chanlist w)"
  shows "chan_create n None w = Inr (next_addr w, True, w\<lparr>next_addr := Suc (next_addr w),
    chanlist := (chanlist w)\<lparr>els := els (chanlist w) @ [new_channel (next_addr w) n]\<rparr>\<rparr>)"
  using assms
  by (simp add: chan_create_def mutex_lock_def mutex_unlock_def Let_def list_append_def list_insert_at_def
      list_size_def idle_def held_same)

lemma join_race:
  assumes "held w = {}" and "idle (chanlist w)" and "get_person w a \<noteq> None" and "get_person w b \<noteq> None"
    and "a \<noteq> b" and "seek_chan w n = None" and "room_for n (length n) w"
  shows "\<exists>ps w' c d. interleaved [Chan_check a n, Chan_check b n, Chan_create a, Chan_create b] w = Inr (ps, w')
    \<and> ps a = Some (Chan_made n (ch_addr c) True) \<and> ps b = Some (Chan_made n (ch_addr d) True)
    \<and> els (chanlist w') = els (chanlist w) @ [c, d] \<and> cname c = n \<and> cname d = n \<and> ch_addr c \<noteq> ch_addr d"
proof -
  obtain p q where pq: "get_person w a = Some p" "get_person w b = Some q" using assms(3,4) by blast
  let ?c = "new_channel (next_addr w) n" and ?d = "new_channel (Suc (next_addr w)) n"
  let ?new = "\<lambda>cs. (chanlist w)\<lparr>els := els (chanlist w) @ cs\<rparr>"
  have get: "get_person (v\<lparr>next_addr := m, chanlist := cl\<rparr>) u = get_person v u" for v m cl u
    by (simp add: get_person_def)
  have room: "room_for n (length n) (w\<lparr>self := t\<rparr>)" for t using assms(7) by (simp add: room_for_def)
  have idle: "idle (?new [?c])" using assms(2) by (simp add: idle_def)
  have "interleaved [Chan_check a n, Chan_check b n, Chan_create a, Chan_create b] w
    = Inr (Map.empty(a \<mapsto> Chan_made n (next_addr w) True, b \<mapsto> Chan_made n (Suc (next_addr w)) True),
           w\<lparr>self := tid q, next_addr := Suc (Suc (next_addr w)), chanlist := ?new [?c, ?d]\<rparr>)"
    using assms pq idle
    by (simp add: interleaved_def run_piece_def strdup_into_eq room chan_check_free chan_create_free Let_def get)
  then show ?thesis
    using assms(5) by (intro exI [of _ ?c] exI [of _ ?d] exI) (auto simp: new_channel_def)
qed

text \<open>Both outcomes contradict the invariant of the serial server.\<close>

lemma distinct_nonempty_inj:
  "distinct (nonempty (map f xs)) \<Longrightarrow> x \<in> set xs \<Longrightarrow> y \<in> set xs \<Longrightarrow> f x = f y \<Longrightarrow> f x \<noteq> [] \<Longrightarrow> x = y"
proof (induction xs)
  case (Cons z zs)
  have "f z \<noteq> [] \<longrightarrow> f z \<notin> f ` set zs" using Cons.prems(1) by auto
  moreover have "distinct (nonempty (map f zs))" using Cons.prems(1) by (simp split: if_splits)
  ultimately show ?case using Cons.IH Cons.prems(2-5) by (metis image_eqI set_ConsD)
qed simp

lemma nick_race_breaks:
  assumes "held w = {}" and "newcomer w a" and "newcomer w b" and "a \<noteq> b" and "n \<noteq> []"
    and "seek_nick w n = None"
  shows "\<exists>ps w'. interleaved [Nick_check a n, Nick_check b n, Nick_change a, Nick_change b] w = Inr (ps, w')
    \<and> \<not> unique_names w'"
proof -
  obtain ps w' p q where run: "interleaved [Nick_check a n, Nick_check b n, Nick_change a, Nick_change b] w = Inr (ps, w')"
    and pq: "get_person w' a = Some p" "get_person w' b = Some q" "nick p = n" "nick q = n"
    using nick_race [OF assms(1-4,6)] by blast
  have "\<not> unique_names w'"
  proof
    assume "unique_names w'"
    then have "distinct (nonempty (map nick (els (userlist w'))))" by (simp add: unique_names_def)
    moreover have "p \<in> set (els (userlist w'))" "q \<in> set (els (userlist w'))"
      "clientSocket p = a" "clientSocket q = b"
      using get_person_in [OF pq(1)] get_person_in [OF pq(2)] by simp_all
    moreover have "nick p = nick q" "nick p \<noteq> []" using pq(3,4) assms(5) by simp_all
    ultimately show False using distinct_nonempty_inj [of nick "els (userlist w')" p q] assms(4) by auto
  qed
  with run show ?thesis by blast
qed

lemma join_race_breaks:
  assumes "held w = {}" and "unique_names w" and "get_person w a \<noteq> None" and "get_person w b \<noteq> None"
    and "a \<noteq> b" and "n \<noteq> []" and "seek_chan w n = None" and "room_for n (length n) w"
  shows "\<exists>ps w'. interleaved [Chan_check a n, Chan_check b n, Chan_create a, Chan_create b] w = Inr (ps, w')
    \<and> \<not> unique_names w'"
proof -
  have "idle (chanlist w)" using assms(2) by (simp add: unique_names_def well_formed_def)
  from join_race [OF assms(1) this assms(3-5,7,8)] obtain ps w' c d where
    run: "interleaved [Chan_check a n, Chan_check b n, Chan_create a, Chan_create b] w = Inr (ps, w')"
    and cd: "els (chanlist w') = els (chanlist w) @ [c, d]" "cname c = n" "cname d = n"
    by blast
  have "\<not> unique_names w'" using cd assms(6) by (simp add: unique_names_def)
  with run show ?thesis by blast
qed

end
