(* ===== verification/Chirc_Properties.thy ===== *)
theory Chirc_Properties
  imports Chirc_Stream Chirc_Races
begin

text \<open>
  The properties of the chirc server, each with a witness on a small server: two clients,
  ann and bob, on one moderated channel.
\<close>

subsection \<open>A small server\<close>

definition empty_env :: world where
  "empty_env = \<lparr>pw = [], servername = ''irc.example'', port = [], version = [], birthday = [],
     userlist = list_init, chanlist = list_init, numregistered = 0,
     out = [], closed = [], held = {}, misuse = [], cancelled = [], self = 1, next_addr = 1,
     broken = {}, usable = (\<lambda>n. n + 24), motd_file = None, stack_len = 0, stack_char = NUL\<rparr>"

definition on :: "string \<Rightarrow> string \<Rightarrow> mychan clist" where
  "on name m = \<lparr>els = [\<lparr>mname = name, mmode = m\<rparr>], iter_active = False, iter_pos = 0\<rparr>"

definition ann :: person where
  "ann = (new_client 4 ''host'' 1)\<lparr>nick := ''ann'', user := ''a'', my_chans := on ''#a'' ''o''\<rparr>"

definition bob :: person where
  "bob = (new_client 5 ''host'' 2)\<lparr>nick := ''bob'', user := ''b'', my_chans := on ''#a'' []\<rparr>"

definition small_server :: world where
  "small_server = empty_env\<lparr>
     userlist := list_init\<lparr>els := [ann, bob]\<rparr>,
     chanlist := list_init\<lparr>els := [(new_channel 0 ''#a'')\<lparr>cmode := ''m'', numusers := 2\<rparr>]\<rparr>,
     numregistered := 2\<rparr>"

lemmas small_defs = small_server_def empty_env_def on_def ann_def bob_def new_client_def
  new_channel_def list_init_def

lemma small_unique: "unique_names small_server"
  by (simp add: unique_names_def well_formed_def idle_def small_defs)

lemma small_counted: "counted small_server"
proof -
  have "count_of (chanlist small_server) n = int (length (members n small_server))" if "n \<noteq> []" for n
    using that by (simp add: count_of_def list_seek_def fun_seek_chan_def members_def on_chan_iff small_defs)
  then show ?thesis
    using small_unique
    by (simp add: counted_def parked_def once_def no_ghosts_def idle_def small_defs)
qed

text \<open>The same server on an allocator that gives exactly the bytes asked for.\<close>

definition exact_server :: world where
  "exact_server = small_server\<lparr>usable := (\<lambda>n. n)\<rparr>"

lemma small_roomy: "roomy small_server" "roomy exact_server"
proof -
  show small: "roomy small_server"
    using small_unique by (simp add: roomy_def) (simp add: small_defs)
  then show "roomy exact_server"
    by (simp add: roomy_def exact_server_def unique_names_def well_formed_def)
qed

lemma small_listable: "listable small_server" "listable exact_server"
  by (simp_all add: listable_def exact_server_def) (simp_all add: small_defs)

lemma small_person: "get_person small_server 4 = Some ann" "get_person small_server 5 = Some bob"
  "get_person exact_server 4 = Some ann" "get_person exact_server 5 = Some bob"
  by (simp_all add: get_person_def exact_server_def small_defs)

subsection \<open>Names and locks\<close>

text \<open>
  C1.  As long as handlers do not overlap, that is, each message, connection and disconnection is
  dealt with to its end before the next one (\<open>serially_reachable\<close>), the server never lets two clients
  have the same non-empty nick, two channels the same non-empty name or two clients the same
  socket, and after every message all mutexes are free.  The program does not enforce that order,
  and the restriction is needed: in every such state two clients whose threads run NICK one
  critical section at a time, both searching before either copies, end up with the same nick, and
  two that run JOIN that way with two channels of the same name.
\<close>

theorem names_stay_unique:
  assumes "chirc_main opts now env = Some w" and "serially_reachable w w'"
  shows "unique_names w' \<and> held w' = {}
    \<and> (\<forall>a b n. newcomer w' a \<and> newcomer w' b \<and> a \<noteq> b \<and> n \<noteq> [] \<and> seek_nick w' n = None \<longrightarrow>
        (\<exists>ps v. interleaved [Nick_check a n, Nick_check b n, Nick_change a, Nick_change b] w' = Inr (ps, v)
           \<and> \<not> unique_names v))
    \<and> (\<forall>a b n. newcomer w' a \<and> newcomer w' b \<and> a \<noteq> b \<and> n \<noteq> [] \<and> seek_chan w' n = None
          \<and> room_for n (length n) w' \<longrightarrow>
        (\<exists>ps v. interleaved [Chan_check a n, Chan_check b n, Chan_create a, Chan_create b] w' = Inr (ps, v)
           \<and> \<not> unique_names v))"
proof -
  have "unique_names w \<and> held w = {}"
    using assms(1) by (auto simp: chirc_main_def unique_names_def well_formed_def idle_def list_init_def
        split: option.splits)
  then have "unique_names w' \<and> held w' = {}" using names.serially_reachable_good [OF assms(2)] by simp
  then show ?thesis
    using nick_race_breaks [of w'] join_race_breaks [of w'] by (auto simp: newcomer_def)
qed

lemma names_stay_unique_witness:
  "\<exists>w w'. chirc_main [(CHR ''o'', ''secret'')] ''now'' empty_env = Some w \<and> serially_reachable w w'
     \<and> map clientSocket (els (userlist w')) = [4, 5] \<and> unique_names w' \<and> held w' = {}
     \<and> (\<exists>ps v. interleaved [Nick_check 4 ''ann'', Nick_check 5 ''ann'', Nick_change 4, Nick_change 5] w'
          = Inr (ps, v) \<and> \<not> unique_names v)
     \<and> (\<exists>ps v. interleaved [Chan_check 4 ''#a'', Chan_check 5 ''#a'', Chan_create 4, Chan_create 5] w'
          = Inr (ps, v) \<and> \<not> unique_names v)"
proof -
  obtain w where w: "chirc_main [(CHR ''o'', ''secret'')] ''now'' empty_env = Some w"
    by (simp add: chirc_main_def)
  then have users: "userlist w = list_init" "chanlist w = list_init" "held w = {}" "usable w = (\<lambda>n. n + 24)"
    by (auto simp: chirc_main_def empty_env_def)
  let ?w1 = "w\<lparr>userlist := list_init\<lparr>els := [new_client 4 ''host'' 1]\<rparr>\<rparr>"
  let ?w2 = "w\<lparr>userlist := list_init\<lparr>els := [new_client 4 ''host'' 1, new_client 5 ''host'' 2]\<rparr>\<rparr>"
  have "serial_step w ?w1"
    by (rule serial_connect [of 4 "''host''" 1])
      (simp_all add: users add_client_def mutex_lock_def mutex_unlock_def list_append_def
        list_insert_at_def list_init_def list_size_def held_same [OF users(3)])
  moreover have "serial_step ?w1 ?w2"
    by (rule serial_connect [of 5 "''host''" 2])
      (simp_all add: users add_client_def mutex_lock_def mutex_unlock_def list_append_def
        list_insert_at_def list_init_def list_size_def new_client_def held_same [OF users(3)])
  ultimately have reach: "serially_reachable w ?w2" by (blast intro: serially_reachable.intros)
  have "newcomer ?w2 4" "newcomer ?w2 5"
    by (simp_all add: newcomer_def get_person_def new_client_def)
  moreover have "seek_nick ?w2 ''ann'' = None" "seek_chan ?w2 ''#a'' = None" "room_for ''#a'' (length ''#a'') ?w2"
    by (simp_all add: list_seek_def fun_seek_person_def new_client_def users room_for_def list_init_def)
  ultimately show ?thesis
    using names_stay_unique [OF w reach] w reach
    by (intro exI [of _ w] exI [of _ ?w2]) (simp add: new_client_def)
qed

text \<open>
  C2.  A message other than WHOIS keeps the books: for every channel with a name,
  \<open>numusers\<close> is the number of clients on it, a channel exists exactly when it has members,
  and nobody is on a channel twice.
\<close>

theorem counts_are_kept:
  assumes "counted w" and "held w = {}" and "params ! 0 \<noteq> ''WHOIS''"
  shows "holds (handle_chirc_message u params w) (\<lambda>w'. counted w' \<and> held w' = {})
    (ends (\<lambda>w'. counted w' \<and> held w' = {}))"
  using assms by (intro counts.handle_good)

lemma counts_are_kept_witness:
  "holds (handle_chirc_message 5 ([''PART'', ''#a''] @ replicate 14 []) small_server)
     (\<lambda>w'. counted w' \<and> held w' = {}) (ends (\<lambda>w'. counted w' \<and> held w' = {}))"
  by (rule counts_are_kept [OF small_counted]) (simp_all add: small_defs)

subsection \<open>Joining and leaving channels\<close>

text \<open>
  C3.  JOIN of a client of the server, for a name of at most 50 characters, in a state where no
  socket is broken, no mutex held, nick, user name, address and server name are short (9, 10,
  63 and 63 characters), there are at most thirty clients and no topic is longer than 300: if
  the block of \<open>malloc(strlen(name))\<close> happens to hold the terminator as well, JOIN returns, and
  apart from messages sent its whole effect is \<open>joined\<close>: the channel is found or created, a
  client not yet on it gets an entry (as operator of a new channel) and the counter goes up by
  one; a client already on it changes nothing.  If it does not, the first statement of
  \<open>channel_join\<close> writes behind the block.
\<close>

theorem join_does_join:
  assumes "roomy w" and "listable w" and "get_person w u = Some p" and "length (params ! 1) \<le> 50"
  shows "if room_for (params ! 1) (length (params ! 1)) w
    then \<exists>w'. chirc_handle_JOIN u params w = Inr w' \<and> sent (joined u (params ! 1) w) {} w'
    else chirc_handle_JOIN u params w = Inl (Fault BufferOverflow)"
  using assms channel_join_total [of w "params ! 1" u p] channel_join_overflow [of "params ! 1" w u]
  by (simp add: chirc_handle_JOIN_def)

lemma join_does_join_witness:
  "(\<exists>w'. chirc_handle_JOIN 5 ([''JOIN'', ''#b''] @ replicate 14 []) small_server = Inr w'
     \<and> sent (joined 5 ''#b'' small_server) {} w')
   \<and> chirc_handle_JOIN 5 ([''JOIN'', ''#b''] @ replicate 14 []) exact_server = Inl (Fault BufferOverflow)"
  using join_does_join [OF small_roomy(1) small_listable(1) small_person(2), of "[''JOIN'', ''#b''] @ replicate 14 []"]
    join_does_join [OF small_roomy(2) small_listable(2) small_person(4), of "[''JOIN'', ''#b''] @ replicate 14 []"]
  by (simp add: room_for_def) (simp add: exact_server_def small_defs)

text \<open>
  C4.  PART under the same conditions but for the number of clients and the topics, with a
  parting message of at most 300 characters: if the name and its terminator fit both the block of
  \<open>malloc(strlen(name))\<close> and that of \<open>malloc(sizeof(dummy))\<close>, eight bytes for a pointer where a
  \<open>mychan\<close> is meant, PART returns, and its effect is \<open>parted\<close>: the entry of the client goes, the
  counter goes down by one, and the channel goes with its last member.  If it fits only one of
  them or neither, PART writes behind the block.
\<close>

theorem part_does_part:
  fixes params :: chirc_message
  assumes "roomy w" and "get_person w u = Some p" and "length (params ! 1) \<le> 50"
    and "length (params ! 2) \<le> 300"
  shows "if room_for (params ! 1) (length (params ! 1)) w \<and> room_for (params ! 1) 8 w
    then \<exists>w'. chirc_handle_PART u params w = Inr w' \<and> sent (parted u (params ! 1) w) {} w'
    else chirc_handle_PART u params w = Inl (Fault BufferOverflow)"
  using assms chirc_handle_PART_total [of w u p params] chirc_handle_PART_overflow [of w u p params]
  by simp

lemma part_does_part_witness:
  "(\<exists>w'. chirc_handle_PART 5 ([''PART'', ''#a''] @ replicate 14 []) small_server = Inr w'
     \<and> sent (parted 5 ''#a'' small_server) {} w')
   \<and> chirc_handle_PART 5 ([''PART'', ''#channel''] @ replicate 14 []) exact_server = Inl (Fault BufferOverflow)"
  using part_does_part [OF small_roomy(1) small_person(2), of "[''PART'', ''#a''] @ replicate 14 []"]
    part_does_part [OF small_roomy(2) small_person(4), of "[''PART'', ''#channel''] @ replicate 14 []"]
  by (simp add: room_for_def) (simp add: exact_server_def small_defs)

subsection \<open>Messages to a channel\<close>

text \<open>
  C5.  \<open>sendtochannel\<close> hands the message to exactly the clients on the channel, once each
  and in the order of the user list, except those with the sender's nick; nothing else
  changes, and no mutex stays locked.
\<close>

theorem sendtochannel_delivers:
  assumes "get_channel w a = Some c" and "well_formed w" and "Glock \<notin> held w"
    and "\<forall>p \<in> set (recipients (cname c) sender w). can_get (held w) (broken w) p"
  shows "sendtochannel (Some a) msg sender w =
    Inr (w\<lparr>out := out w @ map (\<lambda>p. (clientSocket p, msg))
      (filter (\<lambda>p. (sender = None \<or> Some (nick p) \<noteq> sender) \<and> on_chan (cname c) p) (els (userlist w)))\<rparr>)"
  using sendtochannel_exact [OF assms] by (simp add: delivered_def recipients_def)

lemma sendtochannel_delivers_witness:
  "\<exists>w'. sendtochannel (Some 0) ''hello'' (Some ''ann'') small_server = Inr w' \<and> out w' = [(5, ''hello'')]"
proof -
  let ?c = "(new_channel 0 ''#a'')\<lparr>cmode := ''m'', numusers := 2\<rparr>"
  have "get_channel small_server 0 = Some ?c" by (simp add: get_channel_def small_defs)
  moreover have "well_formed small_server" using small_unique by (simp add: unique_names_def)
  ultimately show ?thesis
    using sendtochannel_delivers [of small_server 0 ?c "Some ''ann''" "''hello''"]
    by (simp add: can_get_def) (simp add: small_defs on_chan_iff)
qed

text \<open>
  C6.  PRIVMSG to a channel: the message reaches the other members exactly when the sender
  is on the channel and, on a moderated one, is an IRC operator, a channel operator or
  voiced; otherwise the sender alone is told 404, and nobody gets the message.
\<close>

theorem privmsg_obeys_moderation:
  fixes params :: chirc_message
  assumes "get_person w u = Some p" and "registered p" and "well_formed w"
    and "held w = {}" and "broken w = {}"
    and "seek_nick w (params ! 1) = None" and "seek_chan w (params ! 1) = Some c"
    and "length (from_client p (params ! 0 @ '' '' @ params ! 1 @ '' '' @ params ! 2)) < 510"
    and "length (servername w) < 511" and "length (params ! 1) < 480"
  shows "chirc_handle_PRIVMSG u params w = Inr
    (if may_speak p c
     then delivered (recipients (params ! 1) (Some (nick p)) w)
       (from_client p (params ! 0 @ '' '' @ params ! 1 @ '' '' @ params ! 2) @ CRLF) w
     else w\<lparr>out := out w @
       [(u, numeric ERR_CANNOTSENDTOCHAN p w (params ! 1 @ '' :Cannot send to channel''))]\<rparr>)"
  using assms by (rule privmsg_to_channel_exact)

lemma privmsg_obeys_moderation_witness:
  "(\<exists>w'. chirc_handle_PRIVMSG 4 ([''PRIVMSG'', ''#a'', '':hi''] @ replicate 13 []) small_server = Inr w'
      \<and> out w' = [(5, '':ann!a@host PRIVMSG #a :hi'' @ CRLF)])
   \<and> (\<exists>w'. chirc_handle_PRIVMSG 5 ([''PRIVMSG'', ''#a'', '':hi''] @ replicate 13 []) small_server = Inr w'
      \<and> out w' = [(5, '':irc.example 404 bob #a :Cannot send to channel'' @ CRLF)])"
proof -
  let ?c = "(new_channel 0 ''#a'')\<lparr>cmode := ''m'', numusers := 2\<rparr>"
  have "seek_chan small_server ''#a'' = Some ?c" "seek_nick small_server ''#a'' = None"
    by (simp_all add: list_seek_def fun_seek_chan_def fun_seek_person_def small_defs)
  moreover have "well_formed small_server" using small_unique by (simp add: unique_names_def)
  moreover have "held small_server = {}" "broken small_server = {}" "length (servername small_server) < 511"
    by (simp_all add: small_defs)
  ultimately have
    "chirc_handle_PRIVMSG u ([''PRIVMSG'', ''#a'', '':hi''] @ replicate 13 []) small_server = Inr
      (if may_speak p ?c
       then delivered (recipients ''#a'' (Some (nick p)) small_server)
         (from_client p ''PRIVMSG #a :hi'' @ CRLF) small_server
       else small_server\<lparr>out := out small_server @
         [(u, numeric ERR_CANNOTSENDTOCHAN p small_server ''#a :Cannot send to channel'')]\<rparr>)"
    if "get_person small_server u = Some p" "registered p" "length (from_client p ''PRIVMSG #a :hi'') < 510" for u p
    using privmsg_obeys_moderation [of small_server u p "[''PRIVMSG'', ''#a'', '':hi''] @ replicate 13 []" ?c] that
    by simp
  from this [OF small_person(1)] this [OF small_person(2)] show ?thesis
    by (simp add: registered_def from_client_def may_speak_def status_def on_chan_iff list_seek_def
        fun_seek_userchan_def delivered_def recipients_def numeric_def small_defs)
qed

subsection \<open>The stream of messages\<close>

text \<open>
  C7.  The reader of the socket against the stream cut at every CR LF, for any division of the
  stream into chunks that are not empty and hold no NUL: it handles one message for each message of
  the stream, in order, and keeps the same rest.  Each message is handled as it is, but for one
  whose CR LF is torn, CR at the end of a chunk and LF at the start of the next: it loses its
  last character (\<open>heard\<close>).  So the messages are those of the stream whenever no chunk ends in CR.
  The messages are of at most 510 characters; where a chunk may end in CR, of 1 to 509, since the
  buffer has no room for the CR of a longer one, and an empty torn one writes before the buffer.
\<close>

theorem reader_hears_the_stream:
  assumes "\<forall>c \<in> set chunks. proper_chunk c" and "unique_names w" and "held w = {}"
    and "fitting (tears chunks) (messages (concat chunks))"
  shows "parse_message u (map Some chunks) w =
      and_then (for_each (heard [] chunks) (parse u) w)
        (\<lambda>w. Inr (rx_at (snd (messages (concat chunks))), w))
    \<and> list_all2 (\<lambda>m h. h = m \<or> tears chunks \<and> h = butlast m) (fst (messages (concat chunks))) (heard [] chunks)"
proof -
  have "heard [] chunks = fst (messages (concat chunks))" if "\<not> tears chunks"
    using heard_untorn [of "[]" chunks] assms(1) that by (auto simp: ends_cr_def proper_chunk_def)
  then have "list_all2 (\<lambda>m h. h = m \<or> tears chunks \<and> h = butlast m) (fst (messages (concat chunks))) (heard [] chunks)"
    using heard_shorter [of "[]" chunks] by (cases "tears chunks") (simp_all add: list.rel_refl)
  then show ?thesis
    using recv_rounds_reference [of "[]" "tears chunks" chunks w u] assms
    by (simp add: parse_message_def rx_at_Nil ends_cr_def)
qed

lemma reader_hears_the_stream_witness:
  "parse_message 4 [Some ''PI'', Some (''NG'' @ CRLF @ ''QU'')] small_server
     = and_then (parse 4 ''PING'' small_server) (\<lambda>w. Inr (rx_at ''QU'', w))
   \<and> parse_message 4 [Some (''PING'' @ [CR]), Some (LF # ''QU'')] small_server
     = and_then (parse 4 ''PIN'' small_server) (\<lambda>w. Inr (rx_at ''QU'', w))"
proof -
  have "strstr_crlf (''PING'' @ CRLF @ ''QU'') = Some 4" "strstr_crlf ''QU'' = None"
    "strstr_crlf ''PI'' = None" "strstr_crlf (''PING'' @ [CR]) = None"
    by simp_all
  then have m: "messages (''PING'' @ CRLF @ ''QU'') = ([''PING''], ''QU'')" "messages ''PI'' = ([], ''PI'')"
    "messages (''PING'' @ [CR]) = ([], ''PING'' @ [CR])"
    by (simp_all add: messages_Some messages_None)
  have whole: "heard [] [''PI'', ''NG'' @ CRLF @ ''QU''] = [''PING'']"
    using m by (simp add: heard_round_def torn_def ends_cr_def Let_def)
  have torn: "heard [] [''PING'' @ [CR], LF # ''QU''] = [''PIN'']"
    using m by (simp add: heard_round_def torn_def ends_cr_def Let_def)
  have free: "held small_server = {}" by (simp add: small_defs)
  moreover have "for_each [] (parse 4) = Inr" by auto
  ultimately show ?thesis
    using reader_hears_the_stream [of "[''PI'', ''NG'' @ CRLF @ ''QU'']" small_server 4]
      reader_hears_the_stream [of "[''PING'' @ [CR], LF # ''QU'']" small_server 4] m whole torn small_unique
    by (simp add: proper_chunk_def fitting_def)
qed

text \<open>
  C8.  \<open>parse\<close> undoes the wire format: up to fifteen words and a trailing parameter written
  after a colon come back as the parameters, the colon included, and the rest is empty.
\<close>

theorem parameters_come_back:
  assumes "xs \<noteq> []" and "\<forall>x \<in> set xs. word_param x" and "length xs \<le> 15"
    and "length (wire xs) + length t \<le> 508"
  shows "parse_params (wire xs @ '' :'' @ t) = Inr (xs @ [CHR '':'' # t] @ replicate (15 - length xs) [])"
  using assms by (rule parse_params_trailing)

lemma parameters_come_back_witness:
  "parse_params ''PRIVMSG bob :see you: later'' =
     Inr ([''PRIVMSG'', ''bob'', '':see you: later''] @ replicate 13 [])"
  using parameters_come_back [of "[''PRIVMSG'', ''bob'']" "''see you: later''"]
  by (simp add: word_param_def)

end
