(* ===== verification/Sr_Memory.thy ===== *)
theory Sr_Memory
  imports Prelude
begin

unbundle bit_operations_syntax

text \<open>
  The memory of the router and of the transport layer: a frame is a list of bytes, and the
  structures of \<open>sr_protocol.h\<close> and \<open>transport.h\<close> are laid over it, so a field is a load or a store at an offset.  An access
  past the end of the block is a fault.  \<open>Would_Block\<close> is no fault: it stands for a call that
  waits until the state changes.  Integers of more than one byte are read as a little
  endian machine reads them; \<open>ntohs\<close> and \<open>ntohl\<close> turn network order into host order.
\<close>

type_synonym byte = "8 word"

datatype sr_fault =
    Null_Pointer | Out_Of_Bounds | Assertion_Failed | Endless_Loop | Use_After_Free | Bad_Length
  | Overlapping_Copy | Wild_Free | Would_Block

subsection \<open>Loads and stores\<close>

definition load :: "nat \<Rightarrow> nat \<Rightarrow> byte list \<Rightarrow> sr_fault + byte list" where
  "load k n f = (if k + n \<le> length f then Inr (take n (drop k f)) else Inl Out_Of_Bounds)"

definition store :: "nat \<Rightarrow> byte list \<Rightarrow> byte list \<Rightarrow> sr_fault + byte list" where
  "store k bs f =
     (if k + length bs \<le> length f then Inr (take k f @ bs @ drop (k + length bs) f)
      else Inl Out_Of_Bounds)"

definition word16 :: "byte list \<Rightarrow> 16 word" where
  "word16 bs = ucast (bs ! 0) OR push_bit 8 (ucast (bs ! 1))"

definition word32 :: "byte list \<Rightarrow> 32 word" where
  "word32 bs = ucast (bs ! 0) OR push_bit 8 (ucast (bs ! 1))
     OR push_bit 16 (ucast (bs ! 2)) OR push_bit 24 (ucast (bs ! 3))"

definition bytes16 :: "16 word \<Rightarrow> byte list" where
  "bytes16 w = [ucast w, ucast (drop_bit 8 w)]"

definition bytes32 :: "32 word \<Rightarrow> byte list" where
  "bytes32 w = [ucast w, ucast (drop_bit 8 w), ucast (drop_bit 16 w), ucast (drop_bit 24 w)]"

definition load8 :: "nat \<Rightarrow> byte list \<Rightarrow> sr_fault + byte" where
  "load8 k f = and_then (load k 1 f) (\<lambda>bs. Inr (bs ! 0))"

definition load16 :: "nat \<Rightarrow> byte list \<Rightarrow> sr_fault + 16 word" where
  "load16 k f = and_then (load k 2 f) (\<lambda>bs. Inr (word16 bs))"

definition load32 :: "nat \<Rightarrow> byte list \<Rightarrow> sr_fault + 32 word" where
  "load32 k f = and_then (load k 4 f) (\<lambda>bs. Inr (word32 bs))"

text \<open>Byte order.  Each function is its own inverse, so \<open>htons\<close> and \<open>htonl\<close> are the same.\<close>

definition ntohs :: "16 word \<Rightarrow> 16 word" where
  "ntohs w = word16 (rev (bytes16 w))"

definition ntohl :: "32 word \<Rightarrow> 32 word" where
  "ntohl w = word32 (rev (bytes32 w))"

abbreviation htons :: "16 word \<Rightarrow> 16 word" where "htons \<equiv> ntohs"

text \<open>A pointer that may be NULL.\<close>

definition deref_ptr :: "'a option \<Rightarrow> ('a \<Rightarrow> sr_fault + 'b) \<Rightarrow> sr_fault + 'b" where
  "deref_ptr p k = (case p of None \<Rightarrow> Inl Null_Pointer | Some x \<Rightarrow> k x)"

subsection \<open>Their laws\<close>

named_theorems memory \<open>loads and stores within bounds\<close>

lemma deref_ptr_simps [simp]: "deref_ptr None k = Inl Null_Pointer" "deref_ptr (Some x) k = k x"
  by (simp_all add: deref_ptr_def)

lemma length_bytes [simp]: "length (bytes16 w) = 2" "length (bytes32 v) = 4"
  by (simp_all add: bytes16_def bytes32_def)

lemma store_ok [memory]:
  "k + length bs \<le> length f \<Longrightarrow> store k bs f = Inr (take k f @ bs @ drop (k + length bs) f)"
  by (simp add: store_def)

lemma load_ok [memory]: "k + n \<le> length f \<Longrightarrow> load k n f = Inr (take n (drop k f))"
  by (simp add: load_def)

lemma store_Inr: "store k bs f = Inr g \<Longrightarrow> length g = length f"
  by (auto simp: store_def split: if_splits)

lemma load_store_same: "store k bs f = Inr g \<Longrightarrow> load k (length bs) g = Inr bs"
  by (auto simp: store_def load_def split: if_splits)

lemma load_store_other:
  assumes "store k bs f = Inr g" and "j + n \<le> k \<or> k + length bs \<le> j"
  shows "load j n g = load j n f"
proof -
  from assms(1) have k: "k + length bs \<le> length f" and g: "g = take k f @ bs @ drop (k + length bs) f"
    by (auto simp: store_def split: if_splits)
  show ?thesis
  proof (cases "j + n \<le> k")
    case True
    with k have "take n (drop j g) = take n (drop j f)"
      by (intro nth_equalityI) (auto simp: g nth_append)
    with True k show ?thesis by (simp add: load_def g)
  next
    case False
    with assms(2) have "k + length bs \<le> j" by simp
    with k have "drop j g = drop j f" by (simp add: g)
    with k show ?thesis by (simp add: load_def g)
  qed
qed

lemma word16_bytes16 [simp]: "word16 (bytes16 w) = w"
  unfolding word16_def bytes16_def
  by (rule bit_word_eqI) (auto simp: bit_simps)

lemma word32_bytes32 [simp]: "word32 (bytes32 w) = w"
proof (rule bit_word_eqI)
  fix n assume "n < LENGTH(32)"
  then show "bit (word32 (bytes32 w)) n \<longleftrightarrow> bit w n"
    by (cases "n < 8"; cases "n < 16"; cases "n < 24") (auto simp: word32_def bytes32_def bit_simps)
qed

lemma bytes16_word16 [simp]: "length bs = 2 \<Longrightarrow> bytes16 (word16 bs) = bs"
proof -
  assume "length bs = 2"
  then obtain a b where "bs = [a, b]" by (auto simp: length_Suc_conv numeral_2_eq_2)
  then show ?thesis
    unfolding word16_def bytes16_def
    by (auto intro!: bit_word_eqI simp: bit_simps) (use bit_imp_le_length [of a] in force)
qed

lemma ntohs_ntohs [simp]: "ntohs (ntohs w) = w"
  by (simp add: ntohs_def)

lemma bytes32_word32 [simp]: "length bs = 4 \<Longrightarrow> bytes32 (word32 bs) = bs"
proof -
  assume "length bs = 4"
  then obtain a b c d where bs: "bs = [a, b, c, d]" by (auto simp: length_Suc_conv eval_nat_numeral)
  have z: "\<not> bit x (n + 8)" "\<not> bit x (n + 16)" "\<not> bit x (n + 24)" "n \<ge> 8 \<Longrightarrow> \<not> bit x n" for x :: byte and n
    using bit_imp_le_length [of x] by force+
  show ?thesis
    unfolding word32_def bytes32_def bs
    by (auto intro!: bit_word_eqI simp: bit_simps z)
qed

lemma ntohl_ntohl [simp]: "ntohl (ntohl w) = w"
  by (simp add: ntohl_def)

end
