(* ===== verification/Sr_Tables.thy ===== *)
theory Sr_Tables
  imports Sr_Memory
begin

text \<open>
  The state of the router, its interface list (\<open>sr_if.c\<close>) and its routing table
  (\<open>sr_rt.c\<close>, \<open>sr_verify_routing_table\<close> of \<open>sr_main.c\<close>, \<open>rt_match\<close> of \<open>sr_router.c\<close>), and
  the way a frame leaves (\<open>sr_send_packet\<close> of \<open>sr_vns_comm.c\<close>).  The linked lists only grow
  at their end, so a pointer to an interface is its position in the list; routing entries
  never change, so a pointer to one is the entry.  Addresses are kept in network order, as a
  little endian machine reads them, and printing is left out.
\<close>

subsection \<open>The state\<close>

record sr_if =
  if_name :: string
  if_addr :: "byte list"
  if_ip :: "32 word"

record sr_rt =
  rt_dest :: "32 word"
  rt_gw :: "32 word"
  rt_mask :: "32 word"
  rt_interface :: string

text \<open>
  A frame with the fields of \<open>struct frame_t\<close>: a header pointer is an offset into the frame,
  NULL is \<open>None\<close>.  The flags \<open>in_or_out\<close> and \<open>MAC_set\<close> are written and never read, and
  \<open>ether_header\<close> is always the start of the frame; they are left out.
\<close>

record frame_t =
  frame :: "byte list"
  ip_header :: "nat option"
  arp_header :: "nat option"
  icmp_header :: "nat option"
  from_MAC :: "byte list"
  to_MAC :: "byte list"
  from_ip :: "32 word"
  to_ip :: "32 word"
  iface :: "nat option"
  len :: nat
  ip_hl :: nat
  ip_len :: nat

record arpc_entry =
  arpc_ip :: "32 word"
  arpc_mac :: "byte list"
  arpc_timeout :: int

record queued_packet =
  q_from_MAC :: "byte list"
  q_from_iface :: "nat option"
  q_outgoing :: frame_t

record arpq_entry =
  arpq_ip :: "32 word"
  arpq_next_hop :: "32 word"
  arpq_if :: "nat option"
  arpq_packets :: "queued_packet list"
  arpq_last_req :: int
  arpq_num_reqs :: "8 word"

text \<open>
  The instance with the two ARP lists, which are doubly linked.  \<open>arpq_dangling\<close> says that an
  entry of the queue has been freed without being unlinked.  The other fields are the
  environment: \<open>log\<close> has what was written to the VNS server, \<open>now\<close> is \<open>time(NULL)\<close>, which
  does not change while a packet is handled, and \<open>junk\<close>, \<open>junk_ip\<close> and \<open>junk_len\<close> are what
  uninitialised memory holds.
\<close>

record router =
  if_list :: "sr_if list"
  routing_table :: "sr_rt list"
  sr_arp_cache :: "arpc_entry list"
  sr_arp_queue :: "arpq_entry list"
  arpq_dangling :: bool
  log :: "(string \<times> byte list) list"
  now :: int
  junk :: "nat \<Rightarrow> byte"
  junk_ip :: "32 word"
  junk_len :: nat

abbreviation junk_bytes :: "nat \<Rightarrow> router \<Rightarrow> byte list" where
  "junk_bytes n sr \<equiv> map (junk sr) [0..<n]"

subsection \<open>Interfaces\<close>

abbreviation (input) sr_IFACE_NAMELEN :: nat where "sr_IFACE_NAMELEN \<equiv> 32"

text \<open>\<open>strncmp(a, b, n) == 0\<close> and the first match in a list, as a position.\<close>

definition strncmp_eq :: "nat \<Rightarrow> string \<Rightarrow> string \<Rightarrow> bool" where
  "strncmp_eq n a b \<longleftrightarrow> take n a = take n b"

primrec position :: "('a \<Rightarrow> bool) \<Rightarrow> 'a list \<Rightarrow> nat option" where
  "position P [] = None"
| "position P (x # xs) = (if P x then Some 0 else map_option Suc (position P xs))"

definition sr_get_interface :: "router \<Rightarrow> string \<Rightarrow> nat option" where
  "sr_get_interface sr nm =
     position (\<lambda>i. strncmp_eq sr_IFACE_NAMELEN (if_name i) nm) (if_list sr)"

text \<open>The copy of it in \<open>sr_router.c\<close>.\<close>

definition get_interface :: "router \<Rightarrow> string \<Rightarrow> nat option" where
  "get_interface sr nm =
     position (\<lambda>i. strncmp_eq sr_IFACE_NAMELEN (if_name i) nm) (if_list sr)"

text \<open>The use of a pointer to an interface.\<close>

definition deref_if :: "nat option \<Rightarrow> router \<Rightarrow> (sr_if \<Rightarrow> sr_fault + 'b) \<Rightarrow> sr_fault + 'b" where
  "deref_if p sr k =
     deref_ptr p (\<lambda>i. if i < length (if_list sr) then k (if_list sr ! i) else Inl Out_Of_Bounds)"

definition sr_add_interface :: "string \<Rightarrow> router \<Rightarrow> router" where
  "sr_add_interface nm sr = sr\<lparr>if_list := if_list sr @
     [\<lparr>if_name = take sr_IFACE_NAMELEN nm, if_addr = junk_bytes 6 sr, if_ip = junk_ip sr\<rparr>]\<rparr>"

definition upd_last :: "('a \<Rightarrow> 'a) \<Rightarrow> 'a list \<Rightarrow> sr_fault + 'a list" where
  "upd_last f xs = (if xs = [] then Inl Assertion_Failed else Inr (butlast xs @ [f (last xs)]))"

definition sr_set_ether_addr :: "byte list \<Rightarrow> router \<Rightarrow> sr_fault + router" where
  "sr_set_ether_addr addr sr =
     and_then (upd_last (\<lambda>i. i\<lparr>if_addr := take 6 addr\<rparr>) (if_list sr)) (\<lambda>ifs.
     Inr (sr\<lparr>if_list := ifs\<rparr>))"

definition sr_set_ether_ip :: "32 word \<Rightarrow> router \<Rightarrow> sr_fault + router" where
  "sr_set_ether_ip ip_nbo sr =
     and_then (upd_last (\<lambda>i. i\<lparr>if_ip := ip_nbo\<rparr>) (if_list sr)) (\<lambda>ifs.
     Inr (sr\<lparr>if_list := ifs\<rparr>))"

text \<open>The interface with a given address; an empty list fails an assertion.\<close>

definition if_dst_check :: "router \<Rightarrow> 32 word \<Rightarrow> sr_fault + nat option" where
  "if_dst_check sr ip =
     (if if_list sr = [] then Inl Assertion_Failed
      else Inr (position (\<lambda>i. if_ip i = ip) (if_list sr)))"

text \<open>\<open>if_ip_search\<close> starts at an entry of the list; no code calls it.\<close>

definition if_ip_search :: "sr_if list \<Rightarrow> 32 word \<Rightarrow> sr_fault + sr_if option" where
  "if_ip_search ifs ip =
     (if ifs = [] then Inl Assertion_Failed else Inr (List.find (\<lambda>i. if_ip i = ip) ifs))"

subsection \<open>The routing table\<close>

definition sr_add_rt_entry :: "32 word \<Rightarrow> 32 word \<Rightarrow> 32 word \<Rightarrow> string \<Rightarrow> router \<Rightarrow> router" where
  "sr_add_rt_entry dest gw nmask nm sr = sr\<lparr>routing_table := routing_table sr @
     [\<lparr>rt_dest = dest, rt_gw = gw, rt_mask = nmask, rt_interface = take sr_IFACE_NAMELEN nm\<rparr>]\<rparr>"

text \<open>
  \<open>sscanf(line, "%s %s %s %s", ...)\<close> stores as many words as the line has and leaves the
  other buffers as they were; a word that does not fit into its 32 bytes is a fault.
\<close>

definition blank :: "char \<Rightarrow> bool" where
  "blank c \<longleftrightarrow> c \<in> {CHR '' '', CHR 0x09, CHR 0x0A, CHR 0x0B, CHR 0x0C, CHR 0x0D}"

fun words_from :: "string \<Rightarrow> string \<Rightarrow> string list" where
  "words_from w [] = (if w = [] then [] else [w])"
| "words_from w (c # cs) =
     (if blank c then (if w = [] then [] else [w]) @ words_from [] cs else words_from (w @ [c]) cs)"

definition scan_words :: "string \<Rightarrow> string list \<Rightarrow> sr_fault + string list" where
  "scan_words line bufs =
     (let ws = take (length bufs) (words_from [] line) in
      if \<exists>w \<in> set ws. 32 \<le> length w then Inl Out_Of_Bounds else Inr (ws @ drop (length ws) bufs))"

text \<open>
  The loop of \<open>sr_load_rt\<close> over the lines that \<open>fgets\<close> delivers; \<open>inet_aton\<close> is the library's
  parser of dotted addresses and \<open>None\<close> its failure.
\<close>

fun load_lines :: "(string \<Rightarrow> 32 word option) \<Rightarrow> string list \<Rightarrow> string list \<Rightarrow> router \<Rightarrow> sr_fault + int \<times> router" where
  "load_lines inet_aton [] bufs sr = Inr (0, sr)"
| "load_lines inet_aton (line # lines) bufs sr =
     and_then (scan_words line bufs) (\<lambda>bufs.
     case (inet_aton (bufs ! 0), inet_aton (bufs ! 1), inet_aton (bufs ! 2)) of
       (Some dest, Some gw, Some nmask) \<Rightarrow>
         load_lines inet_aton lines bufs (sr_add_rt_entry dest gw nmask (bufs ! 3) sr)
     | _ \<Rightarrow> Inr (-1, sr))"

text \<open>The file is \<open>None\<close> when it cannot be read; the four buffers start uninitialised.\<close>

definition sr_load_rt :: "(string \<Rightarrow> 32 word option) \<Rightarrow> string list option \<Rightarrow> string list \<Rightarrow> router \<Rightarrow> sr_fault + int \<times> router" where
  "sr_load_rt inet_aton file bufs sr =
     (case file of None \<Rightarrow> Inr (-1, sr) | Some lines \<Rightarrow> load_lines inet_aton lines bufs sr)"

text \<open>
  The number of routes whose interface does not exist; 999 when there is nothing to compare.
\<close>

definition sr_verify_routing_table :: "router \<Rightarrow> int" where
  "sr_verify_routing_table sr =
     (if if_list sr = [] \<or> routing_table sr = [] then 999
      else int (length (filter (\<lambda>r. \<forall>i \<in> set (if_list sr).
        \<not> strncmp_eq sr_IFACE_NAMELEN (if_name i) (rt_interface r)) (routing_table sr))))"

text \<open>The walk of \<open>rt_match\<close>, with the best entry so far.\<close>

primrec rt_walk :: "sr_rt list \<Rightarrow> 32 word \<Rightarrow> sr_rt option \<Rightarrow> sr_rt option" where
  "rt_walk [] addr best = best"
| "rt_walk (entry # rest) addr best =
     (let subnet = rt_dest entry AND rt_mask entry in
      rt_walk rest addr
        (if subnet = addr AND rt_mask entry then
           (case best of
              None \<Rightarrow> Some entry
            | Some b \<Rightarrow> if ntohl (rt_mask entry) > ntohl (rt_mask b) then Some entry else best)
         else best))"

definition rt_match :: "router \<Rightarrow> 32 word \<Rightarrow> sr_rt option" where
  "rt_match sr addr = rt_walk (routing_table sr) addr None"

subsection \<open>Sending a frame\<close>

definition sr_ether_addrs_match_interface :: "byte list \<Rightarrow> string \<Rightarrow> router \<Rightarrow> sr_fault + bool" where
  "sr_ether_addrs_match_interface buf nm sr =
     (case sr_get_interface sr nm of
        None \<Rightarrow> Inr False
      | Some i \<Rightarrow> and_then (load 6 6 buf) (\<lambda>shost. Inr (shost = if_addr (if_list sr ! i))))"

text \<open>
  The frame is written behind a header with the first 16 characters of the interface's name.
  No caller looks at the return value, so a failed write is not distinguished.
\<close>

definition sr_send_packet :: "byte list \<Rightarrow> nat \<Rightarrow> string \<Rightarrow> router \<Rightarrow> sr_fault + router" where
  "sr_send_packet buf n nm sr =
     (if n < 14 then Inr sr
      else and_then (load 0 n buf) (\<lambda>bytes.
        and_then (sr_ether_addrs_match_interface buf nm sr) (\<lambda>ok.
        Inr (if ok then sr\<lparr>log := log sr @ [(take 16 nm, bytes)]\<rparr> else sr))))"

end
