(* ===== verification/Sr_Frame.thy ===== *)
theory Sr_Frame
  imports Sr_Tables
begin

text \<open>
  Frames of \<open>sr_router.c\<close>: the view of an incoming frame (\<open>create_frame_t\<close>), the two checksum
  routines, the ethernet header (\<open>encapsulate\<close>), the frames the router makes itself (ICMP
  replies and errors, ARP packets) and the header of a forwarded datagram
  (\<open>update_ip_hdr\<close>).  \<open>malloc\<close> does not fail, a fresh block holds \<open>junk\<close>, and a write of
  several adjacent fields is one store.
\<close>

subsection \<open>Checksums\<close>

text \<open>The loop both routines share: 32 bit additions with the carry brought back in.\<close>

primrec sum_words :: "16 word list \<Rightarrow> 32 word \<Rightarrow> 32 word" where
  "sum_words [] s = s"
| "sum_words (w # ws) s =
     (let s = s + ucast w in
      sum_words ws (if s AND 0xffff0000 \<noteq> 0 then (s AND 0xffff) + 1 else s))"

fun words16 :: "byte list \<Rightarrow> 16 word list" where
  "words16 (a # b # bs) = word16 [a, b] # words16 bs"
| "words16 bs = []"

definition checksum :: "byte list \<Rightarrow> 16 word" where
  "checksum bs = ucast (NOT (sum_words (words16 bs) 0 AND 0xffff))"

text \<open>
  \<open>!len%2\<close> is \<open>(!len) % 2\<close>: only an empty message is padded, and the last byte of one of odd
  length is not summed.  A negative length makes \<open>calloc\<close> fail.
\<close>

definition compute_icmp_checksum :: "frame_t \<Rightarrow> sr_fault + frame_t" where
  "compute_icmp_checksum f =
     deref_ptr (icmp_header f) (\<lambda>h.
     let n = int (ip_len f) - int (ip_hl f) in
     if n < 0 then Inl Bad_Length
     else
       let count = nat n div 2; n = (if n = 0 then 1 else nat n) in
       and_then (load h n (frame f)) (\<lambda>bytes.
       and_then (store (h + 2) (bytes16 (checksum (take (2 * count) bytes))) (frame f)) (\<lambda>fr.
       Inr (f\<lparr>frame := fr\<rparr>))))"

text \<open>The length is the one in the header itself, in its low four bits.\<close>

definition compute_ip_checksum :: "frame_t \<Rightarrow> sr_fault + frame_t" where
  "compute_ip_checksum f =
     deref_ptr (ip_header f) (\<lambda>h.
     and_then (load8 h (frame f)) (\<lambda>vhl.
     let count = unat (vhl AND 15) * 2 in
     and_then (load h (2 * count) (frame f)) (\<lambda>bytes.
     and_then (store (h + 10) (bytes16 (checksum bytes)) (frame f)) (\<lambda>fr.
     Inr (f\<lparr>frame := fr\<rparr>)))))"

subsection \<open>Incoming frames\<close>

abbreviation (input) ETHERTYPE_IP :: "16 word" where "ETHERTYPE_IP \<equiv> 0x0800"
abbreviation (input) ETHERTYPE_ARP :: "16 word" where "ETHERTYPE_ARP \<equiv> 0x0806"
abbreviation (input) IPPROTO_ICMP :: byte where "IPPROTO_ICMP \<equiv> 1"

definition create_frame_t :: "router \<Rightarrow> byte list \<Rightarrow> string \<Rightarrow> sr_fault + frame_t option" where
  "create_frame_t sr packet ifn =
     and_then (load 0 6 packet) (\<lambda>dhost.
     and_then (load 6 6 packet) (\<lambda>shost.
     and_then (load16 12 packet) (\<lambda>ether_type.
     let f = \<lparr>frame = packet, ip_header = None, arp_header = None, icmp_header = None,
              from_MAC = shost, to_MAC = dhost, from_ip = 0, to_ip = 0,
              iface = get_interface sr ifn, len = length packet, ip_hl = 0, ip_len = 0\<rparr> in
     if ntohs ether_type = ETHERTYPE_IP then
       and_then (load16 16 packet) (\<lambda>total.
       and_then (load8 14 packet) (\<lambda>vhl.
       and_then (load32 26 packet) (\<lambda>src.
       and_then (load32 30 packet) (\<lambda>dst.
       and_then (load8 23 packet) (\<lambda>proto.
       let hl = unat (vhl AND 15) * 4 in
       Inr (Some (f\<lparr>ip_header := Some 14, ip_len := unat (ntohs total), ip_hl := hl,
         from_ip := src, to_ip := dst,
         icmp_header := (if proto = IPPROTO_ICMP then Some (14 + hl) else None)\<rparr>)))))))
     else if ntohs ether_type = ETHERTYPE_ARP then
       and_then (load32 28 packet) (\<lambda>sip.
       and_then (load32 38 packet) (\<lambda>tip.
       Inr (Some (f\<lparr>arp_header := Some 14, from_ip := sip, to_ip := tip\<rparr>))))
     else Inr None)))"

subsection \<open>Outgoing frames\<close>

definition encapsulate :: "frame_t \<Rightarrow> sr_fault + frame_t" where
  "encapsulate f =
     and_then (store 0 (to_MAC f @ from_MAC f @
                 bytes16 (htons (if ip_header f \<noteq> None then ETHERTYPE_IP else ETHERTYPE_ARP)))
                 (frame f)) (\<lambda>fr.
     Inr (f\<lparr>frame := fr\<rparr>))"

text \<open>
  The twenty bytes of an IP header: version and length, type of service, total length,
  identification, offset, time to live, protocol, checksum, source and destination.
\<close>

definition ip_header_create :: "frame_t \<Rightarrow> sr_fault + frame_t" where
  "ip_header_create f =
     deref_ptr (ip_header f) (\<lambda>h.
     and_then (store h ([0x45, 0] @ bytes16 (htons (of_nat (ip_len f))) @ [0, 0, 0, 0] @
                 [255, IPPROTO_ICMP] @ [0, 0] @ bytes32 (from_ip f) @ bytes32 (to_ip f))
                 (frame f)) (\<lambda>fr.
     compute_ip_checksum (f\<lparr>frame := fr\<rparr>)))"

abbreviation (input) ECHO_REPLY :: byte where "ECHO_REPLY \<equiv> 0"
abbreviation (input) ECHO_REQUEST :: byte where "ECHO_REQUEST \<equiv> 8"
abbreviation (input) DEST_UNREACH :: byte where "DEST_UNREACH \<equiv> 3"
abbreviation (input) TIME_EXCEEDED :: byte where "TIME_EXCEEDED \<equiv> 11"
abbreviation (input) HOST_UNREACH :: byte where "HOST_UNREACH \<equiv> 1"
abbreviation (input) PORT_UNREACH :: byte where "PORT_UNREACH \<equiv> 3"
abbreviation (input) TIME_INTRANSIT :: byte where "TIME_INTRANSIT \<equiv> 0"

definition generate_icmp_echo :: "frame_t \<Rightarrow> sr_fault + frame_t" where
  "generate_icmp_echo incoming =
     (let h = 14 + ip_hl incoming;
          f = \<lparr>frame = frame incoming, ip_header = Some 14, arp_header = None, icmp_header = Some h,
               from_MAC = to_MAC incoming, to_MAC = from_MAC incoming,
               from_ip = to_ip incoming, to_ip = from_ip incoming,
               iface = iface incoming, len = len incoming,
               ip_hl = ip_hl incoming, ip_len = ip_len incoming\<rparr> in
      and_then (store h [ECHO_REPLY] (frame f)) (\<lambda>fr.
      and_then (store (h + 2) [0, 0] fr) (\<lambda>fr.
      and_then (compute_icmp_checksum (f\<lparr>frame := fr\<rparr>)) (\<lambda>f.
      and_then (ip_header_create f) (\<lambda>f.
      encapsulate f)))))"

text \<open>
  The error message: ethernet, IP and ICMP headers and the start of the offending datagram.
  The ICMP header is placed behind an IP header as long as the incoming one, in a block that
  is measured for a header of twenty bytes.  The lengths are of type \<open>size_t\<close>, so a datagram
  shorter than its own header does not count as a short one.
\<close>

definition generate_icmp_error :: "router \<Rightarrow> frame_t \<Rightarrow> byte \<Rightarrow> byte \<Rightarrow> sr_fault + frame_t" where
  "generate_icmp_error sr incoming icmp_type icmp_code =
     (let icmp_data_len =
            (if ip_hl incoming \<le> ip_len incoming \<and> ip_len incoming - ip_hl incoming < 8
             then ip_len incoming else ip_hl incoming + 8);
          n = 14 + 20 + 8 + icmp_data_len;
          h = 14 + ip_hl incoming;
          f = \<lparr>frame = junk_bytes n sr, ip_header = Some 14, arp_header = None, icmp_header = Some h,
               from_MAC = to_MAC incoming, to_MAC = from_MAC incoming,
               from_ip = to_ip incoming, to_ip = from_ip incoming,
               iface = iface incoming, len = n, ip_hl = 20, ip_len = n - 14\<rparr> in
      and_then (store h ([icmp_type, icmp_code] @ [0, 0] @ [0, 0, 0, 0]) (frame f)) (\<lambda>fr.
      deref_ptr (ip_header incoming) (\<lambda>ih.
      and_then (load ih icmp_data_len (frame incoming)) (\<lambda>orig.
      and_then (store (h + 8) orig fr) (\<lambda>fr.
      and_then (compute_icmp_checksum (f\<lparr>frame := fr\<rparr>)) (\<lambda>f.
      and_then (ip_header_create f) (\<lambda>f.
      encapsulate f)))))))"

abbreviation (input) ARP_REQUEST :: "16 word" where "ARP_REQUEST \<equiv> 1"
abbreviation (input) ARP_REPLY :: "16 word" where "ARP_REPLY \<equiv> 2"

text \<open>
  An ARP packet: a request asks for the next hop of the datagram \<open>incoming\<close>, a reply answers
  the ARP request \<open>incoming\<close>.
\<close>

definition arp_create :: "router \<Rightarrow> frame_t \<Rightarrow> nat option \<Rightarrow> 16 word \<Rightarrow> sr_fault + frame_t" where
  "arp_create sr incoming ifp op =
     deref_if ifp sr (\<lambda>ifc.
     and_then (if op = ARP_REQUEST
               then deref_ptr (rt_match sr (to_ip incoming)) (\<lambda>route. Inr (rt_gw route, replicate 6 0xff))
               else Inr (from_ip incoming, from_MAC incoming)) (\<lambda>(tip, dmac).
     let f = \<lparr>frame = junk_bytes 42 sr, ip_header = None, arp_header = Some 14, icmp_header = None,
              from_MAC = if_addr ifc, to_MAC = dmac, from_ip = if_ip ifc, to_ip = tip,
              iface = ifp, len = 42, ip_hl = 0, ip_len = 0\<rparr> in
     and_then (store 14 (bytes16 (htons 1) @ bytes16 (htons ETHERTYPE_IP) @ [6, 4] @
                 bytes16 (htons op) @ if_addr ifc @ bytes32 (if_ip ifc) @ from_MAC incoming @
                 bytes32 tip) (frame f)) (\<lambda>fr.
     encapsulate (f\<lparr>frame := fr\<rparr>))))"

text \<open>
  A datagram to forward: the copy gets the interface and the source address of its route, one
  less to live, and a new checksum.  Its \<open>ip_len\<close> and \<open>to_MAC\<close> stay uninitialised.  The
  second component is the next hop.
\<close>

definition update_ip_hdr :: "router \<Rightarrow> frame_t \<Rightarrow> sr_fault + frame_t \<times> 32 word" where
  "update_ip_hdr sr incoming =
     deref_ptr (rt_match sr (to_ip incoming)) (\<lambda>route.
     let ifp = get_interface sr (rt_interface route) in
     deref_if ifp sr (\<lambda>ifc.
     let f = \<lparr>frame = frame incoming, ip_header = Some 14, arp_header = None, icmp_header = None,
              from_MAC = if_addr ifc, to_MAC = junk_bytes 6 sr,
              from_ip = from_ip incoming, to_ip = to_ip incoming,
              iface = ifp, len = len incoming, ip_hl = ip_hl incoming, ip_len = junk_len sr\<rparr> in
     and_then (load8 22 (frame f)) (\<lambda>ttl.
     and_then (store 22 [ttl - 1] (frame f)) (\<lambda>fr.
     and_then (store 24 [0, 0] fr) (\<lambda>fr.
     and_then (compute_ip_checksum (f\<lparr>frame := fr\<rparr>)) (\<lambda>f.
     Inr (f, rt_gw route)))))))"

end
