(* ===== verification/Sr_Arp.thy ===== *)
theory Sr_Arp
  imports Sr_Frame
begin

text \<open>
  The ARP cache and the queue of datagrams that wait for an address (\<open>sr_router.c\<close>).  Both are
  doubly linked lists with their ends in \<open>first\<close> and \<open>last\<close>; the model keeps the entries in
  order, and a pointer to an entry is its position.
\<close>

abbreviation (input) ARP_CACHE_TIMEOUT :: int where "ARP_CACHE_TIMEOUT \<equiv> 15"
abbreviation (input) ARP_REQUEST_TIMEOUT :: int where "ARP_REQUEST_TIMEOUT \<equiv> 1"
abbreviation (input) ARP_MAX_REQ :: "8 word" where "ARP_MAX_REQ \<equiv> 5"

subsection \<open>The cache\<close>

definition arp_cache_lookup :: "arpc_entry list \<Rightarrow> 32 word \<Rightarrow> nat option" where
  "arp_cache_lookup cache ip = position (\<lambda>e. arpc_ip e = ip) cache"

definition arp_cache_update :: "nat \<Rightarrow> byte list \<Rightarrow> int \<Rightarrow> arpc_entry list \<Rightarrow> arpc_entry list" where
  "arp_cache_update i mac t cache =
     cache[i := (cache ! i)\<lparr>arpc_mac := mac, arpc_timeout := t + ARP_CACHE_TIMEOUT\<rparr>]"

definition arp_cache_add :: "arpc_entry list \<Rightarrow> byte list \<Rightarrow> 32 word \<Rightarrow> int \<Rightarrow> arpc_entry list" where
  "arp_cache_add cache mac ip t =
     cache @ [\<lparr>arpc_ip = ip, arpc_mac = mac, arpc_timeout = t + ARP_CACHE_TIMEOUT\<rparr>]"

text \<open>Entries whose time has passed are unlinked and freed; a time of zero means never.\<close>

primrec arp_cache_flush :: "int \<Rightarrow> arpc_entry list \<Rightarrow> arpc_entry list" where
  "arp_cache_flush t [] = []"
| "arp_cache_flush t (e # es) =
     (if arpc_timeout e \<noteq> 0 \<and> t > arpc_timeout e then arp_cache_flush t es
      else e # arp_cache_flush t es)"

subsection \<open>The queue\<close>

definition arp_queue_lookup :: "arpq_entry list \<Rightarrow> 32 word \<Rightarrow> nat option" where
  "arp_queue_lookup queue ip = position (\<lambda>e. arpq_ip e = ip) queue"

definition arpq_next_hop_lookup :: "arpq_entry list \<Rightarrow> 32 word \<Rightarrow> nat option" where
  "arpq_next_hop_lookup queue ip = position (\<lambda>e. arpq_next_hop e = ip) queue"

text \<open>The packet is copied; its frame has \<open>len\<close> bytes.\<close>

definition arpq_add_packet :: "frame_t \<Rightarrow> byte list \<Rightarrow> nat option \<Rightarrow> arpq_entry \<Rightarrow> arpq_entry" where
  "arpq_add_packet packet old_MAC old_iface e =
     e\<lparr>arpq_num_reqs := arpq_num_reqs e + 1,
       arpq_packets := arpq_packets e @
         [\<lparr>q_from_MAC = old_MAC, q_from_iface = old_iface,
           q_outgoing = packet\<lparr>ip_header := Some 14\<rparr>\<rparr>]\<rparr>"

text \<open>A new entry at the end of the queue; its \<open>arpq_next_hop\<close> is set by the caller.\<close>

definition arpq_add_entry ::
  "router \<Rightarrow> nat option \<Rightarrow> frame_t \<Rightarrow> 32 word \<Rightarrow> byte list \<Rightarrow> nat option \<Rightarrow> sr_fault + router" where
  "arpq_add_entry sr ifp packet ip old_MAC old_iface =
     (if ifp = None then Inl Assertion_Failed
      else
        let e = arpq_add_packet packet old_MAC old_iface
          \<lparr>arpq_ip = ip, arpq_next_hop = junk_ip sr, arpq_if = ifp, arpq_packets = [],
           arpq_last_req = 0, arpq_num_reqs = 0\<rparr> in
        Inr (sr\<lparr>sr_arp_queue := sr_arp_queue sr @
          [e\<lparr>arpq_last_req := now sr, arpq_num_reqs := 0\<rparr>]\<rparr>))"

text \<open>
  The end of a wait: every packet gets the source address of its interface and the
  destination \<open>d_ha\<close> and is sent, first in first out; then the entry is unlinked.
\<close>

primrec send_queued :: "byte list \<Rightarrow> queued_packet list \<Rightarrow> router \<Rightarrow> sr_fault + router" where
  "send_queued d_ha [] sr = Inr sr"
| "send_queued d_ha (q # qs) sr =
     (let outgoing = q_outgoing q in
      deref_if (iface outgoing) sr (\<lambda>ifc.
      and_then (encapsulate (outgoing\<lparr>from_MAC := if_addr ifc, to_MAC := d_ha\<rparr>)) (\<lambda>outgoing.
      and_then (sr_send_packet (frame outgoing) (len outgoing) (if_name ifc) sr) (\<lambda>sr.
      send_queued d_ha qs sr))))"

definition drop_nth :: "nat \<Rightarrow> 'a list \<Rightarrow> 'a list" where
  "drop_nth i xs = take i xs @ drop (Suc i) xs"

definition arpq_entry_clear :: "nat \<Rightarrow> byte list \<Rightarrow> router \<Rightarrow> sr_fault + router" where
  "arpq_entry_clear i d_ha sr =
     and_then (send_queued d_ha (arpq_packets (sr_arp_queue sr ! i)) sr) (\<lambda>sr.
     Inr (sr\<lparr>sr_arp_queue := drop_nth i (sr_arp_queue sr)\<rparr>))"

text \<open>
  The answer to packets whose next hop did not reply.  A packet that is an ICMP error itself
  is skipped with \<open>continue\<close>, which does not advance.  For the others an error message is
  made, but it is the original frame that is sent.
\<close>

definition icmp_error_type :: "byte \<Rightarrow> bool" where
  "icmp_error_type c \<longleftrightarrow> c \<in> {DEST_UNREACH, TIME_EXCEEDED, 12, 31}"

primrec arpq_packets_icmpsend :: "queued_packet list \<Rightarrow> router \<Rightarrow> sr_fault + router" where
  "arpq_packets_icmpsend [] sr = Inr sr"
| "arpq_packets_icmpsend (q # qs) sr =
     (let outgoing = q_outgoing q in
      deref_ptr (ip_header outgoing) (\<lambda>h.
      and_then (load8 (h + 9) (frame outgoing)) (\<lambda>proto.
      and_then (if proto = IPPROTO_ICMP
                then and_then (load8 (h + ip_hl outgoing) (frame outgoing)) (\<lambda>code.
                     Inr (icmp_error_type code))
                else Inr False) (\<lambda>skip.
      if skip then Inl Endless_Loop
      else
        and_then (generate_icmp_error sr
          (outgoing\<lparr>iface := q_from_iface q, from_MAC := q_from_MAC q\<rparr>)
          DEST_UNREACH HOST_UNREACH) (\<lambda>ICMP_err.
        deref_if (q_from_iface q) sr (\<lambda>ifc.
        and_then (sr_send_packet (frame outgoing) (len outgoing) (if_name ifc) sr) (\<lambda>sr.
        arpq_packets_icmpsend qs sr)))))))"

text \<open>
  The walk over the queue: what stays of it, and the router after the packets sent.  An entry
  with too many requests is answered and freed, one with packets is asked for again.
\<close>

primrec flush_entries :: "arpq_entry list \<Rightarrow> router \<Rightarrow> sr_fault + arpq_entry list \<times> router" where
  "flush_entries [] sr = Inr ([], sr)"
| "flush_entries (e # es) sr =
     and_then
       (if now sr - ARP_REQUEST_TIMEOUT > arpq_last_req e then
          if arpq_num_reqs e \<ge> ARP_MAX_REQ then
            and_then (arpq_packets_icmpsend (arpq_packets e) sr) (\<lambda>sr. Inr ([], sr))
          else
            (case arpq_packets e of
               [] \<Rightarrow> Inr ([e], sr)
             | q # qs \<Rightarrow>
                 let old = q_outgoing q in
                 and_then (arp_create sr old (iface old) ARP_REQUEST) (\<lambda>arp_req.
                 deref_if (iface old) sr (\<lambda>ifc.
                 and_then (sr_send_packet (frame arp_req) (len arp_req) (if_name ifc) sr) (\<lambda>sr.
                 Inr ([e\<lparr>arpq_last_req := now sr, arpq_num_reqs := arpq_num_reqs e + 1\<rparr>], sr)))))
        else Inr ([e], sr)) (\<lambda>(kept, sr).
     and_then (flush_entries es sr) (\<lambda>(rest, sr).
     Inr (kept @ rest, sr)))"

text \<open>A walk over a queue with a freed entry in it reads freed memory.\<close>

definition arp_queue_flush :: "router \<Rightarrow> sr_fault + router" where
  "arp_queue_flush sr =
     (if arpq_dangling sr then Inl Use_After_Free
      else and_then (flush_entries (sr_arp_queue sr) sr) (\<lambda>(queue, sr).
        Inr (sr\<lparr>sr_arp_queue := queue\<rparr>)))"

subsection \<open>Start-up\<close>

text \<open>Each list starts with an empty entry; the one of the cache never expires.\<close>

definition sr_init :: "router \<Rightarrow> router" where
  "sr_init sr = sr\<lparr>
     sr_arp_cache := [\<lparr>arpc_ip = 0, arpc_mac = replicate 6 0xff, arpc_timeout = 0\<rparr>],
     sr_arp_queue := [\<lparr>arpq_ip = 0, arpq_next_hop = junk_ip sr, arpq_if = None,
       arpq_packets = [], arpq_last_req = 0, arpq_num_reqs = 0\<rparr>]\<rparr>"

end
