(* ===== verification/Sr_Router.thy ===== *)
theory Sr_Router
  imports Sr_Arp
begin

text \<open>
  \<open>sr_handlepacket\<close> of \<open>sr_router.c\<close>, in the pieces its branches make, and the commands of the
  VNS server that reach the router (\<open>sr_vns_comm.c\<close>).  A branch yields the frame to send at
  the end of the function, if there is one.
\<close>

abbreviation (input) ETHER_HDR_LEN :: nat where "ETHER_HDR_LEN \<equiv> 42"

type_synonym outcome = "sr_fault + frame_t option \<times> router"

subsection \<open>Datagrams\<close>

text \<open>A datagram for the router itself.\<close>

definition handle_local :: "frame_t \<Rightarrow> router \<Rightarrow> outcome" where
  "handle_local incoming sr =
     (case icmp_header incoming of
        None \<Rightarrow>
          and_then (generate_icmp_error sr incoming DEST_UNREACH PORT_UNREACH) (\<lambda>f. Inr (Some f, sr))
      | Some h \<Rightarrow>
          and_then (compute_icmp_checksum incoming) (\<lambda>incoming.
          and_then (load8 h (frame incoming)) (\<lambda>icmp_type.
          and_then (load16 (h + 2) (frame incoming)) (\<lambda>icmp_sum.
          if icmp_type = ECHO_REQUEST \<and> icmp_sum = 0 then
            and_then (generate_icmp_echo incoming) (\<lambda>f. Inr (Some f, sr))
          else Inr (None, sr)))))"

text \<open>A datagram that may not be forwarded: no error is sent about an ICMP error.\<close>

definition handle_expired :: "frame_t \<Rightarrow> router \<Rightarrow> outcome" where
  "handle_expired incoming sr =
     and_then (load8 23 (frame incoming)) (\<lambda>proto.
     and_then (if proto = IPPROTO_ICMP
               then and_then (load8 (14 + ip_hl incoming) (frame incoming)) (\<lambda>code.
                    Inr (icmp_error_type code))
               else Inr False) (\<lambda>err.
     if err then Inr (None, sr)
     else and_then (generate_icmp_error sr incoming TIME_EXCEEDED TIME_INTRANSIT) (\<lambda>f.
       Inr (Some f, sr))))"

text \<open>
  The next hop's address is not known.  A datagram for a destination that is waited for joins
  its entry; when the entry has been asked for too often, its packets are answered and it is
  freed, but stays linked.  Otherwise there is a new entry.  An ARP request goes out in both
  cases.
\<close>

definition queue_packet :: "frame_t \<Rightarrow> frame_t \<Rightarrow> router \<Rightarrow> outcome" where
  "queue_packet incoming outgoing sr =
     (case arp_queue_lookup (sr_arp_queue sr) (to_ip outgoing) of
        Some i \<Rightarrow>
          let e = sr_arp_queue sr ! i;
              late = now sr - 1 > arpq_last_req e in
          if late \<and> arpq_num_reqs e \<ge> ARP_MAX_REQ then
            and_then (arpq_packets_icmpsend (arpq_packets e) sr) (\<lambda>sr.
            Inr (None, sr\<lparr>arpq_dangling := True\<rparr>))
          else
            let e = (if late \<and> arpq_packets e \<noteq> []
                     then e\<lparr>arpq_last_req := now sr, arpq_num_reqs := arpq_num_reqs e + 1\<rparr> else e) in
            if arpq_packets e = [] then Inl Assertion_Failed
            else
              let e = arpq_add_packet outgoing (from_MAC incoming) (iface incoming) e;
                  sr = sr\<lparr>sr_arp_queue := (sr_arp_queue sr)[i := e]\<rparr> in
              and_then (arp_create sr outgoing (iface outgoing) ARP_REQUEST) (\<lambda>f. Inr (Some f, sr))
      | None \<Rightarrow>
          and_then (arpq_add_entry sr (iface outgoing) outgoing (to_ip outgoing)
            (from_MAC incoming) (iface incoming)) (\<lambda>sr.
          and_then (arp_create sr outgoing (iface outgoing) ARP_REQUEST) (\<lambda>f.
          let n = length (sr_arp_queue sr) - 1 in
          Inr (Some f, sr\<lparr>sr_arp_queue := (sr_arp_queue sr)[n :=
            (sr_arp_queue sr ! n)\<lparr>arpq_next_hop := to_ip f\<rparr>]\<rparr>))))"

definition forward :: "frame_t \<Rightarrow> router \<Rightarrow> outcome" where
  "forward incoming sr =
     and_then (update_ip_hdr sr incoming) (\<lambda>(outgoing, next_hop).
     case arp_cache_lookup (sr_arp_cache sr) next_hop of
       None \<Rightarrow> queue_packet incoming outgoing sr
     | Some i \<Rightarrow>
         and_then (encapsulate (outgoing\<lparr>to_MAC := arpc_mac (sr_arp_cache sr ! i)\<rparr>)) (\<lambda>f.
         Inr (Some f, sr)))"

text \<open>
  The checksum is computed over the header with its checksum, and then, with a zero in its
  place, a second time.
\<close>

definition handle_ip :: "frame_t \<Rightarrow> router \<Rightarrow> outcome" where
  "handle_ip incoming sr =
     and_then (load8 14 (frame incoming)) (\<lambda>vhl.
     if drop_bit 4 vhl \<noteq> 4 then Inr (None, sr)
     else
       and_then (compute_ip_checksum incoming) (\<lambda>incoming.
       and_then (load16 24 (frame incoming)) (\<lambda>ip_sum.
       if ip_sum \<noteq> 0 then Inr (None, sr)
       else
         and_then (compute_ip_checksum incoming) (\<lambda>incoming.
         and_then (if_dst_check sr (to_ip incoming)) (\<lambda>own.
         if own \<noteq> None then handle_local incoming sr
         else
           and_then (load8 22 (frame incoming)) (\<lambda>ttl.
           if ttl \<le> 0 then handle_expired incoming sr else forward incoming sr))))))"

subsection \<open>ARP packets\<close>

definition handle_arp :: "frame_t \<Rightarrow> router \<Rightarrow> outcome" where
  "handle_arp incoming sr =
     and_then (load 22 6 (frame incoming)) (\<lambda>sha.
     and_then (load32 28 (frame incoming)) (\<lambda>sip.
     and_then (load32 38 (frame incoming)) (\<lambda>tip.
     let cached = arp_cache_lookup (sr_arp_cache sr) sip;
         sr = (case cached of
                 Some i \<Rightarrow> sr\<lparr>sr_arp_cache := arp_cache_update i sha (now sr) (sr_arp_cache sr)\<rparr>
               | None \<Rightarrow> sr) in
     and_then (if_dst_check sr tip) (\<lambda>target_if.
     if target_if = None then Inr (None, sr)
     else
       and_then
         (if cached = None then
            let sr = sr\<lparr>sr_arp_cache := arp_cache_add (sr_arp_cache sr) sha sip (now sr)\<rparr> in
            (case arpq_next_hop_lookup (sr_arp_queue sr) sip of
               Some i \<Rightarrow> arpq_entry_clear i sha sr
             | None \<Rightarrow> Inr sr)
          else Inr sr) (\<lambda>sr.
       and_then (load16 20 (frame incoming)) (\<lambda>ar_op.
       if ntohs ar_op = ARP_REQUEST then
         and_then (arp_create sr incoming (iface incoming) ARP_REPLY) (\<lambda>f. Inr (Some f, sr))
       else Inr (None, sr)))))))"

subsection \<open>All packets\<close>

text \<open>
  The end of the function sends the frame, if there is one.  An unknown protocol makes \<open>create_frame_t\<close> return NULL, which the caller
  dereferences.
\<close>

definition transmit :: "frame_t option \<Rightarrow> router \<Rightarrow> sr_fault + router" where
  "transmit outgoing sr =
     (case outgoing of
        None \<Rightarrow> Inr sr
      | Some f \<Rightarrow>
          deref_if (iface f) sr (\<lambda>ifc. sr_send_packet (frame f) (len f) (if_name ifc) sr))"

definition sr_handlepacket :: "byte list \<Rightarrow> string \<Rightarrow> router \<Rightarrow> sr_fault + router" where
  "sr_handlepacket packet ifn sr =
     (if length packet < ETHER_HDR_LEN then Inr sr
      else
        and_then (create_frame_t sr packet ifn) (\<lambda>created.
        let sr = sr\<lparr>sr_arp_cache := arp_cache_flush (now sr) (sr_arp_cache sr)\<rparr> in
        and_then (arp_queue_flush sr) (\<lambda>sr.
        deref_ptr created (\<lambda>incoming.
        and_then (if ip_header incoming \<noteq> None then handle_ip incoming sr
                  else if arp_header incoming \<noteq> None then handle_arp incoming sr
                  else Inr (None, sr)) (\<lambda>(outgoing, sr).
        transmit outgoing sr)))))"

text \<open>An ARP request for another address than that of the receiving interface is dropped.\<close>

definition sr_arp_req_not_for_us :: "byte list \<Rightarrow> string \<Rightarrow> router \<Rightarrow> sr_fault + bool" where
  "sr_arp_req_not_for_us packet ifn sr =
     (if length packet < 42 then Inr False
      else
        (case sr_get_interface sr ifn of
           None \<Rightarrow> Inl Assertion_Failed
         | Some i \<Rightarrow>
             and_then (load16 12 packet) (\<lambda>ether_type.
             and_then (load16 20 packet) (\<lambda>ar_op.
             and_then (load32 38 packet) (\<lambda>ar_tip.
             Inr (ether_type = htons ETHERTYPE_ARP \<and> ar_op = htons ARP_REQUEST
               \<and> ar_tip \<noteq> if_ip (if_list sr ! i)))))))"

text \<open>
  The hardware the server announces: a key in host order and 32 bytes.  Only the name and the
  two addresses of an interface are used.
\<close>

type_synonym c_hw_entry = "nat \<times> byte list"

definition string_of :: "byte list \<Rightarrow> string" where
  "string_of bs = cstring (map (\<lambda>b. char_of (unat b)) bs)"

definition hw_entry :: "c_hw_entry \<Rightarrow> router \<Rightarrow> sr_fault + router" where
  "hw_entry e sr =
     (case e of (key, value) \<Rightarrow>
        if key = 1 then Inr (sr_add_interface (string_of value) sr)
        else if key = 64 then sr_set_ether_ip (word32 (take 4 value)) sr
        else if key = 32 then sr_set_ether_addr value sr
        else Inr sr)"

definition sr_handle_hwinfo :: "c_hw_entry list \<Rightarrow> router \<Rightarrow> sr_fault + router" where
  "sr_handle_hwinfo entries sr = for_each entries hw_entry sr"

text \<open>
  A command that has been read completely.  The result is the one of
  \<open>sr_read_from_server\<close>; the main loop goes on while it is 1.  The commands of the session
  itself (authentication, templates, banners) do not touch the state of the router.
\<close>

datatype vns_command =
    VNSPACKET string "byte list" | VNSCLOSE | VNSHWINFO "c_hw_entry list" | VNSOTHER int

definition sr_command :: "vns_command \<Rightarrow> router \<Rightarrow> sr_fault + int \<times> router" where
  "sr_command c sr =
     (case c of
        VNSPACKET ifn packet \<Rightarrow>
          and_then (sr_arp_req_not_for_us packet ifn sr) (\<lambda>skip.
          if skip then Inr (1, sr)
          else and_then (sr_handlepacket packet ifn sr) (\<lambda>sr. Inr (1, sr)))
      | VNSCLOSE \<Rightarrow> Inr (0, sr)
      | VNSHWINFO entries \<Rightarrow>
          and_then (sr_handle_hwinfo entries sr) (\<lambda>sr.
          Inr (if sr_verify_routing_table sr \<noteq> 0 then (-1, sr) else (1, sr)))
      | VNSOTHER ret \<Rightarrow> Inr (ret, sr))"

text \<open>
  The router at work: commands arrive, time passes, and fresh memory holds whatever it holds.
  The value of a hardware entry is an array of 32 bytes.
\<close>

definition hw_sized :: "c_hw_entry \<Rightarrow> bool" where
  "hw_sized e \<longleftrightarrow> length (snd e) = 32"

definition vns_sized :: "vns_command \<Rightarrow> bool" where
  "vns_sized c \<longleftrightarrow> (case c of VNSHWINFO es \<Rightarrow> \<forall>e \<in> set es. hw_sized e | _ \<Rightarrow> True)"

inductive sr_step :: "router \<Rightarrow> router \<Rightarrow> bool" where
  sr_step_command: "vns_sized c \<Longrightarrow> sr_command c sr = Inr (1, sr') \<Longrightarrow> sr_step sr sr'"
| sr_step_time: "now sr \<le> t \<Longrightarrow> sr_step sr (sr\<lparr>now := t, junk := j, junk_ip := ip, junk_len := n\<rparr>)"

inductive sr_reachable :: "router \<Rightarrow> router \<Rightarrow> bool" where
  sr_reachable_start: "sr_reachable sr sr"
| sr_reachable_step: "sr_reachable sr sr' \<Longrightarrow> sr_step sr' sr'' \<Longrightarrow> sr_reachable sr sr''"

end
