(* ===== verification/Sr_Checksum.thy ===== *)
theory Sr_Checksum
  imports Sr_Router
begin

text \<open>
  What the two checksum routines compute.  The loop adds with end-around carry, so its result
  is the total of the words modulo 65535, with 65535 for a positive multiple; hence a header
  with its own checksum in it always verifies, and verification depends on the total only.
\<close>

definition ones_add :: "nat \<Rightarrow> nat \<Rightarrow> nat" where
  "ones_add a b = (if a + b < 65536 then a + b else a + b - 65535)"

text \<open>The total of the words, and what the loop makes of a total.\<close>

definition total :: "16 word list \<Rightarrow> nat" where
  "total ws = sum_list (map unat ws)"

definition ones_rest :: "nat \<Rightarrow> nat" where
  "ones_rest n = (if n = 0 then 0 else (n - 1) mod 65535 + 1)"

lemma ones_rest_le: "ones_rest n \<le> 65535"
  using mod_less_divisor [of 65535 "n - 1"] by (simp add: ones_rest_def Suc_le_eq)

lemma ones_rest_small: "n \<le> 65535 \<Longrightarrow> ones_rest n = n"
  by (simp add: ones_rest_def)

lemma ones_rest_mod: "ones_rest n mod 65535 = n mod 65535"
  by (cases n) (auto simp: ones_rest_def mod_Suc)

lemma ones_rest_unique:
  assumes "a mod 65535 = b mod 65535" and "a = 0 \<longleftrightarrow> b = 0"
  shows "ones_rest a = ones_rest b"
proof (cases "a = 0")
  case False
  with assms(2) obtain x y where "a = Suc x" "b = Suc y" by (metis not0_implies_Suc)
  with assms(1) have "x mod 65535 = y mod 65535" by (simp add: mod_Suc split: if_splits)
  then show ?thesis by (simp add: ones_rest_def \<open>a = Suc x\<close> \<open>b = Suc y\<close>)
qed (use assms(2) in simp)

lemma ones_rest_rest: "ones_rest (ones_rest a + b) = ones_rest (a + b)"
proof (rule ones_rest_unique)
  show "(ones_rest a + b) mod 65535 = (a + b) mod 65535"
    by (metis mod_add_left_eq ones_rest_mod)
  show "ones_rest a + b = 0 \<longleftrightarrow> a + b = 0" by (auto simp: ones_rest_def)
qed

lemma ones_add_rest: "ones_add (ones_rest a) b = ones_rest (a + b)" if "b \<le> 65535"
proof -
  let ?r = "ones_rest a"
  have r: "?r \<le> 65535" by (rule ones_rest_le)
  have "ones_add k b = ones_rest (k + b)" if "k \<le> 65535" for k
    using that \<open>b \<le> 65535\<close> by (auto simp: ones_add_def ones_rest_def mod_if)
  then have "ones_add ?r b = ones_rest (?r + b)" using r by blast
  also have "\<dots> = ones_rest (a + b)" by (rule ones_rest_rest)
  finally show ?thesis .
qed

lemma high_half: "t AND 0xffff0000 = 0 \<longleftrightarrow> unat t < 65536" for t :: "32 word"
proof -
  have m: "(0xffff0000 :: 32 word) = NOT (mask 16)" by (simp add: mask_eq_exp_minus_1)
  have "t AND NOT (mask 16) = push_bit 16 (drop_bit 16 t)"
    by (rule bit_word_eqI) (auto simp: bit_simps)
  moreover have "drop_bit 16 (t AND NOT (mask 16)) = drop_bit 16 t"
    by (rule bit_word_eqI) (auto simp: bit_simps dest: bit_imp_le_length)
  ultimately have "t AND NOT (mask 16) = 0 \<longleftrightarrow> drop_bit 16 t = 0"
    by (metis drop_bit_of_0 push_bit_of_0)
  also have "\<dots> \<longleftrightarrow> unat (drop_bit 16 t) = 0" by (simp add: unat_eq_zero)
  also have "\<dots> \<longleftrightarrow> unat t < 65536" by (simp add: drop_bit_eq_div unat_div div_eq_0_iff)
  finally show ?thesis by (simp only: m)
qed

lemma unat_less: "unat (w :: 'a::len word) < 2 ^ LENGTH('a)"
  by (rule unsigned_less)

lemma carry_step:
  fixes s :: "32 word" and w :: "16 word"
  assumes "unat s \<le> 65535"
  shows "unat (let s = s + ucast w in if s AND 0xffff0000 \<noteq> 0 then (s AND 0xffff) + 1 else s)
    = ones_add (unat s) (unat w)"
proof -
  have w: "unat w < 65536" using unat_less [of w] by simp
  then have u: "unat (ucast w :: 32 word) = unat w" by (simp add: unsigned_ucast_eq take_bit_nat_eq_self)
  let ?t = "s + ucast w"
  have t: "unat ?t = unat s + unat w"
    using assms w by (simp add: unat_word_ariths u)
  have "(0xffff :: 32 word) = mask 16" by (simp add: mask_eq_exp_minus_1)
  then have "unat (?t AND 0xffff) = unat (take_bit 16 ?t)" by (simp only: take_bit_eq_mask)
  also have "\<dots> = take_bit 16 (unat ?t)" by (rule unsigned_take_bit_eq)
  finally have "unat (?t AND 0xffff) = unat ?t mod 65536" by (simp add: take_bit_eq_mod)
  then have "unat ((?t AND 0xffff) + 1) = unat ?t mod 65536 + 1"
    by (simp add: unat_word_ariths)
  then show ?thesis
    using assms w t high_half [of ?t] by (auto simp: Let_def ones_add_def mod_if)
qed

lemma unat_sum_words: "unat s \<le> 65535 \<Longrightarrow> unat (sum_words ws s) = ones_rest (unat s + total ws)"
proof (induction ws arbitrary: s)
  case Nil
  then show ?case by (simp add: total_def ones_rest_small)
next
  case (Cons w ws)
  let ?s = "let s = s + ucast w in if s AND 0xffff0000 \<noteq> 0 then (s AND 0xffff) + 1 else s"
  have w: "unat w \<le> 65535" using unat_less [of w] by simp
  have s: "unat ?s = ones_rest (unat s + unat w)"
    using carry_step [OF Cons.prems] ones_add_rest [OF w, of "unat s"] Cons.prems
    by (simp only: ones_rest_small)
  then have le: "unat ?s \<le> 65535" using ones_rest_le by simp
  have "sum_words (w # ws) s = sum_words ws ?s" by (simp add: Let_def)
  then have "unat (sum_words (w # ws) s) = ones_rest (ones_rest (unat s + unat w) + total ws)"
    using Cons.IH [OF le] s by simp
  also have "\<dots> = ones_rest (unat s + unat w + total ws)" by (rule ones_rest_rest)
  finally show ?case by (simp add: total_def add.assoc)
qed

text \<open>The checksum of some bytes, and when a message with its checksum in it verifies.\<close>

lemma unat_not16: "unat (NOT (w :: 16 word)) = 65535 - unat w"
proof -
  have "NOT w = - 1 - w" by (simp add: not_eq_complement)
  moreover have "w \<le> - 1" by (simp add: word_order.extremum)
  ultimately have "unat (NOT w) = unat (- 1 :: 16 word) - unat w" by (simp only: unat_sub)
  then show ?thesis by (simp add: unsigned_minus_1_eq_mask mask_eq_exp_minus_1)
qed

lemma unat_checksum: "unat (checksum bs) = 65535 - ones_rest (total (words16 bs))"
proof -
  let ?s = "sum_words (words16 bs) 0"
  have s: "unat ?s = ones_rest (total (words16 bs))" using unat_sum_words [of 0] by simp
  have "ucast (NOT (?s AND mask 16)) = NOT (ucast ?s :: 16 word)"
    by (rule bit_word_eqI) (auto simp: bit_simps)
  moreover have "(0xffff :: 32 word) = mask 16" by (simp add: mask_eq_exp_minus_1)
  ultimately have "checksum bs = NOT (ucast ?s)" by (simp only: checksum_def)
  moreover have "unat (ucast ?s :: 16 word) = unat ?s"
    using ones_rest_le [of "total (words16 bs)"] s by (simp add: unsigned_ucast_eq take_bit_nat_eq_self)
  ultimately show ?thesis using s by (simp add: unat_not16)
qed

lemma checksum_zero_iff: "checksum bs = 0 \<longleftrightarrow> 0 < total (words16 bs) \<and> 65535 dvd total (words16 bs)"
proof -
  let ?t = "total (words16 bs)"
  have "checksum bs = 0 \<longleftrightarrow> ones_rest ?t = 65535"
    using unat_checksum [of bs] ones_rest_le [of ?t] by (auto simp: word_unat_eq_iff)
  also have "\<dots> \<longleftrightarrow> 0 < ?t \<and> 65535 dvd ?t"
    by (cases ?t) (auto simp: ones_rest_def dvd_eq_mod_eq_0 mod_Suc)
  finally show ?thesis .
qed

lemma words16_append: "even (length xs) \<Longrightarrow> words16 (xs @ ys) = words16 xs @ words16 ys"
  by (induction xs rule: words16.induct) simp_all

lemma total_append: "total (xs @ ys) = total xs + total ys"
  by (simp add: total_def)

lemma total_bytes16 [simp]: "total (words16 (bytes16 w)) = unat w"
  using word16_bytes16 [of w] by (simp add: total_def bytes16_def)

text \<open>Putting the checksum where there was a zero makes the checksum of the whole zero.\<close>

lemma checksum_verifies:
  assumes "even (length xs)"
  shows "checksum (xs @ bytes16 (checksum (xs @ [0, 0] @ ys)) @ ys) = 0"
proof -
  let ?c = "checksum (xs @ [0, 0] @ ys)" and ?t = "total (words16 xs) + total (words16 ys)"
  have "word16 [0, 0] = 0" by (simp add: word16_def)
  then have "total (words16 (xs @ [0, 0] @ ys)) = ?t"
    using assms by (simp add: words16_append total_append) (simp add: total_def)
  then have c: "unat ?c = 65535 - ones_rest ?t" by (simp only: unat_checksum)
  have "total (words16 (xs @ bytes16 ?c @ ys)) = ?t + unat ?c"
    using assms by (simp add: words16_append total_append)
  moreover have "0 < ?t + unat ?c"
    using c by (cases "?t = 0") (simp_all add: ones_rest_def)
  moreover have "65535 dvd ?t + unat ?c"
  proof -
    have "(?t + unat ?c) mod 65535 = (ones_rest ?t + unat ?c) mod 65535"
      by (metis mod_add_left_eq ones_rest_mod)
    also have "ones_rest ?t + unat ?c = 65535" using c ones_rest_le [of ?t] by simp
    finally show ?thesis by (simp add: dvd_eq_mod_eq_0)
  qed
  ultimately show ?thesis by (simp only: checksum_zero_iff)
qed

lemma once_65535:
  fixes a b :: nat
  assumes "65535 dvd a + b" and "a \<le> 65535" and "b < 65535" and "0 < a"
  shows "a + b = 65535"
proof -
  from assms(1) obtain k where k: "a + b = 65535 * k" by (elim dvdE)
  with assms have "k < 2" "k \<noteq> 0" by auto
  then have "k = 1" by linarith
  with k show ?thesis by simp
qed

text \<open>A checksum that verifies is the one that is computed, up to the two forms of zero.\<close>

lemma checksum_restored:
  assumes "even (length xs)" and "checksum (xs @ bytes16 c @ ys) = 0" and "c \<noteq> 0xffff"
    and "xs @ ys \<noteq> []" and "0 < total (words16 xs) + total (words16 ys)"
  shows "checksum (xs @ [0, 0] @ ys) = c"
proof -
  let ?t = "total (words16 xs) + total (words16 ys)"
  have "word16 [0, 0] = 0" by (simp add: word16_def)
  then have "total (words16 (xs @ [0, 0] @ ys)) = ?t"
    using assms(1) by (simp add: words16_append total_append) (simp add: total_def)
  then have c: "unat (checksum (xs @ [0, 0] @ ys)) = 65535 - ones_rest ?t" by (simp only: unat_checksum)
  have "65535 dvd ?t + unat c"
    using assms(1,2) by (simp add: checksum_zero_iff words16_append total_append ac_simps)
  moreover have "(?t + unat c) mod 65535 = (ones_rest ?t + unat c) mod 65535"
    by (metis mod_add_left_eq ones_rest_mod)
  ultimately have d: "65535 dvd ones_rest ?t + unat c" by (simp only: dvd_eq_mod_eq_0)
  have "unat c < 65535"
    using assms(3) unat_less [of c] by (auto simp: word_unat_eq_iff)
  moreover have "0 < ones_rest ?t" using assms(5) by (simp add: ones_rest_def)
  ultimately have "ones_rest ?t + unat c = 65535"
    using d ones_rest_le [of ?t] by (rule once_65535 [rotated 2])
  with c show ?thesis by (simp add: word_unat_eq_iff)
qed

end
