(* ===== verification/Sr_Datagram.thy ===== *)
theory Sr_Datagram
  imports Sr_Checksum
begin

text \<open>
  Datagrams as values: what the frames of IP packets with a header of twenty bytes mean, and
  what the routines of \<open>sr_router.c\<close> do to them.  \<open>datagram d\<close> is the frame of \<open>d\<close>; each lemma
  says that a routine on the bytes is a function on the datagram.
\<close>

record dgram =
  dmac :: "byte list"
  smac :: "byte list"
  tos :: byte
  total_len :: "16 word"
  id_off :: "byte list"
  ttl :: byte
  proto :: byte
  hsum :: "16 word"
  src :: "32 word"
  dst :: "32 word"
  body :: "byte list"

definition header :: "dgram \<Rightarrow> byte list" where
  "header d = [0x45, tos d] @ bytes16 (htons (total_len d)) @ id_off d @ [ttl d, proto d] @
     bytes16 (hsum d) @ bytes32 (src d) @ bytes32 (dst d)"

definition datagram :: "dgram \<Rightarrow> byte list" where
  "datagram d = dmac d @ smac d @ bytes16 (htons ETHERTYPE_IP) @ header d @ body d"

definition shaped :: "dgram \<Rightarrow> bool" where
  "shaped d \<longleftrightarrow> length (dmac d) = 6 \<and> length (smac d) = 6 \<and> length (id_off d) = 4"

text \<open>A datagram whose header verifies, and the datagram with the right checksum.\<close>

definition verifies :: "dgram \<Rightarrow> bool" where
  "verifies d \<longleftrightarrow> checksum (header d) = 0"

definition with_sum :: "dgram \<Rightarrow> dgram" where
  "with_sum d = d\<lparr>hsum := checksum (header (d\<lparr>hsum := 0\<rparr>))\<rparr>"

lemma shaped_with_sum [simp]: "shaped (with_sum d) = shaped d"
  by (simp add: shaped_def with_sum_def)

lemma shaped_upd [simp]:
  "shaped (d\<lparr>hsum := c\<rparr>) = shaped d" "shaped (d\<lparr>ttl := t\<rparr>) = shaped d"
  "shaped (d\<lparr>body := b\<rparr>) = shaped d"
  by (simp_all add: shaped_def)

lemma shaped_simps [simp]:
  "shaped d \<Longrightarrow> length (dmac d) = 6" "shaped d \<Longrightarrow> length (smac d) = 6" "shaped d \<Longrightarrow> length (id_off d) = 4"
  by (simp_all add: shaped_def)

lemma length_header [simp]: "shaped d \<Longrightarrow> length (header d) = 20"
  by (simp add: header_def)

lemma length_datagram [simp]: "shaped d \<Longrightarrow> length (datagram d) = 34 + length (body d)"
  by (simp add: datagram_def)

lemma word16_pair: "word16 [0, 0] = 0" "bytes16 0 = [0, 0]"
  by (simp_all add: word16_def bytes16_def)

lemma with_sum_verifies:
  assumes "shaped d"
  shows "verifies (with_sum d)"
proof -
  let ?xs = "[0x45, tos d] @ bytes16 (htons (total_len d)) @ id_off d @ [ttl d, proto d]"
  have "even (length ?xs)" using assms by simp
  from checksum_verifies [OF this, of "bytes32 (src d) @ bytes32 (dst d)"] show ?thesis
    by (simp add: verifies_def with_sum_def header_def word16_pair)
qed

lemma verified_with_sum:
  assumes "shaped d" and "verifies d" and "hsum d \<noteq> 0xffff"
  shows "with_sum d = d"
proof -
  let ?xs = "[0x45, tos d] @ bytes16 (htons (total_len d)) @ id_off d @ [ttl d, proto d]"
    and ?ys = "bytes32 (src d) @ bytes32 (dst d)"
  have "even (length ?xs)" using assms by simp
  moreover have "checksum (?xs @ bytes16 (hsum d) @ ?ys) = 0"
    using assms(2) by (simp add: verifies_def header_def)
  moreover have "0 < total (words16 ?xs) + total (words16 ?ys)"
  proof -
    have "odd (word16 [0x45, tos d])" by (simp add: word16_def flip: bit_0) (simp add: bit_simps)
    then have "word16 [0x45, tos d] \<noteq> 0" by auto
    then show ?thesis by (simp add: total_def unat_gt_0)
  qed
  ultimately have "checksum (?xs @ [0, 0] @ ?ys) = hsum d"
    using assms(3) by (intro checksum_restored) simp_all
  then show ?thesis by (simp add: with_sum_def header_def word16_pair)
qed

subsection \<open>Loads and stores\<close>

named_theorems fields \<open>the fields of a frame of a datagram\<close>

lemma datagram_loads [fields]:
  assumes "shaped d"
  shows "load 0 6 (datagram d) = Inr (dmac d)" "load 6 6 (datagram d) = Inr (smac d)"
    "load16 12 (datagram d) = Inr (htons ETHERTYPE_IP)"
    "load8 14 (datagram d) = Inr 0x45" "load16 16 (datagram d) = Inr (htons (total_len d))"
    "load8 22 (datagram d) = Inr (ttl d)" "load8 23 (datagram d) = Inr (proto d)"
    "load16 24 (datagram d) = Inr (hsum d)"
    "load32 26 (datagram d) = Inr (src d)" "load32 30 (datagram d) = Inr (dst d)"
    "load 14 20 (datagram d) = Inr (header d)"
  using assms
  by (simp_all add: load8_def load16_def load32_def load_def datagram_def header_def)

lemma datagram_stores [fields]:
  assumes "shaped d"
  shows "store 22 [t] (datagram d) = Inr (datagram (d\<lparr>ttl := t\<rparr>))"
    "store 24 (bytes16 c) (datagram d) = Inr (datagram (d\<lparr>hsum := c\<rparr>))"
    "store 24 [0, 0] (datagram d) = Inr (datagram (d\<lparr>hsum := 0\<rparr>))"
  using assms
  by (simp_all add: store_def datagram_def header_def word16_pair)


lemma position_None: "position P xs = None \<longleftrightarrow> (\<forall>x \<in> set xs. \<not> P x)"
  by (induction xs) auto

lemma position_Some: "position P xs = Some i \<longleftrightarrow> i < length xs \<and> P (xs ! i) \<and> (\<forall>j < i. \<not> P (xs ! j))"
proof (induction xs arbitrary: i)
  case (Cons x xs)
  then show ?case
    by (cases i) (auto simp: less_Suc_eq_0_disj)
qed simp

subsection \<open>The routines on datagrams\<close>

text \<open>The view \<open>create_frame_t\<close> makes of an incoming datagram.\<close>

definition incoming :: "router \<Rightarrow> string \<Rightarrow> dgram \<Rightarrow> frame_t" where
  "incoming sr ifn d =
     \<lparr>frame = datagram d, ip_header = Some 14, arp_header = None,
      icmp_header = (if proto d = IPPROTO_ICMP then Some 34 else None),
      from_MAC = smac d, to_MAC = dmac d, from_ip = src d, to_ip = dst d,
      iface = get_interface sr ifn, len = 34 + length (body d), ip_hl = 20,
      ip_len = unat (total_len d)\<rparr>"

lemma create_frame_datagram:
  assumes "shaped d"
  shows "create_frame_t sr (datagram d) ifn = Inr (Some (incoming sr ifn d))"
  using assms by (simp add: create_frame_t_def fields incoming_def)

lemma compute_ip_checksum_datagram:
  assumes "shaped d" and "frame f = datagram d" and "ip_header f = Some 14"
  shows "compute_ip_checksum f = Inr (f\<lparr>frame := datagram (d\<lparr>hsum := checksum (header d)\<rparr>)\<rparr>)"
  using assms by (simp add: compute_ip_checksum_def fields)

lemma encapsulate_datagram:
  assumes "shaped d" and "frame f = datagram d" and "ip_header f \<noteq> None"
    and "length (to_MAC f) = 6" and "length (from_MAC f) = 6"
  shows "encapsulate f = Inr (f\<lparr>frame := datagram (d\<lparr>dmac := to_MAC f, smac := from_MAC f\<rparr>)\<rparr>)"
proof -
  have "store 0 (to_MAC f @ from_MAC f @ bytes16 (htons ETHERTYPE_IP)) (datagram d)
    = Inr (datagram (d\<lparr>dmac := to_MAC f, smac := from_MAC f\<rparr>))"
    using assms by (simp add: store_def datagram_def header_def)
  with assms(2,3) show ?thesis by (simp add: encapsulate_def)
qed

text \<open>What \<open>update_ip_hdr\<close> does to a datagram, and the frame it makes.\<close>

definition aged :: "dgram \<Rightarrow> dgram" where
  "aged d = with_sum (d\<lparr>ttl := ttl d - 1\<rparr>)"

lemma shaped_aged [simp]: "shaped (aged d) = shaped d"
  by (simp add: aged_def)

lemma update_ip_hdr_datagram:
  assumes "shaped d" and "frame f = datagram d" and "rt_match sr (to_ip f) = Some r"
    and "get_interface sr (rt_interface r) = Some i" and "i < length (if_list sr)"
  shows "update_ip_hdr sr f = Inr
    (\<lparr>frame = datagram (aged d), ip_header = Some 14, arp_header = None, icmp_header = None,
      from_MAC = if_addr (if_list sr ! i), to_MAC = junk_bytes 6 sr,
      from_ip = from_ip f, to_ip = to_ip f, iface = Some i, len = len f, ip_hl = ip_hl f,
      ip_len = junk_len sr\<rparr>, rt_gw r)"
proof -
  let ?d = "d\<lparr>ttl := ttl d - 1, hsum := 0\<rparr>"
  have "shaped ?d" using assms(1) by simp
  moreover have "aged d = ?d\<lparr>hsum := checksum (header ?d)\<rparr>" by (simp add: aged_def with_sum_def)
  ultimately show ?thesis
    using assms by (simp add: update_ip_hdr_def deref_if_def fields compute_ip_checksum_datagram [where d = ?d])
qed

text \<open>
  The first computation over a datagram that verifies stores a zero, the second one the
  checksum it should have; on another the first one does not store a zero.
\<close>

lemma first_checksum:
  assumes "shaped d"
  shows "compute_ip_checksum (incoming sr ifn d) =
    Inr ((incoming sr ifn d)\<lparr>frame := datagram (d\<lparr>hsum := checksum (header d)\<rparr>)\<rparr>)"
  by (rule compute_ip_checksum_datagram [OF assms]) (simp_all add: incoming_def)

lemma second_checksum:
  assumes "shaped d"
  shows "compute_ip_checksum ((incoming sr ifn d)\<lparr>frame := datagram (d\<lparr>hsum := 0\<rparr>)\<rparr>) =
    Inr ((incoming sr ifn d)\<lparr>frame := datagram (with_sum d)\<rparr>)"
  using compute_ip_checksum_datagram [of "d\<lparr>hsum := 0\<rparr>" "(incoming sr ifn d)\<lparr>frame := datagram (d\<lparr>hsum := 0\<rparr>)\<rparr>"] assms
  by (simp add: with_sum_def) (simp add: incoming_def)

lemma handle_ip_datagram:
  assumes "shaped d" and "if_list sr \<noteq> []"
  shows "handle_ip (incoming sr' ifn d) sr =
    (if \<not> verifies d then Inr (None, sr)
     else
       let f = (incoming sr' ifn d)\<lparr>frame := datagram (with_sum d)\<rparr> in
       if dst d \<in> if_ip ` set (if_list sr) then handle_local f sr
       else if ttl d = 0 then handle_expired f sr else forward f sr)"
proof -
  let ?g = "(incoming sr' ifn d)\<lparr>frame := datagram (d\<lparr>hsum := checksum (header d)\<rparr>)\<rparr>"
  have v: "load8 14 (frame (incoming sr' ifn d)) = Inr 0x45" "drop_bit 4 (0x45 :: byte) = 4"
    using assms(1) by (simp_all add: incoming_def fields)
  have g: "load16 24 (frame ?g) = Inr (checksum (header d))" using assms(1) by (simp add: fields)
  show ?thesis
  proof (cases "verifies d")
    case False
    then show ?thesis using v g first_checksum [OF assms(1)] by (simp add: handle_ip_def verifies_def)
  next
    case True
    then have "checksum (header d) = 0" by (simp add: verifies_def)
    moreover have "if_dst_check sr (dst d) = Inr (position (\<lambda>i. if_ip i = dst d) (if_list sr))"
      using assms(2) by (simp add: if_dst_check_def)
    moreover have "position (\<lambda>i. if_ip i = dst d) (if_list sr) \<noteq> None \<longleftrightarrow> dst d \<in> if_ip ` set (if_list sr)"
      by (force simp: position_None)
    moreover have "to_ip (incoming sr' ifn d) = dst d" by (simp add: incoming_def)
    moreover have "load8 22 (datagram (with_sum d)) = Inr (ttl d)"
      using assms(1) by (simp add: fields) (simp add: with_sum_def)
    ultimately show ?thesis
      using v g True first_checksum [OF assms(1)] second_checksum [OF assms(1)]
      by (simp add: handle_ip_def Let_def)
  qed
qed

end
