(* ===== verification/Sr_Messages.thy ===== *)
theory Sr_Messages
  imports Sr_Datagram
begin

text \<open>
  The messages the router makes: the IP header around a payload, ICMP echo replies and errors,
  and ARP packets, each as the frame of an abstract value.
\<close>

subsection \<open>The header of a message\<close>

definition made :: "frame_t \<Rightarrow> byte list \<Rightarrow> dgram" where
  "made f b = with_sum
     \<lparr>dmac = to_MAC f, smac = from_MAC f, tos = 0, total_len = of_nat (ip_len f),
      id_off = [0, 0, 0, 0], ttl = 255, proto = IPPROTO_ICMP, hsum = 0,
      src = from_ip f, dst = to_ip f, body = b\<rparr>"

lemma with_sum_fields [simp]:
  "dmac (with_sum d) = dmac d" "smac (with_sum d) = smac d" "tos (with_sum d) = tos d"
  "total_len (with_sum d) = total_len d" "id_off (with_sum d) = id_off d"
  "ttl (with_sum d) = ttl d" "proto (with_sum d) = proto d" "src (with_sum d) = src d"
  "dst (with_sum d) = dst d" "body (with_sum d) = body d"
  by (simp_all add: with_sum_def)

lemma build_datagram:
  assumes "frame f = pre @ b" and "length pre = 34" and "ip_header f = Some 14"
    and "length (to_MAC f) = 6" and "length (from_MAC f) = 6"
  shows "and_then (ip_header_create f) encapsulate = Inr (f\<lparr>frame := datagram (made f b)\<rparr>)"
proof -
  let ?d = "\<lparr>dmac = to_MAC f, smac = from_MAC f, tos = 0, total_len = of_nat (ip_len f),
    id_off = [0, 0, 0, 0], ttl = 255, proto = IPPROTO_ICMP, hsum = 0,
    src = from_ip f, dst = to_ip f, body = b\<rparr>"
  let ?g = "take 14 pre @ header ?d @ b"
  have "store 14 (header ?d) (frame f) = Inr ?g"
    using assms(1,2) by (simp add: store_def header_def)
  then have "ip_header_create f = compute_ip_checksum (f\<lparr>frame := ?g\<rparr>)"
    using assms(3) by (simp add: ip_header_create_def header_def word16_pair)
  also have "\<dots> = Inr (f\<lparr>frame := take 14 pre @ header (with_sum ?d) @ b\<rparr>)"
  proof -
    have "load8 14 ?g = Inr 0x45" "load 14 20 ?g = Inr (header ?d)"
      using assms(2) by (simp_all add: load8_def load_def header_def)
    moreover have "store 24 (bytes16 (checksum (header ?d))) ?g =
        Inr (take 14 pre @ header (with_sum ?d) @ b)"
      using assms(2) by (simp add: store_def with_sum_def) (simp add: header_def)
    ultimately show ?thesis using assms(3) by (simp add: compute_ip_checksum_def)
  qed
  finally have "ip_header_create f = Inr (f\<lparr>frame := take 14 pre @ header (with_sum ?d) @ b\<rparr>)" .
  moreover have "store 0 (to_MAC f @ from_MAC f @ bytes16 (htons ETHERTYPE_IP))
      (take 14 pre @ header (with_sum ?d) @ b) = Inr (datagram (made f b))"
    using assms(2,4,5) by (simp add: store_def datagram_def made_def)
  ultimately show ?thesis using assms(3) by (simp add: encapsulate_def)
qed

subsection \<open>ICMP\<close>

text \<open>
  The checksum of an ICMP message of \<open>m\<close> bytes at the start of \<open>b\<close>, and the message with it.
\<close>

definition icmp_sum :: "nat \<Rightarrow> byte list \<Rightarrow> 16 word" where
  "icmp_sum m b = checksum (take (2 * (m div 2)) b)"

lemma compute_icmp_at:
  assumes "frame f = pre @ [t, c] @ bytes16 s @ rest" and "length pre = 34"
    and "icmp_header f = Some 34" and "ip_len f = ip_hl f + m" and "4 \<le> m" and "m \<le> 4 + length rest"
  shows "compute_icmp_checksum f =
    Inr (f\<lparr>frame := pre @ [t, c] @ bytes16 (icmp_sum m ([t, c] @ bytes16 s @ rest)) @ rest\<rparr>)"
proof -
  let ?b = "[t, c] @ bytes16 s @ rest"
  have "load 34 m (frame f) = Inr (take m ?b)"
    using assms by (simp add: load_def)
  moreover have "take (2 * (m div 2)) (take m ?b) = take (2 * (m div 2)) ?b"
    by (simp add: min_absorb1)
  moreover have "store 36 (bytes16 x) (frame f) = Inr (pre @ [t, c] @ bytes16 x @ rest)" for x
    using assms(1,2) by (simp add: store_def)
  ultimately show ?thesis
    using assms(3-5) by (simp add: compute_icmp_checksum_def icmp_sum_def Let_def)
qed

text \<open>The reply to an echo request, as \<open>handle_local\<close> makes it.\<close>

definition echo_reply :: "dgram \<Rightarrow> byte \<Rightarrow> byte list \<Rightarrow> dgram" where
  "echo_reply d code rest =
     (let m = unat (total_len d) - 20 in with_sum
      \<lparr>dmac = smac d, smac = dmac d, tos = 0, total_len = total_len d,
       id_off = [0, 0, 0, 0], ttl = 255, proto = IPPROTO_ICMP, hsum = 0, src = dst d, dst = src d,
       body = [ECHO_REPLY, code] @ bytes16 (icmp_sum m ([ECHO_REPLY, code, 0, 0] @ rest)) @ rest\<rparr>)"

lemma datagram_split:
  assumes "shaped d"
  obtains pre where "datagram d = pre @ body d" and "length pre = 34"
proof
  show "datagram d = (dmac d @ smac d @ bytes16 (htons ETHERTYPE_IP) @ header d) @ body d"
    by (simp add: datagram_def)
qed (use assms in simp)

lemma generate_icmp_echo_datagram:
  assumes "shaped d" and "f = (incoming sr ifn d)\<lparr>frame := datagram d'\<rparr>"
    and "shaped d'" and "body d' = [t, code] @ bytes16 s @ rest" and "length (body d') = length (body d)"
    and "24 \<le> unat (total_len d)" and "unat (total_len d) \<le> 20 + length (body d)"
  shows "generate_icmp_echo f =
    Inr (\<lparr>frame = datagram (echo_reply d code rest), ip_header = Some 14, arp_header = None,
      icmp_header = Some 34, from_MAC = dmac d, to_MAC = smac d, from_ip = dst d, to_ip = src d,
      iface = get_interface sr ifn, len = 34 + length (body d), ip_hl = 20,
      ip_len = unat (total_len d)\<rparr>)"
proof -
  let ?m = "unat (total_len d) - 20"
  obtain pre where fr: "datagram d' = pre @ body d'" and pre: "length pre = 34"
    using datagram_split [OF assms(3)] .
  let ?f = "\<lparr>frame = pre @ [ECHO_REPLY, code] @ bytes16 0 @ rest, ip_header = Some 14,
      arp_header = None, icmp_header = Some 34, from_MAC = dmac d, to_MAC = smac d,
      from_ip = dst d, to_ip = src d, iface = get_interface sr ifn, len = 34 + length (body d),
      ip_hl = 20, ip_len = unat (total_len d)\<rparr>"
  let ?b = "[ECHO_REPLY, code] @ bytes16 (icmp_sum ?m ([ECHO_REPLY, code] @ bytes16 0 @ rest)) @ rest"
  have "?m \<le> 4 + length rest" using assms(4,5,7) by simp
  then have "compute_icmp_checksum ?f = Inr (?f\<lparr>frame := pre @ ?b\<rparr>)"
    using compute_icmp_at [of ?f pre ECHO_REPLY code 0 rest ?m] assms(6) pre by simp
  moreover have "and_then (ip_header_create (?f\<lparr>frame := pre @ ?b\<rparr>)) encapsulate
      = Inr (?f\<lparr>frame := datagram (made ?f ?b)\<rparr>)"
    using build_datagram [of "?f\<lparr>frame := pre @ ?b\<rparr>" pre ?b] pre assms(1) by (simp add: made_def)
  moreover have "store 34 [ECHO_REPLY] (datagram d') = Inr (pre @ [ECHO_REPLY, code] @ bytes16 s @ rest)"
    using pre by (simp add: fr assms(4) store_def)
  moreover have "store 36 [0, 0] (pre @ [ECHO_REPLY, code] @ bytes16 s @ rest)
      = Inr (pre @ [ECHO_REPLY, code] @ bytes16 0 @ rest)"
    using pre by (simp add: store_def word16_pair)
  moreover have "made ?f ?b = echo_reply d code rest"
    by (simp add: made_def echo_reply_def word16_pair)
  ultimately show ?thesis
    by (simp add: generate_icmp_echo_def assms(2) incoming_def Let_def)
qed

text \<open>An error message about the datagram of \<open>f\<close>: its header and eight bytes of its payload.\<close>

definition icmp_error :: "byte \<Rightarrow> byte \<Rightarrow> frame_t \<Rightarrow> dgram \<Rightarrow> dgram" where
  "icmp_error t c f d =
     (let quoted = header d @ take 8 (body d) in with_sum
      \<lparr>dmac = from_MAC f, smac = to_MAC f, tos = 0, total_len = 56,
       id_off = [0, 0, 0, 0], ttl = 255, proto = IPPROTO_ICMP, hsum = 0,
       src = to_ip f, dst = from_ip f,
       body = [t, c] @ bytes16 (icmp_sum 36 ([t, c, 0, 0, 0, 0, 0, 0] @ quoted)) @ [0, 0, 0, 0] @ quoted\<rparr>)"

lemma generate_icmp_error_datagram:
  assumes "shaped d" and "frame f = datagram d" and "ip_header f = Some 14" and "ip_hl f = 20"
    and "ip_len f < 20 \<or> 28 \<le> ip_len f" and "8 \<le> length (body d)"
    and "length (to_MAC f) = 6" and "length (from_MAC f) = 6"
  shows "generate_icmp_error sr f t c =
    Inr (\<lparr>frame = datagram (icmp_error t c f d), ip_header = Some 14, arp_header = None,
      icmp_header = Some 34, from_MAC = to_MAC f, to_MAC = from_MAC f, from_ip = to_ip f,
      to_ip = from_ip f, iface = iface f, len = 70, ip_hl = 20, ip_len = 56\<rparr>)"
proof -
  let ?q = "header d @ take 8 (body d)" and ?z = "[0, 0, 0, 0] :: byte list"
  define pre where "pre = take 34 (junk_bytes 70 sr)"
  have pre: "length pre = 34" by (simp add: pre_def del: upt_rec_numeral)
  have q: "length ?q = 28" using assms(1,6) by simp
  let ?f = "\<lparr>frame = pre @ [t, c] @ bytes16 0 @ ?z @ ?q, ip_header = Some 14, arp_header = None,
      icmp_header = Some 34, from_MAC = to_MAC f, to_MAC = from_MAC f, from_ip = to_ip f,
      to_ip = from_ip f, iface = iface f, len = 70, ip_hl = 20, ip_len = 56\<rparr>"
  let ?b = "[t, c] @ bytes16 (icmp_sum 36 ([t, c] @ bytes16 0 @ ?z @ ?q)) @ ?z @ ?q"
  have "compute_icmp_checksum ?f = Inr (?f\<lparr>frame := pre @ ?b\<rparr>)"
    using compute_icmp_at [of ?f pre t c 0 "?z @ ?q" 36] pre q by simp
  moreover have "and_then (ip_header_create (?f\<lparr>frame := pre @ ?b\<rparr>)) encapsulate
      = Inr (?f\<lparr>frame := datagram (made ?f ?b)\<rparr>)"
    using build_datagram [of "?f\<lparr>frame := pre @ ?b\<rparr>" pre ?b] pre assms(7,8) by (simp add: made_def)
  moreover have "load 14 28 (datagram d) = Inr ?q"
    using assms(1,6) by (simp add: load_def datagram_def)
  moreover have "store 34 [t, c, 0, 0, 0, 0, 0, 0] (junk_bytes 70 sr)
      = Inr (pre @ [t, c, 0, 0, 0, 0, 0, 0] @ drop 42 (junk_bytes 70 sr))"
    by (simp add: store_def pre_def del: upt_rec_numeral)
  moreover have "store 42 ?q (pre @ [t, c, 0, 0, 0, 0, 0, 0] @ drop 42 (junk_bytes 70 sr))
      = Inr (pre @ [t, c] @ bytes16 0 @ ?z @ ?q)"
    using pre q by (simp add: store_def word16_pair)
  moreover have "made ?f ?b = icmp_error t c f d"
    by (simp add: made_def icmp_error_def word16_pair Let_def)
  moreover have n: "(if ip_hl f \<le> ip_len f \<and> ip_len f - ip_hl f < 8 then ip_len f else ip_hl f + 8) = 28"
    using assms(4,5) by auto
  ultimately show ?thesis
    unfolding generate_icmp_error_def Let_def n
    using assms(2-4) by (simp del: upt_rec_numeral)
qed

subsection \<open>ARP\<close>

record arp =
  a_dmac :: "byte list"
  a_smac :: "byte list"
  a_op :: "16 word"
  a_sha :: "byte list"
  a_sip :: "32 word"
  a_tha :: "byte list"
  a_tip :: "32 word"

definition arp_frame :: "arp \<Rightarrow> byte list" where
  "arp_frame a = a_dmac a @ a_smac a @ bytes16 (htons ETHERTYPE_ARP) @
     bytes16 (htons 1) @ bytes16 (htons ETHERTYPE_IP) @ [6, 4] @ bytes16 (htons (a_op a)) @
     a_sha a @ bytes32 (a_sip a) @ a_tha a @ bytes32 (a_tip a)"

definition arp_shaped :: "arp \<Rightarrow> bool" where
  "arp_shaped a \<longleftrightarrow> length (a_dmac a) = 6 \<and> length (a_smac a) = 6
     \<and> length (a_sha a) = 6 \<and> length (a_tha a) = 6"

lemma length_arp_frame [simp]: "arp_shaped a \<Longrightarrow> length (arp_frame a) = 42"
  by (simp add: arp_frame_def arp_shaped_def)

lemma arp_loads:
  assumes "arp_shaped a"
  shows "load 0 6 (arp_frame a @ p) = Inr (a_dmac a)" "load 6 6 (arp_frame a @ p) = Inr (a_smac a)"
    "load16 12 (arp_frame a @ p) = Inr (htons ETHERTYPE_ARP)"
    "load16 20 (arp_frame a @ p) = Inr (htons (a_op a))" "load 22 6 (arp_frame a @ p) = Inr (a_sha a)"
    "load32 28 (arp_frame a @ p) = Inr (a_sip a)" "load32 38 (arp_frame a @ p) = Inr (a_tip a)"
  using assms
  by (simp_all add: load16_def load32_def load_def arp_frame_def arp_shaped_def)

lemma arp_create_frame:
  assumes "i < length (if_list sr)" and "length (if_addr (if_list sr ! i)) = 6"
    and "length (from_MAC f) = 6"
    and "if op = ARP_REQUEST then \<exists>r. rt_match sr (to_ip f) = Some r \<and> tip = rt_gw r \<and> dm = replicate 6 0xff
      else tip = from_ip f \<and> dm = from_MAC f"
  shows "arp_create sr f (Some i) op =
    (let ifc = if_list sr ! i in
     Inr (\<lparr>frame = arp_frame \<lparr>a_dmac = dm, a_smac = if_addr ifc, a_op = op, a_sha = if_addr ifc,
        a_sip = if_ip ifc, a_tha = from_MAC f, a_tip = tip\<rparr>, ip_header = None, arp_header = Some 14,
      icmp_header = None, from_MAC = if_addr ifc, to_MAC = dm, from_ip = if_ip ifc, to_ip = tip,
      iface = Some i, len = 42, ip_hl = 0, ip_len = 0\<rparr>))"
proof -
  let ?ifc = "if_list sr ! i"
  have d: "length dm = 6" using assms(3,4) by (auto split: if_splits)
  let ?p = "bytes16 (htons 1) @ bytes16 (htons ETHERTYPE_IP) @ [6, 4] @ bytes16 (htons op) @
    if_addr ?ifc @ bytes32 (if_ip ?ifc) @ from_MAC f @ bytes32 tip"
  have p: "length ?p = 28" using assms(2,3) by simp
  have "store 14 ?p (junk_bytes 42 sr) = Inr (take 14 (junk_bytes 42 sr) @ ?p)"
    using p by (simp only: store_def) (simp add: min_def)
  moreover have "store 0 (dm @ if_addr ?ifc @ bytes16 (htons ETHERTYPE_ARP)) (take 14 (junk_bytes 42 sr) @ ?p)
      = Inr (dm @ if_addr ?ifc @ bytes16 (htons ETHERTYPE_ARP) @ ?p)"
    using assms(2) d by (simp add: store_def)
  moreover have "(if op = ARP_REQUEST
      then deref_ptr (rt_match sr (to_ip f)) (\<lambda>route. Inr (rt_gw route, replicate 6 0xff))
      else Inr (from_ip f, from_MAC f)) = Inr (tip, dm)"
    using assms(4) by auto
  ultimately show ?thesis
    using assms(1) by (simp add: arp_create_def deref_if_def Let_def encapsulate_def arp_frame_def)
qed

end
