(* ===== verification/Sr_Handling.thy ===== *)
theory Sr_Handling
  imports Sr_Messages
begin

text \<open>
  What \<open>sr_handlepacket\<close> does with a datagram or an ARP packet, branch by branch: the result is
  the router after the two flushes, with the changes and the frames the packet causes.
\<close>

subsection \<open>Interfaces and sending\<close>

lemma strncmp_eq_sym: "strncmp_eq n a b = strncmp_eq n b a"
  by (auto simp: strncmp_eq_def)

lemma get_interface_bound: "get_interface sr nm = Some i \<Longrightarrow> i < length (if_list sr)"
  by (simp add: get_interface_def position_Some)

lemma interface_by_own_name:
  "get_interface sr nm = Some i \<Longrightarrow> sr_get_interface sr (if_name (if_list sr ! i)) = Some i"
  by (auto simp: get_interface_def sr_get_interface_def position_Some strncmp_eq_def)

text \<open>A frame leaves exactly when its source is the address of the interface it leaves by.\<close>

lemma sr_send_packet_eq:
  assumes "get_interface sr nm = Some i" and "length buf = n" and "14 \<le> n"
  shows "sr_send_packet buf n (if_name (if_list sr ! i)) sr =
    Inr (if take 6 (drop 6 buf) = if_addr (if_list sr ! i)
      then sr\<lparr>log := log sr @ [(take 16 (if_name (if_list sr ! i)), buf)]\<rparr> else sr)"
  using assms interface_by_own_name [OF assms(1)]
  by (simp add: sr_send_packet_def sr_ether_addrs_match_interface_def load_def)

definition sends :: "nat \<Rightarrow> byte list \<Rightarrow> router \<Rightarrow> router" where
  "sends i bytes sr = sr\<lparr>log := log sr @ [(take 16 (if_name (if_list sr ! i)), bytes)]\<rparr>"

lemma transmit_datagram:
  assumes "get_interface sr nm = Some i" and "shaped d" and "frame f = datagram d"
    and "len f = 34 + length (body d)" and "iface f = Some i" and "smac d = if_addr (if_list sr ! i)"
  shows "transmit (Some f) sr = Inr (sends i (datagram d) sr)"
proof -
  have "take 6 (drop 6 (datagram d)) = smac d" using assms(2) by (simp add: datagram_def)
  then show ?thesis
    using assms sr_send_packet_eq [OF assms(1), of "datagram d" "34 + length (body d)"]
      get_interface_bound [OF assms(1)]
    by (simp add: transmit_def deref_if_def sends_def)
qed

lemma shaped_macs: "shaped d \<Longrightarrow> length a = 6 \<Longrightarrow> length b = 6 \<Longrightarrow> shaped (d\<lparr>dmac := a, smac := b\<rparr>)"
  by (simp add: shaped_def del: shaped_simps)

lemma shaped_made: "length a = 6 \<Longrightarrow> length b = 6 \<Longrightarrow> length e = 4 \<Longrightarrow>
  shaped \<lparr>dmac = a, smac = b, tos = to, total_len = n, id_off = e, ttl = t, proto = p, hsum = h,
    src = s, dst = d, body = bo\<rparr>"
  by (simp add: shaped_def del: shaped_simps)

lemma body_aged: "body (aged d) = body d"
  by (simp add: aged_def)

subsection \<open>Datagrams\<close>

text \<open>The router once the cache and the queue have been looked through.\<close>

definition flushes :: "router \<Rightarrow> router \<Rightarrow> bool" where
  "flushes sr sr1 \<longleftrightarrow>
     arp_queue_flush (sr\<lparr>sr_arp_cache := arp_cache_flush (now sr) (sr_arp_cache sr)\<rparr>) = Inr sr1"

lemma handlepacket_datagram:
  assumes "shaped d" and "8 \<le> length (body d)" and "flushes sr sr1"
  shows "sr_handlepacket (datagram d) ifn sr =
    and_then (handle_ip (incoming sr ifn d) sr1) (\<lambda>(out, s). transmit out s)"
proof -
  have "\<not> length (datagram d) < 42" using assms(1,2) by simp
  moreover have "ip_header (incoming sr ifn d) \<noteq> None" by (simp add: incoming_def)
  ultimately show ?thesis
    using assms(3) create_frame_datagram [OF assms(1), of sr ifn]
    by (simp add: sr_handlepacket_def flushes_def Let_def)
qed

lemma forwarded:
  assumes "shaped d" and "f = (incoming sr0 ifn d)\<lparr>frame := datagram (with_sum d)\<rparr>"
    and "rt_match sr (dst d) = Some r" and "get_interface sr (rt_interface r) = Some i"
    and "arp_cache_lookup (sr_arp_cache sr) (rt_gw r) = Some j"
    and "length (if_addr (if_list sr ! i)) = 6" and "length (arpc_mac (sr_arp_cache sr ! j)) = 6"
  shows "and_then (forward f sr) (\<lambda>(out, s). transmit out s) = Inr (sends i (datagram ((aged d)
    \<lparr>dmac := arpc_mac (sr_arp_cache sr ! j), smac := if_addr (if_list sr ! i)\<rparr>)) sr)"
proof -
  have a: "aged (with_sum d) = aged d" by (simp add: aged_def with_sum_def)
  have f: "frame f = datagram (with_sum d)" "to_ip f = dst d" "len f = 34 + length (body d)"
    by (simp_all add: assms(2) incoming_def)
  have rt: "rt_match sr (to_ip f) = Some r" by (simp only: f assms(3))
  have "update_ip_hdr sr f = Inr
    (\<lparr>frame = datagram (aged (with_sum d)), ip_header = Some 14, arp_header = None, icmp_header = None,
      from_MAC = if_addr (if_list sr ! i), to_MAC = junk_bytes 6 sr,
      from_ip = from_ip f, to_ip = to_ip f, iface = Some i, len = len f, ip_hl = ip_hl f,
      ip_len = junk_len sr\<rparr>, rt_gw r)"
    by (rule update_ip_hdr_datagram [OF _ f(1) rt assms(4) get_interface_bound [OF assms(4)]])
      (simp add: assms(1))
  moreover define g where "g = \<lparr>frame = datagram (aged d), ip_header = Some (14::nat), arp_header = None,
      icmp_header = None, from_MAC = if_addr (if_list sr ! i), to_MAC = arpc_mac (sr_arp_cache sr ! j),
      from_ip = from_ip f, to_ip = to_ip f, iface = Some i, len = len f, ip_hl = ip_hl f,
      ip_len = junk_len sr\<rparr>"
  moreover have "encapsulate g = Inr (g\<lparr>frame := datagram ((aged d)\<lparr>dmac := to_MAC g, smac := from_MAC g\<rparr>)\<rparr>)"
    by (rule encapsulate_datagram) (simp_all add: assms g_def)
  moreover have "transmit (Some (g\<lparr>frame := datagram ((aged d)\<lparr>dmac := to_MAC g, smac := from_MAC g\<rparr>)\<rparr>)) sr
    = Inr (sends i (datagram ((aged d)\<lparr>dmac := to_MAC g, smac := from_MAC g\<rparr>)) sr)"
    by (rule transmit_datagram [OF assms(4)])
      (use assms in \<open>simp_all add: g_def f(3) shaped_macs body_aged incoming_def\<close>)
  ultimately show ?thesis
    using assms(5) by (simp add: forward_def a)
qed


text \<open>An echo request for the router.\<close>

abbreviation checked :: "router \<Rightarrow> string \<Rightarrow> dgram \<Rightarrow> frame_t" where
  "checked sr ifn d \<equiv> (incoming sr ifn d)\<lparr>frame := datagram (with_sum d)\<rparr>"

lemma echo_answered:
  assumes "shaped d" and "proto d = IPPROTO_ICMP" and "body d = [ECHO_REQUEST, code] @ bytes16 s @ rest"
    and "24 \<le> unat (total_len d)" and "unat (total_len d) \<le> 20 + length (body d)"
    and "icmp_sum (unat (total_len d) - 20) (body d) = 0"
    and "get_interface sr0 ifn = Some i" and "get_interface sr ifn = Some i"
    and "dmac d = if_addr (if_list sr ! i)"
  shows "and_then (handle_local (checked sr0 ifn d) sr) (\<lambda>(out, s). transmit out s)
    = Inr (sends i (datagram (echo_reply d code rest)) sr)"
proof -
  let ?f = "checked sr0 ifn d" and ?m = "unat (total_len d) - 20"
  have [simp]: "length (if_addr (if_list sr ! i)) = 6"
    using shaped_simps(1) [OF assms(1)] by (simp only: assms(9))
  obtain pre where pre: "datagram (with_sum d) = pre @ body (with_sum d)" "length pre = 34"
    using datagram_split [of "with_sum d"] assms(1) by auto
  let ?d = "(with_sum d)\<lparr>body := [ECHO_REQUEST, code] @ bytes16 0 @ rest\<rparr>"
  have d: "datagram ?d = pre @ body ?d"
    using pre assms(1) by (simp add: datagram_def header_def with_sum_def)
  have "compute_icmp_checksum ?f = Inr (?f\<lparr>frame := datagram ?d\<rparr>)"
    using compute_icmp_at [of ?f pre ECHO_REQUEST code s rest ?m] assms(2-6) pre d
    by (simp add: incoming_def)
  moreover have "load8 34 (datagram ?d) = Inr ECHO_REQUEST" "load16 36 (datagram ?d) = Inr 0"
    unfolding d using pre(2) by (simp_all add: load8_def load16_def load_def)
  moreover have "generate_icmp_echo (?f\<lparr>frame := datagram ?d\<rparr>) =
    Inr (\<lparr>frame = datagram (echo_reply d code rest), ip_header = Some 14, arp_header = None,
      icmp_header = Some 34, from_MAC = dmac d, to_MAC = smac d, from_ip = dst d, to_ip = src d,
      iface = get_interface sr0 ifn, len = 34 + length (body d), ip_hl = 20,
      ip_len = unat (total_len d)\<rparr>)"
    by (rule generate_icmp_echo_datagram [where d = d and sr = sr0 and ifn = ifn and d' = ?d and t = ECHO_REQUEST and s = 0])
      (use assms in \<open>simp_all add: incoming_def\<close>)
  moreover have "transmit (Some \<lparr>frame = datagram (echo_reply d code rest), ip_header = Some 14,
      arp_header = None, icmp_header = Some 34, from_MAC = dmac d, to_MAC = smac d, from_ip = dst d,
      to_ip = src d, iface = Some i, len = 34 + length (body d), ip_hl = 20,
      ip_len = unat (total_len d)\<rparr>) sr = Inr (sends i (datagram (echo_reply d code rest)) sr)"
    by (rule transmit_datagram [OF assms(8)])
      (use assms in \<open>simp_all add: echo_reply_def Let_def shaped_made\<close>)
  moreover have "icmp_header ?f = Some 34" using assms(2) by (simp add: incoming_def)
  ultimately show ?thesis
    using assms(7) by (simp add: handle_local_def)
qed

text \<open>Errors about a datagram: it is for the router but not ICMP, or its time is over.\<close>

lemma error_sent:
  assumes "shaped d" and "8 \<le> length (body d)"
    and "unat (total_len d) < 20 \<or> 28 \<le> unat (total_len d)"
    and "get_interface sr0 ifn = Some i" and "get_interface sr ifn = Some i"
    and "dmac d = if_addr (if_list sr ! i)"
  shows "and_then (generate_icmp_error sr (checked sr0 ifn d) t c)
      (\<lambda>f. transmit (Some f) sr)
    = Inr (sends i (datagram (icmp_error t c (checked sr0 ifn d) (with_sum d))) sr)"
proof -
  let ?f = "checked sr0 ifn d"
  have [simp]: "length (if_addr (if_list sr ! i)) = 6"
    using shaped_simps(1) [OF assms(1)] by (simp only: assms(6))
  have "generate_icmp_error sr ?f t c =
    Inr (\<lparr>frame = datagram (icmp_error t c ?f (with_sum d)), ip_header = Some 14, arp_header = None,
      icmp_header = Some 34, from_MAC = to_MAC ?f, to_MAC = from_MAC ?f, from_ip = to_ip ?f,
      to_ip = from_ip ?f, iface = iface ?f, len = 70, ip_hl = 20, ip_len = 56\<rparr>)"
    by (rule generate_icmp_error_datagram) (use assms in \<open>simp_all add: incoming_def\<close>)
  moreover have "transmit (Some \<lparr>frame = datagram (icmp_error t c ?f (with_sum d)), ip_header = Some 14,
      arp_header = None, icmp_header = Some 34, from_MAC = to_MAC ?f, to_MAC = from_MAC ?f,
      from_ip = to_ip ?f, to_ip = from_ip ?f, iface = iface ?f, len = 70, ip_hl = 20, ip_len = 56\<rparr>) sr
    = Inr (sends i (datagram (icmp_error t c ?f (with_sum d))) sr)"
    by (rule transmit_datagram [OF assms(5)])
      (use assms in \<open>simp_all add: icmp_error_def Let_def shaped_made incoming_def\<close>)
  ultimately show ?thesis by simp
qed

lemma unreachable_port:
  assumes "shaped d" and "8 \<le> length (body d)" and "proto d \<noteq> IPPROTO_ICMP"
    and "unat (total_len d) < 20 \<or> 28 \<le> unat (total_len d)"
    and "get_interface sr0 ifn = Some i" and "get_interface sr ifn = Some i"
    and "dmac d = if_addr (if_list sr ! i)"
  shows "and_then (handle_local (checked sr0 ifn d) sr) (\<lambda>(out, s). transmit out s)
    = Inr (sends i (datagram (icmp_error DEST_UNREACH PORT_UNREACH (checked sr0 ifn d) (with_sum d))) sr)"
proof -
  have "icmp_header (checked sr0 ifn d) = None" using assms(3) by (simp add: incoming_def)
  then show ?thesis
    using error_sent [OF assms(1,2,4-7), of DEST_UNREACH PORT_UNREACH]
    by (simp add: handle_local_def and_then_assoc)
qed

text \<open>A datagram is an ICMP error when its first payload byte says so.\<close>

definition is_icmp_error :: "dgram \<Rightarrow> bool" where
  "is_icmp_error d \<longleftrightarrow> proto d = IPPROTO_ICMP \<and> icmp_error_type (body d ! 0)"

lemma expired_handled:
  assumes "shaped d" and "8 \<le> length (body d)"
    and "unat (total_len d) < 20 \<or> 28 \<le> unat (total_len d)"
    and "get_interface sr0 ifn = Some i" and "get_interface sr ifn = Some i"
    and "dmac d = if_addr (if_list sr ! i)"
  shows "and_then (handle_expired (checked sr0 ifn d) sr) (\<lambda>(out, s). transmit out s) = Inr
    (if is_icmp_error d then sr
     else sends i (datagram (icmp_error TIME_EXCEEDED TIME_INTRANSIT (checked sr0 ifn d) (with_sum d))) sr)"
proof -
  let ?f = "checked sr0 ifn d"
  obtain pre where pre: "datagram (with_sum d) = pre @ body (with_sum d)" "length pre = 34"
    using datagram_split [of "with_sum d"] assms(1) by auto
  have "load8 23 (frame ?f) = Inr (proto d)" using assms(1) by (simp add: fields)
  moreover have "load8 (14 + ip_hl ?f) (frame ?f) = Inr (body d ! 0)"
    using pre assms(2) by (simp add: load8_def load_def incoming_def nth_append)
  ultimately show ?thesis
    using error_sent [OF assms, of TIME_EXCEEDED TIME_INTRANSIT]
    by (auto simp: handle_expired_def is_icmp_error_def and_then_assoc transmit_def)
qed


subsection \<open>The next hop is not known\<close>

text \<open>The frame that waits, and the request for the address of its next hop.\<close>

definition waiting :: "router \<Rightarrow> nat \<Rightarrow> frame_t \<Rightarrow> dgram \<Rightarrow> frame_t" where
  "waiting sr i f d =
     \<lparr>frame = datagram (aged d), ip_header = Some 14, arp_header = None, icmp_header = None,
      from_MAC = if_addr (if_list sr ! i), to_MAC = junk_bytes 6 sr, from_ip = from_ip f,
      to_ip = to_ip f, iface = Some i, len = len f, ip_hl = ip_hl f, ip_len = junk_len sr\<rparr>"

definition who_has :: "router \<Rightarrow> nat \<Rightarrow> 32 word \<Rightarrow> arp" where
  "who_has sr i ip =
     (let ifc = if_list sr ! i in
      \<lparr>a_dmac = replicate 6 0xff, a_smac = if_addr ifc, a_op = ARP_REQUEST, a_sha = if_addr ifc,
       a_sip = if_ip ifc, a_tha = if_addr ifc, a_tip = ip\<rparr>)"

lemma transmit_arp:
  assumes "get_interface sr nm = Some i" and "arp_shaped a" and "frame f = arp_frame a" and "len f = 42"
    and "iface f = Some i" and "a_smac a = if_addr (if_list sr ! i)"
  shows "transmit (Some f) sr = Inr (sends i (arp_frame a) sr)"
proof -
  have "take 6 (drop 6 (arp_frame a)) = a_smac a" using assms(2) by (simp add: arp_frame_def arp_shaped_def)
  then show ?thesis
    using assms sr_send_packet_eq [OF assms(1), of "arp_frame a" 42] get_interface_bound [OF assms(1)]
    by (simp add: transmit_def deref_if_def sends_def)
qed

lemma request_sent:
  assumes "get_interface sr nm = Some i" and "length (if_addr (if_list sr ! i)) = 6"
    and "rt_match sr (to_ip f) = Some r" and "from_MAC f = if_addr (if_list sr ! i)"
  shows "\<exists>g. arp_create sr f (Some i) ARP_REQUEST = Inr g \<and> to_ip g = rt_gw r
    \<and> (\<forall>s :: router. if_list s = if_list sr \<longrightarrow> transmit (Some g) s = Inr (sends i (arp_frame (who_has sr i (rt_gw r))) s))"
proof (intro exI conjI allI impI)
  let ?g = "\<lparr>frame = arp_frame (who_has sr i (rt_gw r)), ip_header = None, arp_header = Some 14,
      icmp_header = None, from_MAC = if_addr (if_list sr ! i), to_MAC = replicate 6 0xff,
      from_ip = if_ip (if_list sr ! i), to_ip = rt_gw r, iface = Some i, len = 42, ip_hl = 0, ip_len = 0\<rparr>"
  show "arp_create sr f (Some i) ARP_REQUEST = Inr ?g"
    using arp_create_frame [of i sr f ARP_REQUEST "rt_gw r" "replicate 6 0xff"] assms
      get_interface_bound [OF assms(1)]
    by (simp add: who_has_def Let_def)
  show "to_ip ?g = rt_gw r" by simp
  fix s :: router assume s: "if_list s = if_list sr"
  then have "get_interface s nm = Some i" using assms(1) by (simp add: get_interface_def)
  then show "transmit (Some ?g) s = Inr (sends i (arp_frame (who_has sr i (rt_gw r))) s)"
    by (rule transmit_arp) (use assms(2) s in \<open>simp_all add: who_has_def arp_shaped_def Let_def\<close>)
qed

lemma update_checked:
  assumes "shaped d" and "rt_match sr (dst d) = Some r" and "get_interface sr (rt_interface r) = Some i"
  shows "update_ip_hdr sr (checked sr0 ifn d) = Inr (waiting sr i (checked sr0 ifn d) d, rt_gw r)"
proof -
  have a: "aged (with_sum d) = aged d" by (simp add: aged_def with_sum_def)
  have "frame (checked sr0 ifn d) = datagram (with_sum d)" by simp
  moreover have "rt_match sr (to_ip (checked sr0 ifn d)) = Some r" using assms(2) by (simp add: incoming_def)
  ultimately show ?thesis
    using update_ip_hdr_datagram [of "with_sum d" "checked sr0 ifn d" sr r i] assms(1,3)
      get_interface_bound [OF assms(3)]
    by (simp add: waiting_def a)
qed

text \<open>Nobody waits for the destination yet: there is a new entry, and a request goes out.\<close>

definition asked :: "router \<Rightarrow> nat \<Rightarrow> sr_rt \<Rightarrow> string \<Rightarrow> dgram \<Rightarrow> router \<Rightarrow> arpq_entry" where
  "asked sr0 i r ifn d sr =
     \<lparr>arpq_ip = dst d, arpq_next_hop = rt_gw r, arpq_if = Some i,
      arpq_packets = [\<lparr>q_from_MAC = smac d, q_from_iface = get_interface sr0 ifn,
        q_outgoing = waiting sr i (checked sr0 ifn d) d\<rparr>],
      arpq_last_req = now sr, arpq_num_reqs = 0\<rparr>"

lemma queued_first:
  assumes "shaped d" and "rt_match sr (dst d) = Some r" and "get_interface sr (rt_interface r) = Some i"
    and "length (if_addr (if_list sr ! i)) = 6"
    and "arp_cache_lookup (sr_arp_cache sr) (rt_gw r) = None"
    and "arp_queue_lookup (sr_arp_queue sr) (dst d) = None"
  shows "and_then (forward (checked sr0 ifn d) sr) (\<lambda>(out, s). transmit out s) =
    Inr (sends i (arp_frame (who_has sr i (rt_gw r)))
      (sr\<lparr>sr_arp_queue := sr_arp_queue sr @ [asked sr0 i r ifn d sr]\<rparr>))"
proof -
  let ?w = "waiting sr i (checked sr0 ifn d) d"
  let ?e = "(asked sr0 i r ifn d sr)\<lparr>arpq_next_hop := junk_ip sr\<rparr>"
  let ?s = "sr\<lparr>sr_arp_queue := sr_arp_queue sr @ [?e]\<rparr>"
  have w: "to_ip ?w = dst d" "iface ?w = Some i" "from_MAC ?w = if_addr (if_list sr ! i)"
    by (simp_all add: waiting_def incoming_def)
  have "arpq_add_entry sr (iface ?w) ?w (to_ip ?w) (from_MAC (checked sr0 ifn d)) (iface (checked sr0 ifn d))
      = Inr ?s"
    by (simp add: arpq_add_entry_def arpq_add_packet_def asked_def waiting_def incoming_def)
  moreover have "get_interface ?s (rt_interface r) = Some i" "rt_match ?s (to_ip ?w) = Some r"
    using assms(2,3) w(1) by (simp_all add: get_interface_def rt_match_def)
  then obtain g where "arp_create ?s ?w (Some i) ARP_REQUEST = Inr g" "to_ip g = rt_gw r"
    and g: "\<And>s. if_list s = if_list ?s \<Longrightarrow>
      transmit (Some g) s = Inr (sends i (arp_frame (who_has ?s i (rt_gw r))) s)"
    using request_sent [of ?s "rt_interface r" i ?w r] assms(4) w by auto
  moreover have "who_has ?s i (rt_gw r) = who_has sr i (rt_gw r)" by (simp add: who_has_def)
  ultimately show ?thesis
    using assms(5,6) update_checked [OF assms(1-3), of sr0 ifn] w
    by (simp add: forward_def queue_packet_def asked_def Let_def)
qed

subsection \<open>ARP packets\<close>

definition arp_incoming :: "router \<Rightarrow> string \<Rightarrow> arp \<Rightarrow> byte list \<Rightarrow> frame_t" where
  "arp_incoming sr ifn a p =
     \<lparr>frame = arp_frame a @ p, ip_header = None, arp_header = Some 14, icmp_header = None,
      from_MAC = a_smac a, to_MAC = a_dmac a, from_ip = a_sip a, to_ip = a_tip a,
      iface = get_interface sr ifn, len = 42 + length p, ip_hl = 0, ip_len = 0\<rparr>"

lemma handlepacket_arp:
  assumes "arp_shaped a" and "flushes sr sr1"
  shows "sr_handlepacket (arp_frame a @ p) ifn sr =
    and_then (handle_arp (arp_incoming sr ifn a p) sr1) (\<lambda>(out, s). transmit out s)"
proof -
  have "create_frame_t sr (arp_frame a @ p) ifn = Inr (Some (arp_incoming sr ifn a p))"
    using assms(1) by (simp add: create_frame_t_def arp_loads arp_incoming_def)
  moreover have "ip_header (arp_incoming sr ifn a p) = None" "arp_header (arp_incoming sr ifn a p) \<noteq> None"
    by (simp_all add: arp_incoming_def)
  ultimately show ?thesis
    using assms by (simp add: sr_handlepacket_def flushes_def Let_def)
qed

text \<open>What the sender of an ARP packet for the router teaches it.\<close>

definition learned :: "arp \<Rightarrow> router \<Rightarrow> router" where
  "learned a sr = sr\<lparr>sr_arp_cache :=
     (case arp_cache_lookup (sr_arp_cache sr) (a_sip a) of
        Some i \<Rightarrow> arp_cache_update i (a_sha a) (now sr) (sr_arp_cache sr)
      | None \<Rightarrow> arp_cache_add (sr_arp_cache sr) (a_sha a) (a_sip a) (now sr))\<rparr>"

definition is_at :: "router \<Rightarrow> nat \<Rightarrow> arp \<Rightarrow> arp" where
  "is_at sr i a =
     (let ifc = if_list sr ! i in
      \<lparr>a_dmac = a_smac a, a_smac = if_addr ifc, a_op = ARP_REPLY, a_sha = if_addr ifc,
       a_sip = if_ip ifc, a_tha = a_smac a, a_tip = a_sip a\<rparr>)"

text \<open>The entry that the sender of the packet releases, if it is new to the cache.\<close>

definition released :: "arp \<Rightarrow> router \<Rightarrow> nat option" where
  "released a sr =
     (if arp_cache_lookup (sr_arp_cache sr) (a_sip a) = None
      then arpq_next_hop_lookup (sr_arp_queue sr) (a_sip a) else None)"

lemma handle_arp_eq:
  assumes "arp_shaped a" and "if_list sr \<noteq> []" and "a_tip a \<in> if_ip ` set (if_list sr)"
  shows "handle_arp (arp_incoming sr0 ifn a p) sr =
    and_then (case released a sr of
                Some i \<Rightarrow> arpq_entry_clear i (a_sha a) (learned a sr) | None \<Rightarrow> Inr (learned a sr)) (\<lambda>sr.
    if a_op a = ARP_REQUEST
    then and_then (arp_create sr (arp_incoming sr0 ifn a p) (get_interface sr0 ifn) ARP_REPLY) (\<lambda>f. Inr (Some f, sr))
    else Inr (None, sr))"
proof -
  have f: "frame (arp_incoming sr0 ifn a p) = arp_frame a @ p" "iface (arp_incoming sr0 ifn a p) = get_interface sr0 ifn"
    by (simp_all add: arp_incoming_def)
  have "position (\<lambda>i. if_ip i = a_tip a) (if_list sr) \<noteq> None"
    using assms(3) by (auto simp: position_None)
  then obtain k where ours: "position (\<lambda>i. if_ip i = a_tip a) (if_list sr) = Some k" by auto
  show ?thesis
  proof (cases "arp_cache_lookup (sr_arp_cache sr) (a_sip a)")
    case None
    with assms ours f show ?thesis
      by (simp add: handle_arp_def arp_loads if_dst_check_def released_def learned_def Let_def
          split: option.splits)
  next
    case (Some i)
    with assms ours f show ?thesis
      by (simp add: handle_arp_def arp_loads if_dst_check_def released_def learned_def Let_def)
  qed
qed

text \<open>The frames that leave the queue: new addresses, the rest as it waited.\<close>

definition released_frame :: "byte list \<Rightarrow> router \<Rightarrow> queued_packet \<Rightarrow> string \<times> byte list" where
  "released_frame d_ha sr q =
     (let ifc = if_list sr ! the (iface (q_outgoing q)) in
      (take 16 (if_name ifc), d_ha @ if_addr ifc @ bytes16 (htons ETHERTYPE_IP) @ drop 14 (frame (q_outgoing q))))"

definition ready :: "router \<Rightarrow> queued_packet \<Rightarrow> bool" where
  "ready sr q \<longleftrightarrow>
     (let f = q_outgoing q in
      ip_header f \<noteq> None \<and> len f = length (frame f) \<and> 14 \<le> len f
      \<and> (\<exists>i nm. iface f = Some i \<and> get_interface sr nm = Some i \<and> length (if_addr (if_list sr ! i)) = 6))"

lemma send_queued_exact:
  assumes "\<forall>q \<in> set qs. ready sr q" and "length d_ha = 6"
  shows "send_queued d_ha qs sr = Inr (sr\<lparr>log := log sr @ map (released_frame d_ha sr) qs\<rparr>)"
  using assms(1)
proof (induction qs arbitrary: sr)
  case Nil
  then show ?case by simp
next
  case (Cons q qs)
  let ?f = "q_outgoing q"
  from Cons.prems obtain i nm where q: "ip_header ?f \<noteq> None" "len ?f = length (frame ?f)" "14 \<le> len ?f"
    "iface ?f = Some i" "get_interface sr nm = Some i" "length (if_addr (if_list sr ! i)) = 6"
    by (auto simp: ready_def Let_def)
  let ?ifc = "if_list sr ! i"
  let ?b = "d_ha @ if_addr ?ifc @ bytes16 (htons ETHERTYPE_IP) @ drop 14 (frame ?f)"
  have "encapsulate (?f\<lparr>from_MAC := if_addr ?ifc, to_MAC := d_ha\<rparr>) =
      Inr (?f\<lparr>from_MAC := if_addr ?ifc, to_MAC := d_ha, frame := ?b\<rparr>)"
    using q assms(2) by (simp add: encapsulate_def store_def)
  moreover have "sr_send_packet ?b (len ?f) (if_name ?ifc) sr =
      Inr (sr\<lparr>log := log sr @ [(take 16 (if_name ?ifc), ?b)]\<rparr>)"
    using sr_send_packet_eq [OF q(5), of ?b "len ?f"] q assms(2) by simp
  moreover define t where "t = sr\<lparr>log := log sr @ [(take 16 (if_name ?ifc), ?b)]\<rparr>"
  moreover have "send_queued d_ha qs t = Inr (t\<lparr>log := log t @ map (released_frame d_ha t) qs\<rparr>)"
    using Cons.prems by (intro Cons.IH) (simp add: t_def ready_def get_interface_def)
  moreover have "released_frame d_ha t = released_frame d_ha sr"
    by (simp add: t_def released_frame_def fun_eq_iff)
  moreover have "i < length (if_list sr)" by (rule get_interface_bound [OF q(5)])
  ultimately show ?case
    using q by (simp add: deref_if_def Let_def released_frame_def)
qed

end
