(* ===== verification/Sr_Routing.thy ===== *)
theory Sr_Routing
  imports Sr_Handling
begin

text \<open>
  The routing table and the interface list: \<open>rt_match\<close> is the first of the routes with the
  longest mask, loading a table appends its routes in order, and the check of the table
  against the hardware means that every route has its interface.
\<close>

subsection \<open>The best route\<close>

definition matches :: "sr_rt \<Rightarrow> 32 word \<Rightarrow> bool" where
  "matches r a \<longleftrightarrow> rt_dest r AND rt_mask r = a AND rt_mask r"

text \<open>The reference: the first matching route that no matching route beats.\<close>

definition best_route :: "sr_rt list \<Rightarrow> 32 word \<Rightarrow> sr_rt option" where
  "best_route rs a = List.find (\<lambda>r. matches r a \<and>
     (\<forall>q \<in> set rs. matches q a \<longrightarrow> ntohl (rt_mask q) \<le> ntohl (rt_mask r))) rs"

lemma best_route_Some:
  "best_route rs a = Some r \<Longrightarrow> r \<in> set rs \<and> matches r a
     \<and> (\<forall>q \<in> set rs. matches q a \<longrightarrow> ntohl (rt_mask q) \<le> ntohl (rt_mask r))"
  unfolding best_route_def by (drule find_SomeD) simp

lemma rt_walk_snoc:
  "rt_walk (rs @ [x]) a best =
    (let b = rt_walk rs a best in
     if matches x a
     then (case b of None \<Rightarrow> Some x | Some y \<Rightarrow> if ntohl (rt_mask x) > ntohl (rt_mask y) then Some x else b)
     else b)"
  by (induction rs arbitrary: best) (simp_all add: Let_def matches_def)

lemma find_append: "List.find P (xs @ ys) = (case List.find P xs of None \<Rightarrow> List.find P ys | Some x \<Rightarrow> Some x)"
  by (induction xs) simp_all

lemma find_cong: "(\<And>x. x \<in> set xs \<Longrightarrow> P x = Q x) \<Longrightarrow> List.find P xs = List.find Q xs"
  by (induction xs) auto

lemma best_route_None: "best_route rs a = None \<longleftrightarrow> (\<forall>r \<in> set rs. \<not> matches r a)"
proof
  assume none: "best_route rs a = None"
  show "\<forall>r \<in> set rs. \<not> matches r a"
  proof (rule ccontr)
    assume some: "\<not> (\<forall>r \<in> set rs. \<not> matches r a)"
    define R where "R = {r \<in> set rs. matches r a}"
    let ?m = "\<lambda>r. ntohl (rt_mask r)"
    have R: "finite R" "R \<noteq> {}" using some by (auto simp: R_def)
    then have "Max (?m ` R) \<in> ?m ` R" by simp
    then obtain r where r: "r \<in> R" "?m r = Max (?m ` R)" by auto
    then have "\<forall>q \<in> R. ?m q \<le> ?m r" using R(1) by simp
    then have "r \<in> set rs \<and> matches r a \<and> (\<forall>q \<in> set rs. matches q a \<longrightarrow> ?m q \<le> ?m r)"
      using r(1) by (simp add: R_def)
    with none show False by (auto simp: best_route_def find_None_set)
  qed
qed (simp add: best_route_def find_None_set)

theorem rt_walk_best: "rt_walk rs a None = best_route rs a"
proof (induction rs rule: rev_induct)
  case Nil
  then show ?case by (simp add: best_route_def)
next
  case (snoc x rs)
  show ?case
  proof (cases "matches x a")
    case False
    then have "best_route (rs @ [x]) a = best_route rs a"
      by (auto simp: best_route_def find_append split: option.splits)
    with False snoc show ?thesis by (simp add: rt_walk_snoc Let_def)
  next
    case True
    show ?thesis
    proof (cases "best_route rs a")
      case None
      then have none: "\<forall>r \<in> set rs. \<not> matches r a" by (simp only: best_route_None)
      then have "List.find (\<lambda>r. matches r a \<and>
        (\<forall>q \<in> set (rs @ [x]). matches q a \<longrightarrow> ntohl (rt_mask q) \<le> ntohl (rt_mask r))) rs = None"
        by (simp add: find_None_set)
      with none True have "best_route (rs @ [x]) a = Some x" by (simp add: best_route_def find_append)
      with True None snoc show ?thesis by (simp add: rt_walk_snoc)
    next
      case (Some b)
      note b = best_route_Some [OF Some]
      have "best_route (rs @ [x]) a = (if ntohl (rt_mask x) > ntohl (rt_mask b) then Some x else Some b)"
      proof (cases "ntohl (rt_mask x) > ntohl (rt_mask b)")
        case bigger: True
        have "List.find (\<lambda>r. matches r a \<and>
          (\<forall>q \<in> set (rs @ [x]). matches q a \<longrightarrow> ntohl (rt_mask q) \<le> ntohl (rt_mask r))) rs = None"
          using b bigger True by (fastforce simp: find_None_set)
        with bigger b True show ?thesis by (auto simp: best_route_def find_append)
      next
        case smaller: False
        have "List.find (\<lambda>r. matches r a \<and>
          (\<forall>q \<in> set (rs @ [x]). matches q a \<longrightarrow> ntohl (rt_mask q) \<le> ntohl (rt_mask r))) rs = best_route rs a"
          unfolding best_route_def using b smaller by (intro find_cong) (auto dest: order_trans [rotated])
        with smaller Some show ?thesis by (simp add: best_route_def find_append)
      qed
      with True Some snoc show ?thesis by (simp add: rt_walk_snoc)
    qed
  qed
qed

lemma rt_match_best: "rt_match sr a = best_route (routing_table sr) a"
  by (simp add: rt_match_def rt_walk_best)

subsection \<open>Masks of prefixes\<close>

text \<open>The mask of a prefix of \<open>n\<close> bits, in network order.\<close>

definition netmask :: "nat \<Rightarrow> 32 word" where
  "netmask n = ntohl (NOT (mask (32 - n)))"

lemma netmask_mono: "m \<le> 32 \<Longrightarrow> n \<le> 32 \<Longrightarrow> ntohl (netmask m) \<le> ntohl (netmask n) \<longleftrightarrow> m \<le> n"
proof -
  assume "m \<le> 32" "n \<le> 32"
  have nat: "unat (NOT w) = 4294967295 - unat w" for w :: "32 word"
  proof -
    have "NOT w = - 1 - w" by (simp add: not_eq_complement)
    moreover have "w \<le> - 1" by (simp add: word_order.extremum)
    ultimately have "unat (NOT w) = unat (- 1 :: 32 word) - unat w" by (simp only: unat_sub)
    then show ?thesis by (simp add: unsigned_minus_1_eq_mask mask_eq_exp_minus_1)
  qed
  have unat_mask: "unat (mask k :: 32 word) = 2 ^ min 32 k - 1" for k
  proof -
    have "uint (mask k :: 32 word) = take_bit 32 (mask k)" by transfer simp
    also have "\<dots> = mask (min 32 k)" by simp
    finally show ?thesis by (simp add: unat_eq_nat_uint mask_eq_exp_minus_1 nat_diff_distrib nat_power_eq)
  qed
  have m: "unat (mask (32 - k) :: 32 word) = 2 ^ (32 - k) - 1" for k
    by (cases "k = 0") (simp_all add: unat_mask min_def)
  have le: "(2::nat) ^ (32 - k) \<le> 4294967296" for k
    using power_increasing [of "32 - k" 32 "2::nat"] by simp
  have "NOT (mask (32 - m) :: 32 word) \<le> NOT (mask (32 - n)) \<longleftrightarrow> (2::nat) ^ (32 - n) \<le> 2 ^ (32 - m)"
  proof -
    have n: "unat (NOT (mask (32 - k) :: 32 word)) = 4294967296 - 2 ^ (32 - k)" for k
      using one_le_power [of "2::nat" "32 - k"] by (simp only: nat m) linarith
    have "a \<le> c \<Longrightarrow> b \<le> c \<Longrightarrow> c - a \<le> c - b \<longleftrightarrow> b \<le> a" for a b c :: nat by linarith
    from this [OF le le] show ?thesis by (simp only: word_le_nat_alt n)
  qed
  also have "\<dots> \<longleftrightarrow> 32 - n \<le> 32 - m" by (rule power_increasing_iff) simp
  also have "\<dots> \<longleftrightarrow> m \<le> n" using \<open>m \<le> 32\<close> \<open>n \<le> 32\<close> by auto
  finally show ?thesis by (simp add: netmask_def)
qed


text \<open>With prefix masks, the route \<open>rt_match\<close> finds has the longest prefix.\<close>

lemma rt_match_longest:
  assumes "rt_match sr a = Some r" and "q \<in> set (routing_table sr)" and "matches q a"
    and "rt_mask r = netmask n" and "rt_mask q = netmask m" and "n \<le> 32" and "m \<le> 32"
  shows "m \<le> n"
proof -
  have "ntohl (rt_mask q) \<le> ntohl (rt_mask r)"
    using best_route_Some assms(1-3) by (auto simp: rt_match_best)
  then show ?thesis using assms(4-7) by (simp only: netmask_mono)
qed

subsection \<open>Loading the table\<close>

text \<open>A line that is a route: four words that fit, the first three of them addresses.\<close>

definition route_of :: "(string \<Rightarrow> 32 word option) \<Rightarrow> string \<Rightarrow> sr_rt option" where
  "route_of aton line =
     (case words_from [] line of
        [d, g, m, i] \<Rightarrow>
          if \<forall>w \<in> {d, g, m, i}. length w < 32 then
            (case (aton d, aton g, aton m) of
               (Some d, Some g, Some m) \<Rightarrow> Some \<lparr>rt_dest = d, rt_gw = g, rt_mask = m, rt_interface = i\<rparr>
             | _ \<Rightarrow> None)
          else None
      | _ \<Rightarrow> None)"

lemma load_route:
  assumes "route_of aton line = Some r" and "length bufs = 4"
  shows "\<exists>bufs'. length bufs' = 4 \<and> load_lines aton (line # lines) bufs sr
    = load_lines aton lines bufs' (sr\<lparr>routing_table := routing_table sr @ [r]\<rparr>)"
proof -
  from assms(1) obtain d g m i d' g' m' where ws: "words_from [] line = [d, g, m, i]"
    and short: "length d < 32" "length g < 32" "length m < 32" "length i < 32"
    and ad: "aton d = Some d'" "aton g = Some g'" "aton m = Some m'"
    and r: "r = \<lparr>rt_dest = d', rt_gw = g', rt_mask = m', rt_interface = i\<rparr>"
    by (auto simp: route_of_def split: list.splits option.splits if_splits)
  have "scan_words line bufs = Inr [d, g, m, i]"
    using assms(2) ws short by (simp add: scan_words_def Let_def)
  then have "load_lines aton (line # lines) bufs sr = load_lines aton lines [d, g, m, i]
      (sr_add_rt_entry d' g' m' i sr)"
    using ad by simp
  also have "sr_add_rt_entry d' g' m' i sr = sr\<lparr>routing_table := routing_table sr @ [r]\<rparr>"
    using short(4) by (simp add: sr_add_rt_entry_def r)
  finally show ?thesis by (intro exI [of _ "[d, g, m, i]"]) simp
qed

lemma load_routes:
  assumes "list_all2 (\<lambda>l r. route_of aton l = Some r) lines rs" and "length bufs = 4"
  shows "\<exists>bufs'. length bufs' = 4 \<and> load_lines aton (lines @ others) bufs sr
    = load_lines aton others bufs' (sr\<lparr>routing_table := routing_table sr @ rs\<rparr>)"
  using assms
proof (induction lines rs arbitrary: bufs sr rule: list_all2_induct)
  case Nil
  then show ?case by auto
next
  case (Cons l ls r rs)
  from load_route [OF Cons.hyps(1) Cons.prems] obtain b where "length b = 4"
    "load_lines aton (l # ls @ others) bufs sr
      = load_lines aton (ls @ others) b (sr\<lparr>routing_table := routing_table sr @ [r]\<rparr>)" by blast
  with Cons.IH [of b "sr\<lparr>routing_table := routing_table sr @ [r]\<rparr>"] show ?case by auto
qed

subsection \<open>The table and the hardware\<close>

lemma verified_routes:
  "sr_verify_routing_table sr = 0 \<longleftrightarrow> if_list sr \<noteq> [] \<and> routing_table sr \<noteq> []
     \<and> (\<forall>r \<in> set (routing_table sr). get_interface sr (rt_interface r) \<noteq> None)"
proof -
  have "filter (\<lambda>r. \<forall>i \<in> set (if_list sr).
        \<not> strncmp_eq 32 (if_name i) (rt_interface r)) (routing_table sr) = []
    \<longleftrightarrow> (\<forall>r \<in> set (routing_table sr). get_interface sr (rt_interface r) \<noteq> None)"
    by (auto simp: filter_empty_conv get_interface_def position_None)
  then show ?thesis by (auto simp: sr_verify_routing_table_def)
qed

end
