(* ===== verification/Sr_Invariants.thy ===== *)
theory Sr_Invariants
  imports Sr_Routing "HOL-Library.Sublist"
begin

text \<open>
  Invariants of the router.  \<open>router_invariant\<close> lists the changes the code makes to the state:
  a property that each of them keeps is kept by every packet, every command and hence in all
  reachable states.  It is interpreted for the ARP cache and for the queue.
\<close>

subsection \<open>The changes\<close>

text \<open>
  \<open>honest\<close>: each frame carries the address of an interface of the name it is sent by as its
  source.  \<open>logs\<close>: nothing changed but for some honest frames that were sent.
\<close>

definition honest :: "router \<Rightarrow> (string \<times> byte list) list \<Rightarrow> bool" where
  "honest sr l \<longleftrightarrow> (\<forall>(nm, b) \<in> set l. \<exists>i \<in> set (if_list sr).
     nm = take 16 (if_name i) \<and> take 6 (drop 6 b) = if_addr i)"

definition logs :: "router \<Rightarrow> router \<Rightarrow> bool" where
  "logs sr s \<longleftrightarrow> (\<exists>l. s = sr\<lparr>log := log sr @ l\<rparr> \<and> honest sr l)"

lemma logs_refl [simp, intro]: "logs sr sr"
  unfolding logs_def by (rule exI [of _ "[]"]) (simp add: honest_def)

lemma honest_append: "honest sr (l @ m) \<longleftrightarrow> honest sr l \<and> honest sr m"
  unfolding honest_def set_append ball_Un ..

lemma logs_trans:
  assumes "logs a b" and "logs b c"
  shows "logs a c"
proof -
  from assms(1) obtain l where l: "b = a\<lparr>log := log a @ l\<rparr>" "honest a l" by (auto simp: logs_def)
  with assms(2) obtain m where "c = a\<lparr>log := log a @ (l @ m)\<rparr>" "honest b m" by (auto simp: logs_def)
  moreover have "honest b m = honest a m" by (simp add: l(1) honest_def)
  ultimately show ?thesis using l(2) unfolding logs_def by (auto simp: honest_append)
qed

lemma logs_fields:
  assumes "logs sr s"
  shows "if_list s = if_list sr" "routing_table s = routing_table sr" "sr_arp_cache s = sr_arp_cache sr"
    "sr_arp_queue s = sr_arp_queue sr" "arpq_dangling s = arpq_dangling sr" "now s = now sr"
  using assms by (auto simp: logs_def)

text \<open>An entry without the time and number of its requests; a queue with entries gone.\<close>

definition core :: "arpq_entry \<Rightarrow> 32 word \<times> 32 word \<times> nat option \<times> queued_packet list" where
  "core e = (arpq_ip e, arpq_next_hop e, arpq_if e, arpq_packets e)"

definition settles :: "arpq_entry list \<Rightarrow> arpq_entry list \<Rightarrow> bool" where
  "settles es q \<longleftrightarrow> subseq (map core q) (map core es)"

text \<open>A frame that may be put into the queue, and a pointer to an interface the router has.\<close>

definition has_if :: "router \<Rightarrow> nat option \<Rightarrow> bool" where
  "has_if sr p \<longleftrightarrow> (\<exists>i nm. p = Some i \<and> get_interface sr nm = Some i)"

definition may_wait :: "router \<Rightarrow> frame_t \<Rightarrow> bool" where
  "may_wait sr f \<longleftrightarrow> ip_header f = Some 14 \<and> len f = length (frame f) \<and> 42 \<le> len f
     \<and> has_if sr (iface f) \<and> from_MAC f = if_addr (if_list sr ! the (iface f))
     \<and> rt_match sr (to_ip f) \<noteq> None"

locale packet_invariant =
  fixes I :: "router \<Rightarrow> bool"
  assumes logged: "logs sr s \<Longrightarrow> I sr \<Longrightarrow> I s"
    and dangle: "I sr \<Longrightarrow> I (sr\<lparr>arpq_dangling := True\<rparr>)"
    and expire: "I sr \<Longrightarrow> I (sr\<lparr>sr_arp_cache := arp_cache_flush t (sr_arp_cache sr)\<rparr>)"
    and refresh: "I sr \<Longrightarrow> arp_cache_lookup (sr_arp_cache sr) ip = Some i \<Longrightarrow> length mac = 6 \<Longrightarrow>
      I (sr\<lparr>sr_arp_cache := arp_cache_update i mac t (sr_arp_cache sr)\<rparr>)"
    and learn: "I sr \<Longrightarrow> arp_cache_lookup (sr_arp_cache sr) ip = None \<Longrightarrow> length mac = 6 \<Longrightarrow>
      I (sr\<lparr>sr_arp_cache := arp_cache_add (sr_arp_cache sr) mac ip t\<rparr>)"
    and settle: "I sr \<Longrightarrow> settles (sr_arp_queue sr) q \<Longrightarrow> I (sr\<lparr>sr_arp_queue := q\<rparr>)"
    and open_entry: "I sr \<Longrightarrow> arp_queue_lookup (sr_arp_queue sr) (to_ip f) = None \<Longrightarrow> may_wait sr f \<Longrightarrow>
      length mac = 6 \<Longrightarrow> has_if sr ifp \<Longrightarrow> arpq_ip e = to_ip f \<Longrightarrow>
      arpq_packets e = [\<lparr>q_from_MAC = mac, q_from_iface = ifp, q_outgoing = f\<rparr>] \<Longrightarrow>
      I (sr\<lparr>sr_arp_queue := sr_arp_queue sr @ [e]\<rparr>)"
    and join_entry: "I sr \<Longrightarrow> i < length (sr_arp_queue sr) \<Longrightarrow> may_wait sr f \<Longrightarrow>
      length mac = 6 \<Longrightarrow> has_if sr ifp \<Longrightarrow> arpq_ip (sr_arp_queue sr ! i) = to_ip f \<Longrightarrow> arpq_ip e = to_ip f \<Longrightarrow>
      arpq_packets e = arpq_packets (sr_arp_queue sr ! i) @
        [\<lparr>q_from_MAC = mac, q_from_iface = ifp, q_outgoing = f\<rparr>] \<Longrightarrow>
      I (sr\<lparr>sr_arp_queue := (sr_arp_queue sr)[i := e]\<rparr>)"

text \<open>Commands also change the interfaces, and time passes between them.\<close>

locale router_invariant = packet_invariant +
  assumes hardware: "I sr \<Longrightarrow> hw_sized h \<Longrightarrow> hw_entry h sr = Inr sr' \<Longrightarrow> I sr'"
    and pass: "I sr \<Longrightarrow> I (sr\<lparr>now := t, junk := j, junk_ip := ip, junk_len := n\<rparr>)"

subsection \<open>What the operations do\<close>

lemma deref_ptr_Inr: "deref_ptr p k = Inr y \<longleftrightarrow> (\<exists>x. p = Some x \<and> k x = Inr y)"
  by (cases p) simp_all

lemma deref_if_Inr:
  "deref_if p sr k = Inr y \<longleftrightarrow> (\<exists>i. p = Some i \<and> i < length (if_list sr) \<and> k (if_list sr ! i) = Inr y)"
  by (auto simp: deref_if_def deref_ptr_Inr split: if_splits)

lemmas runs = and_then_eq_Inr deref_ptr_Inr deref_if_Inr

lemma send_logs:
  assumes "sr_send_packet b n nm sr = Inr s"
  shows "logs sr s"
proof (cases "s = sr")
  case False
  with assms obtain i where i: "sr_get_interface sr nm = Some i" and n: "14 \<le> n" "n \<le> length b"
    and src: "take 6 (drop 6 b) = if_addr (if_list sr ! i)"
    and s: "s = sr\<lparr>log := log sr @ [(take 16 nm, take n b)]\<rparr>"
    by (auto simp: sr_send_packet_def sr_ether_addrs_match_interface_def runs load_def
        split: if_splits option.splits)
  have "take 6 (drop 6 (take n b)) = take 6 (drop 6 b)" using n by (simp add: drop_take)
  moreover have "take 16 (if_name (if_list sr ! i)) = take 16 nm" "i < length (if_list sr)"
  proof -
    have "i < length (if_list sr)" and eq: "take 32 (if_name (if_list sr ! i)) = take 32 nm"
      using i by (simp_all add: sr_get_interface_def position_Some strncmp_eq_def)
    then show "i < length (if_list sr)" by simp
    have "take 16 (take 32 (if_name (if_list sr ! i))) = take 16 (take 32 nm)" by (simp only: eq)
    then show "take 16 (if_name (if_list sr ! i)) = take 16 nm" by simp
  qed
  ultimately have "honest sr [(take 16 nm, take n b)]"
    using src by (auto simp: honest_def intro!: bexI [of _ "if_list sr ! i"])
  with s show ?thesis by (auto simp: logs_def)
qed simp

lemma transmit_logs: "transmit out sr = Inr s \<Longrightarrow> logs sr s"
  using send_logs by (cases out) (auto simp: transmit_def runs)

lemma send_queued_logs: "send_queued d qs sr = Inr s \<Longrightarrow> logs sr s"
  by (induction qs arbitrary: sr) (auto simp: Let_def runs intro: logs_trans send_logs)

lemma icmpsend_logs: "arpq_packets_icmpsend qs sr = Inr s \<Longrightarrow> logs sr s"
  by (induction qs arbitrary: sr)
    (auto simp: Let_def runs intro: logs_trans send_logs split: if_splits)

lemma flush_entries_settles:
  "flush_entries es sr = Inr (q, s) \<Longrightarrow> settles es q \<and> logs sr s"
proof (induction es arbitrary: sr q)
  case Nil
  then show ?case by (simp add: settles_def)
next
  case (Cons e es)
  from Cons.prems obtain k t rest where
    first: "(if now sr - 1 > arpq_last_req e then
          if arpq_num_reqs e \<ge> 5 then
            and_then (arpq_packets_icmpsend (arpq_packets e) sr) (\<lambda>sr. Inr ([], sr))
          else
            (case arpq_packets e of
               [] \<Rightarrow> Inr ([e], sr)
             | q # qs \<Rightarrow>
                 let old = q_outgoing q in
                 and_then (arp_create sr old (iface old) 1) (\<lambda>arp_req.
                 deref_if (iface old) sr (\<lambda>ifc.
                 and_then (sr_send_packet (frame arp_req) (len arp_req) (if_name ifc) sr) (\<lambda>sr.
                 Inr ([e\<lparr>arpq_last_req := now sr, arpq_num_reqs := arpq_num_reqs e + 1\<rparr>], sr)))))
        else Inr ([e], sr)) = Inr (k, t)"
    and "flush_entries es t = Inr (rest, s)" and q: "q = k @ rest"
    by (auto simp: and_then_eq_Inr)
  then have rest: "settles es rest" "logs t s" using Cons.IH by blast+
  have "logs sr t"
    using first by (auto simp: Let_def runs split: if_splits list.splits intro: icmpsend_logs send_logs)
  moreover have "k = [] \<or> (\<exists>e'. k = [e'] \<and> core e' = core e)"
    using first by (auto simp: Let_def runs core_def split: if_splits list.splits)
  ultimately show ?case
    using rest q by (auto simp: settles_def intro: logs_trans)
qed

text \<open>The view of an incoming frame, and what the checksum routines leave of it.\<close>

definition received :: "router \<Rightarrow> string \<Rightarrow> frame_t \<Rightarrow> bool" where
  "received sr ifn f \<longleftrightarrow> len f = length (frame f) \<and> iface f = get_interface sr ifn
     \<and> length (from_MAC f) = 6 \<and> length (to_MAC f) = 6"

lemma load_length: "load k n f = Inr bs \<Longrightarrow> length bs = n"
  by (auto simp: load_def split: if_splits)

lemma created_received: "create_frame_t sr p ifn = Inr (Some f) \<Longrightarrow> received sr ifn f \<and> len f = length p"
  by (auto simp: create_frame_t_def received_def Let_def runs load_length split: if_splits)

lemma checksum_keeps:
  assumes "compute_ip_checksum f = Inr g"
  shows "\<exists>fr. g = f\<lparr>frame := fr\<rparr> \<and> length fr = length (frame f)"
  using assms by (auto simp: compute_ip_checksum_def runs Let_def store_Inr)

lemma received_checksum: "compute_ip_checksum f = Inr g \<Longrightarrow> received sr ifn f \<Longrightarrow> received sr ifn g \<and> len g = len f"
  by (drule checksum_keeps) (auto simp: received_def)

lemma has_if_get: "get_interface sr nm = Some i \<Longrightarrow> has_if sr (Some i)"
  by (auto simp: has_if_def)

lemma update_may_wait:
  assumes "update_ip_hdr sr f = Inr (g, hop)" and "received s ifn f" and "42 \<le> len f"
  shows "may_wait sr g"
proof -
  from assms(1) obtain r i h where r: "rt_match sr (to_ip f) = Some r"
    and i: "get_interface sr (rt_interface r) = Some i"
    and h: "compute_ip_checksum h = Inr g" "ip_header h = Some 14" "len h = len f" "iface h = Some i"
      "from_MAC h = if_addr (if_list sr ! i)" "to_ip h = to_ip f" "length (frame h) = length (frame f)"
    by (auto simp: update_ip_hdr_def runs Let_def store_Inr)
  from checksum_keeps [OF h(1)] obtain fr where "g = h\<lparr>frame := fr\<rparr>" "length fr = length (frame h)" by blast
  with h r i assms(2,3) show ?thesis
    by (auto simp: may_wait_def received_def has_if_def)
qed


lemma handle_local_state: "handle_local f sr = Inr (out, s) \<Longrightarrow> s = sr"
  by (auto simp: handle_local_def runs split: option.splits if_splits)

lemma handle_expired_state: "handle_expired f sr = Inr (out, s) \<Longrightarrow> s = sr"
  by (auto simp: handle_expired_def runs split: if_splits)

lemma subseq_drop_nth: "subseq (drop_nth i xs) xs"
proof -
  have "subseq (take i xs @ drop 1 (drop i xs)) (take i xs @ drop i xs)"
    by (intro list_emb_append_mono subseq_order.refl suffix_imp_subseq suffix_drop)
  then show ?thesis by (simp add: drop_nth_def)
qed

lemma settles_drop: "settles q (drop_nth i q)"
  using subseq_drop_nth [of i "map core q"] by (simp add: settles_def drop_nth_def take_map drop_map)

lemma last_updated: "(xs @ [x])[length xs := y] = xs @ [y]"
  by simp

context packet_invariant
begin

lemma has_if_logs: "logs sr s \<Longrightarrow> has_if s p = has_if sr p"
  by (simp add: has_if_def get_interface_def logs_fields)

lemma flush_good:
  assumes "arp_queue_flush sr = Inr s" and "I sr"
  shows "I s"
proof -
  from assms(1) obtain q t where q: "flush_entries (sr_arp_queue sr) sr = Inr (q, t)"
    and s: "s = t\<lparr>sr_arp_queue := q\<rparr>"
    by (auto simp: arp_queue_flush_def runs split: if_splits)
  have "settles (sr_arp_queue sr) q" "logs sr t" using flush_entries_settles [OF q] by simp_all
  then have "settles (sr_arp_queue t) q" "I t" using assms(2) logged by (simp_all add: logs_fields)
  then show ?thesis unfolding s by (intro settle)
qed

lemma queue_packet_good:
  assumes "queue_packet f g sr = Inr (out, s)" and "I sr" and "may_wait sr g"
    and "length (from_MAC f) = 6" and "has_if sr (iface f)"
  shows "I s"
proof (cases "arp_queue_lookup (sr_arp_queue sr) (to_ip g)")
  case (Some i)
  then have i: "i < length (sr_arp_queue sr)" "arpq_ip (sr_arp_queue sr ! i) = to_ip g"
    by (auto simp: arp_queue_lookup_def position_Some)
  have g: "g\<lparr>ip_header := Some 14\<rparr> = g" using assms(3) by (cases g) (simp add: may_wait_def)
  show ?thesis
  proof (cases "now sr - 1 > arpq_last_req (sr_arp_queue sr ! i) \<and> arpq_num_reqs (sr_arp_queue sr ! i) \<ge> 5")
    case True
    with assms(1) Some obtain t where "arpq_packets_icmpsend (arpq_packets (sr_arp_queue sr ! i)) sr = Inr t"
      and "s = t\<lparr>arpq_dangling := True\<rparr>"
      by (auto simp: queue_packet_def Let_def and_then_eq_Inr)
    then show ?thesis using assms(2) logged icmpsend_logs dangle by blast
  next
    case False
    with assms(1) Some obtain e where "s = sr\<lparr>sr_arp_queue := (sr_arp_queue sr)[i := e]\<rparr>"
      and "arpq_ip e = arpq_ip (sr_arp_queue sr ! i)"
      and "arpq_packets e = arpq_packets (sr_arp_queue sr ! i) @
        [\<lparr>q_from_MAC = from_MAC f, q_from_iface = iface f, q_outgoing = g\<rparr>]"
      by (auto simp: queue_packet_def Let_def and_then_eq_Inr arpq_add_packet_def g
          simp del: not_less split: if_splits)
    with assms(2-5) i show ?thesis by (auto intro: join_entry)
  qed
next
  case None
  have g: "g\<lparr>ip_header := Some 14\<rparr> = g" using assms(3) by (cases g) (simp add: may_wait_def)
  from assms(1) None obtain e where "s = sr\<lparr>sr_arp_queue := sr_arp_queue sr @ [e]\<rparr>"
    and "arpq_ip e = to_ip g"
    and "arpq_packets e = [\<lparr>q_from_MAC = from_MAC f, q_from_iface = iface f, q_outgoing = g\<rparr>]"
    by (auto simp: queue_packet_def Let_def and_then_eq_Inr arpq_add_packet_def arpq_add_entry_def g
        split: if_splits)
  with assms(2-5) None show ?thesis by (auto intro: open_entry)
qed

lemma forward_good:
  assumes "forward f sr = Inr (out, s)" and "I sr" and "received s0 ifn f" and "42 \<le> len f"
    and "has_if sr (iface f)"
  shows "I s"
proof -
  from assms(1) obtain g hop where u: "update_ip_hdr sr f = Inr (g, hop)"
    and k: "(case arp_cache_lookup (sr_arp_cache sr) hop of
       None \<Rightarrow> queue_packet f g sr
     | Some i \<Rightarrow>
         and_then (encapsulate (g\<lparr>to_MAC := arpc_mac (sr_arp_cache sr ! i)\<rparr>)) (\<lambda>f.
         Inr (Some f, sr))) = Inr (out, s)"
    by (auto simp: forward_def and_then_eq_Inr)
  have "may_wait sr g" using update_may_wait [OF u assms(3,4)] .
  moreover have "length (from_MAC f) = 6" using assms(3) by (simp add: received_def)
  ultimately show ?thesis
    using k assms(2,5) by (auto simp: and_then_eq_Inr split: option.splits intro: queue_packet_good)
qed

lemma handle_ip_good:
  assumes "handle_ip f sr = Inr (out, s)" and "I sr" and "received s0 ifn f" and "42 \<le> len f"
    and "has_if sr (get_interface s0 ifn)"
  shows "I s"
proof -
  have good: "I t" if "compute_ip_checksum f = Inr g" "compute_ip_checksum g = Inr h" "forward h sr = Inr (out, t)" for g h t
  proof -
    have "received s0 ifn h \<and> len h = len f"
      using received_checksum that(1,2) assms(3) by metis
    then show ?thesis using forward_good [OF that(3) assms(2), of s0 ifn] assms(4,5) by (simp add: received_def)
  qed
  show ?thesis
    using assms(1,2) good
    by (auto simp: handle_ip_def runs split: if_splits dest: handle_local_state handle_expired_state)
qed

lemma handle_arp_good:
  assumes "handle_arp f sr = Inr (out, s)" and "I sr"
  shows "I s"
proof -
  have clear: "I t" if "arpq_entry_clear i mac s0 = Inr t" "I s0" for i mac t s0
  proof -
    from that(1) obtain u where u: "send_queued mac (arpq_packets (sr_arp_queue s0 ! i)) s0 = Inr u"
      and t: "t = u\<lparr>sr_arp_queue := drop_nth i (sr_arp_queue u)\<rparr>"
      by (auto simp: arpq_entry_clear_def runs)
    show ?thesis unfolding t using settle settles_drop logged [OF send_queued_logs [OF u] that(2)] by blast
  qed
  from assms(1) obtain sha sip tip where sha: "length sha = 6"
    and run: "(let cached = arp_cache_lookup (sr_arp_cache sr) sip;
         sr = (case cached of
                 Some i \<Rightarrow> sr\<lparr>sr_arp_cache := arp_cache_update i sha (now sr) (sr_arp_cache sr)\<rparr>
               | None \<Rightarrow> sr) in
     and_then (if_dst_check sr tip) (\<lambda>target_if.
     if target_if = None then Inr (None, sr)
     else
       and_then
         (if cached = None then
            let sr = sr\<lparr>sr_arp_cache := arp_cache_add (sr_arp_cache sr) sha sip (now sr)\<rparr> in
            (case arpq_next_hop_lookup (sr_arp_queue sr) sip of
               Some i \<Rightarrow> arpq_entry_clear i sha sr
             | None \<Rightarrow> Inr sr)
          else Inr sr) (\<lambda>sr.
       and_then (load16 20 (frame f)) (\<lambda>ar_op.
       if ntohs ar_op = 1 then
         and_then (arp_create sr f (iface f) 2) (\<lambda>f. Inr (Some f, sr))
       else Inr (None, sr))))) = Inr (out, s)"
    unfolding handle_arp_def and_then_eq_Inr by (blast dest: load_length)
  show ?thesis
  proof (cases "arp_cache_lookup (sr_arp_cache sr) sip")
    case None
    have "I (sr\<lparr>sr_arp_cache := arp_cache_add (sr_arp_cache sr) sha sip (now sr)\<rparr>)"
      using learn [OF assms(2) None sha] .
    with run None assms(2) show ?thesis
      by (auto simp: Let_def and_then_eq_Inr split: if_splits option.splits dest: clear)
  next
    case (Some i)
    have "I (sr\<lparr>sr_arp_cache := arp_cache_update i sha (now sr) (sr_arp_cache sr)\<rparr>)"
      using refresh [OF assms(2) Some sha] .
    with run Some show ?thesis
      by (auto simp: Let_def and_then_eq_Inr split: if_splits)
  qed
qed

lemma handlepacket_good:
  assumes "sr_handlepacket packet ifn sr = Inr s" and "I sr" and "has_if sr (get_interface sr ifn)"
  shows "I s"
proof (cases "length packet < 42")
  case True
  then show ?thesis using assms(1,2) by (simp add: sr_handlepacket_def)
next
  case False
  let ?s0 = "sr\<lparr>sr_arp_cache := arp_cache_flush (now sr) (sr_arp_cache sr)\<rparr>"
  from False assms(1) obtain f t out u where f: "create_frame_t sr packet ifn = Inr (Some f)"
    and t: "arp_queue_flush ?s0 = Inr t"
    and h: "(if ip_header f \<noteq> None then handle_ip f t
             else if arp_header f \<noteq> None then handle_arp f t else Inr (None, t)) = Inr (out, u)"
    and s: "transmit out u = Inr s"
    by (auto simp: sr_handlepacket_def Let_def runs)
  have "I t" using flush_good [OF t] expire [OF assms(2)] by simp
  moreover have "if_list t = if_list sr"
    using t by (auto simp: arp_queue_flush_def runs logs_fields dest: flush_entries_settles split: if_splits)
  then have "has_if t (get_interface sr ifn)" using assms(3) by (simp add: has_if_def get_interface_def)
  moreover have "received sr ifn f" "42 \<le> len f" using created_received [OF f] False by simp_all
  ultimately have "I u"
    using h by (auto split: if_splits intro: handle_ip_good handle_arp_good)
  then show ?thesis using logged transmit_logs [OF s] by blast
qed

end

context router_invariant
begin

lemma command_good:
  assumes "sr_command c sr = Inr (ret, s)" and "I sr"
    and "\<And>es. c = VNSHWINFO es \<Longrightarrow> \<forall>e \<in> set es. hw_sized e"
  shows "I s"
proof (cases c)
  case (VNSPACKET ifn packet)
  show ?thesis
  proof (cases "length packet < 42")
    case True
    then show ?thesis using VNSPACKET assms(1,2)
      by (auto simp: sr_command_def runs sr_handlepacket_def split: if_splits)
  next
    case False
    with VNSPACKET assms(1) obtain i where "sr_get_interface sr ifn = Some i"
      by (auto simp: sr_command_def runs sr_arp_req_not_for_us_def split: if_splits option.splits)
    then have "has_if sr (get_interface sr ifn)"
      by (auto simp: has_if_def get_interface_def sr_get_interface_def)
    then show ?thesis using VNSPACKET assms(1,2) handlepacket_good
      by (auto simp: sr_command_def runs split: if_splits)
  qed
next
  case (VNSHWINFO es)
  have "I t" if "for_each es hw_entry r = Inr t" "I r" "\<forall>e \<in> set es. hw_sized e" for r t
    using that by (induction es arbitrary: r) (auto simp: runs intro: hardware)
  then show ?thesis
    using VNSHWINFO assms by (auto simp: sr_command_def sr_handle_hwinfo_def runs split: if_splits)
qed (use assms in \<open>auto simp: sr_command_def\<close>)

lemma step_good: "sr_step sr s \<Longrightarrow> I sr \<Longrightarrow> I s"
  by (induction rule: sr_step.induct) (auto simp: vns_sized_def intro: command_good pass)

lemma reachable_good: "sr_reachable sr s \<Longrightarrow> I sr \<Longrightarrow> I s"
  by (induction rule: sr_reachable.induct) (auto intro: step_good)

end

subsection \<open>The cache\<close>

text \<open>No address is cached twice, and every entry has a hardware address.\<close>

definition cache_ok :: "router \<Rightarrow> bool" where
  "cache_ok sr \<longleftrightarrow> distinct (map arpc_ip (sr_arp_cache sr))
     \<and> (\<forall>e \<in> set (sr_arp_cache sr). length (arpc_mac e) = 6)"

lemma arp_cache_flush_filter:
  "arp_cache_flush t es = filter (\<lambda>e. arpc_timeout e = 0 \<or> t \<le> arpc_timeout e) es"
  by (induction es) auto

lemma lookup_ip: "arp_cache_lookup c ip = Some i \<Longrightarrow> i < length c \<and> arpc_ip (c ! i) = ip"
  by (simp add: arp_cache_lookup_def position_Some)

lemma lookup_none: "arp_cache_lookup c ip = None \<longleftrightarrow> ip \<notin> arpc_ip ` set c"
  by (auto simp: arp_cache_lookup_def position_None)

lemma update_ips:
  "i < length c \<Longrightarrow> map arpc_ip (arp_cache_update i mac t c) = map arpc_ip c"
  by (simp add: arp_cache_update_def map_update list_update_same_conv)

lemma hw_entry_keeps:
  "hw_entry e sr = Inr s \<Longrightarrow> sr_arp_cache s = sr_arp_cache sr \<and> sr_arp_queue s = sr_arp_queue sr
     \<and> routing_table s = routing_table sr \<and> log s = log sr"
  by (auto simp: hw_entry_def sr_add_interface_def sr_set_ether_ip_def sr_set_ether_addr_def runs
      split: prod.splits if_splits)

interpretation cache: router_invariant cache_ok
proof
  show "cache_ok s" if "logs sr s" "cache_ok sr" for sr s
    using that by (simp add: cache_ok_def logs_fields)
  show "cache_ok (sr\<lparr>sr_arp_cache := arp_cache_flush t (sr_arp_cache sr)\<rparr>)" if "cache_ok sr" for sr t
    using that by (auto simp: cache_ok_def arp_cache_flush_filter distinct_map_filter)
  show "cache_ok (sr\<lparr>sr_arp_cache := arp_cache_update i mac t (sr_arp_cache sr)\<rparr>)"
    if "cache_ok sr" "arp_cache_lookup (sr_arp_cache sr) ip = Some i" "length mac = 6" for sr ip i mac t
  proof -
    have "set (arp_cache_update i mac t c) \<subseteq> insert ((c ! i)\<lparr>arpc_mac := mac, arpc_timeout := t + 15\<rparr>) (set c)"
      for c by (simp add: arp_cache_update_def set_update_subset_insert)
    then show ?thesis
      using that(1,3) lookup_ip [OF that(2)] by (fastforce simp: cache_ok_def update_ips)
  qed
  show "cache_ok (sr\<lparr>sr_arp_cache := arp_cache_add (sr_arp_cache sr) mac ip t\<rparr>)"
    if "cache_ok sr" "arp_cache_lookup (sr_arp_cache sr) ip = None" "length mac = 6" for sr ip mac t
    using that by (auto simp: cache_ok_def lookup_none arp_cache_add_def)
qed (auto simp: cache_ok_def dest: hw_entry_keeps)

subsection \<open>The queue\<close>

text \<open>
  Every interface has a hardware address; no destination has two entries, only the entry of
  \<open>sr_init\<close> is empty, and what waits can be sent: a frame of at least 42 bytes with a route
  and interfaces to leave by and to answer on.
\<close>

definition hw_ok :: "router \<Rightarrow> bool" where
  "hw_ok sr \<longleftrightarrow> (\<forall>i \<in> set (if_list sr). length (if_addr i) = 6)"

definition sendable :: "router \<Rightarrow> queued_packet \<Rightarrow> bool" where
  "sendable sr q \<longleftrightarrow> (let f = q_outgoing q in
     ip_header f = Some 14 \<and> len f = length (frame f) \<and> 42 \<le> len f \<and> has_if sr (iface f)
     \<and> length (from_MAC f) = 6 \<and> rt_match sr (to_ip f) \<noteq> None
     \<and> length (q_from_MAC q) = 6 \<and> has_if sr (q_from_iface q))"

definition entry_ok :: "router \<Rightarrow> 32 word \<times> 32 word \<times> nat option \<times> queued_packet list \<Rightarrow> bool" where
  "entry_ok sr c \<longleftrightarrow> (case c of (ip, hop, p, qs) \<Rightarrow>
     (qs = [] \<longrightarrow> ip = 0) \<and> (\<forall>q \<in> set qs. to_ip (q_outgoing q) = ip \<and> sendable sr q))"

definition queue_ok :: "router \<Rightarrow> bool" where
  "queue_ok sr \<longleftrightarrow> hw_ok sr \<and> distinct (map fst (map core (sr_arp_queue sr)))
     \<and> (\<forall>c \<in> set (map core (sr_arp_queue sr)). entry_ok sr c)"

lemma position_append: "position P xs = Some i \<Longrightarrow> position P (xs @ ys) = Some i"
  by (induction xs arbitrary: i) auto

lemma get_interface_names:
  "get_interface sr nm = position (\<lambda>n. strncmp_eq 32 n nm) (map if_name (if_list sr))"
proof -
  have "position (\<lambda>i. strncmp_eq 32 (if_name i) nm) l = position (\<lambda>n. strncmp_eq 32 n nm) (map if_name l)" for l
    by (induction l) simp_all
  then show ?thesis by (simp add: get_interface_def)
qed

lemma upd_last_map: "upd_last f xs = Inr ys \<Longrightarrow> (\<And>x. g (f x) = g x) \<Longrightarrow> map g ys = map g xs"
  by (cases xs rule: rev_cases) (auto simp: upd_last_def split: if_splits)

lemma upd_last_set: "upd_last f xs = Inr ys \<Longrightarrow> y \<in> set ys \<Longrightarrow> y \<in> set xs \<or> (\<exists>x \<in> set xs. y = f x)"
  by (cases xs rule: rev_cases) (auto simp: upd_last_def split: if_splits)

lemma hw_entry_names:
  assumes "hw_entry e sr = Inr s"
  shows "\<exists>ns. map if_name (if_list s) = map if_name (if_list sr) @ ns"
  using assms
  by (auto simp: hw_entry_def sr_add_interface_def sr_set_ether_ip_def sr_set_ether_addr_def runs
      split: prod.splits if_splits dest!: upd_last_map [where g = if_name] intro: exI [of _ "[]"])

lemma has_if_hw: "hw_entry e sr = Inr s \<Longrightarrow> has_if sr p \<Longrightarrow> has_if s p"
  using hw_entry_names [of e sr s] position_append
  by (fastforce simp: has_if_def get_interface_names)

lemma hw_ok_hw: "hw_entry e sr = Inr s \<Longrightarrow> hw_sized e \<Longrightarrow> hw_ok sr \<Longrightarrow> hw_ok s"
  by (auto simp: hw_entry_def hw_ok_def hw_sized_def sr_add_interface_def sr_set_ether_ip_def
      sr_set_ether_addr_def runs split: prod.splits if_splits dest!: upd_last_set)

lemma sendable_hw: "hw_entry e sr = Inr s \<Longrightarrow> sendable sr q \<Longrightarrow> sendable s q"
  using hw_entry_keeps [of e sr s] by (auto simp: sendable_def Let_def rt_match_def intro: has_if_hw)

lemma sendable_same:
  assumes "if_list s = if_list sr" and "routing_table s = routing_table sr"
  shows "sendable s q = sendable sr q"
  using assms by (simp add: sendable_def has_if_def get_interface_def rt_match_def)

lemma waiting_sendable:
  assumes "may_wait sr f" and "length mac = 6" and "has_if sr ifp" and "hw_ok sr"
  shows "sendable sr \<lparr>q_from_MAC = mac, q_from_iface = ifp, q_outgoing = f\<rparr>"
  using assms by (auto simp: sendable_def may_wait_def has_if_def hw_ok_def dest!: get_interface_bound)


lemma entry_ok_same:
  "if_list s = if_list sr \<Longrightarrow> routing_table s = routing_table sr \<Longrightarrow> entry_ok s c = entry_ok sr c"
  by (simp add: entry_ok_def sendable_same [of s sr])

lemma queue_ok_keep:
  assumes "queue_ok sr" and "if_list s = if_list sr" and "routing_table s = routing_table sr"
    and "sr_arp_queue s = sr_arp_queue sr"
  shows "queue_ok s"
  using assms by (simp add: queue_ok_def hw_ok_def entry_ok_same [of s sr])

lemma subseq_set: "subseq xs ys \<Longrightarrow> set xs \<subseteq> set ys"
  by (induction rule: list_emb.induct) auto

lemma subseq_distinct: "subseq xs ys \<Longrightarrow> distinct ys \<Longrightarrow> distinct xs"
  by (induction rule: list_emb.induct) (use subseq_set in auto)

interpretation queue: router_invariant queue_ok
proof
  show "queue_ok s" if "logs sr s" "queue_ok sr" for sr s
    using that by (intro queue_ok_keep [OF that(2)]) (simp_all add: logs_fields)
  show "queue_ok (sr\<lparr>sr_arp_queue := q\<rparr>)" if "queue_ok sr" "settles (sr_arp_queue sr) q" for sr q
  proof -
    let ?s = "sr\<lparr>sr_arp_queue := q\<rparr>"
    have sub: "subseq (map core q) (map core (sr_arp_queue sr))" using that(2) by (simp add: settles_def)
    have same: "entry_ok ?s c = entry_ok sr c" for c by (rule entry_ok_same) simp_all
    have "\<forall>c \<in> set (map core q). entry_ok sr c"
      using that(1) subseq_set [OF sub] unfolding queue_ok_def by blast
    moreover have "distinct (map fst (map core q))"
      using that(1) subseq_distinct [OF subseq_map [OF sub, of fst]] by (simp only: queue_ok_def)
    ultimately show ?thesis
      using that(1) by (simp add: queue_ok_def hw_ok_def same)
  qed
  show "queue_ok (sr\<lparr>sr_arp_queue := sr_arp_queue sr @ [e]\<rparr>)"
    if "queue_ok sr" "arp_queue_lookup (sr_arp_queue sr) (to_ip f) = None" "may_wait sr f"
      "length mac = 6" "has_if sr ifp" "arpq_ip e = to_ip f"
      "arpq_packets e = [\<lparr>q_from_MAC = mac, q_from_iface = ifp, q_outgoing = f\<rparr>]" for sr f mac ifp e
  proof -
    let ?s = "sr\<lparr>sr_arp_queue := sr_arp_queue sr @ [e]\<rparr>"
    have "entry_ok ?s c = entry_ok sr c" for c by (rule entry_ok_same) simp_all
    moreover have "entry_ok sr (core e)"
      using that waiting_sendable [of sr f mac ifp] by (simp add: entry_ok_def core_def queue_ok_def)
    moreover have "arpq_ip e \<notin> arpq_ip ` set (sr_arp_queue sr)"
      using that(2,6) by (auto simp: arp_queue_lookup_def position_None)
    ultimately show ?thesis
      using that(1) by (auto simp: queue_ok_def hw_ok_def core_def)
  qed
  show "queue_ok (sr\<lparr>sr_arp_queue := (sr_arp_queue sr)[i := e]\<rparr>)"
    if "queue_ok sr" "i < length (sr_arp_queue sr)" "may_wait sr f" "length mac = 6" "has_if sr ifp"
      "arpq_ip (sr_arp_queue sr ! i) = to_ip f" "arpq_ip e = to_ip f"
      "arpq_packets e = arpq_packets (sr_arp_queue sr ! i) @
        [\<lparr>q_from_MAC = mac, q_from_iface = ifp, q_outgoing = f\<rparr>]" for sr i f mac ifp e
  proof -
    let ?q = "sr_arp_queue sr" and ?s = "sr\<lparr>sr_arp_queue := (sr_arp_queue sr)[i := e]\<rparr>"
    have "entry_ok ?s c = entry_ok sr c" for c by (rule entry_ok_same) simp_all
    moreover have "entry_ok sr (core (?q ! i))" using that(1,2) by (simp add: queue_ok_def)
    then have "entry_ok sr (core e)"
      using that waiting_sendable [of sr f mac ifp] by (auto simp: entry_ok_def core_def queue_ok_def)
    then have "\<forall>c \<in> set (map core (?q[i := e])). entry_ok sr c"
      using that(1) by (auto simp: queue_ok_def dest!: set_update_subset_insert [THEN subsetD])
    moreover have "map fst (map core (?q[i := e])) = map fst (map core ?q)"
      using that(2,6,7) by (simp add: map_update core_def list_update_same_conv)
    ultimately show ?thesis
      using that(1) by (simp add: queue_ok_def hw_ok_def)
  qed
  show "queue_ok s" if "queue_ok sr" "hw_sized e" "hw_entry e sr = Inr s" for sr s e
    using that(1) hw_ok_hw [OF that(3,2)] hw_entry_keeps [OF that(3)] sendable_hw [OF that(3)]
    by (fastforce simp: queue_ok_def entry_ok_def)
qed (erule queue_ok_keep, simp_all)+

subsection \<open>The frames that are sent\<close>

definition sends_from :: "router \<Rightarrow> router \<Rightarrow> bool" where
  "sends_from sr0 sr \<longleftrightarrow> if_list sr = if_list sr0 \<and> (\<exists>l. log sr = log sr0 @ l \<and> honest sr0 l)"

interpretation sources: packet_invariant "sends_from sr0" for sr0
proof
  show "sends_from sr0 s" if "logs sr s" "sends_from sr0 sr" for sr s
    using that by (auto simp: sends_from_def logs_def honest_def)
qed (simp_all add: sends_from_def)

subsection \<open>The start\<close>

lemma sr_init_ok:
  assumes "hw_ok sr"
  shows "cache_ok (sr_init sr)" and "queue_ok (sr_init sr)"
  using assms by (simp_all add: sr_init_def cache_ok_def queue_ok_def hw_ok_def entry_ok_def core_def)

end
