(* ===== verification/Sr_Safety.thy ===== *)
theory Sr_Safety
  imports Sr_Invariants
begin

text \<open>
  The router returns.  On a state that satisfies the invariants, whose routes have their
  interfaces and whose queue has no entry that was asked for too often, a well-formed datagram
  or ARP packet is handled without a fault.
\<close>

definition returns :: "'e + 'a \<Rightarrow> ('a \<Rightarrow> bool) \<Rightarrow> bool" where
  "returns r Q \<longleftrightarrow> (\<exists>x. r = Inr x \<and> Q x)"

named_theorems returning \<open>operations that return\<close>

lemma returns_Inr [simp]: "returns (Inr x) Q \<longleftrightarrow> Q x"
  by (simp add: returns_def)

lemma returns_then: "returns r P \<Longrightarrow> (\<And>x. P x \<Longrightarrow> returns (k x) Q) \<Longrightarrow> returns (and_then r k) Q"
  by (auto simp: returns_def)

lemma returnsE: "returns r Q \<Longrightarrow> (\<And>x. r = Inr x \<Longrightarrow> Q x \<Longrightarrow> thesis) \<Longrightarrow> thesis"
  by (auto simp: returns_def)

subsection \<open>Sending\<close>

lemma send_returns: "length b = n \<Longrightarrow> 14 \<le> n \<Longrightarrow> returns (sr_send_packet b n nm sr) (logs sr)"
proof -
  assume n: "length b = n" "14 \<le> n"
  then have "\<exists>s. sr_send_packet b n nm sr = Inr s"
    by (auto simp: sr_send_packet_def sr_ether_addrs_match_interface_def load_def split: option.split)
  then show ?thesis by (auto simp: returns_def intro: send_logs)
qed

definition transmissible :: "router \<Rightarrow> frame_t \<Rightarrow> bool" where
  "transmissible sr f \<longleftrightarrow> len f = length (frame f) \<and> 14 \<le> len f \<and> has_if sr (iface f)"

lemma transmissible_queue [simp]: "transmissible (sr\<lparr>sr_arp_queue := q\<rparr>) f = transmissible sr f"
  by (simp add: transmissible_def has_if_def get_interface_def)

lemma has_if_bound: "has_if sr p \<Longrightarrow> \<exists>i. p = Some i \<and> i < length (if_list sr)"
  by (auto simp: has_if_def dest: get_interface_bound)

lemma transmit_returns:
  assumes "\<And>f. out = Some f \<Longrightarrow> transmissible sr f"
  shows "returns (transmit out sr) (logs sr)"
proof (cases out)
  case (Some f)
  with assms obtain i where "iface f = Some i" "i < length (if_list sr)" "len f = length (frame f)" "14 \<le> len f"
    using has_if_bound by (auto simp: transmissible_def)
  then show ?thesis using Some send_returns [of "frame f" "len f"] by (simp add: transmit_def deref_if_def)
qed (simp add: transmit_def)

lemma arp_create_returns:
  assumes "has_if sr p" and "hw_ok sr" and "length (from_MAC f) = 6"
    and "op = 1 \<longrightarrow> rt_match sr (to_ip f) \<noteq> None"
  shows "returns (arp_create sr f p op) (\<lambda>g. transmissible sr g \<and> iface g = p)"
proof -
  from assms(1) obtain i where i: "p = Some i" "i < length (if_list sr)" using has_if_bound by blast
  then have m: "length (if_addr (if_list sr ! i)) = 6" using assms(2) by (simp add: hw_ok_def)
  obtain tip dm where
    td: "if op = 1 then \<exists>r. rt_match sr (to_ip f) = Some r \<and> tip = rt_gw r \<and> dm = replicate 6 0xff
      else tip = from_ip f \<and> dm = from_MAC f"
  proof (cases "op = 1")
    case True
    then show thesis using assms(4) that by auto
  next
    case False
    then show thesis using that by auto
  qed
  then have "length dm = 6" using assms(3) by (auto split: if_splits)
  then show ?thesis
    using arp_create_frame [OF i(2) m assms(3) td] i assms m
    by (simp add: returns_def transmissible_def Let_def arp_shaped_def)
qed

subsection \<open>The queue\<close>

definition patient :: "router \<Rightarrow> bool" where
  "patient sr \<longleftrightarrow> (\<forall>e \<in> set (sr_arp_queue sr). arpq_num_reqs e < 5)"

text \<open>An entry after a flush: if it has packets, it has just been asked for, or not yet again.\<close>

definition fresh :: "int \<Rightarrow> arpq_entry \<Rightarrow> bool" where
  "fresh t e \<longleftrightarrow> (arpq_packets e \<noteq> [] \<longrightarrow> \<not> t - 1 > arpq_last_req e)"

lemma flush_returns:
  assumes "\<forall>e \<in> set es. arpq_num_reqs e < 5 \<and> (\<forall>q \<in> set (arpq_packets e). sendable sr q)" and "hw_ok sr"
  shows "returns (flush_entries es sr) (\<lambda>(q, s). settles es q \<and> logs sr s \<and> (\<forall>e \<in> set q. fresh (now sr) e))"
  using assms
proof (induction es arbitrary: sr)
  case Nil
  then show ?case by (simp add: settles_def)
next
  case (Cons e es)
  have rest: "returns (flush_entries es s)
      (\<lambda>(q, t). settles es q \<and> logs s t \<and> (\<forall>e \<in> set q. fresh (now s) e))" if "logs sr s" for s
    using Cons.prems logs_fields [OF that] by (intro Cons.IH) (simp_all add: hw_ok_def sendable_same [of s sr])
  have few: "\<not> arpq_num_reqs e \<ge> 5" using Cons.prems(1) by (simp add: not_le)
  let ?first = "if now sr - 1 > arpq_last_req e then
          if arpq_num_reqs e \<ge> 5 then
            and_then (arpq_packets_icmpsend (arpq_packets e) sr) (\<lambda>sr. Inr ([], sr))
          else
            (case arpq_packets e of
               [] \<Rightarrow> Inr ([e], sr)
             | q # qs \<Rightarrow>
                 let old = q_outgoing q in
                 and_then (arp_create sr old (iface old) 1) (\<lambda>arp_req.
                 deref_if (iface old) sr (\<lambda>ifc.
                 and_then (sr_send_packet (frame arp_req) (len arp_req) (if_name ifc) sr) (\<lambda>sr.
                 Inr ([e\<lparr>arpq_last_req := now sr, arpq_num_reqs := arpq_num_reqs e + 1\<rparr>], sr)))))
        else Inr ([e], sr)"
  have first: "returns ?first (\<lambda>(k, s). (\<exists>e'. k = [e'] \<and> core e' = core e \<and> fresh (now sr) e') \<and> logs sr s)"
  proof (cases "now sr - 1 > arpq_last_req e")
    case late: True
    show ?thesis
    proof (cases "arpq_packets e")
      case Nil
      with late few show ?thesis by (simp add: fresh_def)
    next
      case (Cons q qs)
      let ?old = "q_outgoing q"
      have q: "sendable sr q" using Cons.prems(1) Cons by simp
      then have old: "has_if sr (iface ?old)" "length (from_MAC ?old) = 6" "rt_match sr (to_ip ?old) \<noteq> None"
        by (simp_all add: sendable_def Let_def)
      from arp_create_returns [OF old(1) \<open>hw_ok sr\<close> old(2), of 1] old(3) obtain g where
        g: "arp_create sr ?old (iface ?old) 1 = Inr g" "transmissible sr g" by (auto elim: returnsE)
      obtain i where i: "iface ?old = Some i" "i < length (if_list sr)" using has_if_bound [OF old(1)] by blast
      from send_returns [of "frame g" "len g" "if_name (if_list sr ! i)" sr] g(2) obtain s where
        "sr_send_packet (frame g) (len g) (if_name (if_list sr ! i)) sr = Inr s" "logs sr s"
        by (auto simp: transmissible_def elim: returnsE)
      with late few Cons g(1) i show ?thesis
        by (simp add: deref_if_def core_def fresh_def logs_fields)
    qed
  qed (simp add: fresh_def)
  then obtain e' s where s: "?first = Inr ([e'], s)" "core e' = core e" "fresh (now sr) e'" "logs sr s"
    by (auto elim!: returnsE)
  from rest [OF s(4)] obtain q t where "flush_entries es s = Inr (q, t)" "settles es q" "logs s t"
    "\<forall>e \<in> set q. fresh (now s) e" by (auto elim!: returnsE)
  moreover have "now s = now sr" using s(4) by (simp add: logs_fields)
  ultimately show ?case using s(2,3) logs_trans [OF s(4)] by (simp add: s(1) settles_def)
qed


lemma core_eq_fields: "core e' = core e \<Longrightarrow> arpq_ip e' = arpq_ip e \<and> arpq_packets e' = arpq_packets e"
  by (simp add: core_def)

text \<open>What holds once the queue has been looked through.\<close>

definition settled :: "router \<Rightarrow> bool" where
  "settled sr \<longleftrightarrow> queue_ok sr \<and> cache_ok sr \<and> (\<forall>e \<in> set (sr_arp_queue sr). fresh (now sr) e)"

lemma flushes_returns:
  assumes "queue_ok sr" and "cache_ok sr" and "patient sr" and "\<not> arpq_dangling sr"
  shows "\<exists>s. flushes sr s \<and> settled s \<and> if_list s = if_list sr \<and> routing_table s = routing_table sr"
proof -
  let ?sr = "sr\<lparr>sr_arp_cache := arp_cache_flush (now sr) (sr_arp_cache sr)\<rparr>"
  have ok: "queue_ok ?sr" "cache_ok ?sr"
    using assms(1,2) by (auto intro: queue.expire cache.expire)
  have "\<forall>e \<in> set (sr_arp_queue ?sr). arpq_num_reqs e < 5 \<and> (\<forall>q \<in> set (arpq_packets e). sendable ?sr q)"
    using ok(1) assms(3) by (auto simp: queue_ok_def entry_ok_def core_def patient_def)
  moreover have "hw_ok ?sr" using ok(1) by (simp add: queue_ok_def)
  ultimately obtain q s where q: "flush_entries (sr_arp_queue ?sr) ?sr = Inr (q, s)"
    "settles (sr_arp_queue ?sr) q" "logs ?sr s" "\<forall>e \<in> set q. fresh (now ?sr) e"
    using flush_returns [of "sr_arp_queue ?sr" ?sr] by (auto elim!: returnsE)
  let ?s = "s\<lparr>sr_arp_queue := q\<rparr>"
  have "flushes sr ?s" using q(1) assms(4) by (simp add: flushes_def arp_queue_flush_def)
  moreover have "queue_ok ?s" "cache_ok ?s"
    using queue.flush_good [of ?sr ?s] cache.flush_good [of ?sr ?s] ok q(1) assms(4)
    by (simp_all add: arp_queue_flush_def)
  moreover have "\<forall>e \<in> set (sr_arp_queue ?s). fresh (now ?s) e"
    using q(3,4) by (simp add: logs_fields)
  ultimately show ?thesis using q(3) by (intro exI [of _ ?s]) (simp add: settled_def logs_fields)
qed

lemma queue_packet_returns:
  assumes "settled sr" and "may_wait sr g" and "to_ip g \<noteq> 0"
  shows "returns (queue_packet f g sr) (\<lambda>(out, s). \<forall>h. out = Some h \<longrightarrow> transmissible s h)"
proof -
  have hw: "hw_ok sr" and q: "queue_ok sr" using assms(1) by (auto simp: settled_def queue_ok_def)
  obtain j where "iface g = Some j" "j < length (if_list sr)"
    using assms(2) has_if_bound by (auto simp: may_wait_def)
  then have g: "has_if sr (iface g)" "rt_match sr (to_ip g) \<noteq> None" "length (from_MAC g) = 6"
    using assms(2) hw by (auto simp: may_wait_def hw_ok_def)
  have request: "returns (arp_create s g (iface g) 1) (transmissible s)"
    if "if_list s = if_list sr" "routing_table s = routing_table sr" for s :: router
  proof -
    have "has_if s = has_if sr" using that(1) by (simp add: has_if_def get_interface_def fun_eq_iff)
    then show ?thesis
      using arp_create_returns [of s "iface g" g 1] that hw g
      by (auto simp: hw_ok_def rt_match_def returns_def)
  qed
  show ?thesis
  proof (cases "arp_queue_lookup (sr_arp_queue sr) (to_ip g)")
    case (Some i)
    let ?e = "sr_arp_queue sr ! i"
    from Some have i: "i < length (sr_arp_queue sr)" "arpq_ip ?e = to_ip g"
      by (auto simp: arp_queue_lookup_def position_Some)
    then have "entry_ok sr (core ?e)" "fresh (now sr) ?e"
      using q assms(1) by (auto simp: queue_ok_def settled_def)
    then have "arpq_packets ?e \<noteq> []" "\<not> now sr - 1 > arpq_last_req ?e"
      using i(2) assms(3) by (auto simp: entry_ok_def core_def fresh_def)
    moreover let ?s = "sr\<lparr>sr_arp_queue := (sr_arp_queue sr)[i := arpq_add_packet g (from_MAC f) (iface f) ?e]\<rparr>"
    obtain h where "arp_create ?s g (iface g) 1 = Inr h" "transmissible ?s h"
      using request [of ?s] by (auto elim: returnsE)
    ultimately show ?thesis using Some by (simp add: queue_packet_def Let_def)
  next
    case None
    obtain k where k: "iface g = Some k" using g(1) by (auto simp: has_if_def)
    obtain s where s: "arpq_add_entry sr (iface g) g (to_ip g) (from_MAC f) (iface f) = Inr s"
      "if_list s = if_list sr" "routing_table s = routing_table sr"
      by (auto simp: arpq_add_entry_def k Let_def)
    from request [OF s(2,3)] obtain h where "arp_create s g (iface g) 1 = Inr h" "transmissible s h"
      by (auto elim: returnsE)
    then show ?thesis using None s by (simp add: queue_packet_def Let_def)
  qed
qed


subsection \<open>Datagrams\<close>

lemma update_checked_waits:
  assumes "shaped d" and "8 \<le> length (body d)" and "rt_match sr (dst d) = Some r"
    and "get_interface sr (rt_interface r) = Some i"
  shows "may_wait sr (waiting sr i (checked sr0 ifn d) d)"
proof -
  have "length (datagram (aged d)) = 34 + length (body d)" using assms(1) by (simp add: body_aged)
  then show ?thesis
    unfolding may_wait_def waiting_def incoming_def using assms(2,3) has_if_get [OF assms(4)] by simp
qed

lemma forward_returns:
  assumes "settled sr" and "shaped d" and "8 \<le> length (body d)" and "dst d \<noteq> 0"
    and "rt_match sr (dst d) = Some r" and "get_interface sr (rt_interface r) = Some i"
  shows "returns (forward (checked sr0 ifn d) sr) (\<lambda>(out, s). \<forall>h. out = Some h \<longrightarrow> transmissible s h)"
proof -
  let ?w = "waiting sr i (checked sr0 ifn d) d"
  have u: "update_ip_hdr sr (checked sr0 ifn d) = Inr (?w, rt_gw r)"
    by (rule update_checked [OF assms(2,5,6)])
  have i: "i < length (if_list sr)" by (rule get_interface_bound [OF assms(6)])
  show ?thesis
  proof (cases "arp_cache_lookup (sr_arp_cache sr) (rt_gw r)")
    case None
    have "to_ip ?w \<noteq> 0" using assms(4) by (simp add: waiting_def incoming_def)
    with None u show ?thesis
      using queue_packet_returns [OF assms(1) update_checked_waits [OF assms(2,3,5,6)]]
      by (simp add: forward_def)
  next
    case (Some j)
    then have "length (arpc_mac (sr_arp_cache sr ! j)) = 6" "length (if_addr (if_list sr ! i)) = 6"
      using assms(1) i by (auto simp: settled_def cache_ok_def queue_ok_def hw_ok_def dest: lookup_ip)
    moreover define m where "m = arpc_mac (sr_arp_cache sr ! j)"
    ultimately have "encapsulate (?w\<lparr>to_MAC := m\<rparr>) =
      Inr (?w\<lparr>to_MAC := m, frame := datagram ((aged d)\<lparr>dmac := m, smac := if_addr (if_list sr ! i)\<rparr>)\<rparr>)"
      using encapsulate_datagram [of "aged d" "?w\<lparr>to_MAC := m\<rparr>"] assms(2) by (simp add: waiting_def)
    moreover have "shaped ((aged d)\<lparr>dmac := m, smac := if_addr (if_list sr ! i)\<rparr>)"
      using \<open>length (arpc_mac _) = 6\<close> \<open>length (if_addr _) = 6\<close> assms(2) by (intro shaped_macs) (simp_all add: m_def)
    ultimately show ?thesis
      using Some u assms(6) by (simp add: forward_def transmissible_def waiting_def incoming_def
          has_if_get body_aged flip: m_def)
  qed
qed

definition sound_lengths :: "dgram \<Rightarrow> bool" where
  "sound_lengths d \<longleftrightarrow> shaped d \<and> 8 \<le> length (body d) \<and> 28 \<le> unat (total_len d)
     \<and> unat (total_len d) \<le> 20 + length (body d)"

lemma icmp_error_returns:
  assumes "sound_lengths d" and "has_if sr (get_interface sr0 ifn)"
  shows "returns (generate_icmp_error sr (checked sr0 ifn d) t c) (transmissible sr)"
proof -
  let ?f = "checked sr0 ifn d"
  have l: "shaped d" "8 \<le> length (body d)" "28 \<le> unat (total_len d)"
    using assms(1) by (simp_all add: sound_lengths_def)
  have "generate_icmp_error sr ?f t c =
    Inr (\<lparr>frame = datagram (icmp_error t c ?f (with_sum d)), ip_header = Some 14, arp_header = None,
      icmp_header = Some 34, from_MAC = to_MAC ?f, to_MAC = from_MAC ?f, from_ip = to_ip ?f,
      to_ip = from_ip ?f, iface = iface ?f, len = 70, ip_hl = 20, ip_len = 56\<rparr>)"
    by (rule generate_icmp_error_datagram) (use l in \<open>simp_all add: incoming_def\<close>)
  moreover have "shaped (icmp_error t c ?f (with_sum d))"
    using l(1) by (simp add: icmp_error_def Let_def shaped_made incoming_def)
  moreover have "length (body (icmp_error t c ?f (with_sum d))) = 36"
    using l(1,2) by (simp add: icmp_error_def Let_def)
  ultimately show ?thesis
    using assms(2) by (simp add: transmissible_def incoming_def)
qed

lemma handle_local_returns:
  assumes "sound_lengths d" and "has_if sr (get_interface sr0 ifn)"
  shows "returns (handle_local (checked sr0 ifn d) sr) (\<lambda>(out, s). s = sr \<and> (\<forall>h. out = Some h \<longrightarrow> transmissible s h))"
proof (cases "proto d = 1")
  case False
  then have "icmp_header (checked sr0 ifn d) = None" by (simp add: incoming_def)
  then show ?thesis
    using icmp_error_returns [OF assms, of DEST_UNREACH PORT_UNREACH]
    by (auto simp: handle_local_def elim!: returnsE)
next
  case True
  let ?f = "checked sr0 ifn d" and ?m = "unat (total_len d) - 20"
  have l: "shaped d" "8 \<le> length (body d)" "28 \<le> unat (total_len d)" "unat (total_len d) \<le> 20 + length (body d)"
    using assms(1) by (simp_all add: sound_lengths_def)
  define t c s rest where "t = body d ! 0" and "c = body d ! 1"
    and "s = word16 (take 2 (drop 2 (body d)))" and "rest = drop 4 (body d)"
  have b: "body d = [t, c] @ bytes16 s @ rest"
  proof -
    have "body d = take 2 (body d) @ take 2 (drop 2 (body d)) @ drop 2 (drop 2 (body d))"
      by (simp only: append_take_drop_id)
    moreover have "take 2 (body d) = [t, c]"
      using l(2) by (cases "body d"; cases "tl (body d)") (simp_all add: t_def c_def)
    ultimately show ?thesis using l(2) by (simp add: s_def rest_def)
  qed
  obtain pre where pre: "datagram (with_sum d) = pre @ body (with_sum d)" "length pre = 34"
    using datagram_split [of "with_sum d"] l(1) by auto
  define x where "x = icmp_sum ?m ([t, c] @ bytes16 s @ rest)"
  let ?d = "(with_sum d)\<lparr>body := [t, c] @ bytes16 x @ rest\<rparr>"
  have d: "datagram ?d = pre @ body ?d"
    using pre l(1) by (simp add: datagram_def header_def with_sum_def)
  have len: "length rest = length (body d) - 4" using l(2) by (simp add: rest_def)
  have "compute_icmp_checksum ?f = Inr (?f\<lparr>frame := datagram ?d\<rparr>)"
    unfolding d
  proof (subst compute_icmp_at [where pre = pre and t = t and c = c and s = s and rest = rest and m = ?m])
    show "frame ?f = pre @ [t, c] @ bytes16 s @ rest" using pre(1) by (simp add: b)
    show "icmp_header ?f = Some 34" using True by (simp add: incoming_def)
    show "ip_len ?f = ip_hl ?f + ?m" using l(3) by (simp add: incoming_def)
  qed (use pre(2) l len in \<open>simp_all add: x_def\<close>)
  moreover have "load8 34 (datagram ?d) = Inr t" "load16 36 (datagram ?d) = Inr x"
    unfolding d using pre(2) by (simp_all add: load8_def load16_def load_def)
  moreover have "generate_icmp_echo (?f\<lparr>frame := datagram ?d\<rparr>) =
    Inr (\<lparr>frame = datagram (echo_reply d c rest), ip_header = Some 14, arp_header = None,
      icmp_header = Some 34, from_MAC = dmac d, to_MAC = smac d, from_ip = dst d, to_ip = src d,
      iface = get_interface sr0 ifn, len = 34 + length (body d), ip_hl = 20,
      ip_len = unat (total_len d)\<rparr>)"
    by (rule generate_icmp_echo_datagram [where d = d and sr = sr0 and ifn = ifn and d' = ?d and t = t and s = x])
      (use l b in \<open>simp_all add: incoming_def\<close>)
  moreover have "length (datagram (echo_reply d c rest)) = 34 + length (body d)"
    using l len by (subst length_datagram) (simp_all add: echo_reply_def Let_def shaped_made)
  moreover have "icmp_header ?f = Some 34" using True by (simp add: incoming_def)
  ultimately show ?thesis
    using assms(2) by (cases "t = 8 \<and> x = 0") (auto simp: handle_local_def transmissible_def)
qed

lemma handle_expired_returns:
  assumes "sound_lengths d" and "has_if sr (get_interface sr0 ifn)"
  shows "returns (handle_expired (checked sr0 ifn d) sr) (\<lambda>(out, s). s = sr \<and> (\<forall>h. out = Some h \<longrightarrow> transmissible s h))"
proof -
  let ?f = "checked sr0 ifn d"
  have l: "shaped d" "8 \<le> length (body d)" using assms(1) by (simp_all add: sound_lengths_def)
  obtain pre where pre: "datagram (with_sum d) = pre @ body (with_sum d)" "length pre = 34"
    using datagram_split [of "with_sum d"] l(1) by auto
  have "load8 23 (frame ?f) = Inr (proto d)" using l(1) by (simp add: fields)
  moreover have "load8 (14 + ip_hl ?f) (frame ?f) = Inr (body d ! 0)"
    using pre l(2) by (simp add: load8_def load_def incoming_def nth_append)
  ultimately show ?thesis
    using icmp_error_returns [OF assms, of TIME_EXCEEDED TIME_INTRANSIT]
    by (auto simp: handle_expired_def elim!: returnsE)
qed

subsection \<open>ARP packets\<close>

lemma sendable_ready: "hw_ok sr \<Longrightarrow> sendable sr q \<Longrightarrow> ready sr q"
proof -
  assume "hw_ok sr" "sendable sr q"
  then obtain i nm where "iface (q_outgoing q) = Some i" "get_interface sr nm = Some i"
    by (auto simp: sendable_def Let_def has_if_def)
  moreover have "length (if_addr (if_list sr ! i)) = 6"
    using \<open>hw_ok sr\<close> get_interface_bound [OF calculation(2)] by (simp add: hw_ok_def)
  ultimately show ?thesis using \<open>sendable sr q\<close> by (auto simp: ready_def sendable_def Let_def)
qed

lemma queued_ready:
  assumes "queue_ok sr" and "i < length (sr_arp_queue sr)"
  shows "\<forall>q \<in> set (arpq_packets (sr_arp_queue sr ! i)). ready sr q"
proof -
  have "entry_ok sr (core (sr_arp_queue sr ! i))" using assms by (simp add: queue_ok_def)
  then show ?thesis
    using assms(1) by (auto simp: entry_ok_def core_def queue_ok_def intro: sendable_ready)
qed

lemma clear_returns:
  assumes "queue_ok sr" and "i < length (sr_arp_queue sr)" and "length mac = 6"
  shows "\<exists>s. arpq_entry_clear i mac sr = Inr s \<and> if_list s = if_list sr"
proof -
  from send_queued_exact [OF queued_ready [OF assms(1,2)] assms(3)] show ?thesis by (simp add: arpq_entry_clear_def)
qed

lemma handle_arp_returns:
  assumes "queue_ok sr" and "arp_shaped a" and "if_list sr \<noteq> []" and "has_if sr (get_interface sr0 ifn)"
  shows "returns (handle_arp (arp_incoming sr0 ifn a p) sr) (\<lambda>(out, s). \<forall>h. out = Some h \<longrightarrow> transmissible s h)"
proof (cases "a_tip a \<in> if_ip ` set (if_list sr)")
  case False
  then have "position (\<lambda>i. if_ip i = a_tip a) (if_list sr) = None"
    unfolding position_None by (metis imageI)
  moreover have "frame (arp_incoming sr0 ifn a p) = arp_frame a @ p" by (simp add: arp_incoming_def)
  ultimately show ?thesis using assms(2,3)
    by (simp add: handle_arp_def arp_loads if_dst_check_def Let_def split: option.split)
next
  case True
  have sha: "length (a_sha a) = 6" using assms(2) by (simp add: arp_shaped_def)
  have l: "if_list (learned a sr) = if_list sr" "sr_arp_queue (learned a sr) = sr_arp_queue sr" "queue_ok (learned a sr)"
    using queue_ok_keep [OF assms(1), of "learned a sr"] by (simp_all add: learned_def)
  obtain s where s: "(case released a sr of
      Some i \<Rightarrow> arpq_entry_clear i (a_sha a) (learned a sr) | None \<Rightarrow> Inr (learned a sr)) = Inr s"
    "if_list s = if_list sr"
  proof (cases "released a sr")
    case (Some i)
    then have "i < length (sr_arp_queue (learned a sr))"
      by (auto simp: l released_def arpq_next_hop_lookup_def position_Some split: if_splits)
    from clear_returns [OF l(3) this sha] Some that l(1) show thesis by auto
  qed (use that l(1) in simp)
  have "has_if s = has_if sr" "hw_ok s = hw_ok sr"
    using s(2) by (simp_all add: has_if_def get_interface_def hw_ok_def fun_eq_iff)
  moreover have "length (from_MAC (arp_incoming sr0 ifn a p)) = 6"
    using assms(2) by (simp add: arp_incoming_def arp_shaped_def)
  ultimately obtain g where
    "arp_create s (arp_incoming sr0 ifn a p) (get_interface sr0 ifn) 2 = Inr g" "transmissible s g"
    using arp_create_returns [of s "get_interface sr0 ifn" "arp_incoming sr0 ifn a p" 2] assms(1,4)
    by (auto simp: queue_ok_def elim!: returnsE)
  then show ?thesis
    unfolding handle_arp_eq [OF assms(2,3) True] using s(1) by simp
qed

end
