(* ===== verification/Sr_Properties.thy ===== *)
theory Sr_Properties
  imports Sr_Safety
begin

text \<open>
  The properties of the router, each with a witness on a small one: it has the networks
  10.0.0.0 and 10.0.1.0 on two interfaces.  \<open>flushes sr s\<close> says that \<open>s\<close> is \<open>sr\<close> after the walk
  over cache and queue that every packet starts with.
\<close>

subsection \<open>A small router\<close>

abbreviation ip_addr :: "byte \<Rightarrow> byte \<Rightarrow> byte \<Rightarrow> byte \<Rightarrow> 32 word" where
  "ip_addr a b c d \<equiv> word32 [a, b, c, d]"

definition office :: router where
  "office = sr_init
     \<lparr>if_list = [\<lparr>if_name = ''eth0'', if_addr = [2, 0, 0, 0, 0, 1], if_ip = ip_addr 10 0 0 1\<rparr>,
                \<lparr>if_name = ''eth1'', if_addr = [2, 0, 0, 0, 0, 2], if_ip = ip_addr 10 0 1 1\<rparr>],
      routing_table = [\<lparr>rt_dest = ip_addr 10 0 1 0, rt_gw = ip_addr 10 0 1 2, rt_mask = ip_addr 255 255 255 0, rt_interface = ''eth1''\<rparr>,
                       \<lparr>rt_dest = ip_addr 10 0 0 0, rt_gw = ip_addr 10 0 0 2, rt_mask = ip_addr 255 255 0 0, rt_interface = ''eth0''\<rparr>],
      sr_arp_cache = [], sr_arp_queue = [], arpq_dangling = False, log = [], now = 100,
      junk = (\<lambda>_. 0), junk_ip = 0, junk_len = 0\<rparr>"

text \<open>The router when it knows the hardware address of 10.0.1.2.\<close>

definition peer :: "byte list" where
  "peer = [6, 0, 0, 0, 0, 9]"

definition knowing :: router where
  "knowing = office\<lparr>sr_arp_cache := arp_cache_add (sr_arp_cache office) peer (ip_addr 10 0 1 2) 100\<rparr>"

text \<open>A datagram from 10.0.0.2 to 10.0.1.2, and an echo request to the router.\<close>

definition mail :: dgram where
  "mail = with_sum \<lparr>dmac = [2, 0, 0, 0, 0, 1], smac = [4, 0, 0, 0, 0, 7], tos = 0, total_len = 28,
     id_off = [0, 1, 0, 0], ttl = 64, proto = 17, hsum = 0, src = ip_addr 10 0 0 2,
     dst = ip_addr 10 0 1 2, body = [1, 2, 3, 4, 5, 6, 7, 8]\<rparr>"

lemmas office_defs = office_def sr_init_def

lemma office_fields:
  "if_list office = [\<lparr>if_name = ''eth0'', if_addr = [2, 0, 0, 0, 0, 1], if_ip = ip_addr 10 0 0 1\<rparr>,
                \<lparr>if_name = ''eth1'', if_addr = [2, 0, 0, 0, 0, 2], if_ip = ip_addr 10 0 1 1\<rparr>]"
  "routing_table office = [\<lparr>rt_dest = ip_addr 10 0 1 0, rt_gw = ip_addr 10 0 1 2, rt_mask = ip_addr 255 255 255 0, rt_interface = ''eth1''\<rparr>,
     \<lparr>rt_dest = ip_addr 10 0 0 0, rt_gw = ip_addr 10 0 0 2, rt_mask = ip_addr 255 255 0 0, rt_interface = ''eth0''\<rparr>]"
  "sr_arp_cache office = [\<lparr>arpc_ip = 0, arpc_mac = replicate 6 0xff, arpc_timeout = 0\<rparr>]"
  "sr_arp_queue office = [\<lparr>arpq_ip = 0, arpq_next_hop = 0, arpq_if = None, arpq_packets = [],
     arpq_last_req = 0, arpq_num_reqs = 0\<rparr>]"
  "now office = 100" "arpq_dangling office = False"
  by (simp_all add: office_defs)

lemma address_eq [simp]: "ip_addr a b c d = ip_addr e f g h \<longleftrightarrow> [a, b, c, d] = [e, f, g, h]"
proof
  assume "ip_addr a b c d = ip_addr e f g h"
  then have "bytes32 (ip_addr a b c d) = bytes32 (ip_addr e f g h)" by (rule arg_cong)
  then show "[a, b, c, d] = [e, f, g, h]" by (simp add: bytes32_word32)
qed simp

lemma address_zero: "ip_addr a b c d = 0 \<longleftrightarrow> [a, b, c, d] = [0, 0, 0, 0]"
proof -
  have "0 = ip_addr 0 0 0 0" by (simp add: word32_def)
  then show ?thesis using address_eq by metis
qed

lemma address_ntohl: "ntohl (ip_addr a b c d) = ip_addr d c b a"
  by (simp add: ntohl_def bytes32_word32)

lemma mail_fields [simp]:
  "src mail = ip_addr 10 0 0 2" "dst mail = ip_addr 10 0 1 2" "ttl mail = 64" "proto mail = 17"
  "total_len mail = 28" "body mail = [1, 2, 3, 4, 5, 6, 7, 8]" "smac mail = [4, 0, 0, 0, 0, 7]"
  "dmac mail = [2, 0, 0, 0, 0, 1]"
  by (simp_all add: mail_def)

lemma mail_good: "shaped mail" "verifies mail"
  unfolding mail_def by (rule with_sum_verifies | simp add: shaped_def)+

lemma office_flushes: "flushes office office" "flushes knowing knowing"
  by (simp_all add: flushes_def arp_queue_flush_def office_defs knowing_def arp_cache_add_def)

lemma office_ok: "queue_ok office" "cache_ok office" "queue_ok knowing" "cache_ok knowing"
proof -
  show ok: "queue_ok office" "cache_ok office"
    by (simp_all add: queue_ok_def hw_ok_def entry_ok_def core_def cache_ok_def office_fields)
  show "queue_ok knowing" using ok(1) by (rule queue_ok_keep) (simp_all add: knowing_def)
  show "cache_ok knowing"
    by (simp add: cache_ok_def knowing_def arp_cache_add_def office_fields peer_def address_zero)
qed

lemma office_routes:
  "rt_match office (ip_addr 10 0 1 2) = Some (routing_table office ! 0)"
  by (simp add: rt_match_def office_fields word32_def ntohl_def bytes32_def)

lemma knowing_fields:
  "if_list knowing = if_list office" "routing_table knowing = routing_table office"
  "get_interface knowing = get_interface office" "rt_match knowing = rt_match office"
  "arp_cache_lookup (sr_arp_cache knowing) (ip_addr 10 0 1 2) = Some (Suc 0)"
  "sr_arp_cache knowing ! Suc 0 = \<lparr>arpc_ip = ip_addr 10 0 1 2, arpc_mac = peer, arpc_timeout = 115\<rparr>"
  by (simp_all add: knowing_def get_interface_def rt_match_def fun_eq_iff arp_cache_lookup_def
      office_fields arp_cache_add_def address_zero)

lemma office_route:
  "rt_gw (routing_table office ! 0) = ip_addr 10 0 1 2" "rt_interface (routing_table office ! 0) = ''eth1''"
  by (simp_all add: office_fields)

lemma office_interfaces: "get_interface office ''eth0'' = Some 0" "get_interface office ''eth1'' = Some 1"
  by (simp_all add: get_interface_def office_fields strncmp_eq_def)

subsection \<open>Forwarding\<close>

lemma aged_fields:
  "shaped d \<Longrightarrow> verifies (aged d)" "ttl (aged d) = ttl d - 1"
  "(aged d)\<lparr>ttl := ttl d, hsum := hsum d\<rparr> = d"
  using with_sum_verifies [of "d\<lparr>ttl := ttl d - 1\<rparr>"] by (simp_all add: aged_def with_sum_def)

text \<open>
  C9.  A datagram with a valid header that is not for the router, still has time to live,
  matches a route and has a next hop in the ARP cache is sent, and nothing else: it leaves by the interface
  of the route with the address of this interface as source and the cached one as destination;
  all of it is as it came but for one less to live and a checksum that verifies again.
\<close>

theorem forwarded_exactly:
  assumes "shaped d" and "8 \<le> length (body d)" and "verifies d"
    and "flushes sr s" and "queue_ok s" and "cache_ok s"
    and "dst d \<notin> if_ip ` set (if_list s)" and "ttl d \<noteq> 0"
    and "rt_match s (dst d) = Some r" and "get_interface s (rt_interface r) = Some i"
    and "arp_cache_lookup (sr_arp_cache s) (rt_gw r) = Some j"
  shows "sr_handlepacket (datagram d) ifn sr = Inr (sends i (datagram
      ((aged d)\<lparr>dmac := arpc_mac (sr_arp_cache s ! j), smac := if_addr (if_list s ! i)\<rparr>)) s)
    \<and> verifies (aged d) \<and> ttl (aged d) = ttl d - 1 \<and> (aged d)\<lparr>ttl := ttl d, hsum := hsum d\<rparr> = d"
proof -
  have i: "i < length (if_list s)" by (rule get_interface_bound [OF assms(10)])
  then have ifs: "if_list s \<noteq> []" by auto
  have "length (if_addr (if_list s ! i)) = 6" using assms(5) i by (simp add: queue_ok_def hw_ok_def)
  moreover have "length (arpc_mac (sr_arp_cache s ! j)) = 6"
    using assms(6) lookup_ip [OF assms(11)] by (simp add: cache_ok_def)
  ultimately have "and_then (forward (checked sr ifn d) s) (\<lambda>(out, s). transmit out s) = Inr (sends i (datagram
      ((aged d)\<lparr>dmac := arpc_mac (sr_arp_cache s ! j), smac := if_addr (if_list s ! i)\<rparr>)) s)"
    by (intro forwarded [OF assms(1) refl assms(9-11)])
  then show ?thesis
    using handlepacket_datagram [OF assms(1,2,4), of ifn] handle_ip_datagram [OF assms(1) ifs, of sr ifn]
      assms(3,7,8) aged_fields [of d] assms(1)
    by (simp add: Let_def)
qed

theorem forwarded_exactly_witness:
  "sr_handlepacket (datagram mail) ''eth0'' knowing = Inr (sends 1 (datagram
      ((aged mail)\<lparr>dmac := peer, smac := [2, 0, 0, 0, 0, 2]\<rparr>)) knowing)"
  using forwarded_exactly [OF mail_good(1) _ mail_good(2) office_flushes(2) office_ok(3,4),
      of "routing_table office ! 0" 1 1 "''eth0''"] office_interfaces
  by (simp add: knowing_fields office_routes office_route) (simp add: office_fields)

lemma ip_starts:
  assumes "shaped d" and "8 \<le> length (body d)" and "verifies d" and "flushes sr s" and "if_list s \<noteq> []"
  shows "sr_handlepacket (datagram d) ifn sr =
    and_then (if dst d \<in> if_ip ` set (if_list s) then handle_local (checked sr ifn d) s
       else if ttl d = 0 then handle_expired (checked sr ifn d) s
       else forward (checked sr ifn d) s) (\<lambda>(out, t). transmit out t)"
  using handlepacket_datagram [OF assms(1,2,4), of ifn] handle_ip_datagram [OF assms(1,5), of sr ifn] assms(3)
  by (simp add: Let_def)

text \<open>
  C10.  When the next hop is in no cache entry and nobody waits for the destination, the
  datagram is queued, not sent: the queue gets one entry at its end, with this datagram, one
  less to live, the next hop and the current time, and what leaves is an ARP request for the next hop, broadcast
  by the interface of the route.
\<close>

theorem first_packet_waits:
  assumes "shaped d" and "8 \<le> length (body d)" and "verifies d" and "flushes sr s" and "queue_ok s"
    and "dst d \<notin> if_ip ` set (if_list s)" and "ttl d \<noteq> 0"
    and "rt_match s (dst d) = Some r" and "get_interface s (rt_interface r) = Some i"
    and "arp_cache_lookup (sr_arp_cache s) (rt_gw r) = None"
    and "arp_queue_lookup (sr_arp_queue s) (dst d) = None"
  shows "sr_handlepacket (datagram d) ifn sr =
    Inr (sends i (arp_frame (who_has s i (rt_gw r)))
      (s\<lparr>sr_arp_queue := sr_arp_queue s @ [asked sr i r ifn d s]\<rparr>))"
proof -
  have i: "i < length (if_list s)" by (rule get_interface_bound [OF assms(9)])
  then have ifs: "if_list s \<noteq> []" and hw: "length (if_addr (if_list s ! i)) = 6"
    using assms(5) by (auto simp: queue_ok_def hw_ok_def)
  show ?thesis
    using ip_starts [OF assms(1-4) ifs, of ifn] queued_first [OF assms(1,8,9) hw assms(10,11), of sr ifn] assms(6,7)
    by simp
qed

lemma office_unknown:
  "arp_cache_lookup (sr_arp_cache office) (ip_addr 10 0 1 2) = None"
  "arp_queue_lookup (sr_arp_queue office) (ip_addr 10 0 1 2) = None"
  by (simp_all add: arp_cache_lookup_def arp_queue_lookup_def office_fields address_zero
      eq_commute [of "0 :: 32 word"])

theorem first_packet_waits_witness:
  "sr_handlepacket (datagram mail) ''eth0'' office =
    Inr (sends 1 (arp_frame (who_has office 1 (ip_addr 10 0 1 2))) (office\<lparr>sr_arp_queue :=
      sr_arp_queue office @ [asked office 1 (routing_table office ! 0) ''eth0'' mail office]\<rparr>))"
  using first_packet_waits [OF mail_good(1) _ mail_good(2) office_flushes(1) office_ok(1),
      of "routing_table office ! 0" 1 "''eth0''"] office_interfaces
  by (simp add: office_routes office_route office_unknown) (simp add: office_fields)

subsection \<open>ICMP\<close>

text \<open>
  C11.  An echo request to any of the router's addresses, with a valid header and a valid ICMP
  checksum, is answered by one echo reply: addresses swapped, the identifier, sequence number and
  data as they came, both checksums new.  Nothing else changes.
\<close>

theorem echo_request_answered:
  assumes "shaped d" and "8 \<le> length (body d)" and "verifies d" and "flushes sr s"
    and "dst d \<in> if_ip ` set (if_list s)" and "proto d = 1"
    and "body d = [8, code] @ bytes16 x @ rest"
    and "28 \<le> unat (total_len d)" and "unat (total_len d) \<le> 20 + length (body d)"
    and "icmp_sum (unat (total_len d) - 20) (body d) = 0"
    and "get_interface sr ifn = Some i" and "get_interface s ifn = Some i"
    and "dmac d = if_addr (if_list s ! i)"
  shows "sr_handlepacket (datagram d) ifn sr = Inr (sends i (datagram (echo_reply d code rest)) s)
    \<and> dmac (echo_reply d code rest) = smac d \<and> src (echo_reply d code rest) = dst d
    \<and> dst (echo_reply d code rest) = src d \<and> drop 4 (body (echo_reply d code rest)) = rest
    \<and> verifies (echo_reply d code rest)"
proof -
  have ifs: "if_list s \<noteq> []" using assms(5) by auto
  have "24 \<le> unat (total_len d)" using assms(8) by simp
  from echo_answered [OF assms(1,6,7) this assms(9-13)] have
    "sr_handlepacket (datagram d) ifn sr = Inr (sends i (datagram (echo_reply d code rest)) s)"
    using ip_starts [OF assms(1-4) ifs, of ifn] assms(5) by simp
  moreover have "verifies (echo_reply d code rest)"
    unfolding echo_reply_def Let_def by (rule with_sum_verifies) (simp add: assms(1) shaped_made)
  ultimately show ?thesis by (simp add: echo_reply_def Let_def)
qed

definition ping :: dgram where
  "ping = with_sum \<lparr>dmac = [2, 0, 0, 0, 0, 1], smac = [4, 0, 0, 0, 0, 7], tos = 0, total_len = 28,
     id_off = [0, 1, 0, 0], ttl = 64, proto = 1, hsum = 0, src = ip_addr 10 0 0 2,
     dst = ip_addr 10 0 1 1, body = [8, 0] @ bytes16 0xfbf7 @ [0, 1, 0, 3]\<rparr>"

lemma ping_good: "shaped ping" "verifies ping" "icmp_sum 8 (body ping) = 0"
proof -
  show "shaped ping" "verifies ping"
    unfolding ping_def by (rule with_sum_verifies | simp add: shaped_def)+
  show "icmp_sum 8 (body ping) = 0"
    by (simp add: ping_def icmp_sum_def checksum_def bytes16_def word16_def)
qed

theorem echo_request_answered_witness:
  "sr_handlepacket (datagram ping) ''eth0'' office =
     Inr (sends 0 (datagram (echo_reply ping 0 [0, 1, 0, 3])) office)"
  using echo_request_answered [OF ping_good(1) _ ping_good(2) office_flushes(1),
      of 0 "0xfbf7" "[0, 1, 0, 3]" "''eth0''" 0] ping_good(3) office_interfaces
  by (simp add: ping_def office_fields)

text \<open>
  C12.  A datagram for the router that is not ICMP is answered with port unreachable, and one
  for somebody else whose time to live is zero with time exceeded, unless it is an ICMP error
  itself: then nothing is sent.  The error goes back to the sender and quotes the header and
  eight bytes of the payload.
\<close>

theorem errors_are_sent:
  assumes "shaped d" and "8 \<le> length (body d)" and "verifies d" and "flushes sr s" and "if_list s \<noteq> []"
    and "unat (total_len d) < 20 \<or> 28 \<le> unat (total_len d)"
    and "get_interface sr ifn = Some i" and "get_interface s ifn = Some i"
    and "dmac d = if_addr (if_list s ! i)"
  shows "(dst d \<in> if_ip ` set (if_list s) \<longrightarrow> proto d \<noteq> 1 \<longrightarrow> sr_handlepacket (datagram d) ifn sr =
      Inr (sends i (datagram (icmp_error 3 3 (checked sr ifn d) (with_sum d))) s))
    \<and> (dst d \<notin> if_ip ` set (if_list s) \<longrightarrow> ttl d = 0 \<longrightarrow> sr_handlepacket (datagram d) ifn sr =
      Inr (if is_icmp_error d then s
           else sends i (datagram (icmp_error 11 0 (checked sr ifn d) (with_sum d))) s))
    \<and> dst (icmp_error t c (checked sr ifn d) (with_sum d)) = src d
    \<and> drop 8 (body (icmp_error t c (checked sr ifn d) (with_sum d))) = header (with_sum d) @ take 8 (body d)"
proof (intro conjI impI)
  note start = ip_starts [OF assms(1-5), of ifn]
  show "sr_handlepacket (datagram d) ifn sr =
      Inr (sends i (datagram (icmp_error 3 3 (checked sr ifn d) (with_sum d))) s)"
    if "dst d \<in> if_ip ` set (if_list s)" "proto d \<noteq> 1"
    using start unreachable_port [OF assms(1,2) that(2) assms(6-9)] that(1) by simp
  show "sr_handlepacket (datagram d) ifn sr = Inr (if is_icmp_error d then s
      else sends i (datagram (icmp_error 11 0 (checked sr ifn d) (with_sum d))) s)"
    if "dst d \<notin> if_ip ` set (if_list s)" "ttl d = 0"
    using start expired_handled [OF assms(1,2,6-9)] that by simp
qed (simp_all add: icmp_error_def Let_def incoming_def)

definition knock :: dgram where
  "knock = with_sum (mail\<lparr>dst := ip_addr 10 0 0 1\<rparr>)"

lemma knock_good: "shaped knock" "verifies knock"
proof -
  have "shaped (mail\<lparr>dst := ip_addr 10 0 0 1\<rparr>)" using mail_good(1) by (simp add: shaped_def del: shaped_simps)
  then show "shaped knock" "verifies knock" by (simp_all add: knock_def with_sum_verifies)
qed

theorem errors_are_sent_witness:
  "sr_handlepacket (datagram knock) ''eth0'' office =
     Inr (sends 0 (datagram (icmp_error 3 3 (checked office ''eth0'' knock) (with_sum knock))) office)"
  using errors_are_sent [OF knock_good(1) _ knock_good(2) office_flushes(1), of "''eth0''" 0] office_interfaces
  by (simp add: knock_def office_fields)

text \<open>
  C13.  Whatever its header says, a frame of IP type is dropped without an answer when its version is
  not 4 or when the checksum over its header is not zero; the state is the one after the walk.
\<close>

theorem damaged_headers_are_dropped:
  assumes "create_frame_t sr p ifn = Inr (Some f)" and "ip_header f = Some 14" and "42 \<le> length p"
    and "flushes sr s" and "load8 14 p = Inr vhl" and "load 14 (4 * unat (vhl AND 15)) p = Inr h"
    and "drop_bit 4 vhl \<noteq> 4 \<or> 20 \<le> length h \<and> checksum h \<noteq> 0"
  shows "sr_handlepacket p ifn sr = Inr s"
proof -
  have f: "frame f = p" using assms(1)
    by (auto simp: create_frame_t_def runs Let_def split: if_splits)
  have "handle_ip f s = Inr (None, s)"
  proof (cases "drop_bit 4 vhl = 4")
    case True
    then have l: "20 \<le> length h" "checksum h \<noteq> 0" using assms(7) by simp_all
    have n: "2 * (unat (vhl AND 15) * 2) = 4 * unat (vhl AND 15)" by simp
    have "length h = 4 * unat (vhl AND 15)" "14 + 4 * unat (vhl AND 15) \<le> length p"
      using assms(6) by (auto simp: load_def split: if_splits)
    then obtain g where g: "store 24 (bytes16 (checksum h)) p = Inr g"
      using l(1) by (simp add: store_def)
    have "load 24 (length (bytes16 (checksum h))) g = Inr (bytes16 (checksum h))" by (rule load_store_same [OF g])
    then have "load16 24 g = Inr (checksum h)" by (simp add: load16_def)
    then show ?thesis
      using True l(2) g assms(5,6) f
      by (simp add: handle_ip_def compute_ip_checksum_def assms(2) n Let_def)
  qed (use assms(5) f in \<open>simp add: handle_ip_def\<close>)
  then show ?thesis
    using assms(1,3,4) by (simp add: sr_handlepacket_def flushes_def assms(2) Let_def transmit_def)
qed

text \<open>The datagram with a bit of its source address changed on the way.\<close>

definition bent :: dgram where
  "bent = mail\<lparr>src := ip_addr 10 0 0 3\<rparr>"

lemma bent_bad: "shaped bent" "length (body bent) = 8" "checksum (header bent) \<noteq> 0"
proof -
  show "shaped bent" using mail_good(1) by (simp add: bent_def shaped_def del: shaped_simps)
  show "length (body bent) = 8" by (simp add: bent_def)
  show "checksum (header bent) \<noteq> 0"
    by (simp add: bent_def mail_def with_sum_def header_def checksum_def bytes16_def bytes32_def
        word16_def word32_def ntohs_def)
qed

theorem damaged_headers_are_dropped_witness:
  "sr_handlepacket (datagram bent) ''eth0'' office = Inr office"
  by (rule damaged_headers_are_dropped [where f = "incoming office ''eth0'' bent" and vhl = "0x45"
      and h = "header bent", OF create_frame_datagram [OF bent_bad(1)] _ _ office_flushes(1)])
    (use bent_bad in \<open>simp_all add: incoming_def fields\<close>)

subsection \<open>ARP\<close>

lemma learned_lookup:
  "\<exists>j. arp_cache_lookup (sr_arp_cache (learned a s)) (a_sip a) = Some j
    \<and> sr_arp_cache (learned a s) ! j = \<lparr>arpc_ip = a_sip a, arpc_mac = a_sha a, arpc_timeout = now s + 15\<rparr>"
proof (cases "arp_cache_lookup (sr_arp_cache s) (a_sip a)")
  case None
  let ?new = "\<lparr>arpc_ip = a_sip a, arpc_mac = a_sha a, arpc_timeout = now s + 15\<rparr>"
  have "position (\<lambda>e. arpc_ip e = a_sip a) (es @ [?new]) = Some (length es)"
    if "a_sip a \<notin> arpc_ip ` set es" for es
    using that by (induction es) auto
  moreover have "sr_arp_cache (learned a s) = sr_arp_cache s @ [?new]"
    using None by (simp add: learned_def arp_cache_add_def)
  ultimately show ?thesis using None by (simp add: lookup_none) (simp add: arp_cache_lookup_def)
next
  case (Some i)
  have ip: "i < length (sr_arp_cache s)" "arpc_ip (sr_arp_cache s ! i) = a_sip a" using lookup_ip [OF Some] by simp_all
  have "position (\<lambda>e. arpc_ip e = ip) (es[i := (es ! i)\<lparr>arpc_mac := m, arpc_timeout := t\<rparr>])
    = position (\<lambda>e. arpc_ip e = ip) es" for es :: "arpc_entry list" and m t ip
    by (induction es arbitrary: i) (simp_all split: nat.split)
  with Some ip show ?thesis
    by (intro exI [of _ i]) (simp add: learned_def arp_cache_update_def arp_cache_lookup_def)
qed

text \<open>
  C14.  An ARP request for an address of the router is answered to the asker with the address of
  the interface it came in by, and the asker's own address is learned: the cache has it for fifteen
  seconds.
\<close>

theorem arp_request_answered:
  assumes "arp_shaped a" and "flushes sr s" and "hw_ok s" and "a_op a = 1"
    and "a_tip a \<in> if_ip ` set (if_list s)" and "released a s = None"
    and "get_interface sr ifn = Some i" and "get_interface s ifn = Some i"
  shows "sr_handlepacket (arp_frame a @ p) ifn sr = Inr (sends i (arp_frame (is_at s i a)) (learned a s))
    \<and> (\<exists>j. arp_cache_lookup (sr_arp_cache (learned a s)) (a_sip a) = Some j
         \<and> sr_arp_cache (learned a s) ! j = \<lparr>arpc_ip = a_sip a, arpc_mac = a_sha a, arpc_timeout = now s + 15\<rparr>)"
proof -
  let ?f = "arp_incoming sr ifn a p" and ?t = "learned a s"
  have i: "i < length (if_list s)" by (rule get_interface_bound [OF assms(8)])
  then have ifs: "if_list s \<noteq> []" and m: "length (if_addr (if_list s ! i)) = 6" using assms(3) by (auto simp: hw_ok_def)
  have t: "if_list ?t = if_list s" by (simp add: learned_def)
  let ?g = "\<lparr>frame = arp_frame (is_at s i a), ip_header = None, arp_header = Some 14, icmp_header = None,
      from_MAC = if_addr (if_list s ! i), to_MAC = a_smac a, from_ip = if_ip (if_list s ! i),
      to_ip = a_sip a, iface = Some i, len = 42, ip_hl = 0, ip_len = 0\<rparr>"
  have "length (from_MAC ?f) = 6" "from_ip ?f = a_sip a" "from_MAC ?f = a_smac a"
    using assms(1) by (simp_all add: arp_incoming_def arp_shaped_def)
  then have "arp_create ?t ?f (Some i) 2 = Inr ?g"
    by (subst arp_create_frame [where tip = "a_sip a" and dm = "a_smac a"]) (simp_all add: t i m Let_def is_at_def)
  moreover have "transmit (Some ?g) ?t = Inr (sends i (arp_frame (is_at s i a)) ?t)"
    by (rule transmit_arp [of _ ifn])
      (use assms(1,8) m in \<open>simp_all add: get_interface_def t is_at_def Let_def arp_shaped_def\<close>)
  ultimately show ?thesis
    using handlepacket_arp [OF assms(1,2), of p ifn] handle_arp_eq [OF assms(1) ifs assms(5), of sr ifn p]
      assms(4,6,7) learned_lookup [of a s] by (simp only:) simp
qed

definition asks :: arp where
  "asks = \<lparr>a_dmac = replicate 6 0xff, a_smac = [4, 0, 0, 0, 0, 7], a_op = 1,
     a_sha = [4, 0, 0, 0, 0, 7], a_sip = ip_addr 10 0 0 2, a_tha = replicate 6 0, a_tip = ip_addr 10 0 0 1\<rparr>"

theorem arp_request_answered_witness:
  "sr_handlepacket (arp_frame asks) ''eth0'' office =
     Inr (sends 0 (arp_frame (is_at office 0 asks)) (learned asks office))"
proof -
  have "released asks office = None"
    by (simp add: released_def asks_def arpq_next_hop_lookup_def office_fields address_zero eq_commute [of "0 :: 32 word"])
  then show ?thesis
    using arp_request_answered [of asks office office "''eth0''" 0 "[]"] office_flushes(1) office_ok(1)
      office_interfaces
    by (simp add: asks_def arp_shaped_def queue_ok_def office_fields)
qed

text \<open>
  C15.  An ARP reply from a next hop that was not in the cache releases the first queue entry
  that waits for it: its datagrams leave in the order in which they came, each with the address
  of its interface as source and the announced address as destination and otherwise as it
  waited; the entry is gone and the address is learned.
\<close>

theorem arp_reply_releases:
  assumes "arp_shaped a" and "flushes sr s" and "queue_ok s" and "a_op a \<noteq> 1"
    and "a_tip a \<in> if_ip ` set (if_list s)" and "released a s = Some k"
  shows "sr_handlepacket (arp_frame a @ p) ifn sr =
    Inr ((learned a s)\<lparr>
      log := log s @ map (released_frame (a_sha a) s) (arpq_packets (sr_arp_queue s ! k)),
      sr_arp_queue := take k (sr_arp_queue s) @ drop (Suc k) (sr_arp_queue s)\<rparr>)"
proof -
  have ifs: "if_list s \<noteq> []" using assms(5) by auto
  have k: "k < length (sr_arp_queue s)"
    using assms(6) by (auto simp: released_def arpq_next_hop_lookup_def position_Some split: if_splits)
  have same: "ready (learned a s) = ready s" "released_frame (a_sha a) (learned a s) = released_frame (a_sha a) s"
    by (simp_all add: learned_def ready_def released_frame_def get_interface_def fun_eq_iff)
  have "\<forall>q \<in> set (arpq_packets (sr_arp_queue s ! k)). ready (learned a s) q"
    using queued_ready [OF assms(3) k] by (simp add: same)
  moreover have "length (a_sha a) = 6" using assms(1) by (simp add: arp_shaped_def)
  ultimately have "arpq_entry_clear k (a_sha a) (learned a s) = Inr ((learned a s)\<lparr>
      log := log s @ map (released_frame (a_sha a) s) (arpq_packets (sr_arp_queue s ! k)),
      sr_arp_queue := take k (sr_arp_queue s) @ drop (Suc k) (sr_arp_queue s)\<rparr>)"
    using send_queued_exact [of "arpq_packets (sr_arp_queue s ! k)" "learned a s" "a_sha a"]
    by (simp add: arpq_entry_clear_def drop_nth_def same) (simp add: learned_def)
  then show ?thesis
    using handlepacket_arp [OF assms(1,2), of p ifn] handle_arp_eq [OF assms(1) ifs assms(5), of sr ifn p]
      assms(4,6) by (simp add: transmit_def)
qed

text \<open>The router when \<open>mail\<close> waits.\<close>

definition expecting :: router where
  "expecting = office\<lparr>sr_arp_queue :=
     sr_arp_queue office @ [asked office 1 (routing_table office ! 0) ''eth0'' mail office]\<rparr>"

lemma expecting_good: "flushes expecting expecting" "queue_ok expecting"
proof -
  show "flushes expecting expecting"
    by (simp add: flushes_def arp_queue_flush_def expecting_def asked_def office_defs)
  have "may_wait office (waiting office 1 (checked office ''eth0'' mail) mail)"
    by (rule update_checked_waits [where r = "routing_table office ! 0"])
      (simp_all add: mail_good office_routes office_route office_interfaces)
  moreover have "to_ip (waiting office 1 (checked office ''eth0'' mail) mail) = ip_addr 10 0 1 2"
    by (simp add: waiting_def incoming_def)
  ultimately show "queue_ok expecting"
    unfolding expecting_def
    by (intro queue.open_entry [OF office_ok(1), where f = "waiting office 1 (checked office ''eth0'' mail) mail"
        and mac = "smac mail" and ifp = "Some 0"])
      (use office_interfaces has_if_get [OF office_interfaces(1)] in \<open>simp_all add: asked_def office_unknown\<close>)
qed

definition answers :: arp where
  "answers = \<lparr>a_dmac = [2, 0, 0, 0, 0, 2], a_smac = peer, a_op = 2, a_sha = peer,
     a_sip = ip_addr 10 0 1 2, a_tha = [2, 0, 0, 0, 0, 2], a_tip = ip_addr 10 0 1 1\<rparr>"

theorem arp_reply_releases_witness:
  "\<exists>s. sr_handlepacket (arp_frame answers @ []) ''eth1'' expecting = Inr s
    \<and> log s = [(''eth1'', peer @ [2, 0, 0, 0, 0, 2] @ bytes16 8 @ drop 14 (datagram (aged mail)))]
    \<and> sr_arp_queue s = sr_arp_queue office"
proof -
  have "released answers expecting = Some 1"
    by (simp add: released_def answers_def arpq_next_hop_lookup_def arp_cache_lookup_def expecting_def
        office_fields asked_def address_zero eq_commute [of "0 :: 32 word"])
  moreover have "arp_shaped answers" "a_op answers \<noteq> 1" "a_tip answers \<in> if_ip ` set (if_list expecting)"
    by (simp_all add: answers_def arp_shaped_def peer_def expecting_def office_fields)
  moreover have "log expecting = []" by (simp add: expecting_def office_defs)
  moreover have "ntohs 0x800 = 8" by (simp add: ntohs_def word16_def bytes16_def)
  ultimately show ?thesis
    using arp_reply_releases [OF _ expecting_good, of answers 1 "[]" "''eth1''"]
    by (simp add: expecting_def asked_def released_frame_def waiting_def office_fields answers_def)
qed

end
