(* ===== verification/Sr_Guarantees.thy ===== *)
theory Sr_Guarantees
  imports Sr_Properties
begin

text \<open>
  The properties of the router that are about its tables, about everything it ever does and
  about the inputs it does not survive, with witnesses on the small router of
  \<open>Sr_Properties\<close>.
\<close>

subsection \<open>Routes\<close>

text \<open>
  C16.  When the masks are those of prefixes, \<open>rt_match\<close> is the textbook rule: the first route
  of the table that matches the address and that no matching route with a longer prefix beats;
  there is none only when no route matches.
\<close>

theorem longest_prefix_wins:
  assumes "\<forall>r \<in> set (routing_table sr). plen r \<le> 32 \<and> rt_mask r = netmask (plen r)"
  shows "rt_match sr a = List.find (\<lambda>r. matches r a \<and>
      (\<forall>q \<in> set (routing_table sr). matches q a \<longrightarrow> plen q \<le> plen r)) (routing_table sr)
    \<and> (rt_match sr a = None \<longleftrightarrow> (\<forall>r \<in> set (routing_table sr). \<not> matches r a))"
proof
  show "rt_match sr a = List.find (\<lambda>r. matches r a \<and>
      (\<forall>q \<in> set (routing_table sr). matches q a \<longrightarrow> plen q \<le> plen r)) (routing_table sr)"
    unfolding rt_match_best best_route_def
  proof (rule find_cong)
    fix r assume r: "r \<in> set (routing_table sr)"
    have "ntohl (rt_mask q) \<le> ntohl (rt_mask r) \<longleftrightarrow> plen q \<le> plen r" if "q \<in> set (routing_table sr)" for q
      using assms r that netmask_mono [of "plen q" "plen r"] by simp
    then show "(matches r a \<and> (\<forall>q \<in> set (routing_table sr). matches q a \<longrightarrow> ntohl (rt_mask q) \<le> ntohl (rt_mask r)))
      = (matches r a \<and> (\<forall>q \<in> set (routing_table sr). matches q a \<longrightarrow> plen q \<le> plen r))" by blast
  qed
  show "rt_match sr a = None \<longleftrightarrow> (\<forall>r \<in> set (routing_table sr). \<not> matches r a)"
    by (simp only: rt_match_best best_route_None)
qed

lemma office_masks: "ip_addr 255 255 255 0 = netmask 24" "ip_addr 255 255 0 0 = netmask 16"
  by (simp_all add: netmask_def mask_eq_exp_minus_1 ntohl_def bytes32_def word32_def)

text \<open>Both routes match 10.0.1.2 when the second one is for all of 10.0.\<close>

definition overlapping :: router where
  "overlapping = office\<lparr>routing_table := rev (routing_table office)\<rparr>"

theorem longest_prefix_wins_witness:
  "rt_match overlapping (ip_addr 10 0 1 2) = Some (routing_table office ! 0)"
proof -
  let ?plen = "\<lambda>r. if rt_mask r = netmask 24 then 24 else 16 :: nat"
  have "\<forall>r \<in> set (routing_table overlapping). ?plen r \<le> 32 \<and> rt_mask r = netmask (?plen r)"
    by (simp add: overlapping_def office_fields office_masks)
  from longest_prefix_wins [OF this, of "ip_addr 10 0 1 2"] show ?thesis
    by (simp add: overlapping_def office_fields matches_def office_masks [symmetric]) (simp add: word32_def)
qed

text \<open>
  Loading a file in which every line is a route appends exactly these routes, in the order
  of the file; a line that is not a route after them ends the loading with an error and leaves the routes
  before it in the table.
\<close>

theorem table_is_loaded:
  assumes "list_all2 (\<lambda>l r. route_of aton l = Some r) lines rs" and "length bufs = 4"
  shows "sr_load_rt aton (Some lines) bufs sr = Inr (0, sr\<lparr>routing_table := routing_table sr @ rs\<rparr>)
    \<and> (words_from [] bad = [d] \<longrightarrow> length d < 32 \<longrightarrow> aton d = None \<longrightarrow>
        sr_load_rt aton (Some (lines @ bad # others)) bufs sr
          = Inr (-1, sr\<lparr>routing_table := routing_table sr @ rs\<rparr>))"
proof (intro conjI impI)
  show "sr_load_rt aton (Some lines) bufs sr = Inr (0, sr\<lparr>routing_table := routing_table sr @ rs\<rparr>)"
    using load_routes [OF assms, of "[]" sr] by (auto simp: sr_load_rt_def)
  assume d: "words_from [] bad = [d]" "length d < 32" "aton d = None"
  from load_routes [OF assms, of "bad # others" sr] obtain b where b: "length b = 4"
    and run: "load_lines aton (lines @ bad # others) bufs sr
      = load_lines aton (bad # others) b (sr\<lparr>routing_table := routing_table sr @ rs\<rparr>)" by blast
  have "scan_words bad b = Inr (d # drop 1 b)"
    using d(1,2) b by (simp add: scan_words_def Let_def)
  with d(3) run show "sr_load_rt aton (Some (lines @ bad # others)) bufs sr
      = Inr (-1, sr\<lparr>routing_table := routing_table sr @ rs\<rparr>)"
    by (simp add: sr_load_rt_def)
qed

text \<open>An \<open>inet_aton\<close> that knows four addresses.\<close>

definition four_addresses :: "string \<Rightarrow> 32 word option" where
  "four_addresses = map_of [(''0.0.0.0'', 0), (''10.0.1.0'', ip_addr 10 0 1 0),
     (''10.0.1.2'', ip_addr 10 0 1 2), (''255.255.255.0'', ip_addr 255 255 255 0)]"

lemma office_line:
  "route_of four_addresses ''10.0.1.0 10.0.1.2 255.255.255.0 eth1'' = Some (routing_table office ! 0)"
  by (simp add: route_of_def four_addresses_def blank_def office_fields)

theorem table_is_loaded_witness:
  "sr_load_rt four_addresses (Some [''10.0.1.0 10.0.1.2 255.255.255.0 eth1'']) [[], [], [], []] office
     = Inr (0, office\<lparr>routing_table := routing_table office @ [routing_table office ! 0]\<rparr>)"
  using table_is_loaded [of four_addresses "[''10.0.1.0 10.0.1.2 255.255.255.0 eth1'']"
      "[routing_table office ! 0]" "[[], [], [], []]" office] office_line by simp

text \<open>
  A line without words is not an error: \<open>sscanf\<close> leaves the four buffers as they were, so
  the route of the line before it is added a second time.
\<close>

theorem blank_line_repeats_route:
  assumes "route_of aton line = Some r" and "words_from [] bare = []"
  shows "sr_load_rt aton (Some [line, bare]) (replicate 4 []) sr
    = Inr (0, sr\<lparr>routing_table := routing_table sr @ [r, r]\<rparr>)"
proof -
  from assms(1) obtain d g m i d' g' m' where ws: "words_from [] line = [d, g, m, i]"
    and short: "length d < 32" "length g < 32" "length m < 32" "length i < 32"
    and ad: "aton d = Some d'" "aton g = Some g'" "aton m = Some m'"
    and r: "r = \<lparr>rt_dest = d', rt_gw = g', rt_mask = m', rt_interface = i\<rparr>"
    by (auto simp: route_of_def split: list.splits option.splits if_splits)
  show ?thesis
    using ws short ad assms(2)
    by (simp add: sr_load_rt_def scan_words_def Let_def sr_add_rt_entry_def r)
qed

theorem blank_line_repeats_route_witness:
  "\<exists>s. sr_load_rt four_addresses (Some [''10.0.1.0 10.0.1.2 255.255.255.0 eth1'', [CHR 0x0A]])
     (replicate 4 []) office = Inr (0, s) \<and> length (routing_table s) = 4"
  using blank_line_repeats_route [OF office_line, of "[CHR 0x0A]" office]
  by (simp add: blank_def office_fields)

subsection \<open>The ARP cache\<close>

text \<open>The cache as a map from addresses to hardware addresses and times.\<close>

definition cache_map :: "arpc_entry list \<Rightarrow> 32 word \<rightharpoonup> byte list \<times> int" where
  "cache_map c = map_of (map (\<lambda>e. (arpc_ip e, (arpc_mac e, arpc_timeout e))) c)"

lemma cache_map_lookup:
  "cache_map c ip = (case arp_cache_lookup c ip of None \<Rightarrow> None
     | Some i \<Rightarrow> Some (arpc_mac (c ! i), arpc_timeout (c ! i)))"
  by (induction c) (auto simp: cache_map_def arp_cache_lookup_def split: option.splits)

lemma cache_map_none: "cache_map c ip = None \<longleftrightarrow> ip \<notin> arpc_ip ` set c"
  by (auto simp: cache_map_def map_of_eq_None_iff image_image)

lemma cache_map_flush:
  "distinct (map arpc_ip c) \<Longrightarrow> cache_map (arp_cache_flush t c) ip =
     (case cache_map c ip of None \<Rightarrow> None | Some (m, to) \<Rightarrow> if to = 0 \<or> t \<le> to then Some (m, to) else None)"
proof (induction c)
  case (Cons e c)
  have "cache_map (arp_cache_flush t c) (arpc_ip e) = None"
    using Cons.prems by (auto simp: cache_map_none arp_cache_flush_filter)
  with Cons show ?case by (auto simp: cache_map_def split: option.splits)
qed (simp add: cache_map_def)

text \<open>
  C17.  The list that is the cache implements a map: an entry that is added or updated at time \<open>t\<close> is
  found under its address and no other address is affected, and cleaning at a time \<open>t\<close> removes exactly the entries whose time is
  over, fifteen seconds after they were last heard of, but never the entry of the start.
\<close>

theorem cache_is_a_map:
  assumes "distinct (map arpc_ip c)"
  shows "(cache_map c ip = None \<longrightarrow>
      cache_map (arp_cache_add c mac ip t) = (cache_map c)(ip \<mapsto> (mac, t + 15)))
    \<and> (arp_cache_lookup c ip = Some i \<longrightarrow>
      cache_map (arp_cache_update i mac t c) = (cache_map c)(ip \<mapsto> (mac, t + 15)))
    \<and> cache_map (arp_cache_flush t c) a =
      (case cache_map c a of None \<Rightarrow> None | Some (m, to) \<Rightarrow> if to = 0 \<or> t \<le> to then Some (m, to) else None)"
proof (intro conjI impI)
  assume "cache_map c ip = None"
  then show "cache_map (arp_cache_add c mac ip t) = (cache_map c)(ip \<mapsto> (mac, t + 15))"
    by (auto simp: cache_map_def arp_cache_add_def map_add_def fun_eq_iff split: option.splits)
next
  have map_upd: "cache_map (c[i := (c ! i)\<lparr>arpc_mac := mac, arpc_timeout := t + 15\<rparr>]) = (cache_map c)(ip \<mapsto> (mac, t + 15))"
    if "arp_cache_lookup c ip = Some i" for c i
    using that
    by (induction c arbitrary: i)
      (auto simp: cache_map_def arp_cache_lookup_def fun_eq_iff split: if_splits)
  assume "arp_cache_lookup c ip = Some i"
  from map_upd [OF this] show "cache_map (arp_cache_update i mac t c) = (cache_map c)(ip \<mapsto> (mac, t + 15))"
    by (simp only: arp_cache_update_def)
qed (rule cache_map_flush [OF assms])

theorem cache_is_a_map_witness:
  "cache_map (arp_cache_flush 116 (arp_cache_add (sr_arp_cache office) peer (ip_addr 10 0 1 2) 100)) (ip_addr 10 0 1 2) = None
   \<and> cache_map (arp_cache_flush 115 (arp_cache_add (sr_arp_cache office) peer (ip_addr 10 0 1 2) 100)) (ip_addr 10 0 1 2)
     = Some (peer, 115)"
proof -
  let ?c = "arp_cache_add (sr_arp_cache office) peer (ip_addr 10 0 1 2) 100"
  have c: "distinct (map arpc_ip ?c)" using office_ok(4) by (simp add: cache_ok_def knowing_def)
  have "cache_map ?c (ip_addr 10 0 1 2) = Some (peer, 115)"
    by (simp add: cache_map_def arp_cache_add_def office_fields address_zero)
  then show ?thesis
    using cache_is_a_map [OF c, of _ _ 116 _ "ip_addr 10 0 1 2"] cache_is_a_map [OF c, of _ _ 115 _ "ip_addr 10 0 1 2"]
    by simp
qed

subsection \<open>Everything the router does\<close>

text \<open>
  C18.  In every state the router reaches from its start, whatever packets and commands arrive and however time passes,
  no address is cached twice, no destination has two queue entries, and everything that waits
  can be sent: it has a frame of at least 42 bytes, a route, interfaces to leave by and to
  answer on, and hardware addresses of six bytes.
\<close>

theorem tables_stay_sound:
  assumes "hw_ok sr0" and "sr_reachable (sr_init sr0) sr"
  shows "distinct (map arpc_ip (sr_arp_cache sr)) \<and> distinct (map arpq_ip (sr_arp_queue sr))
    \<and> (\<forall>e \<in> set (sr_arp_queue sr). \<forall>q \<in> set (arpq_packets e). to_ip (q_outgoing q) = arpq_ip e \<and> sendable sr q)
    \<and> (\<forall>i \<in> set (if_list sr). length (if_addr i) = 6)"
proof -
  have "cache_ok sr" "queue_ok sr"
    using sr_init_ok [OF assms(1)] cache.reachable_good [OF assms(2)] queue.reachable_good [OF assms(2)] by blast+
  then show ?thesis
    by (auto simp: cache_ok_def queue_ok_def hw_ok_def entry_ok_def core_def comp_def)
qed

text \<open>The small router is given a third interface.\<close>

theorem tables_stay_sound_witness:
  "\<exists>s. sr_reachable office s \<and> length (if_list s) = 3 \<and> distinct (map arpc_ip (sr_arp_cache s))"
proof -
  let ?hw = "VNSHWINFO [(1, replicate 32 65), (32, replicate 32 7)]"
  have "hw_ok office" using office_ok(1) by (simp add: queue_ok_def)
  have "vns_sized ?hw" by (simp add: vns_sized_def hw_sized_def)
  moreover obtain s where s: "sr_command ?hw office = Inr (1, s)" "length (if_list s) = 3"
    by (simp add: sr_command_def sr_handle_hwinfo_def hw_entry_def sr_add_interface_def sr_set_ether_addr_def
        upd_last_def sr_verify_routing_table_def office_defs strncmp_eq_def)
  ultimately have "sr_reachable office s"
    by (intro sr_reachable_step [OF sr_reachable_start] sr_step_command)
  moreover have "sr_init office = office" by (simp add: office_defs)
  ultimately show ?thesis
    using tables_stay_sound [of office s] s(2) \<open>hw_ok office\<close> by auto
qed

text \<open>
  C19.  Every frame the router sends while it handles a packet carries the hardware address of
  one of its interfaces as source and the name of this interface; the handling changes neither the
  interfaces nor the frames sent before.
\<close>

theorem frames_carry_own_address:
  assumes "sr_handlepacket p ifn sr = Inr s" and "get_interface sr ifn \<noteq> None"
  shows "if_list s = if_list sr \<and> (\<exists>l. log s = log sr @ l
    \<and> (\<forall>(nm, b) \<in> set l. \<exists>i \<in> set (if_list sr). nm = take 16 (if_name i) \<and> take 6 (drop 6 b) = if_addr i))"
proof -
  have own: "has_if sr (get_interface sr ifn)" using assms(2) by (auto simp: has_if_def)
  have "sends_from sr sr" by (simp add: sends_from_def honest_def)
  from sources.handlepacket_good [OF assms(1) this own] show ?thesis
    by (simp add: sends_from_def honest_def)
qed

lemma ping_run:
  "sr_handlepacket (datagram ping) ''eth0'' office = Inr (sends 0 (datagram (echo_reply ping 0 [0, 1, 0, 3])) office)"
proof -
  have p: "body ping = [8, 0] @ bytes16 0xfbf7 @ [0, 1, 0, 3]" "length (body ping) = 8" "proto ping = 1"
    "total_len ping = 28" "dmac ping = if_addr (if_list office ! 0)" "dst ping \<in> if_ip ` set (if_list office)"
    by (simp_all add: ping_def office_fields)
  have ifs: "if_list office \<noteq> []" by (simp add: office_fields)
  have "and_then (handle_local (checked office ''eth0'' ping) office) (\<lambda>(out, s). transmit out s)
    = Inr (sends 0 (datagram (echo_reply ping 0 [0, 1, 0, 3])) office)"
    by (rule echo_answered [where s = "0xfbf7" and i = 0])
      (use p ping_good office_interfaces in simp_all)
  then show ?thesis
    using ip_starts [OF ping_good(1) _ ping_good(2) office_flushes(1) ifs, of "''eth0''"] p(2,6) by simp
qed

theorem frames_carry_own_address_witness:
  "\<exists>s l. sr_handlepacket (datagram ping) ''eth0'' office = Inr s \<and> log s = log office @ l
    \<and> (\<forall>(nm, b) \<in> set l. \<exists>i \<in> set (if_list office). nm = take 16 (if_name i) \<and> take 6 (drop 6 b) = if_addr i)"
  using frames_carry_own_address [OF ping_run] ping_run office_interfaces by simp

text \<open>
  C20.  On a sound state in which no next hop has been asked for five times, and with every route
  on an interface, every datagram whose lengths are right, with a route and with a destination
  other than 0.0.0.0, is handled without a fault: no NULL pointer, no access out of bounds, no
  assertion and no endless loop.  The destination 0.0.0.0 is an exception the code does not make:
  \<open>zero_destination_crashes\<close> below shows that such a datagram fails an assertion when its next
  hop is unknown.
\<close>

theorem datagrams_are_handled:
  assumes "queue_ok sr" and "cache_ok sr" and "patient sr" and "\<not> arpq_dangling sr"
    and "sr_verify_routing_table sr = 0" and "get_interface sr ifn \<noteq> None"
    and "sound_lengths d" and "dst d \<noteq> 0" and "rt_match sr (dst d) \<noteq> None"
  shows "\<exists>s. sr_handlepacket (datagram d) ifn sr = Inr s"
proof -
  obtain s where s: "flushes sr s" "settled s" "if_list s = if_list sr" "routing_table s = routing_table sr"
    using flushes_returns [OF assms(1-4)] by blast
  have l: "shaped d" "8 \<le> length (body d)" using assms(7) by (simp_all add: sound_lengths_def)
  have ifs: "if_list s \<noteq> []" using assms(5) s(3) by (simp add: verified_routes)
  have same: "get_interface s = get_interface sr" "rt_match s = rt_match sr"
    using s(3,4) by (simp_all add: get_interface_def rt_match_def fun_eq_iff)
  have own: "has_if s (get_interface sr ifn)" using assms(6) by (auto simp: has_if_def same)
  obtain r where r: "rt_match sr (dst d) = Some r" using assms(9) by auto
  then have "r \<in> set (routing_table sr)" by (auto simp: rt_match_best dest: best_route_Some)
  then obtain i where i: "get_interface sr (rt_interface r) = Some i"
    using assms(5) by (auto simp: verified_routes)
  have "returns (handle_ip (incoming sr ifn d) s) (\<lambda>(out, t). \<forall>h. out = Some h \<longrightarrow> transmissible t h)"
    unfolding handle_ip_datagram [OF l(1) ifs] Let_def
    using handle_local_returns [OF assms(7) own] handle_expired_returns [OF assms(7) own]
      forward_returns [OF s(2) l assms(8), of r i sr ifn] r i
    by (auto simp: same returns_def)
  then obtain out t where "handle_ip (incoming sr ifn d) s = Inr (out, t)" "\<And>h. out = Some h \<Longrightarrow> transmissible t h"
    by (auto elim!: returnsE)
  moreover from transmit_returns [OF this(2)] obtain u where "transmit out t = Inr u"
    by (auto elim: returnsE)
  ultimately show ?thesis
    using handlepacket_datagram [OF l s(1), of ifn] by simp
qed

lemma office_sound: "patient office" "sr_verify_routing_table office = 0" "\<not> arpq_dangling office"
  by (simp_all add: patient_def sr_verify_routing_table_def office_fields strncmp_eq_def)

theorem datagrams_are_handled_witness:
  "\<exists>s. sr_handlepacket (datagram mail) ''eth0'' office = Inr s"
  using datagrams_are_handled [OF office_ok(1,2) office_sound(1,3,2), of "''eth0''" mail] office_interfaces
    mail_good(1) office_routes
  by (simp add: sound_lengths_def address_zero)



subsection \<open>The branch that frees an entry in use\<close>

definition tidy :: "router \<Rightarrow> bool" where
  "tidy sr \<longleftrightarrow> \<not> arpq_dangling sr \<and> (\<forall>e \<in> set (sr_arp_queue sr). arpq_packets e = [] \<longrightarrow> arpq_num_reqs e = 0)"

definition asked_lately :: "router \<Rightarrow> bool" where
  "asked_lately sr \<longleftrightarrow> (\<forall>e \<in> set (sr_arp_queue sr). arpq_packets e \<noteq> [] \<longrightarrow> \<not> now sr - 1 > arpq_last_req e)"

lemma flush_entries_asked:
  "flush_entries es sr = Inr (q, s) \<Longrightarrow>
   \<forall>e \<in> set q. if arpq_packets e = [] then e \<in> set es else \<not> now sr - 1 > arpq_last_req e"
proof (induction es arbitrary: sr q)
  case (Cons e es)
  from Cons.prems obtain k t rest where
    first: "(if now sr - 1 > arpq_last_req e then
          if arpq_num_reqs e \<ge> 5 then
            and_then (arpq_packets_icmpsend (arpq_packets e) sr) (\<lambda>sr. Inr ([], sr))
          else
            (case arpq_packets e of
               [] \<Rightarrow> Inr ([e], sr)
             | q # qs \<Rightarrow>
                 let old = q_outgoing q in
                 and_then (arp_create sr old (iface old) 1) (\<lambda>arp_req.
                 deref_if (iface old) sr (\<lambda>ifc.
                 and_then (sr_send_packet (frame arp_req) (len arp_req) (if_name ifc) sr) (\<lambda>sr.
                 Inr ([e\<lparr>arpq_last_req := now sr, arpq_num_reqs := arpq_num_reqs e + 1\<rparr>], sr)))))
        else Inr ([e], sr)) = Inr (k, t)"
    and rest: "flush_entries es t = Inr (rest, s)" and q: "q = k @ rest"
    by (auto simp: and_then_eq_Inr)
  have "logs sr t"
    using first by (auto simp: Let_def runs split: if_splits list.splits intro: icmpsend_logs send_logs)
  then have t: "now t = now sr" by (simp add: logs_fields)
  have "\<forall>e' \<in> set k. if arpq_packets e' = [] then e' = e else \<not> now sr - 1 > arpq_last_req e'"
    using first by (auto simp: Let_def runs split: if_splits list.splits dest!: send_logs logs_fields(6))
  moreover have "\<forall>e \<in> set rest. if arpq_packets e = [] then e \<in> set es else \<not> now sr - 1 > arpq_last_req e"
    using Cons.IH [OF rest] by (simp only: t)
  ultimately show ?case unfolding q by (auto split: if_splits)
qed simp

lemma flush_tidy: "arp_queue_flush sr = Inr s \<Longrightarrow> tidy sr \<Longrightarrow> tidy s \<and> asked_lately s"
  using flush_entries_asked [of "sr_arp_queue sr" sr] flush_entries_settles [of "sr_arp_queue sr" sr]
  by (fastforce simp: arp_queue_flush_def runs tidy_def asked_lately_def logs_fields split: if_splits)

lemma queue_packet_tidy:
  assumes "queue_packet f g sr = Inr (out, s)" and "tidy sr" and "asked_lately sr"
  shows "tidy s"
proof (cases "arp_queue_lookup (sr_arp_queue sr) (to_ip g)")
  case (Some i)
  let ?e = "sr_arp_queue sr ! i"
  have i: "?e \<in> set (sr_arp_queue sr)" using Some by (auto simp: arp_queue_lookup_def position_Some)
  then have no: "\<not> (now sr - 1 > arpq_last_req ?e \<and> arpq_num_reqs ?e \<ge> 5)"
    using assms(2,3) by (cases "arpq_packets ?e = []") (auto simp: tidy_def asked_lately_def)
  with assms(1) Some obtain e where "s = sr\<lparr>sr_arp_queue := (sr_arp_queue sr)[i := e]\<rparr>" "arpq_packets e \<noteq> []"
    by (auto simp: queue_packet_def Let_def and_then_eq_Inr arpq_add_packet_def simp del: not_less split: if_splits)
  then show ?thesis
    using assms(2) by (auto simp: tidy_def dest!: set_update_subset_insert [THEN subsetD])
next
  case None
  with assms(1) obtain e where "s = sr\<lparr>sr_arp_queue := sr_arp_queue sr @ [e]\<rparr>" "arpq_packets e \<noteq> []"
    by (auto simp: queue_packet_def Let_def and_then_eq_Inr arpq_add_packet_def arpq_add_entry_def split: if_splits)
  then show ?thesis using assms(2) by (auto simp: tidy_def)
qed

lemma handle_ip_tidy: "handle_ip f sr = Inr (out, s) \<Longrightarrow> tidy sr \<Longrightarrow> asked_lately sr \<Longrightarrow> tidy s"
  by (auto simp: handle_ip_def forward_def runs split: if_splits option.splits
      dest: handle_local_state handle_expired_state queue_packet_tidy)

lemma clear_tidy:
  assumes "arpq_entry_clear i mac sr = Inr s" and "tidy sr"
  shows "tidy s"
proof -
  from assms(1) obtain t where t: "send_queued mac (arpq_packets (sr_arp_queue sr ! i)) sr = Inr t"
    and s: "s = t\<lparr>sr_arp_queue := drop_nth i (sr_arp_queue t)\<rparr>"
    by (auto simp: arpq_entry_clear_def runs)
  have "set (drop_nth i (sr_arp_queue t)) \<subseteq> set (sr_arp_queue t)"
    by (auto simp: drop_nth_def dest: in_set_takeD in_set_dropD)
  moreover have "tidy t" using assms(2) send_queued_logs [OF t] by (simp add: tidy_def logs_fields)
  ultimately show ?thesis unfolding s tidy_def by auto
qed

lemma tidy_cache [simp]: "tidy (sr\<lparr>sr_arp_cache := c\<rparr>) = tidy sr"
  by (simp add: tidy_def)

lemma handle_arp_tidy: "handle_arp f sr = Inr (out, s) \<Longrightarrow> tidy sr \<Longrightarrow> tidy s"
  by (auto simp: handle_arp_def Let_def runs split: if_splits option.splits dest: clear_tidy)

lemma handlepacket_tidy:
  assumes "sr_handlepacket p ifn sr = Inr s" and "tidy sr"
  shows "tidy s"
proof (cases "length p < 42")
  case True
  then show ?thesis using assms by (simp add: sr_handlepacket_def)
next
  case False
  with assms(1) obtain f t out u where
    t: "arp_queue_flush (sr\<lparr>sr_arp_cache := arp_cache_flush (now sr) (sr_arp_cache sr)\<rparr>) = Inr t"
    and h: "(if ip_header f \<noteq> None then handle_ip f t
             else if arp_header f \<noteq> None then handle_arp f t else Inr (None, t)) = Inr (out, u)"
    and s: "transmit out u = Inr s"
    by (auto simp: sr_handlepacket_def Let_def runs)
  have "tidy t" "asked_lately t" using flush_tidy [OF t] assms(2) by simp_all
  then have "tidy u" using h by (auto split: if_splits intro: handle_ip_tidy handle_arp_tidy)
  then show ?thesis using transmit_logs [OF s] by (simp add: tidy_def logs_fields)
qed

lemma hw_entry_tidy: "hw_entry e sr = Inr s \<Longrightarrow> tidy s = tidy sr"
  using hw_entry_keeps [of e sr s]
  by (auto simp: tidy_def hw_entry_def sr_add_interface_def sr_set_ether_ip_def sr_set_ether_addr_def runs
      split: prod.splits if_splits)

lemma hwinfo_tidy: "sr_handle_hwinfo es sr = Inr s \<Longrightarrow> tidy sr \<Longrightarrow> tidy s"
  unfolding sr_handle_hwinfo_def
proof (induction es arbitrary: sr)
  case (Cons e es)
  then obtain t where "hw_entry e sr = Inr t" "for_each es hw_entry t = Inr s" by (auto simp: runs)
  then show ?case using Cons hw_entry_tidy by metis
qed simp

lemma command_tidy: "sr_command c sr = Inr (ret, s) \<Longrightarrow> tidy sr \<Longrightarrow> tidy s"
  by (cases c) (auto simp: sr_command_def runs split: if_splits intro: hwinfo_tidy handlepacket_tidy)

lemma step_tidy: "sr_step sr s \<Longrightarrow> tidy sr \<Longrightarrow> tidy s"
proof (induction rule: sr_step.induct)
  case (sr_step_time sr t j ip n)
  then show ?case unfolding tidy_def by simp
qed (rule command_tidy)

lemma reachable_tidy: "sr_reachable sr s \<Longrightarrow> tidy sr \<Longrightarrow> tidy s"
  by (induction rule: sr_reachable.induct) (auto intro: step_tidy)

text \<open>
  \<open>sr_handlepacket\<close> has a branch that frees a queue entry without unlinking it, after which
  the next walk would read freed memory.  It is never taken: every packet first looks through the queue, and what has
  been asked for too often is gone before the branch can find it.
\<close>

theorem no_entry_is_freed_in_use:
  assumes "sr_reachable (sr_init sr0) sr" and "\<not> arpq_dangling sr0"
  shows "\<not> arpq_dangling sr"
proof -
  have "tidy (sr_init sr0)" using assms(2) by (simp add: tidy_def sr_init_def)
  from reachable_tidy [OF assms(1) this] show ?thesis by (simp add: tidy_def)
qed

theorem no_entry_is_freed_in_use_witness: "\<not> arpq_dangling (office\<lparr>now := 200\<rparr>)"
proof -
  have "sr_step office (office\<lparr>now := 200, junk := (\<lambda>_. 0), junk_ip := 0, junk_len := 0\<rparr>)"
    by (rule sr_step_time) (simp add: office_fields)
  moreover have "office\<lparr>now := 200, junk := (\<lambda>_. 0), junk_ip := 0, junk_len := 0\<rparr> = office\<lparr>now := 200\<rparr>"
    by (simp add: office_defs)
  moreover have "sr_init office = office" by (simp add: office_defs)
  ultimately show ?thesis
    using no_entry_is_freed_in_use [of office "office\<lparr>now := 200\<rparr>"] office_sound(3)
      sr_reachable_step [OF sr_reachable_start] by metis
qed

subsection \<open>Checksums\<close>

text \<open>
  Whatever is in the checksum field and however long the header, with a zero in the field
  \<open>compute_ip_checksum\<close> stores a value with which a second run stores zero: a header that
  was made is accepted.
\<close>

theorem header_checksum_round_trip:
  assumes "ip_header f = Some h" and "load8 h (frame f) = Inr vhl" and "5 \<le> unat (vhl AND 15)"
    and "store (h + 10) [0, 0] (frame f) = Inr fr" and "compute_ip_checksum (f\<lparr>frame := fr\<rparr>) = Inr g"
  shows "\<exists>g'. compute_ip_checksum g = Inr g' \<and> load16 (h + 10) (frame g') = Inr 0"
proof -
  define n where "n = 2 * (unat (vhl AND 15) * 2)"
  have n4: "4 * unat (vhl AND 15) = n" by (simp add: n_def)
  have n: "20 \<le> n" "even n" using assms(3) by (simp_all add: n_def)
  have "load h 1 fr = load h 1 (frame f)" by (rule load_store_other [OF assms(4)]) simp
  then have v: "load8 h fr = Inr vhl" using assms(2) by (simp add: load8_def)
  define xs ys where "xs = take 10 (drop h fr)" and "ys = take (n - 12) (drop (h + 12) fr)"
  from assms(1,5) v obtain bs where bs: "load h n fr = Inr bs"
    and st: "store (h + 10) (bytes16 (checksum bs)) fr = Inr (frame g)" and g: "ip_header g = Some h"
    by (auto simp: compute_ip_checksum_def runs n_def Let_def)
  then have l: "h + n \<le> length fr" "bs = take n (drop h fr)" by (auto simp: load_def split: if_splits)
  have zero: "take 2 (drop (h + 10) fr) = [0, 0]"
    using load_store_same [OF assms(4)]
    by (auto simp: load_def numeral_2_eq_2 split: if_splits)
  have split: "take n (drop h x) = take 10 (drop h x) @ take 2 (drop (h + 10) x) @ take (n - 12) (drop (h + 12) x)"
    for x :: "byte list"
  proof -
    have "n = 10 + (2 + (n - 12))" using n(1) by simp
    then have "take n (drop h x) = take (10 + (2 + (n - 12))) (drop h x)" by (rule arg_cong)
    also have "\<dots> = take 10 (drop h x) @ take 2 (drop (h + 10) x) @ take (n - 12) (drop (h + 12) x)"
      by (simp only: take_add drop_drop add.commute [of _ h] add.assoc) (simp add: add.commute)
    finally show ?thesis .
  qed
  have sum: "bs = xs @ [0, 0] @ ys" using l(2) zero by (simp add: split xs_def ys_def)
  have gl: "length (frame g) = length fr" by (rule store_Inr [OF st])
  have gf: "frame g = take (h + 10) fr @ bytes16 (checksum bs) @ drop (h + 12) fr"
    using st by (auto simp: store_def add.commute [of h 12] split: if_splits)
  have "load h n (frame g) = Inr (xs @ bytes16 (checksum bs) @ ys)"
    using l(1) n(1) gl by (simp add: load_def split gf xs_def ys_def drop_take)
  moreover have "load h 1 (frame g) = load h 1 fr" by (rule load_store_other [OF st]) simp
  then have "load8 h (frame g) = Inr vhl" using v by (simp add: load8_def)
  moreover have "checksum (xs @ bytes16 (checksum bs) @ ys) = 0"
    using l(1) n(1) unfolding sum by (intro checksum_verifies) (simp add: xs_def)
  moreover obtain fr' where "store (h + 10) (bytes16 0) (frame g) = Inr fr'"
    using l(1) n(1) gl by (simp add: store_def)
  moreover from load_store_same [OF this] have "load16 (h + 10) fr' = Inr 0" by (simp add: load16_def)
  ultimately show ?thesis
    using g n4 by (simp add: compute_ip_checksum_def Let_def)
qed

theorem header_checksum_round_trip_witness:
  "\<exists>g g'. compute_ip_checksum ((incoming office ''eth0'' mail)\<lparr>frame := datagram (mail\<lparr>hsum := 0\<rparr>)\<rparr>) = Inr g
    \<and> compute_ip_checksum g = Inr g' \<and> load16 24 (frame g') = Inr 0"
proof -
  let ?f = "incoming office ''eth0'' mail"
  have f: "ip_header ?f = Some 14" "load8 14 (frame ?f) = Inr 0x45"
    "store 24 [0, 0] (frame ?f) = Inr (datagram (mail\<lparr>hsum := 0\<rparr>))"
    using mail_good(1) by (simp_all add: incoming_def fields)
  from second_checksum [OF mail_good(1)] obtain g where
    "compute_ip_checksum (?f\<lparr>frame := datagram (mail\<lparr>hsum := 0\<rparr>)\<rparr>) = Inr g" by blast
  with header_checksum_round_trip [OF f(1,2), of "datagram (mail\<lparr>hsum := 0\<rparr>)" g] f(3) show ?thesis by auto
qed

text \<open>
  The last byte of an ICMP message of odd length is not covered: \<open>!len%2\<close> is \<open>(!len) % 2\<close>, so
  the message is not padded.  Whatever this byte becomes on the way, the router computes the same checksum.
\<close>

theorem odd_byte_is_not_covered:
  assumes "icmp_header f = Some h" and "ip_len f = ip_hl f + (2 * k + 1)" and "2 \<le> k"
    and "h + (2 * k + 1) \<le> length (frame f)"
  shows "\<exists>c g g'. compute_icmp_checksum f = Inr g \<and> load16 (h + 2) (frame g) = Inr c
    \<and> compute_icmp_checksum (f\<lparr>frame := (frame f)[h + 2 * k := x]\<rparr>) = Inr g' \<and> load16 (h + 2) (frame g') = Inr c"
proof -
  let ?c = "\<lambda>fr. checksum (take (2 * k) (take (2 * k + 1) (drop h fr)))"
  have run: "\<exists>g. compute_icmp_checksum (f\<lparr>frame := fr\<rparr>) = Inr g \<and> load16 (h + 2) (frame g) = Inr (?c fr)"
    if l: "h + (2 * k + 1) \<le> length fr" for fr
  proof -
    obtain fr' where st: "store (h + 2) (bytes16 (?c fr)) fr = Inr fr'" using l assms(3) by (simp add: store_def)
    from load_store_same [OF st] have "load16 (h + 2) fr' = Inr (?c fr)" by (simp add: load16_def)
    moreover have "int (ip_len f) - int (ip_hl f) = 2 * int k + 1" using assms(2) by simp
    moreover have "nat (2 * int k + 1) = 2 * k + 1" "(2 * k + 1) div 2 = k" by (simp_all add: nat_add_distrib nat_mult_distrib)
    ultimately show ?thesis
      using st l assms(1) by (simp add: compute_icmp_checksum_def load_def Let_def)
  qed
  have "take (2 * k) (drop h ((frame f)[h + 2 * k := x])) = take (2 * k) (drop h (frame f))"
    by (simp add: drop_update_swap take_update_cancel)
  then have "?c ((frame f)[h + 2 * k := x]) = ?c (frame f)" by (simp add: take_take min_def)
  then show ?thesis
    using run [of "frame f"] run [of "(frame f)[h + 2 * k := x]"] assms(4) by auto
qed

theorem odd_byte_is_not_covered_witness:
  "\<exists>c g g'. compute_icmp_checksum ((incoming office ''eth0'' ping)\<lparr>ip_len := 27\<rparr>) = Inr g
    \<and> load16 36 (frame g) = Inr c
    \<and> compute_icmp_checksum ((incoming office ''eth0'' ping)\<lparr>ip_len := 27, frame := (datagram ping)[40 := 99]\<rparr>) = Inr g'
    \<and> load16 36 (frame g') = Inr c"
proof -
  have "length (datagram ping) = 42" using ping_good(1) by simp (simp add: ping_def)
  moreover have "proto ping = 1" by (simp add: ping_def)
  ultimately show ?thesis
    using odd_byte_is_not_covered [of "(incoming office ''eth0'' ping)\<lparr>ip_len := 27\<rparr>" 34 3 99]
    by (simp add: incoming_def)
qed

subsection \<open>The hardware\<close>

text \<open>What the server announces for an interface, and the interface it becomes.\<close>

definition announced :: "byte list \<times> byte list \<times> byte list \<Rightarrow> c_hw_entry list" where
  "announced h = (case h of (nm, mac, ip) \<Rightarrow> [(1, nm), (32, mac), (64, ip)])"

definition announced_if :: "byte list \<times> byte list \<times> byte list \<Rightarrow> sr_if" where
  "announced_if h = (case h of (nm, mac, ip) \<Rightarrow>
     \<lparr>if_name = take 32 (string_of nm), if_addr = take 6 mac, if_ip = word32 (take 4 ip)\<rparr>)"

lemma announced_one:
  "for_each (announced h @ es) hw_entry sr = for_each es hw_entry (sr\<lparr>if_list := if_list sr @ [announced_if h]\<rparr>)"
  by (cases h) (simp add: announced_def announced_if_def hw_entry_def sr_add_interface_def sr_set_ether_addr_def
      sr_set_ether_ip_def upd_last_def)

text \<open>
  A list of hardware that announces name, hardware address and IP address of each interface appends exactly
  these interfaces, in order; an address that comes before any interface fails an assertion.
\<close>

theorem hardware_becomes_interfaces:
  "sr_handle_hwinfo (concat (map announced hs)) sr = Inr (sr\<lparr>if_list := if_list sr @ map announced_if hs\<rparr>)
   \<and> sr_handle_hwinfo ((32, mac) # es) (sr\<lparr>if_list := []\<rparr>) = Inl Assertion_Failed"
proof
  show "sr_handle_hwinfo (concat (map announced hs)) sr = Inr (sr\<lparr>if_list := if_list sr @ map announced_if hs\<rparr>)"
    unfolding sr_handle_hwinfo_def
    by (induction hs arbitrary: sr) (simp_all add: announced_one)
qed (simp add: sr_handle_hwinfo_def hw_entry_def sr_set_ether_addr_def upd_last_def)

subsection \<open>What is lost\<close>

text \<open>
  Two destinations behind the same next hop wait in two entries, and the reply of the next hop
  releases the first of them only: the second entry stays as it was, and since its next hop is
  cached from then on, no further ARP packet of the next hop releases it.
\<close>

theorem second_destination_stays:
  assumes "arp_shaped a" and "flushes sr s" and "queue_ok s" and "a_op a \<noteq> 1"
    and "a_tip a \<in> if_ip ` set (if_list s)" and "released a s = Some k"
    and "k < m" and "m < length (sr_arp_queue s)" and "arpq_next_hop (sr_arp_queue s ! m) = a_sip a"
  shows "\<exists>t. sr_handlepacket (arp_frame a @ p) ifn sr = Inr t
    \<and> sr_arp_queue s ! m \<in> set (sr_arp_queue t)
    \<and> (\<forall>b u. a_sip b = a_sip a \<longrightarrow> sr_arp_cache u = sr_arp_cache t \<longrightarrow> released b u = None)"
proof -
  let ?e = "arpq_entry_clear k (a_sha a) (learned a s)"
  have ifs: "if_list s \<noteq> []" using assms(5) by auto
  have k: "k < length (sr_arp_queue (learned a s))" using assms(7,8) by (simp add: learned_def)
  have l: "queue_ok (learned a s)" using queue_ok_keep [OF assms(3), of "learned a s"] by (simp add: learned_def)
  from send_queued_exact [OF queued_ready [OF l k]] assms(1) obtain l where
    "?e = Inr ((learned a s)\<lparr>log := l, sr_arp_queue := drop_nth k (sr_arp_queue s)\<rparr>)"
    by (simp add: arpq_entry_clear_def arp_shaped_def) (simp add: learned_def)
  moreover define t where "t = (learned a s)\<lparr>log := l, sr_arp_queue := drop_nth k (sr_arp_queue s)\<rparr>"
  ultimately have "sr_handlepacket (arp_frame a @ p) ifn sr = Inr t"
    using handlepacket_arp [OF assms(1,2), of p ifn] handle_arp_eq [OF assms(1) ifs assms(5), of sr ifn p]
      assms(4,6) by (simp add: transmit_def)
  moreover have "sr_arp_queue s ! m \<in> set (drop (Suc k) (sr_arp_queue s))"
    using assms(7,8) by (auto simp: in_set_conv_nth intro!: exI [of _ "m - Suc k"])
  moreover have "sr_arp_cache t = sr_arp_cache (learned a s)" by (simp add: t_def)
  ultimately show ?thesis
    using learned_lookup [of a s] by (intro exI [of _ t]) (auto simp: t_def drop_nth_def released_def)
qed

text \<open>Datagrams to 10.0.1.2 and 10.0.1.3 wait for 10.0.1.2.\<close>

definition mail2 :: dgram where
  "mail2 = with_sum (mail\<lparr>dst := ip_addr 10 0 1 3\<rparr>)"

definition crowded :: router where
  "crowded = expecting\<lparr>sr_arp_queue :=
     sr_arp_queue expecting @ [asked office 1 (routing_table office ! 0) ''eth0'' mail2 expecting]\<rparr>"

lemma crowded_good: "flushes crowded crowded" "queue_ok crowded"
proof -
  show "flushes crowded crowded"
    by (simp add: flushes_def arp_queue_flush_def crowded_def expecting_def asked_def office_defs)
  have fields: "get_interface expecting = get_interface office" "rt_match expecting = rt_match office"
    by (simp_all add: expecting_def get_interface_def rt_match_def fun_eq_iff)
  have mail2: "shaped mail2" "body mail2 = body mail" "dst mail2 = ip_addr 10 0 1 3" "smac mail2 = smac mail"
    using mail_good(1) by (simp_all add: mail2_def shaped_def del: shaped_simps)
  have "rt_match office (ip_addr 10 0 1 3) = Some (routing_table office ! 0)"
    by (simp add: rt_match_def office_fields word32_def ntohl_def bytes32_def)
  then have "may_wait expecting (waiting expecting 1 (checked office ''eth0'' mail2) mail2)"
    using office_route(2) office_interfaces(2) mail2
    by (intro update_checked_waits [where r = "routing_table office ! 0"]) (simp_all add: fields)
  moreover have "to_ip (waiting expecting 1 (checked office ''eth0'' mail2) mail2) = ip_addr 10 0 1 3"
    by (simp add: waiting_def incoming_def mail2)
  moreover have "arp_queue_lookup (sr_arp_queue expecting) (ip_addr 10 0 1 3) = None"
    by (simp add: arp_queue_lookup_def expecting_def asked_def office_fields address_zero eq_commute [of "0 :: 32 word"])
  moreover have "has_if expecting (Some 0)"
    using has_if_get [of expecting "''eth0''" 0] office_interfaces(1) by (simp add: fields)
  ultimately show "queue_ok crowded"
    unfolding crowded_def
    by (intro queue.open_entry [OF expecting_good(2), where f = "waiting expecting 1 (checked office ''eth0'' mail2) mail2"
        and mac = "smac mail2" and ifp = "Some 0"])
      (use office_interfaces in \<open>simp_all add: asked_def mail2\<close>)
qed

theorem second_destination_stays_witness:
  "\<exists>t. sr_handlepacket (arp_frame answers @ []) ''eth1'' crowded = Inr t
    \<and> asked office 1 (routing_table office ! 0) ''eth0'' mail2 expecting \<in> set (sr_arp_queue t)
    \<and> released answers t = None"
proof -
  have "released answers crowded = Some 1"
    by (simp add: released_def answers_def arpq_next_hop_lookup_def arp_cache_lookup_def crowded_def expecting_def
        office_fields asked_def address_zero eq_commute [of "0 :: 32 word"])
  moreover have "arp_shaped answers" "a_op answers \<noteq> 1" "a_tip answers \<in> if_ip ` set (if_list crowded)"
    by (simp_all add: answers_def arp_shaped_def peer_def crowded_def expecting_def office_fields)
  moreover have "length (sr_arp_queue crowded) = 3"
    "sr_arp_queue crowded ! 2 = asked office 1 (routing_table office ! 0) ''eth0'' mail2 expecting"
    "arpq_next_hop (sr_arp_queue crowded ! 2) = a_sip answers"
    by (simp_all add: crowded_def expecting_def office_fields asked_def answers_def)
  ultimately show ?thesis
    using second_destination_stays [OF _ crowded_good, of answers 1 2 "[]" "''eth1''"] by auto
qed

text \<open>
  A datagram \<open>d\<close> as it waits in the queue after it came in by \<open>ifn\<close> and was routed to interface \<open>i\<close>,
  and what it takes for the code to find all that it needs for an answer.
\<close>

definition queued :: "router \<Rightarrow> router \<Rightarrow> string \<Rightarrow> nat \<Rightarrow> dgram \<Rightarrow> queued_packet" where
  "queued sr0 sr ifn i d =
     \<lparr>q_from_MAC = smac d, q_from_iface = get_interface sr0 ifn,
      q_outgoing = waiting sr i (checked sr0 ifn d) d\<rparr>"

lemma queued_icmpsend:
  assumes "shaped d" and "8 \<le> length (body d)" and "junk_len sr0 < 20 \<or> 28 \<le> junk_len sr0"
    and "get_interface sr ifn = Some j" and "get_interface sr1 ifn = Some j"
    and "smac d \<noteq> if_addr (if_list sr ! j)"
  shows "arpq_packets_icmpsend (queued sr1 sr0 ifn i d # qs) sr =
    (if is_icmp_error d then Inl Endless_Loop else arpq_packets_icmpsend qs sr)"
proof -
  let ?w = "waiting sr0 i (checked sr1 ifn d) d"
  have a: "body (aged d) = body d" "proto (aged d) = proto d" "smac (aged d) = smac d"
    by (simp_all add: aged_def)
  obtain pre where pre: "datagram (aged d) = pre @ body (aged d)" "length pre = 34"
    using datagram_split [of "aged d"] assms(1) by auto
  have w: "ip_header ?w = Some 14" "ip_hl ?w = 20" "frame ?w = datagram (aged d)" "len ?w = 34 + length (body d)"
    by (simp_all add: waiting_def incoming_def)
  have "load8 23 (frame ?w) = Inr (proto d)" using assms(1) by (simp add: w fields a)
  moreover have "load8 34 (frame ?w) = Inr (body d ! 0)"
    using assms(2) pre by (simp add: w load8_def load_def nth_append a)
  moreover have "generate_icmp_error sr (?w\<lparr>iface := Some j, from_MAC := smac d\<rparr>) 3 1 = Inr
     (\<lparr>frame = datagram (icmp_error 3 1 (?w\<lparr>iface := Some j, from_MAC := smac d\<rparr>) (aged d)), ip_header = Some 14, arp_header = None,
      icmp_header = Some 34, from_MAC = to_MAC ?w, to_MAC = smac d, from_ip = to_ip ?w,
      to_ip = from_ip ?w, iface = Some j, len = 70, ip_hl = 20, ip_len = 56\<rparr>)"
    by (subst generate_icmp_error_datagram [of "aged d"])
      (use assms(1-3) in \<open>simp_all add: a w waiting_def incoming_def del: upt_rec_numeral\<close>)
  moreover have "sr_send_packet (datagram (aged d)) (34 + length (body d)) (if_name (if_list sr ! j)) sr = Inr sr"
  proof -
    have "take 6 (drop 6 (datagram (aged d))) = smac d" using assms(1) by (simp add: datagram_def a)
    then show ?thesis
      using sr_send_packet_eq [OF assms(4), of "datagram (aged d)" "34 + length (body d)"] assms(1,6)
      by (simp add: a)
  qed
  ultimately show ?thesis
    using assms(4,5) get_interface_bound [OF assms(4)]
    by (simp add: queued_def w deref_if_def is_icmp_error_def Let_def)
qed

text \<open>
  C22.  When a next hop has been asked for five times, its entry leaves the queue and nothing is sent for
  its datagrams: the code makes a host unreachable message for each, but sends the
  original frame, whose source is not an address of the router, and that is refused.  If one of
  the datagrams is itself an ICMP error, the loop over them never ends.
\<close>

theorem given_up_without_answer:
  assumes "now sr - 1 > arpq_last_req e" and "5 \<le> arpq_num_reqs e"
    and "arpq_packets e = map (queued sr1 sr0 ifn i) ds"
    and "\<forall>d \<in> set ds. shaped d \<and> 8 \<le> length (body d) \<and> smac d \<noteq> if_addr (if_list sr ! j)"
    and "junk_len sr0 < 20 \<or> 28 \<le> junk_len sr0"
    and "get_interface sr ifn = Some j" and "get_interface sr1 ifn = Some j"
  shows "flush_entries (e # es) sr =
    (if \<exists>d \<in> set ds. is_icmp_error d then Inl Endless_Loop else flush_entries es sr)"
proof -
  have "arpq_packets_icmpsend (map (queued sr1 sr0 ifn i) ds) sr =
      (if \<exists>d \<in> set ds. is_icmp_error d then Inl Endless_Loop else Inr sr)"
    using assms(4)
  proof (induction ds)
    case (Cons d ds)
    then show ?case
      using queued_icmpsend [OF _ _ assms(5-7), of d i "map (queued sr1 sr0 ifn i) ds"]
      by (simp del: arpq_packets_icmpsend.simps)
  qed simp
  with assms(1-3) show ?thesis
    by (simp del: arpq_packets_icmpsend.simps add: and_then_assoc split: sum.split)
qed

theorem given_up_without_answer_witness:
  "flush_entries [\<lparr>arpq_ip = ip_addr 10 0 1 2, arpq_next_hop = ip_addr 10 0 1 2, arpq_if = Some 1,
      arpq_packets = [queued office office ''eth0'' 1 mail], arpq_last_req = 98, arpq_num_reqs = 5\<rparr>] office
    = Inr ([], office)"
  (is "flush_entries [?e] office = _")
proof -
  have "smac mail \<noteq> if_addr (if_list office ! 0)" by (simp add: office_fields)
  moreover have "\<not> is_icmp_error mail" by (simp add: is_icmp_error_def)
  moreover have "junk_len office = 0" by (simp add: office_defs)
  ultimately show ?thesis
    using given_up_without_answer [of ?e office office office "''eth0''" 1 "[mail]" 0 "[]"] mail_good(1) office_interfaces
    by (simp add: office_fields del: flush_entries.simps(2))
qed

subsection \<open>What is not survived\<close>

text \<open>
  A frame of at least 42 bytes whose type is neither IP nor ARP crashes the router: the view
  of the frame is NULL, and the caller reads its IP header.
\<close>

theorem unknown_types_crash:
  assumes "42 \<le> length p" and "load16 12 p = Inr t" and "ntohs t \<notin> {0x800, 0x806}" and "flushes sr s"
  shows "sr_handlepacket p ifn sr = Inl Null_Pointer"
proof -
  have "create_frame_t sr p ifn = Inr None"
    using assms(1-3) by (simp add: create_frame_t_def load_ok Let_def)
  then show ?thesis
    using assms(1,4) by (simp add: sr_handlepacket_def flushes_def Let_def)
qed

theorem unknown_types_crash_witness:
  "sr_handlepacket (replicate 12 0 @ [0x86, 0xdd] @ replicate 40 0) ''eth0'' office = Inl Null_Pointer"
  by (rule unknown_types_crash [OF _ _ _ office_flushes(1), of _ "0xdd86"])
    (simp_all add: load16_def load_def word16_def ntohs_def bytes16_def)

text \<open>
  A datagram to 0.0.0.0 that matches a route with an unknown next hop fails an assertion: the
  queue has had an entry for this address since \<open>sr_init\<close>, without packets.
\<close>

theorem zero_destination_crashes:
  assumes "shaped d" and "8 \<le> length (body d)" and "verifies d" and "flushes sr s"
    and "if_list s \<noteq> []" and "0 \<notin> if_ip ` set (if_list s)" and "dst d = 0" and "ttl d \<noteq> 0"
    and "rt_match s 0 = Some r" and "get_interface s (rt_interface r) = Some i"
    and "arp_cache_lookup (sr_arp_cache s) (rt_gw r) = None"
    and "sr_arp_queue s = e # es" and "arpq_ip e = 0" and "arpq_packets e = []" and "arpq_num_reqs e = 0"
  shows "sr_handlepacket (datagram d) ifn sr = Inl Assertion_Failed"
proof -
  let ?w = "waiting s i (checked sr ifn d) d"
  have "update_ip_hdr s (checked sr ifn d) = Inr (?w, rt_gw r)"
    by (rule update_checked) (use assms in simp_all)
  moreover have "to_ip ?w = 0" using assms(7) by (simp add: waiting_def incoming_def)
  moreover have "queue_packet (checked sr ifn d) ?w s = Inl Assertion_Failed"
    using calculation(2) assms(12-15) by (simp add: queue_packet_def arp_queue_lookup_def Let_def)
  ultimately have "forward (checked sr ifn d) s = Inl Assertion_Failed"
    using assms(11) by (simp add: forward_def)
  then show ?thesis
    using ip_starts [OF assms(1-5), of ifn] assms(6-8) by simp
qed

text \<open>The small router with a default route.\<close>

definition gateway :: router where
  "gateway = office\<lparr>routing_table := [\<lparr>rt_dest = 0, rt_gw = ip_addr 10 0 1 2, rt_mask = 0, rt_interface = ''eth1''\<rparr>]\<rparr>"

theorem zero_destination_crashes_witness:
  "sr_handlepacket (datagram (with_sum (mail\<lparr>dst := 0\<rparr>))) ''eth0'' gateway = Inl Assertion_Failed"
proof -
  have "shaped (mail\<lparr>dst := 0\<rparr>)" using mail_good(1) by (simp add: shaped_def del: shaped_simps)
  moreover have "flushes gateway gateway"
    by (simp add: flushes_def arp_queue_flush_def gateway_def office_defs)
  moreover have "rt_match gateway 0 = Some (routing_table gateway ! 0)"
    by (simp add: gateway_def rt_match_def)
  moreover have "get_interface gateway ''eth1'' = Some 1" "0 \<notin> if_ip ` set (if_list gateway)"
    "arp_cache_lookup (sr_arp_cache gateway) (ip_addr 10 0 1 2) = None" "if_list gateway \<noteq> []"
    using office_interfaces(2) office_unknown(1)
    by (simp_all add: gateway_def get_interface_def office_fields address_zero eq_commute [of "0 :: 32 word"])
  ultimately show ?thesis
    using zero_destination_crashes [of "with_sum (mail\<lparr>dst := 0\<rparr>)" gateway gateway
        "routing_table gateway ! 0" 1 _ _ "''eth0''"] with_sum_verifies [of "mail\<lparr>dst := 0\<rparr>"]
    by (simp add: gateway_def office_fields)
qed

end
