(* ===== verification/Sr_Sha1.thy ===== *)
theory Sr_Sha1
  imports Sr_Memory
begin

text \<open>
  \<open>sha1.c\<close>, with which the router signs on to the VNS server, against the definition of SHA-1 in
  FIPS 180-4: a message that is handed over in pieces has the digest of the whole message.
\<close>

subsection \<open>The code\<close>

text \<open>\<open>Message_Block\<close> is an array of 64 bytes, which \<open>SHA1Reset\<close> does not clear.\<close>

record SHA1Context =
  Message_Digest :: "32 word list"
  Length_Low :: "32 word"
  Length_High :: "32 word"
  Message_Block :: "byte list"
  Message_Block_Index :: nat
  Computed :: bool
  Corrupted :: bool

definition SHA1CircularShift :: "nat \<Rightarrow> 32 word \<Rightarrow> 32 word" where
  "SHA1CircularShift bits w = push_bit bits w OR drop_bit (32 - bits) w"

definition SHA1Reset :: "SHA1Context \<Rightarrow> SHA1Context" where
  "SHA1Reset c = c\<lparr>Length_Low := 0, Length_High := 0, Message_Block_Index := 0,
     Message_Digest := [0x67452301, 0xEFCDAB89, 0x98BADCFE, 0x10325476, 0xC3D2E1F0],
     Computed := False, Corrupted := False\<rparr>"

text \<open>The first sixteen words of \<open>W\<close>, and one more of them.\<close>

definition first_words :: "byte list \<Rightarrow> 32 word list" where
  "first_words b = map (\<lambda>t. push_bit 24 (ucast (b ! (t * 4))) OR push_bit 16 (ucast (b ! (t * 4 + 1)))
     OR push_bit 8 (ucast (b ! (t * 4 + 2))) OR ucast (b ! (t * 4 + 3))) [0..<16]"

definition next_word :: "32 word list \<Rightarrow> 32 word list" where
  "next_word W = (let t = length W in
     W @ [SHA1CircularShift 1 (W ! (t - 3) XOR W ! (t - 8) XOR W ! (t - 14) XOR W ! (t - 16))])"

type_synonym buffers = "32 word \<times> 32 word \<times> 32 word \<times> 32 word \<times> 32 word"

text \<open>One pass of one of the four loops, which differ in \<open>f\<close> and \<open>k\<close>.\<close>

definition rotate :: "(32 word \<Rightarrow> 32 word \<Rightarrow> 32 word \<Rightarrow> 32 word) \<Rightarrow> 32 word \<Rightarrow> 32 word list \<Rightarrow> nat \<Rightarrow> buffers \<Rightarrow> buffers" where
  "rotate f k W t = (\<lambda>(A, B, C, D, E).
     let temp = SHA1CircularShift 5 A + f B C D + E + W ! t + k in (temp, A, SHA1CircularShift 30 B, C, D))"

definition SHA1ProcessMessageBlock :: "SHA1Context \<Rightarrow> SHA1Context" where
  "SHA1ProcessMessageBlock c =
     (let W = (next_word ^^ 64) (first_words (Message_Block c));
          H = Message_Digest c;
          s = (H ! 0, H ! 1, H ! 2, H ! 3, H ! 4);
          s = fold (rotate (\<lambda>B C D. (B AND C) OR (NOT B AND D)) 0x5A827999 W) [0..<20] s;
          s = fold (rotate (\<lambda>B C D. B XOR C XOR D) 0x6ED9EBA1 W) [20..<40] s;
          s = fold (rotate (\<lambda>B C D. (B AND C) OR (B AND D) OR (C AND D)) 0x8F1BBCDC W) [40..<60] s;
          s = fold (rotate (\<lambda>B C D. B XOR C XOR D) 0xCA62C1D6 W) [60..<80] s;
          (A, B, C, D, E) = s
      in c\<lparr>Message_Digest := [H ! 0 + A, H ! 1 + B, H ! 2 + C, H ! 3 + D, H ! 4 + E], Message_Block_Index := 0\<rparr>)"

text \<open>\<open>Message_Block[Message_Block_Index++] = b\<close>\<close>

definition put_byte :: "byte \<Rightarrow> SHA1Context \<Rightarrow> sr_fault + SHA1Context" where
  "put_byte b c =
     (if Message_Block_Index c < length (Message_Block c) then
        Inr (c\<lparr>Message_Block := (Message_Block c)[Message_Block_Index c := b],
               Message_Block_Index := Message_Block_Index c + 1\<rparr>)
      else Inl Out_Of_Bounds)"

definition input_byte :: "byte \<Rightarrow> SHA1Context \<Rightarrow> sr_fault + SHA1Context" where
  "input_byte b c =
     (if Corrupted c then Inr c
      else
        and_then (put_byte b c) (\<lambda>c.
        let c = c\<lparr>Length_Low := Length_Low c + 8\<rparr>;
            c = (if Length_Low c = 0 then
                   let c = c\<lparr>Length_High := Length_High c + 1\<rparr> in
                   if Length_High c = 0 then c\<lparr>Corrupted := True\<rparr> else c
                 else c)
        in Inr (if Message_Block_Index c = 64 then SHA1ProcessMessageBlock c else c)))"

text \<open>A piece is given with its length, an unsigned number of 32 bits: the length of the list.\<close>

definition SHA1Input :: "byte list \<Rightarrow> SHA1Context \<Rightarrow> sr_fault + SHA1Context" where
  "SHA1Input message c =
     (if message = [] then Inr c
      else if Computed c \<or> Corrupted c then Inr (c\<lparr>Corrupted := True\<rparr>)
      else for_each message input_byte c)"

text \<open>Zeros up to a place of the block.\<close>

definition put_zeros :: "nat \<Rightarrow> SHA1Context \<Rightarrow> sr_fault + SHA1Context" where
  "put_zeros n c = for_each (replicate (n - Message_Block_Index c) 0) put_byte c"

definition SHA1PadMessage :: "SHA1Context \<Rightarrow> sr_fault + SHA1Context" where
  "SHA1PadMessage c =
     and_then
       (if Message_Block_Index c > 55 then
          and_then (put_byte 0x80 c) (\<lambda>c.
          and_then (put_zeros 64 c) (\<lambda>c.
          put_zeros 56 (SHA1ProcessMessageBlock c)))
        else and_then (put_byte 0x80 c) (\<lambda>c. put_zeros 56 c)) (\<lambda>c.
     and_then (store 56 (map (\<lambda>n. ucast (drop_bit n (Length_High c))) [24, 16, 8, 0] @
         map (\<lambda>n. ucast (drop_bit n (Length_Low c))) [24, 16, 8, 0]) (Message_Block c)) (\<lambda>b.
     Inr (SHA1ProcessMessageBlock (c\<lparr>Message_Block := b\<rparr>))))"

definition SHA1Result :: "SHA1Context \<Rightarrow> sr_fault + int \<times> SHA1Context" where
  "SHA1Result c =
     (if Corrupted c then Inr (0, c)
      else
        and_then (if Computed c then Inr c else and_then (SHA1PadMessage c) (\<lambda>c. Inr (c\<lparr>Computed := True\<rparr>))) (\<lambda>c.
        Inr (1, c)))"

subsection \<open>FIPS 180-4\<close>

definition fips_f :: "nat \<Rightarrow> 32 word \<Rightarrow> 32 word \<Rightarrow> 32 word \<Rightarrow> 32 word" where
  "fips_f t x y z =
     (if t < 20 then (x AND y) XOR (NOT x AND z)
      else if 40 \<le> t \<and> t < 60 then (x AND y) XOR (x AND z) XOR (y AND z)
      else x XOR y XOR z)"

definition fips_k :: "nat \<Rightarrow> 32 word" where
  "fips_k t = (if t < 20 then 0x5A827999 else if t < 40 then 0x6ED9EBA1 else if t < 60 then 0x8F1BBCDC else 0xCA62C1D6)"

fun fips_w :: "byte list \<Rightarrow> nat \<Rightarrow> 32 word" where
  "fips_w m t =
     (if t < 16 then word_rcat (take 4 (drop (4 * t) m))
      else word_rotl 1 (fips_w m (t - 3) XOR fips_w m (t - 8) XOR fips_w m (t - 14) XOR fips_w m (t - 16)))"

declare fips_w.simps [simp del]

definition fips_step :: "byte list \<Rightarrow> nat \<Rightarrow> buffers \<Rightarrow> buffers" where
  "fips_step m t = (\<lambda>(a, b, c, d, e). (word_rotl 5 a + fips_f t b c d + e + fips_k t + fips_w m t, a, word_rotl 30 b, c, d))"

definition fips_block :: "32 word list \<Rightarrow> byte list \<Rightarrow> 32 word list" where
  "fips_block H m =
     (case fold (fips_step m) [0..<80] (H ! 0, H ! 1, H ! 2, H ! 3, H ! 4) of
        (a, b, c, d, e) \<Rightarrow> map2 (+) [a, b, c, d, e] H)"

definition fips_pad :: "byte list \<Rightarrow> byte list" where
  "fips_pad m = m @ 0x80 # replicate ((119 - length m mod 64) mod 64) 0 @
     map (\<lambda>n. ucast (drop_bit n (of_nat (8 * length m) :: 64 word))) [56, 48, 40, 32, 24, 16, 8, 0]"

fun blocks64 :: "'a list \<Rightarrow> 'a list list" where
  "blocks64 m = (if m = [] then [] else take 64 m # blocks64 (drop 64 m))"

declare blocks64.simps [simp del]

definition fips_start :: "32 word list" where
  "fips_start = [0x67452301, 0xEFCDAB89, 0x98BADCFE, 0x10325476, 0xC3D2E1F0]"

definition fips_sha1 :: "byte list \<Rightarrow> 32 word list" where
  "fips_sha1 m = foldl fips_block fips_start (blocks64 (fips_pad m))"

subsection \<open>A block\<close>

lemma circular_shift: "0 < n \<Longrightarrow> n < 32 \<Longrightarrow> SHA1CircularShift n w = word_rotl n w"
proof (rule bit_word_eqI)
  fix k assume n: "0 < n" "n < 32" and k: "k < LENGTH(32)"
  show "bit (SHA1CircularShift n w) k = bit (word_rotl n w) k"
  proof (cases "k < n")
    case True
    then have "(k + (32 - n)) mod 32 = k + (32 - n)" using n by simp
    then show ?thesis using True n k
      by (simp add: SHA1CircularShift_def bit_simps nat_less_iff) (metis add.commute)
  next
    case False
    then have "(k + (32 - n)) mod 32 = k - n" using n k by (simp add: mod_if)
    moreover have "\<not> bit w (32 - n + k)" using bit_imp_le_length [of w "32 - n + k"] False by auto
    ultimately show ?thesis using False n k
      by (simp add: SHA1CircularShift_def bit_simps)
  qed
qed

lemma bit_rcat:
  fixes ws :: "byte list"
  shows "bit (word_rcat ws :: 32 word) k \<longleftrightarrow> k < 32 \<and> k div 8 < length ws \<and> bit (rev ws ! (k div 8)) (k mod 8)"
  using bit_horner_sum_uint_exp_iff [of "rev ws" k] by (simp add: word_rcat_def bit_word_of_int_iff)

lemma block_word:
  fixes a b c d :: byte
  shows "(word_rcat [a, b, c, d] :: 32 word) =
    push_bit 24 (ucast a) OR push_bit 16 (ucast b) OR push_bit 8 (ucast c) OR ucast d"
proof (rule bit_word_eqI)
  fix k assume k: "k < LENGTH(32)"
  define q r where "q = k div 8" and "r = k mod 8"
  have k8: "k = 8 * q + r" "r < 8" "q = 0 \<or> q = 1 \<or> q = 2 \<or> q = 3" using k by (auto simp: q_def r_def)
  have "bit (word_rcat [a, b, c, d] :: 32 word) k = bit ([d, c, b, a] ! q) r"
    using k k8(3) by (auto simp: bit_rcat simp flip: q_def r_def)
  moreover have z: "\<not> bit x (8 + n)" "\<not> bit x (16 + n)" "\<not> bit x (24 + n)" for x :: byte and n
    using bit_imp_le_length [of x] by force+
  have "bit (push_bit 24 (ucast a) OR push_bit 16 (ucast b) OR push_bit 8 (ucast c) OR ucast d :: 32 word) k =
    bit ([d, c, b, a] ! q) r"
    using k8(3,2) by (elim disjE) (simp_all add: k8(1) bit_simps z)
  ultimately show "bit (word_rcat [a, b, c, d] :: 32 word) k =
    bit (push_bit 24 (ucast a) OR push_bit 16 (ucast b) OR push_bit 8 (ucast c) OR ucast d :: 32 word) k" by simp
qed

lemma first_words_eq: "length m = 64 \<Longrightarrow> first_words m = map (fips_w m) [0..<16]"
proof -
  assume m: "length m = 64"
  have "fips_w m t = push_bit 24 (ucast (m ! (t * 4))) OR push_bit 16 (ucast (m ! (t * 4 + 1)))
     OR push_bit 8 (ucast (m ! (t * 4 + 2))) OR ucast (m ! (t * 4 + 3))" if "t < 16" for t
  proof -
    have "take 4 (drop (4 * t) m) = [m ! (t * 4), m ! (t * 4 + 1), m ! (t * 4 + 2), m ! (t * 4 + 3)]"
      using m that by (intro nth_equalityI) (auto simp: less_Suc_eq numeral_eq_Suc mult.commute)
    then show ?thesis using that by (simp add: fips_w.simps [of m t] block_word)
  qed
  then show ?thesis by (simp add: first_words_def)
qed

lemma next_word_eq: "16 \<le> t \<Longrightarrow> next_word (map (fips_w m) [0..<t]) = map (fips_w m) [0..<Suc t]"
  by (simp add: next_word_def Let_def circular_shift fips_w.simps [of m t])

lemma all_words: "length m = 64 \<Longrightarrow> (next_word ^^ k) (first_words m) = map (fips_w m) [0..<16 + k]"
  by (induction k) (simp_all add: first_words_eq next_word_eq del: upt_Suc)

lemma round_eq:
  assumes "t < 80" and "f = fips_f t" and "k = fips_k t"
  shows "rotate f k (map (fips_w m) [0..<80]) t s = fips_step m t s"
  using assms by (simp add: rotate_def fips_step_def circular_shift Let_def split: prod.splits)

lemma fips_functions:
  "t < 20 \<Longrightarrow> (\<lambda>B C D. (B AND C) OR (NOT B AND D)) = fips_f t"
  "40 \<le> t \<Longrightarrow> t < 60 \<Longrightarrow> (\<lambda>B C D. (B AND C) OR (B AND D) OR (C AND D)) = fips_f t"
  "20 \<le> t \<Longrightarrow> t < 40 \<or> 60 \<le> t \<Longrightarrow> (\<lambda>B C D. B XOR C XOR D) = fips_f t"
  by (auto simp: fips_f_def fun_eq_iff bit_simps intro!: bit_word_eqI)

lemma process_block:
  assumes "length (Message_Block c) = 64" and "length (Message_Digest c) = 5"
  shows "SHA1ProcessMessageBlock c =
    c\<lparr>Message_Digest := fips_block (Message_Digest c) (Message_Block c), Message_Block_Index := 0\<rparr>"
proof -
  let ?m = "Message_Block c"
  have W: "(next_word ^^ 64) (first_words ?m) = map (fips_w ?m) [0..<80]" using all_words [OF assms(1), of 64] by simp
  have r: "fold (rotate f k (map (fips_w ?m) [0..<80])) [i..<j] s = fold (fips_step ?m) [i..<j] s"
    if "\<And>t. i \<le> t \<Longrightarrow> t < j \<Longrightarrow> f = fips_f t \<and> k = fips_k t" "j \<le> 80" for f k i j s
    by (rule fold_cong) (use that in \<open>auto simp: fun_eq_iff round_eq\<close>)
  have "[0..<80] = [0..<20] @ [20..<40] @ [40..<60] @ [60..<(80::nat)]"
    using upt_add_eq_append [of 0 20 60] upt_add_eq_append [of 20 40 40] upt_add_eq_append [of 40 60 20] by simp
  then have all: "fold (fips_step ?m) [0..<80] s = fold (fips_step ?m) [60..<80] (fold (fips_step ?m) [40..<60]
      (fold (fips_step ?m) [20..<40] (fold (fips_step ?m) [0..<20] s)))" for s by simp
  obtain h0 h1 h2 h3 h4 where h: "Message_Digest c = [h0, h1, h2, h3, h4]"
    using assms(2) by (auto simp: length_Suc_conv numeral_eq_Suc)
  show ?thesis
    by (simp add: SHA1ProcessMessageBlock_def fips_block_def W all r fips_functions fips_k_def h add.commute
        del: upt_rec_numeral split: prod.splits)
qed

lemma length_fips_block: "length H = 5 \<Longrightarrow> length (fips_block H m) = 5"
  by (simp add: fips_block_def split: prod.splits)

subsection \<open>A message in pieces\<close>

lemma blocks64_append: "length a mod 64 = 0 \<Longrightarrow> blocks64 (a @ b) = blocks64 a @ blocks64 b"
proof (induction a rule: blocks64.induct)
  case (1 a)
  show ?case
  proof (cases "a = []")
    case True
    then show ?thesis by (simp add: blocks64.simps [of "[]"])
  next
    case False
    then have "64 \<le> length a" using "1.prems" by (cases "length a < 64") auto
    moreover from this have "length (drop 64 a) mod 64 = 0" using "1.prems" by (simp add: mod_if [of "length a"])
    ultimately show ?thesis using "1.IH" [OF False] False
      by (simp add: blocks64.simps [of a] blocks64.simps [of "a @ b"])
  qed
qed

lemma blocks64_one: "length b = 64 \<Longrightarrow> blocks64 b = [b]"
  by (subst blocks64.simps, subst blocks64.simps) auto

definition chained :: "byte list \<Rightarrow> 32 word list" where
  "chained m = foldl fips_block fips_start (blocks64 m)"

lemma chained_append: "length a mod 64 = 0 \<Longrightarrow> length b = 64 \<Longrightarrow> chained (a @ b) = fips_block (chained a) b"
  by (simp add: chained_def blocks64_append blocks64_one)

lemma length_chained: "length (chained m) = 5"
proof -
  have "length H = 5 \<Longrightarrow> length (foldl fips_block H bs) = 5" for H bs
    by (induction bs arbitrary: H) (simp_all add: length_fips_block)
  then show ?thesis by (simp add: chained_def fips_start_def)
qed

text \<open>What a context holds after the whole blocks \<open>a\<close> and the bytes \<open>r\<close> of the next one.\<close>

definition holding :: "byte list \<Rightarrow> byte list \<Rightarrow> SHA1Context \<Rightarrow> bool" where
  "holding a r c \<longleftrightarrow> length a mod 64 = 0 \<and> length r < 64 \<and> length (Message_Block c) = 64 \<and>
     Message_Digest c = chained a \<and> Message_Block_Index c = length r \<and> take (length r) (Message_Block c) = r"

definition counted :: "nat \<Rightarrow> SHA1Context \<Rightarrow> bool" where
  "counted n c \<longleftrightarrow> 2 ^ 32 * unat (Length_High c) + unat (Length_Low c) = 8 * n \<and> \<not> Corrupted c"

lemma put_byte_holding:
  assumes "length (Message_Block c) = 64" "Message_Block_Index c = length r" "take (length r) (Message_Block c) = r" "length r < 64"
  shows "put_byte b c = Inr (c\<lparr>Message_Block := r @ b # drop (Suc (length r)) (Message_Block c), Message_Block_Index := Suc (length r)\<rparr>)"
  using assms by (simp add: put_byte_def upd_conv_take_nth_drop)

lemma put_zeros_holding:
  "length (Message_Block c) = 64 \<Longrightarrow> Message_Block_Index c = length r \<Longrightarrow> take (length r) (Message_Block c) = r \<Longrightarrow>
   length r \<le> n \<Longrightarrow> n \<le> 64 \<Longrightarrow>
   put_zeros n c = Inr (c\<lparr>Message_Block := r @ replicate (n - length r) 0 @ drop n (Message_Block c), Message_Block_Index := n\<rparr>)"
proof (induction "n - length r" arbitrary: r c)
  case 0
  then have "n = length r" by simp
  moreover have "r @ drop (length r) (Message_Block c) = Message_Block c"
    using append_take_drop_id [of "length r" "Message_Block c"] 0 by simp
  ultimately show ?case using 0 by (simp add: put_zeros_def)
next
  case (Suc k)
  have k: "k = n - length (r @ [0])" "length r < 64" "n - length r = Suc k" "n - Suc (length r) = k" using Suc.hyps(2) Suc.prems by simp_all
  let ?d = "c\<lparr>Message_Block := r @ 0 # drop (Suc (length r)) (Message_Block c), Message_Block_Index := Suc (length r)\<rparr>"
  have "put_zeros n c = put_zeros n ?d"
    using k Suc.prems by (simp add: put_zeros_def put_byte_holding [OF Suc.prems(1-3) k(2)])
  also have "\<dots> = Inr (?d\<lparr>Message_Block := (r @ [0]) @ replicate (n - length (r @ [0])) 0 @ drop n (Message_Block ?d), Message_Block_Index := n\<rparr>)"
    by (rule Suc.hyps(1) [OF k(1)]) (use Suc.prems k in simp_all)
  moreover have "n = Suc (k + length r)" using k(3) Suc.prems(4) by simp
  then have "drop n (Message_Block ?d) = drop n (Message_Block c)" by simp
  moreover have "(r @ [0]) @ replicate (n - length (r @ [0])) 0 = r @ replicate (n - length r) 0" using k(3,4) by simp
  ultimately show ?case by simp
qed

lemma count_byte:
  fixes lo hi :: "32 word"
  assumes "2 ^ 32 * unat hi + unat lo = 8 * n" "8 * Suc n < 2 ^ 64"
  shows "2 ^ 32 * unat (if lo + 8 = 0 then hi + 1 else hi) + unat (lo + 8) = 8 * Suc n \<and> (lo + 8 = 0 \<longrightarrow> hi + 1 \<noteq> 0)"
proof -
  have lo: "unat lo < 2 ^ 32" using unsigned_less [of lo, where ?'a = nat] by simp
  define l h where lh: "l = unat lo" "h = unat hi"
  have e: "4294967296 * h + l = 8 * n" "l < 4294967296" using assms(1) lo by (simp_all add: lh)
  have u: "unat (lo + 8) = (l + 8) mod 4294967296" "unat (hi + 1) = (h + 1) mod 4294967296"
    by (simp_all add: unat_word_ariths lh)
  have "l = 8 * (n - 536870912 * h)" using e(1) by simp
  then obtain j where j: "l = 8 * j" by blast
  then have "j < 536870912" using e(2) by simp
  then have top: "l + 8 \<le> 4294967296" using j by simp
  have z: "lo + 8 = 0 \<longleftrightarrow> l + 8 = 4294967296"
  proof -
    have "lo + 8 = 0 \<longleftrightarrow> unat (lo + 8) = 0" by (rule unat_0_iff [symmetric])
    also have "\<dots> \<longleftrightarrow> l + 8 = 4294967296" unfolding u(1) using top by (cases "l + 8 = 4294967296") simp_all
    finally show ?thesis .
  qed
  show ?thesis
  proof (cases "lo + 8 = 0")
    case True
    then have l: "l + 8 = 4294967296" using z by simp
    have "h + 1 < 4294967296" using e l assms(2) by simp
    then have "unat (hi + 1) = h + 1" using u(2) by simp
    moreover from this have "hi + 1 \<noteq> 0" by (metis add_is_0 one_neq_zero unsigned_0)
    ultimately show ?thesis using True l e by simp
  next
    case False
    then have "l + 8 \<noteq> 4294967296" using z by simp
    then have "l + 8 < 4294967296" using top by simp
    then show ?thesis using False u(1) e by (simp add: lh)
  qed
qed

lemma input_byte_holding:
  assumes "holding a r c" "counted n c" "8 * Suc n < 2 ^ 64"
  shows "\<exists>c'. input_byte b c = Inr c' \<and> counted (Suc n) c' \<and> Computed c' = Computed c \<and>
    (if Suc (length r) = 64 then holding (a @ r @ [b]) [] c' else holding a (r @ [b]) c')"
proof -
  let ?p = "c\<lparr>Message_Block := r @ b # drop (Suc (length r)) (Message_Block c), Message_Block_Index := Suc (length r)\<rparr>"
  let ?l = "Length_Low c + 8" and ?h = "if Length_Low c + 8 = 0 then Length_High c + 1 else Length_High c"
  let ?q = "?p\<lparr>Length_Low := ?l, Length_High := ?h\<rparr>"
  have h: "length a mod 64 = 0" "length r < 64" "length (Message_Block c) = 64" "Message_Digest c = chained a"
    "Message_Block_Index c = length r" "take (length r) (Message_Block c) = r" and n: "\<not> Corrupted c"
    using assms(1,2) by (simp_all add: holding_def counted_def)
  have k: "2 ^ 32 * unat ?h + unat ?l = 8 * Suc n" "?l = 0 \<Longrightarrow> Length_High c + 1 \<noteq> 0"
    using count_byte [of "Length_High c" "Length_Low c" n] assms(2,3) by (simp_all add: counted_def)
  have p: "put_byte b c = Inr ?p" by (rule put_byte_holding) (use h in simp_all)
  have run: "input_byte b c = Inr (if Suc (length r) = 64 then SHA1ProcessMessageBlock ?q else ?q)"
    unfolding input_byte_def p using n k(2) by (simp add: Let_def)
  have q: "counted (Suc n) ?q" using k(1) n by (simp add: counted_def)
  show ?thesis
  proof (cases "Suc (length r) = 64")
    case True
    then have "drop (Suc (length r)) (Message_Block c) = []" using h by simp
    then have p: "SHA1ProcessMessageBlock ?q = ?q\<lparr>Message_Digest := fips_block (chained a) (r @ [b]), Message_Block_Index := 0\<rparr>"
      using process_block [of ?q] h True by (simp add: length_chained)
    have "holding (a @ r @ [b]) [] (SHA1ProcessMessageBlock ?q)"
      unfolding p using chained_append [of a "r @ [b]"] h True by (simp add: holding_def mod_add_left_eq [symmetric])
    moreover have "counted (Suc n) (SHA1ProcessMessageBlock ?q)" unfolding p using q by (simp add: counted_def)
    ultimately show ?thesis using run True p by simp
  next
    case False
    then have "holding a (r @ [b]) ?q" using h by (simp add: holding_def)
    then show ?thesis using run q False by simp
  qed
qed

lemma input_bytes:
  assumes "holding a r c" "counted (length (a @ r)) c" "8 * (length (a @ r) + length m) < 2 ^ 64"
  shows "\<exists>a' r' c'. for_each m input_byte c = Inr c' \<and> holding a' r' c' \<and> a' @ r' = a @ r @ m \<and>
    counted (length (a @ r @ m)) c' \<and> Computed c' = Computed c"
  using assms
proof (induction m arbitrary: a r c)
  case Nil
  then show ?case by auto
next
  case (Cons b m)
  obtain c1 where c1: "input_byte b c = Inr c1" "counted (Suc (length (a @ r))) c1" "Computed c1 = Computed c"
    "if Suc (length r) = 64 then holding (a @ r @ [b]) [] c1 else holding a (r @ [b]) c1"
    using input_byte_holding [OF Cons.prems(1,2)] Cons.prems(3) by auto
  obtain a1 r1 where a1: "holding a1 r1 c1" "a1 @ r1 = a @ r @ [b]"
    using c1(4) by (cases "Suc (length r) = 64") (force+)
  then have "length (a1 @ r1) = Suc (length (a @ r))" by simp
  then have "counted (length (a1 @ r1)) c1" "8 * (length (a1 @ r1) + length m) < 2 ^ 64" using c1(2) Cons.prems(3) by simp_all
  from Cons.IH [OF a1(1) this] show ?case using c1(1,3) a1(2)
    by (metis append.assoc append_Cons append_Nil and_then_simps(2) for_each.simps(2))
qed

lemma input_chunks:
  assumes "holding a r c" "counted (length (a @ r)) c" "\<not> Computed c" "8 * (length (a @ r) + length (concat ms)) < 2 ^ 64"
  shows "\<exists>a' r' c'. for_each ms SHA1Input c = Inr c' \<and> holding a' r' c' \<and> a' @ r' = a @ r @ concat ms \<and>
    counted (length (a' @ r')) c' \<and> \<not> Computed c'"
  using assms
proof (induction ms arbitrary: a r c)
  case Nil
  then show ?case by auto
next
  case (Cons m ms)
  have "SHA1Input m c = for_each m input_byte c" using Cons.prems(2,3) by (simp add: SHA1Input_def counted_def)
  moreover obtain a1 r1 c1 where c1: "for_each m input_byte c = Inr c1" "holding a1 r1 c1" "a1 @ r1 = a @ r @ m"
    "counted (length (a @ r @ m)) c1" "Computed c1 = Computed c"
    using input_bytes [OF Cons.prems(1,2), of m] Cons.prems(4) by auto
  moreover have l: "length (a1 @ r1) = length (a @ r @ m)" using c1(3) by simp
  have "counted (length (a1 @ r1)) c1" using c1(4) unfolding l .
  moreover have "8 * (length (a1 @ r1) + length (concat ms)) < 2 ^ 64" unfolding l using Cons.prems(4) by simp
  ultimately show ?case using Cons.IH [of a1 r1 c1] Cons.prems(3) by force
qed

lemma length_bytes_of_count:
  fixes lo hi :: "32 word"
  assumes "2 ^ 32 * unat hi + unat lo = n" "n < 2 ^ 64"
  shows "map (\<lambda>k. ucast (drop_bit k hi)) [24, 16, 8, 0] @ map (\<lambda>k. ucast (drop_bit k lo)) [24, 16, 8, 0] =
    (map (\<lambda>k. ucast (drop_bit k (of_nat n :: 64 word))) [56, 48, 40, 32, 24, 16, 8, 0] :: byte list)"
proof -
  let ?w = "of_nat n :: 64 word"
  have lo: "unat lo < 2 ^ 32" using unsigned_less [of lo, where ?'a = nat] by simp
  have w: "unat ?w = n" using assms(2) by (simp add: unsigned_of_nat take_bit_nat_eq_self)
  have "unat hi = n div 2 ^ 32" using assms(1) lo by (simp flip: assms(1))
  moreover have "unat (drop_bit 32 ?w) = n div 2 ^ 32"
    using assms(2) by (simp add: unsigned_drop_bit_eq w drop_bit_eq_div [where ?'a = nat] take_bit_nat_eq_self)
  ultimately have "unat hi = unat (drop_bit 32 ?w)" by simp
  then have hi: "hi = ucast (drop_bit 32 ?w)"
    by (intro unsigned_word_eqI [where ?'a = nat])
      (use unsigned_less [of hi, where ?'a = nat] in \<open>simp only: unsigned_ucast_eq, simp add: take_bit_nat_eq_self\<close>)
  have "unat lo = n mod 2 ^ 32" using assms(1) lo by (simp flip: assms(1))
  then have lo: "lo = ucast ?w"
    by (intro unsigned_word_eqI [where ?'a = nat]) (simp add: unsigned_ucast_eq w take_bit_eq_mod)
  show ?thesis unfolding hi lo by (auto simp: bit_simps intro!: bit_word_eqI)
qed

lemma pad_message:
  assumes "holding a r c" "counted (length (a @ r)) c" "8 * length (a @ r) < 2 ^ 64"
  shows "\<exists>c'. SHA1PadMessage c = Inr c' \<and> Message_Digest c' = fips_sha1 (a @ r) \<and> \<not> Corrupted c'"
proof -
  let ?n = "map (\<lambda>k. ucast (drop_bit k (of_nat (8 * length (a @ r)) :: 64 word))) [56, 48, 40, 32, 24, 16, 8, 0] :: byte list"
  have h: "length a mod 64 = 0" "length r < 64" "length (Message_Block c) = 64" "Message_Digest c = chained a"
    "Message_Block_Index c = length r" "take (length r) (Message_Block c) = r" and n: "\<not> Corrupted c"
    using assms(1,2) by (simp_all add: holding_def counted_def)
  have bytes: "map (\<lambda>n. ucast (drop_bit n (Length_High c))) [24, 16, 8, 0] @
      map (\<lambda>n. ucast (drop_bit n (Length_Low c))) [24, 16, 8, 0] = ?n"
    by (rule length_bytes_of_count) (use assms(2,3) in \<open>simp_all add: counted_def\<close>)
  have m: "length (a @ r) mod 64 = length r" using h(1,2) by (simp add: mod_add_left_eq [symmetric])
  let ?p = "c\<lparr>Message_Block := r @ 0x80 # drop (Suc (length r)) (Message_Block c), Message_Block_Index := Suc (length r)\<rparr>"
  have p: "put_byte 0x80 c = Inr ?p" by (rule put_byte_holding) (use h in simp_all)
  have last: "\<exists>c'. and_then (store 56 (map (\<lambda>n. ucast (drop_bit n (Length_High d))) [24, 16, 8, 0] @
         map (\<lambda>n. ucast (drop_bit n (Length_Low d))) [24, 16, 8, 0]) (Message_Block d))
       (\<lambda>b. Inr (SHA1ProcessMessageBlock (d\<lparr>Message_Block := b\<rparr>))) = Inr c' \<and>
     Message_Digest c' = chained (x @ y @ ?n) \<and> \<not> Corrupted c'"
    if d: "Length_High d = Length_High c" "Length_Low d = Length_Low c" "Message_Digest d = chained x" "length x mod 64 = 0"
      "take 56 (Message_Block d) = y" "length y = 56" "length (Message_Block d) = 64" "\<not> Corrupted d" for d x y
  proof -
    have "store 56 ?n (Message_Block d) = Inr (y @ ?n)"
      unfolding store_def d(5) using d(7) by simp
    then show ?thesis unfolding d(1,2) bytes
      using d(3,4,6,8) chained_append [of x "y @ ?n"] by (simp add: process_block length_chained)
  qed
  show ?thesis
  proof (cases "length r > 55")
    case True
    let ?b = "(r @ [0x80]) @ replicate (64 - length (r @ [0x80])) 0"
    have "put_zeros 64 ?p = Inr (?p\<lparr>Message_Block := ?b @ drop 64 (Message_Block ?p), Message_Block_Index := 64\<rparr>)"
      using put_zeros_holding [of ?p "r @ [0x80]" 64] h by simp
    then have z: "put_zeros 64 ?p = Inr (?p\<lparr>Message_Block := ?b, Message_Block_Index := 64\<rparr>)" using h by simp
    let ?q = "?p\<lparr>Message_Block := ?b, Message_Digest := chained (a @ ?b), Message_Block_Index := 0\<rparr>"
    have q: "SHA1ProcessMessageBlock (?p\<lparr>Message_Block := ?b, Message_Block_Index := 64\<rparr>) = ?q"
      using h by (simp add: process_block length_chained chained_append)
    let ?s = "?q\<lparr>Message_Block := replicate 56 0 @ drop 56 ?b, Message_Block_Index := 56\<rparr>"
    have s: "put_zeros 56 ?q = Inr ?s"
      using put_zeros_holding [of ?q "[]" 56] h by simp
    have "\<exists>c'. SHA1PadMessage c = Inr c' \<and> Message_Digest c' = chained ((a @ ?b) @ replicate 56 0 @ ?n) \<and> \<not> Corrupted c'"
      unfolding SHA1PadMessage_def using True h(5) n
      by (simp only: p z q s and_then_simps if_True, intro last) (use h in \<open>simp_all add: mod_add_left_eq [symmetric]\<close>)
    moreover have "(a @ ?b) @ replicate 56 0 @ ?n = fips_pad (a @ r)"
    proof -
      have "(119 - length r) mod 64 = 119 - length r" using True by simp
      moreover have "replicate (63 - length r) 0 @ replicate 56 0 = replicate (119 - length r) (0::byte)"
        using h(2) by (simp flip: replicate_add)
      ultimately show ?thesis unfolding fips_pad_def m by simp
    qed
    ultimately show ?thesis by (simp add: fips_sha1_def chained_def)
  next
    case False
    define b :: "byte list" where "b = (r @ [0x80]) @ replicate (56 - length (r @ [0x80])) 0"
    have b: "length b = 56" using False by (simp add: b_def)
    let ?s = "?p\<lparr>Message_Block := b @ drop 56 (Message_Block ?p), Message_Block_Index := 56\<rparr>"
    have s: "put_zeros 56 ?p = Inr ?s" using put_zeros_holding [of ?p "r @ [0x80]" 56] h False by (simp add: b_def)
    have "length (Message_Block ?p) = 64" using h by simp
    then have "\<exists>c'. SHA1PadMessage c = Inr c' \<and> Message_Digest c' = chained (a @ b @ ?n) \<and> \<not> Corrupted c'"
      unfolding SHA1PadMessage_def using False h(5) n
      by (simp only: p s and_then_simps if_False, intro last) (use h(1,4) b in simp_all)
    moreover have "a @ b @ ?n = fips_pad (a @ r)"
    proof -
      have "(119 - length r) mod 64 = 55 - length r" using False by (simp add: mod_if)
      then show ?thesis unfolding fips_pad_def m b_def by simp
    qed
    ultimately show ?thesis by (simp add: fips_sha1_def chained_def)
  qed
qed

lemma sha1_runs:
  assumes "length (Message_Block c) = 64" and "8 * length (concat ms) < 2 ^ 64"
  shows "\<exists>c'. and_then (for_each ms SHA1Input (SHA1Reset c)) SHA1Result = Inr (1, c') \<and>
    Message_Digest c' = fips_sha1 (concat ms) \<and> Computed c' \<and> \<not> Corrupted c'"
proof -
  have "holding [] [] (SHA1Reset c)" "counted (length ([] @ [])) (SHA1Reset c)" "\<not> Computed (SHA1Reset c)"
    using assms(1) by (simp_all add: holding_def counted_def SHA1Reset_def chained_def fips_start_def blocks64.simps [of "[]"])
  from input_chunks [OF this, of ms] assms(2) obtain a r c1 where c1: "for_each ms SHA1Input (SHA1Reset c) = Inr c1"
    "holding a r c1" "a @ r = concat ms" "counted (length (a @ r)) c1" "\<not> Computed c1"
    by (metis append_Nil add_0 list.size(3) length_append)
  from pad_message [OF c1(2,4)] c1(3) assms(2) obtain c2 where c2: "SHA1PadMessage c1 = Inr c2"
    "Message_Digest c2 = fips_sha1 (concat ms)" "\<not> Corrupted c2" by auto
  then show ?thesis using c1(1,4,5)
    by (intro exI [of _ "c2\<lparr>Computed := True\<rparr>"]) (simp add: SHA1Result_def counted_def)
qed

text \<open>
  C25.  A message of less than \<open>2 ^ 64\<close> bits that is handed over in any pieces (of less than \<open>2 ^ 32\<close> bytes
  each, what the length argument can say) has the digest FIPS 180-4 gives for the whole message.  Asking for it again gives the same, and more input after that is
  refused: the next result is 0.
\<close>

theorem digest_of_pieces:
  assumes "length (Message_Block c) = 64" and "8 * length (concat ms) < 2 ^ 64"
  shows "\<exists>c'. and_then (for_each ms SHA1Input (SHA1Reset c)) SHA1Result = Inr (1, c') \<and>
    Message_Digest c' = fips_sha1 (concat ms) \<and> SHA1Result c' = Inr (1, c') \<and>
    and_then (SHA1Input (b # bs) c') SHA1Result = Inr (0, c'\<lparr>Corrupted := True\<rparr>)"
  using sha1_runs [OF assms] by (auto simp: SHA1Result_def SHA1Input_def)

theorem digest_of_pieces_witness:
  "\<exists>c. and_then (for_each [[0x61], [], [0x62, 0x63]] SHA1Input (SHA1Reset
      \<lparr>Message_Digest = [], Length_Low = 0, Length_High = 0, Message_Block = replicate 64 7, Message_Block_Index = 0,
       Computed = False, Corrupted = False\<rparr>)) SHA1Result = Inr (1, c) \<and>
    Message_Digest c = fips_sha1 [0x61, 0x62, 0x63]"
  using digest_of_pieces [of "\<lparr>Message_Digest = [], Length_Low = 0, Length_High = 0, Message_Block = replicate 64 7,
    Message_Block_Index = 0, Computed = False, Corrupted = False\<rparr>" "[[0x61], [], [0x62, 0x63]]" 0 "[]"]
  by (auto simp del: for_each.simps)

end
