(* ===== verification/Sr_Session.thy ===== *)
theory Sr_Session
  imports Sr_Router Sr_Sha1
begin

text \<open>
  The session with the VNS server (\<open>sr_vns_comm.c\<close> and \<open>main\<close> of \<open>sr_main.c\<close>): reading a message from the
  connection, what each kind of message does, authentication, opening the session and the main
  loop.  The router runs without a log file.
\<close>

subsection \<open>Strings in memory\<close>

definition c_string :: "byte list \<Rightarrow> sr_fault + byte list" where
  "c_string bs = (if 0 \<in> set bs then Inr (takeWhile (\<lambda>b. b \<noteq> 0) bs) else Inl Out_Of_Bounds)"

text \<open>\<open>strncpy\<close> fills the array with zeros, or leaves no zero at all.\<close>

definition strncpy :: "nat \<Rightarrow> byte list \<Rightarrow> byte list" where
  "strncpy n s = (let w = takeWhile (\<lambda>b. b \<noteq> 0) (take n s) in w @ replicate (n - length w) 0)"

text \<open>A line of at most \<open>n - 1\<close> bytes, its newline included.\<close>

definition fgets :: "nat \<Rightarrow> byte list \<Rightarrow> byte list" where
  "fgets n file = take (n - 1) (takeWhile (\<lambda>b. b \<noteq> 10) file @ (if 10 \<in> set file then [10] else []))"

subsection \<open>The state\<close>

text \<open>
  What the calls of \<open>recv\<close> and \<open>read\<close> find: bytes, of which a call takes as many as it asks for; a
  signal, after which the call is repeated; an error; or the end of the connection, after which
  every call returns 0.
\<close>

datatype arrival = Bytes "byte list" | Signal | Failure | Closed

text \<open>
  \<open>struct sr_instance\<close> around the router, and the environment: \<open>arrivals\<close> and \<open>sent\<close> are the connection,
  \<open>sends\<close> says whether \<open>send\<close> takes everything, \<open>key_file\<close> is the file with the key (\<open>None\<close> when it cannot be
  opened), \<open>written\<close> has the files that were written, if \<open>writable\<close>, and \<open>old_key\<close> and \<open>old_sha1\<close> are what the
  stack holds before.
\<close>

record session =
  this_router :: router
  sr_user :: "byte list"
  sr_host :: "byte list"
  sr_template :: "byte list"
  sr_topo_id :: "16 word"
  socket_closed :: bool
  arrivals :: "arrival list"
  sent :: "byte list list"
  sends :: bool
  key_file :: "byte list option"
  writable :: bool
  written :: "(byte list \<times> byte list) list"
  old_key :: "byte list"
  old_sha1 :: SHA1Context

definition send_message :: "byte list \<Rightarrow> session \<Rightarrow> session" where
  "send_message bs s = (if sends s then s\<lparr>sent := sent s @ [bs]\<rparr> else s)"

subsection \<open>Messages\<close>

abbreviation (input) IDSIZE :: nat where "IDSIZE \<equiv> 32"
abbreviation (input) AUTH_KEY_LEN :: nat where "AUTH_KEY_LEN \<equiv> 64"
abbreviation (input) VNS_OPEN :: int where "VNS_OPEN \<equiv> 1"
abbreviation (input) VNS_CLOSE :: int where "VNS_CLOSE \<equiv> 2"
abbreviation (input) VNS_PACKET :: int where "VNS_PACKET \<equiv> 4"
abbreviation (input) VNS_BANNER :: int where "VNS_BANNER \<equiv> 8"
abbreviation (input) VNS_HWINFO :: int where "VNS_HWINFO \<equiv> 16"
abbreviation (input) VNS_RTABLE :: int where "VNS_RTABLE \<equiv> 32"
abbreviation (input) VNS_OPEN_TEMPLATE :: int where "VNS_OPEN_TEMPLATE \<equiv> 64"
abbreviation (input) VNS_AUTH_REQUEST :: int where "VNS_AUTH_REQUEST \<equiv> 128"
abbreviation (input) VNS_AUTH_REPLY :: int where "VNS_AUTH_REPLY \<equiv> 256"
abbreviation (input) VNS_AUTH_STATUS :: int where "VNS_AUTH_STATUS \<equiv> 512"

definition net32 :: "int \<Rightarrow> byte list" where
  "net32 n = bytes32 (ntohl (of_int n))"

text \<open>\<open>c_open\<close> and \<open>c_open_template\<close>\<close>

definition open_message :: "session \<Rightarrow> byte list" where
  "open_message s = net32 108 @ net32 VNS_OPEN @ bytes16 (htons (sr_topo_id s)) @ [0, 0] @
     strncpy IDSIZE (sr_host s) @ strncpy IDSIZE (sr_user s) @ replicate IDSIZE 0"

definition template_message :: "session \<Rightarrow> byte list" where
  "template_message s = net32 70 @ net32 VNS_OPEN_TEMPLATE @ strncpy 30 (sr_template s) @ strncpy IDSIZE (sr_host s)"

text \<open>In what follows \<open>data\<close> is a message behind its length and its type.\<close>

primrec hw_entries :: "nat \<Rightarrow> byte list \<Rightarrow> c_hw_entry list" where
  "hw_entries 0 data = []"
| "hw_entries (Suc n) data =
     (unat (ntohl (word32 (take 4 data))), take 32 (drop 4 data)) # hw_entries n (drop 36 data)"

definition sr_handle_rtable :: "byte list \<Rightarrow> session \<Rightarrow> sr_fault + int \<times> session" where
  "sr_handle_rtable data s =
     and_then (c_string data) (\<lambda>name.
     if length name > IDSIZE then Inl Out_Of_Bounds
     else if \<not> writable s then Inr (0, s)
     else if length data < IDSIZE then Inl Out_Of_Bounds
     else Inr (1, s\<lparr>written := written s @ [([114, 116, 97, 98, 108, 101, 46] @ name, drop IDSIZE data)]\<rparr>))"

text \<open>The bytes \<open>auth_key\<close> has after \<open>fgets\<close>, which does not fill it when the line is shorter.\<close>

definition auth_key :: "byte list \<Rightarrow> session \<Rightarrow> byte list" where
  "auth_key file s = (let line = fgets (AUTH_KEY_LEN + 1) file in
     take AUTH_KEY_LEN (line @ [0] @ drop (length line + 1) (old_key s)))"

definition auth_reply :: "byte list \<Rightarrow> 32 word list \<Rightarrow> byte list" where
  "auth_reply name digest = net32 (12 + int (length name) + 20) @ net32 VNS_AUTH_REPLY @ net32 (int (length name)) @
     name @ concat (map (\<lambda>w. bytes32 (ntohl w)) digest)"

definition sr_handle_auth_request :: "byte list \<Rightarrow> session \<Rightarrow> sr_fault + int \<times> session" where
  "sr_handle_auth_request data s =
     (case key_file s of
        None \<Rightarrow> Inr (0, s)
      | Some file \<Rightarrow>
          if file = [] then Inr (0, s)
          else
            and_then (SHA1Input data (SHA1Reset (old_sha1 s))) (\<lambda>c.
            and_then (SHA1Input (auth_key file s) c) (\<lambda>c.
            and_then (SHA1Result c) (\<lambda>(r, c).
            if r = 0 then Inr (0, s)
            else
              and_then (c_string (sr_user s)) (\<lambda>name.
              Inr (if sends s then 1 else 0, send_message (auth_reply name (Message_Digest c)) s))))))"

definition sr_handle_auth_status :: "byte list \<Rightarrow> session \<Rightarrow> sr_fault + int" where
  "sr_handle_auth_status data s =
     (case data of
        [] \<Rightarrow> Inl Out_Of_Bounds
      | ok # msg \<Rightarrow>
          and_then (c_string (sr_user s)) (\<lambda>_.
          if ok \<noteq> 0 then Inr (uint ok) else and_then (c_string msg) (\<lambda>_. Inr 0)))"

text \<open>
  The name of the interface is not copied: it ends at the first zero, or with the 32 characters
  that are compared.  \<open>strncmp\<close> stops at the first difference, so a name that is cut off is read beyond
  the message only when an interface has a name that begins with it; a packet too short for an Ethernet header is
  dropped before the name is compared.  A message without room for the name has a length that is huge as
  an unsigned number.
\<close>

definition interface_name :: "byte list \<Rightarrow> router \<Rightarrow> sr_fault + string" where
  "interface_name data sr =
     (if 0 \<in> set data \<or> 32 \<le> length data \<or> (16 \<le> length data \<and> length data < 16 + ETHER_HDR_LEN)
        \<or> (\<forall>i \<in> set (if_list sr). take (length data) (if_name i) \<noteq> string_of data)
      then Inr (string_of data) else Inl Out_Of_Bounds)"

definition on_router :: "vns_command \<Rightarrow> session \<Rightarrow> sr_fault + int \<times> session" where
  "on_router c s = and_then (sr_command c (this_router s)) (\<lambda>(r, sr). Inr (r, s\<lparr>this_router := sr\<rparr>))"

definition handle_packet :: "byte list \<Rightarrow> session \<Rightarrow> sr_fault + int \<times> session" where
  "handle_packet data s =
     and_then (interface_name data (this_router s)) (\<lambda>name.
     if length data < 16 then
       if sr_get_interface (this_router s) name = None then Inl Assertion_Failed else Inl Out_Of_Bounds
     else on_router (VNSPACKET name (drop 16 data)) s)"

definition failed :: "int \<times> session \<Rightarrow> int \<times> session" where
  "failed r = (if fst r = 0 then -1 else 1, snd r)"

definition handle_message :: "int \<Rightarrow> byte list \<Rightarrow> session \<Rightarrow> sr_fault + int \<times> session" where
  "handle_message command data s =
     (if command = VNS_PACKET then handle_packet data s
      else if command = VNS_CLOSE then and_then (c_string data) (\<lambda>_. on_router VNSCLOSE s)
      else if command = VNS_BANNER then and_then (c_string data) (\<lambda>_. on_router (VNSOTHER 1) s)
      else if command = VNS_HWINFO then on_router (VNSHWINFO (hw_entries (length data div 36) data)) s
      else if command = VNS_RTABLE then and_then (sr_handle_rtable data s) (\<lambda>r. Inr (failed r))
      else if command = VNS_AUTH_REQUEST then and_then (sr_handle_auth_request data s) (\<lambda>r. Inr (failed r))
      else if command = VNS_AUTH_STATUS then and_then (sr_handle_auth_status data s) (\<lambda>r. Inr (failed (r, s)))
      else Inr (1, s))"

subsection \<open>Reading\<close>

text \<open>The loops around \<open>recv\<close> and \<open>read\<close>: \<open>n\<close> bytes, or \<open>None\<close> when a call fails.\<close>

primrec receive :: "arrival list \<Rightarrow> nat \<Rightarrow> sr_fault + byte list option \<times> arrival list" where
  "receive [] n = (if n = 0 then Inr (Some [], []) else Inl Would_Block)"
| "receive (x # xs) n =
     (if n = 0 then Inr (Some [], x # xs)
      else
        case x of
          Bytes bs \<Rightarrow>
            if length bs \<le> n then
              and_then (receive xs (n - length bs)) (\<lambda>(r, xs). Inr (map_option (\<lambda>cs. bs @ cs) r, xs))
            else Inr (Some (take n bs), Bytes (drop n bs) # xs)
        | Signal \<Rightarrow> receive xs n
        | Failure \<Rightarrow> Inr (None, xs)
        | Closed \<Rightarrow> Inl Endless_Loop)"

text \<open>The buffer of a message of length 0 is what \<open>malloc(0)\<close> returns, a pointer that is not NULL as in glibc.\<close>

definition sr_read_from_server_expect :: "int \<Rightarrow> session \<Rightarrow> sr_fault + int \<times> session" where
  "sr_read_from_server_expect expected s =
     and_then (receive (arrivals s) 4) (\<lambda>(got, rest).
     let s = s\<lparr>arrivals := rest\<rparr> in
     case got of
       None \<Rightarrow> Inr (-1, s)
     | Some h \<Rightarrow>
         let len = sint (ntohl (word32 h)) in
         if len > 10000 \<or> len < 0 then Inr (-1, s\<lparr>socket_closed := True\<rparr>)
         else if len < 4 then Inl Out_Of_Bounds
         else
           and_then (receive (arrivals s) (nat len - 4)) (\<lambda>(got, rest).
           let s = s\<lparr>arrivals := rest\<rparr> in
           case got of
             None \<Rightarrow> Inr (-1, s\<lparr>socket_closed := True\<rparr>)
           | Some body \<Rightarrow>
               and_then (load32 0 body) (\<lambda>w.
               let command = sint (ntohl w) in
               if expected \<noteq> 0 \<and> command \<noteq> expected \<and> command \<noteq> VNS_CLOSE then Inr (-1, s)
               else handle_message command (drop 4 body) s)))"

definition sr_read_from_server :: "session \<Rightarrow> sr_fault + int \<times> session" where
  "sr_read_from_server s = sr_read_from_server_expect 0 s"

subsection \<open>Connecting\<close>

text \<open>The results of \<open>gethostbyname\<close>, \<open>socket\<close> and \<open>connect\<close> come first.\<close>

definition sr_connect_to_server :: "bool \<Rightarrow> int \<Rightarrow> int \<Rightarrow> session \<Rightarrow> sr_fault + int \<times> session" where
  "sr_connect_to_server found fd rc s =
     (if \<not> found then Inr (-1, s)
      else if fd < 0 then Inr (-1, s)
      else if rc < 0 then Inr (-1, s\<lparr>socket_closed := True\<rparr>)
      else
        and_then (sr_read_from_server_expect VNS_AUTH_REQUEST s) (\<lambda>(r, s).
        if r \<noteq> 1 then Inr (-1, s)
        else
          and_then (sr_read_from_server_expect VNS_AUTH_STATUS s) (\<lambda>(r, s).
          if r \<noteq> 1 then Inr (-1, s)
          else
            and_then (c_string (sr_template s)) (\<lambda>template.
            let s' = send_message (if template \<noteq> [] then template_message s else open_message s) s in
            if \<not> sends s then Inr (-1, s')
            else if template \<noteq> [] then
              and_then (sr_read_from_server_expect VNS_RTABLE s') (\<lambda>(r, s).
              Inr (if r \<noteq> 1 then -1 else 0, s))
            else Inr (0, s')))))"

text \<open>The main loop, with fuel: it ends when a message returns something other than 1.\<close>

primrec main_loop :: "nat \<Rightarrow> session \<Rightarrow> sr_fault + int \<times> session" where
  "main_loop 0 s = Inl Endless_Loop"
| "main_loop (Suc n) s =
     and_then (sr_read_from_server s) (\<lambda>(r, s). if r = 1 then main_loop n s else Inr (r, s))"

text \<open>
  \<open>main\<close> behind the options: \<open>template\<close> and \<open>user\<close> are the options of this name, \<open>pw\<close> is the name \<open>getpwuid\<close> finds,
  \<open>rtable\<close> and \<open>rtable2\<close> are the lines of the routing tables, read before or after connecting.  The result is the
  exit status.
\<close>

definition sr_init_instance :: "session \<Rightarrow> session" where
  "sr_init_instance s = s\<lparr>sr_user := (sr_user s)[0 := 0], sr_host := (sr_host s)[0 := 0], sr_topo_id := 0,
     this_router := (this_router s)\<lparr>if_list := [], routing_table := []\<rparr>\<rparr>"

definition sr_set_user :: "byte list option \<Rightarrow> session \<Rightarrow> session" where
  "sr_set_user pw s = s\<lparr>sr_user := strncpy 32 (case pw of
     None \<Rightarrow> [115, 111, 109, 101, 116, 104, 105, 110, 103, 95, 115, 105, 108, 108, 121] | Some name \<Rightarrow> name)\<rparr>"

definition sr_load_rt_wrap ::
  "(string \<Rightarrow> 32 word option) \<Rightarrow> string list option \<Rightarrow> string list \<Rightarrow> session \<Rightarrow> sr_fault + bool \<times> session" where
  "sr_load_rt_wrap aton lines bufs s =
     and_then (sr_load_rt aton lines bufs (this_router s)) (\<lambda>(r, sr). Inr (r = 0, s\<lparr>this_router := sr\<rparr>))"

definition sr_main ::
  "(string \<Rightarrow> 32 word option) \<Rightarrow> string list \<Rightarrow> byte list option \<Rightarrow> byte list \<Rightarrow> byte list option \<Rightarrow> byte list option \<Rightarrow>
   32 word \<Rightarrow> string list option \<Rightarrow> string list option \<Rightarrow> bool \<Rightarrow> int \<Rightarrow> int \<Rightarrow> nat \<Rightarrow> session \<Rightarrow> sr_fault + int \<times> session" where
  "sr_main aton bufs template host user pw topo rtable rtable2 found fd rc fuel s =
     (let s = sr_init_instance s in
      and_then
        (case template of
           None \<Rightarrow> sr_load_rt_wrap aton rtable bufs (s\<lparr>sr_template := (sr_template s)[0 := 0]\<rparr>)
         | Some t \<Rightarrow> Inr (True, s\<lparr>sr_template := strncpy 30 t\<rparr>)) (\<lambda>(loaded, s).
      if \<not> loaded then Inr (1, s)
      else
        let s = s\<lparr>sr_topo_id := ucast topo, sr_host := strncpy 32 host\<rparr>;
            s = (case user of None \<Rightarrow> sr_set_user pw s | Some u \<Rightarrow> s\<lparr>sr_user := strncpy 32 u\<rparr>)
        in
        and_then (sr_connect_to_server found fd rc s) (\<lambda>(r, s).
        if r = -1 then Inr (1, s)
        else
          and_then (if template \<noteq> None then sr_load_rt_wrap aton rtable2 bufs s else Inr (True, s)) (\<lambda>(loaded, s).
          if \<not> loaded then Inr (1, s)
          else
            and_then (main_loop fuel (s\<lparr>this_router := sr_init (this_router s)\<rparr>)) (\<lambda>(_, s). Inr (0, s))))))"

end
