(* ===== verification/Sr_Protocol.thy ===== *)
theory Sr_Protocol
  imports Sr_Session
begin

text \<open>
  The session with the VNS server: messages are read whole however they arrive, the commands
  among them are the commands of the router, the router signs on with the digest of the salt and
  its key, and what a server that does not keep to the protocol can do.
\<close>

subsection \<open>Messages arrive\<close>

text \<open>An arrival in pieces and with signals, but without an error or an end.\<close>

definition calm :: "arrival list \<Rightarrow> bool" where
  "calm xs \<longleftrightarrow> (\<forall>x \<in> set xs. x = Signal \<or> (\<exists>bs. x = Bytes bs))"

definition pieces :: "arrival list \<Rightarrow> byte list" where
  "pieces xs = concat (map (\<lambda>x. case x of Bytes bs \<Rightarrow> bs | _ \<Rightarrow> []) xs)"

definition vns_message :: "int \<Rightarrow> byte list \<Rightarrow> byte list" where
  "vns_message t data = net32 (8 + int (length data)) @ net32 t @ data"

lemma pieces_simps [simp]:
  "pieces [] = []" "pieces (Bytes bs # xs) = bs @ pieces xs" "pieces (Signal # xs) = pieces xs"
  by (simp_all add: pieces_def)

lemma calm_simps [simp]: "calm []" "calm (x # xs) \<longleftrightarrow> (x = Signal \<or> (\<exists>bs. x = Bytes bs)) \<and> calm xs"
  by (auto simp: calm_def)

lemma receive_calm:
  "calm xs \<Longrightarrow> n \<le> length (pieces xs) \<Longrightarrow>
   \<exists>rest. receive xs n = Inr (Some (take n (pieces xs)), rest) \<and> calm rest \<and> pieces rest = drop n (pieces xs)"
proof (induction xs arbitrary: n)
  case (Cons x xs)
  from Cons.prems(1) consider (sig) "x = Signal" | (bytes) bs where "x = Bytes bs" by auto
  then show ?case
  proof cases
    case sig
    then show ?thesis using Cons by simp
  next
    case bytes
    show ?thesis
    proof (cases "n \<noteq> 0 \<and> length bs \<le> n")
      case True
      have "n - length bs \<le> length (pieces xs)" "calm xs" using Cons.prems by (auto simp: bytes)
      from Cons.IH [OF this(2,1)] obtain rest where
        "receive xs (n - length bs) = Inr (Some (take (n - length bs) (pieces xs)), rest)" "calm rest"
        "pieces rest = drop (n - length bs) (pieces xs)" by blast
      then show ?thesis using True by (simp add: bytes)
    next
      case False
      then show ?thesis using Cons.prems by (auto simp: bytes)
    qed
  qed
qed simp

lemma length_strncpy [simp]: "length (strncpy n s) = n"
  using length_takeWhile_le [of "\<lambda>b. b \<noteq> 0" "take n s"] by (simp add: strncpy_def Let_def)

lemma takeWhile_to_zero [simp]: "0 \<notin> set w \<Longrightarrow> takeWhile (\<lambda>b. b \<noteq> 0) (w @ 0 # bs) = w" for w :: "byte list"
  by (induction w) auto

lemma length_net32 [simp]: "length (net32 n) = 4" by (simp add: net32_def)

lemma net32_value: "- (2 ^ 31) \<le> n \<Longrightarrow> n < 2 ^ 31 \<Longrightarrow> sint (ntohl (word32 (net32 n))) = n"
  by (simp add: net32_def signed_of_int signed_take_bit_int_eq_self)

lemma read_message:
  assumes "calm (arrivals s)" and "pieces (arrivals s) = vns_message t data @ later" and "length data \<le> 9992"
    and "0 \<le> t" and "t < 2 ^ 31" and "e = 0 \<or> t = e \<or> t = VNS_CLOSE"
  shows "\<exists>rest. calm rest \<and> pieces rest = later \<and>
    sr_read_from_server_expect e s = handle_message t data (s\<lparr>arrivals := rest\<rparr>)"
proof -
  let ?n = "8 + int (length data)"
  obtain r1 where r1: "receive (arrivals s) 4 = Inr (Some (net32 ?n), r1)" "calm r1" "pieces r1 = net32 t @ data @ later"
    using receive_calm [OF assms(1), of 4] assms(2) by (auto simp: vns_message_def)
  obtain r2 where r2: "receive r1 (length data + 4) = Inr (Some (net32 t @ data), r2)" "calm r2" "pieces r2 = later"
    using receive_calm [OF r1(2), of "length data + 4"] r1(3) by auto
  have v: "sint (ntohl (word32 (net32 ?n))) = ?n" "sint (ntohl (word32 (net32 t))) = t"
    by (rule net32_value; use assms(3-5) in simp)+
  have l: "load32 0 (net32 t @ data) = Inr (word32 (net32 t))" by (simp add: load32_def load_def)
  have n: "nat ?n - 4 = length data + 4" by simp
  have "sr_read_from_server_expect e s = handle_message t data (s\<lparr>arrivals := r2\<rparr>)"
    unfolding sr_read_from_server_expect_def r1(1) and_then_simps prod.case option.case Let_def v(1)
    using assms(3,6) by (auto simp: n r2(1) l v(2) Let_def)
  then show ?thesis using r2 by blast
qed

subsection \<open>Commands for the router\<close>

text \<open>The messages for the commands of the router; any other message that changes nothing is a banner.\<close>

definition hw_bytes :: "c_hw_entry \<Rightarrow> byte list" where
  "hw_bytes e = net32 (int (fst e)) @ snd e"

fun command_type :: "vns_command \<Rightarrow> int" where
  "command_type (VNSPACKET name packet) = VNS_PACKET"
| "command_type VNSCLOSE = VNS_CLOSE"
| "command_type (VNSHWINFO es) = VNS_HWINFO"
| "command_type (VNSOTHER r) = VNS_BANNER"

fun command_data :: "vns_command \<Rightarrow> byte list" where
  "command_data (VNSPACKET name packet) = strncpy 16 (map of_char name) @ packet"
| "command_data VNSCLOSE = [0]"
| "command_data (VNSHWINFO es) = concat (map hw_bytes es)"
| "command_data (VNSOTHER r) = [104, 105, 0]"

fun sendable :: "vns_command \<Rightarrow> bool" where
  "sendable (VNSPACKET name packet) = (length name < 16 \<and> NUL \<notin> set name \<and> length packet \<le> 9976)"
| "sendable VNSCLOSE = True"
| "sendable (VNSHWINFO es) = (length es \<le> 277 \<and> (\<forall>e \<in> set es. hw_sized e \<and> fst e < 2 ^ 31))"
| "sendable (VNSOTHER r) = (r = 1)"

lemma command_length: "sendable c \<Longrightarrow> length (command_data c) \<le> 9992"
proof (cases c)
  case (VNSHWINFO es)
  assume "sendable c"
  moreover have "(\<forall>e \<in> set es. hw_sized e) \<Longrightarrow> length (concat (map hw_bytes es)) = 36 * length es"
    by (induction es) (auto simp: hw_bytes_def hw_sized_def)
  ultimately show ?thesis using VNSHWINFO by simp
qed simp_all

lemma hw_entries_bytes:
  "(\<forall>e \<in> set es. hw_sized e \<and> fst e < 2 ^ 31) \<Longrightarrow>
   length (concat (map hw_bytes es)) = 36 * length es \<and> hw_entries (length es) (concat (map hw_bytes es)) = es"
proof (induction es)
  case (Cons e es)
  have e: "length (snd e) = 32" "fst e < 2 ^ 31" using Cons.prems by (auto simp: hw_sized_def)
  have "unat (ntohl (word32 (net32 (int (fst e))))) = fst e"
    using e(2) by (simp add: net32_def unsigned_of_nat take_bit_nat_eq_self)
  then show ?case using Cons e(1) by (simp add: hw_bytes_def)
qed simp

lemma name_bytes:
  assumes "NUL \<notin> set name" "length name < 16"
  shows "strncpy 16 (map of_char name) = map of_char name @ replicate (16 - length name) 0"
    and "0 \<in> set (strncpy 16 (map of_char name) @ bs)"
    and "string_of (strncpy 16 (map of_char name) @ bs) = name"
proof -
  have nul: "char_of (0 :: nat) = NUL" by code_simp
  have u: "char_of (unat (of_char c :: byte)) = c" for c
  proof -
    have "(of_char c :: byte) = of_nat (of_char c)" by (rule of_nat_of_char [symmetric])
    then have "unat (of_char c :: byte) = of_char c"
      using nat_of_char_less_256 [of c] by (simp only: unsigned_of_nat) (simp add: take_bit_nat_eq_self)
    then show ?thesis by simp
  qed
  have z: "of_char c \<noteq> (0 :: byte)" if "c \<in> set name" for c
  proof
    assume "of_char c = (0 :: byte)"
    then have "c = NUL" using u [of c] nul by simp
    then show False using that assms(1) by simp
  qed
  show eq: "strncpy 16 (map of_char name) = map of_char name @ replicate (16 - length name) 0"
    using assms(2) z by (simp add: strncpy_def takeWhile_eq_all_conv [THEN iffD2])
  show "0 \<in> set (strncpy 16 (map of_char name) @ bs)" using assms(2) by (simp add: eq)
  have m: "map (\<lambda>b. char_of (unat b)) (map of_char name :: byte list) = name" by (simp add: comp_def u)
  have t: "takeWhile (\<lambda>c. c \<noteq> NUL) (name @ NUL # cs) = name" for cs using assms(1) by (induction name) auto
  have "16 - length name = Suc (15 - length name)" using assms(2) by simp
  then show "string_of (strncpy 16 (map of_char name) @ bs) = name"
    by (simp add: string_of_def eq cstring_def m [unfolded map_map] t nul)
qed

lemma handle_command:
  assumes "sendable c"
  shows "handle_message (command_type c) (command_data c) s = on_router c s"
proof (cases c)
  case (VNSPACKET name packet)
  then have n: "NUL \<notin> set name" "length name < 16" using assms by simp_all
  note b = name_bytes [OF n]
  have "length (strncpy 16 (map of_char name)) = 16" using n by (simp add: b(1))
  then show ?thesis using VNSPACKET b(2,3) by (simp add: handle_message_def handle_packet_def interface_name_def)
next
  case (VNSHWINFO es)
  then show ?thesis using assms hw_entries_bytes [of es] by (simp add: handle_message_def)
qed (use assms in \<open>simp_all add: handle_message_def c_string_def\<close>)

text \<open>The commands one after the other, until one ends the loop; then more are waited for.\<close>

primrec perform :: "vns_command list \<Rightarrow> router \<Rightarrow> sr_fault + int \<times> router" where
  "perform [] sr = Inl Would_Block"
| "perform (c # cs) sr = and_then (sr_command c sr) (\<lambda>(r, sr). if r = 1 then perform cs sr else Inr (r, sr))"

lemma on_router_Inr: "on_router c s = (case sr_command c (this_router s) of
    Inl e \<Rightarrow> Inl e | Inr (r, sr) \<Rightarrow> Inr (r, s\<lparr>this_router := sr\<rparr>))"
  by (simp add: on_router_def and_then_def)

text \<open>
  C23.  However the connection splits the messages, and whatever signals interrupt the calls, the main loop
  performs the commands they carry one after the other on the router, up to one that ends it: it has the result
  and the router of \<open>perform\<close>, faults where \<open>perform\<close> does, and waits when there are no more messages.
\<close>

theorem commands_arrive:
  "calm (arrivals s) \<Longrightarrow> pieces (arrivals s) = concat (map (\<lambda>c. vns_message (command_type c) (command_data c)) cs) \<Longrightarrow>
   \<forall>c \<in> set cs. sendable c \<Longrightarrow> length cs < n \<Longrightarrow>
   (case perform cs (this_router s) of
      Inl e \<Rightarrow> main_loop n s = Inl e
    | Inr (r, sr) \<Rightarrow> \<exists>rest. main_loop n s = Inr (r, s\<lparr>arrivals := rest, this_router := sr\<rparr>))"
proof (induction cs arbitrary: s n)
  case Nil
  have "receive xs 4 = Inl Would_Block" if "calm xs" "pieces xs = []" for xs
    using that by (induction xs) (auto simp: calm_def pieces_def)
  then show ?case using Nil by (cases n) (simp_all add: sr_read_from_server_def sr_read_from_server_expect_def)
next
  case (Cons c cs)
  obtain k where n: "n = Suc k" using Cons.prems(4) by (cases n) auto
  have c: "sendable c" "0 \<le> command_type c" "command_type c < 2 ^ 31"
    using Cons.prems(3) by (cases c; simp)+
  obtain rest where rest: "calm rest" "pieces rest = concat (map (\<lambda>c. vns_message (command_type c) (command_data c)) cs)"
    "sr_read_from_server_expect 0 s = on_router c (s\<lparr>arrivals := rest\<rparr>)"
    using read_message [OF Cons.prems(1) _ command_length [OF c(1)] c(2,3), of _ 0] Cons.prems(2)
    by (auto simp: handle_command [OF c(1)])
  show ?case
  proof (cases "sr_command c (this_router s)")
    case (Inl e)
    then show ?thesis using rest(3) by (simp add: n sr_read_from_server_def on_router_Inr)
  next
    case (Inr p)
    obtain r sr where p: "p = (r, sr)" by (cases p)
    let ?s = "s\<lparr>arrivals := rest, this_router := sr\<rparr>"
    have run: "main_loop n s = (if r = 1 then main_loop k ?s else Inr (r, ?s))"
      using rest(3) Inr by (simp add: n sr_read_from_server_def on_router_Inr p)
    have "case perform cs sr of Inl e \<Rightarrow> main_loop k ?s = Inl e
      | Inr (r, sr) \<Rightarrow> \<exists>rest'. main_loop k ?s = Inr (r, ?s\<lparr>arrivals := rest', this_router := sr\<rparr>)"
      using Cons.IH [of ?s k] rest Cons.prems(3,4) n by simp
    then show ?thesis using Inr p run by (auto split: sum.splits)
  qed
qed

text \<open>A router with a route by its interface to be, and what it is told.\<close>

definition sample :: session where
  "sample = \<lparr>this_router = \<lparr>if_list = [], routing_table = [\<lparr>rt_dest = 0, rt_gw = 0, rt_mask = 0, rt_interface = ''eth0''\<rparr>],
       sr_arp_cache = [], sr_arp_queue = [], arpq_dangling = False, log = [], now = 0, junk = (\<lambda>_. 0), junk_ip = 0, junk_len = 0\<rparr>,
     sr_user = strncpy 32 [97, 98], sr_host = strncpy 32 [118], sr_template = strncpy 30 [], sr_topo_id = 7, socket_closed = False,
     arrivals = [], sent = [], sends = True, key_file = Some [107, 101, 121, 10], writable = True, written = [],
     old_key = replicate 65 1, old_sha1 = \<lparr>Message_Digest = [], Length_Low = 0, Length_High = 0,
       Message_Block = replicate 64 0, Message_Block_Index = 0, Computed = False, Corrupted = False\<rparr>\<rparr>"

definition sample_commands :: "vns_command list" where
  "sample_commands = [VNSOTHER 1, VNSHWINFO [(1, strncpy 32 [101, 116, 104, 48]), (64, strncpy 32 [10, 1, 1, 1])], VNSCLOSE]"

definition sample_stream :: "byte list" where
  "sample_stream = concat (map (\<lambda>c. vns_message (command_type c) (command_data c)) sample_commands)"

lemma result_case: "case x of Inl e \<Rightarrow> False | Inr (r, y) \<Rightarrow> r = k \<and> Q y \<Longrightarrow> \<exists>y. x = Inr (k, y) \<and> Q y"
  by (cases x) auto

theorem commands_arrive_witness:
  "\<exists>sr rest. main_loop 4 (sample\<lparr>arrivals := [Bytes (take 3 sample_stream), Signal, Bytes [], Bytes (drop 3 sample_stream)]\<rparr>) =
      Inr (0, sample\<lparr>arrivals := rest, this_router := sr\<rparr>) \<and>
    map if_name (if_list sr) = [''eth0''] \<and> map if_ip (if_list sr) = [0x0101010A]"
proof -
  let ?s = "sample\<lparr>arrivals := [Bytes (take 3 sample_stream), Signal, Bytes [], Bytes (drop 3 sample_stream)]\<rparr>"
  define P where "P sr \<longleftrightarrow> map if_name (if_list sr) = [''eth0''] \<and> map if_ip (if_list sr) = [0x0101010A]" for sr :: router
  have "case perform sample_commands (this_router sample) of Inl e \<Rightarrow> False
    | Inr (r, sr) \<Rightarrow> r = 0 \<and> map if_name (if_list sr) = [''eth0''] \<and> map if_ip (if_list sr) = [0x0101010A]"
    by code_simp
  then have "case perform sample_commands (this_router sample) of Inl e \<Rightarrow> False | Inr (r, sr) \<Rightarrow> r = 0 \<and> P sr"
    unfolding P_def .
  from result_case [OF this] obtain sr where sr: "perform sample_commands (this_router sample) = Inr (0, sr)" "P sr" by blast
  have "\<forall>c \<in> set sample_commands. sendable c" by (simp add: sample_commands_def hw_sized_def)
  moreover have "pieces (arrivals ?s) = concat (map (\<lambda>c. vns_message (command_type c) (command_data c)) sample_commands)"
    by (simp flip: sample_stream_def)
  moreover have "calm (arrivals ?s)" "length sample_commands < 4" by (simp_all add: sample_commands_def)
  ultimately have "case perform sample_commands (this_router ?s) of Inl e \<Rightarrow> main_loop 4 ?s = Inl e
    | Inr (r, sr) \<Rightarrow> \<exists>rest. main_loop 4 ?s = Inr (r, ?s\<lparr>arrivals := rest, this_router := sr\<rparr>)"
    by (intro commands_arrive)
  then obtain rest where "main_loop 4 ?s = Inr (0, ?s\<lparr>arrivals := rest, this_router := sr\<rparr>)" using sr(1) by auto
  then show ?thesis using sr(2) [unfolded P_def] by (intro exI [of _ sr] exI [of _ rest]) simp
qed

subsection \<open>Signing on\<close>

lemma sign_on:
  assumes "length (Message_Block (old_sha1 s)) = 64" and "key_file s = Some file" and "file \<noteq> []"
    and "8 * (length salt + length (auth_key file s)) < 2 ^ 64" and "c_string (sr_user s) = Inr name" and "sends s"
  shows "handle_message VNS_AUTH_REQUEST salt s =
    Inr (1, s\<lparr>sent := sent s @ [auth_reply name (fips_sha1 (salt @ auth_key file s))]\<rparr>)"
proof -
  obtain c where c: "and_then (for_each [salt, auth_key file s] SHA1Input (SHA1Reset (old_sha1 s))) SHA1Result = Inr (1, c)"
    "Message_Digest c = fips_sha1 (salt @ auth_key file s)"
    using sha1_runs [OF assms(1), of "[salt, auth_key file s]"] assms(4) by auto
  then obtain c1 c2 where "SHA1Input salt (SHA1Reset (old_sha1 s)) = Inr c1" "SHA1Input (auth_key file s) c1 = Inr c2"
    "SHA1Result c2 = Inr (1, c)" by (auto simp: and_then_eq_Inr)
  then show ?thesis using assms(2,3,5,6) c(2)
    by (simp add: handle_message_def sr_handle_auth_request_def send_message_def failed_def)
qed

lemma auth_key_length: "length (auth_key file s) \<le> 64"
  by (simp add: auth_key_def Let_def)

text \<open>
  C24.  When the server asks for authentication, accepts the answer and, for a topology template, sends a routing
  table, the session opens, however the messages are split: the router has sent the digest of the salt followed by its key, and then
  the request for its topology; the table is written to the file of its name.
\<close>

theorem session_opens:
  assumes "calm (arrivals s)" and "0 \<le> fd" and "0 \<le> rc" and "sends s" and "writable s"
    and "key_file s = Some file" and "file \<noteq> []" and "length (Message_Block (old_sha1 s)) = 64"
    and "c_string (sr_user s) = Inr name" and "c_string (sr_template s) = Inr template"
    and "length salt \<le> 9992" and "ok \<noteq> 0" and "length msg < 9992"
    and "length ident < 32" and "0 \<notin> set ident" and "length table \<le> 9960"
    and "pieces (arrivals s) = vns_message VNS_AUTH_REQUEST salt @ vns_message VNS_AUTH_STATUS (ok # msg) @
      (if template = [] then [] else vns_message VNS_RTABLE (strncpy 32 ident @ table)) @ later"
  shows "\<exists>rest. pieces rest = later \<and> sr_connect_to_server True fd rc s = Inr (0, s\<lparr>arrivals := rest,
    sent := sent s @ [auth_reply name (fips_sha1 (salt @ auth_key file s)), if template = [] then open_message s else template_message s],
    written := written s @ (if template = [] then [] else [([114, 116, 97, 98, 108, 101, 46] @ ident, table)])\<rparr>)"
proof -
  let ?d = "auth_reply name (fips_sha1 (salt @ auth_key file s))"
  let ?rt = "if template = [] then [] else vns_message VNS_RTABLE (strncpy 32 ident @ table)"
  obtain r1 where r1: "calm r1" "pieces r1 = vns_message VNS_AUTH_STATUS (ok # msg) @ ?rt @ later"
    "sr_read_from_server_expect VNS_AUTH_REQUEST s = handle_message VNS_AUTH_REQUEST salt (s\<lparr>arrivals := r1\<rparr>)"
    using read_message [OF assms(1,17,11), of VNS_AUTH_REQUEST] by auto
  let ?s1 = "s\<lparr>arrivals := r1, sent := sent s @ [?d]\<rparr>"
  have k: "auth_key file (s\<lparr>arrivals := r1\<rparr>) = auth_key file s" by (simp add: auth_key_def)
  have s1: "sr_read_from_server_expect VNS_AUTH_REQUEST s = Inr (1, ?s1)"
    unfolding r1(3) using sign_on [of "s\<lparr>arrivals := r1\<rparr>" "file" salt "name"] assms auth_key_length [of "file" s] by (simp add: k)
  obtain r2 where r2: "calm r2" "pieces r2 = ?rt @ later"
    "sr_read_from_server_expect VNS_AUTH_STATUS ?s1 = handle_message VNS_AUTH_STATUS (ok # msg) (?s1\<lparr>arrivals := r2\<rparr>)"
    using read_message [of ?s1 VNS_AUTH_STATUS "ok # msg" "?rt @ later" VNS_AUTH_STATUS] r1(1,2) assms(13) by auto
  have ok: "uint ok \<noteq> 0" using assms(12) by (simp add: unsigned_eq_0_iff)
  let ?s2 = "s\<lparr>arrivals := r2, sent := sent s @ [?d]\<rparr>"
  have s2: "sr_read_from_server_expect VNS_AUTH_STATUS ?s1 = Inr (1, ?s2)"
    unfolding r2(3) using assms(9,12) ok by (simp add: handle_message_def sr_handle_auth_status_def failed_def)
  show ?thesis
  proof (cases "template = []")
    case True
    then show ?thesis using assms(2-4,10) s1 s2 r2(2)
      by (intro exI [of _ r2]) (simp add: sr_connect_to_server_def send_message_def open_message_def)
  next
    case False
    let ?s3 = "?s2\<lparr>sent := sent s @ [?d, template_message s]\<rparr>"
    have i: "strncpy 32 ident = ident @ replicate (32 - length ident) 0"
    proof -
      have "takeWhile (\<lambda>b. b \<noteq> 0) ident = ident" using assms(15) by (auto simp: takeWhile_eq_all_conv)
      then show ?thesis unfolding strncpy_def using assms(14) by (simp only: take_all less_imp_le Let_def)
    qed
    obtain r3 where r3: "calm r3" "pieces r3 = later"
      "sr_read_from_server_expect VNS_RTABLE ?s3 = handle_message VNS_RTABLE (strncpy 32 ident @ table) (?s3\<lparr>arrivals := r3\<rparr>)"
      using read_message [of ?s3 VNS_RTABLE "strncpy 32 ident @ table" later VNS_RTABLE] r2(1,2) assms(16) False by auto
    have "32 - length ident = Suc (31 - length ident)" using assms(14) by simp
    then have "c_string (strncpy 32 ident @ table) = Inr ident" using assms(15) by (simp add: c_string_def i)
    then have "handle_message VNS_RTABLE (strncpy 32 ident @ table) (?s3\<lparr>arrivals := r3\<rparr>) =
      Inr (1, ?s3\<lparr>arrivals := r3, written := written s @ [([114, 116, 97, 98, 108, 101, 46] @ ident, table)]\<rparr>)"
      using assms(5,14) by (simp add: handle_message_def sr_handle_rtable_def failed_def)
    then show ?thesis using assms(2-4,10) s1 s2 r3(2,3) False
      by (intro exI [of _ r3]) (simp add: sr_connect_to_server_def send_message_def template_message_def)
  qed
qed

theorem session_opens_witness:
  "\<exists>rest. pieces rest = [] \<and>
    sr_connect_to_server True 3 0 (sample\<lparr>arrivals := [Bytes (vns_message VNS_AUTH_REQUEST [1, 2, 3]), Signal,
        Bytes (vns_message VNS_AUTH_STATUS [1, 111, 107, 0])]\<rparr>) =
      Inr (0, sample\<lparr>arrivals := rest, sent := [auth_reply [97, 98] (fips_sha1 ([1, 2, 3] @ [107, 101, 121, 10, 0] @ replicate 59 1)),
        open_message sample], written := []\<rparr>)"
proof -
  let ?s = "sample\<lparr>arrivals := [Bytes (vns_message VNS_AUTH_REQUEST [1, 2, 3]), Signal, Bytes (vns_message VNS_AUTH_STATUS [1, 111, 107, 0])]\<rparr>"
  have f: "sends sample" "writable sample" "key_file sample = Some [107, 101, 121, 10]" "length (Message_Block (old_sha1 sample)) = 64"
    "sent sample = []" "written sample = []" "open_message ?s = open_message sample"
    by (simp_all add: sample_def open_message_def)
  have n: "c_string (sr_user sample) = Inr [97, 98]" "c_string (sr_template sample) = Inr []"
    "auth_key [107, 101, 121, 10] ?s = [107, 101, 121, 10, 0] @ replicate 59 1" by code_simp+
  show ?thesis
    using session_opens [of ?s 3 0 "[107, 101, 121, 10]" "[97, 98]" "[]" "[1, 2, 3]" 1 "[111, 107, 0]" "[]" "[]" "[]"]
    by (simp add: f n del: append_assoc append_Cons)
qed

subsection \<open>A server that misbehaves\<close>

lemma receive_closed: "calm xs \<Longrightarrow> length (pieces xs) < n \<Longrightarrow> receive (xs @ Closed # ys) n = Inl Endless_Loop"
proof (induction xs arbitrary: n)
  case (Cons x xs)
  from Cons.prems(1) consider "x = Signal" | bs where "x = Bytes bs" by auto
  then show ?case using Cons by cases auto
qed simp

text \<open>
  C26.  A server that closes the connection between two messages leaves the router in an endless loop; a message that
  announces less than eight bytes makes it write or read behind a block it allocated; one of more than 10000 bytes,
  or of a negative length, ends the session; and a routing table whose name has more than 32 characters overflows
  the array on the stack.
\<close>

theorem hostile_sessions:
  assumes "calm xs"
  shows "(length (pieces xs) < 4 \<longrightarrow> main_loop (Suc k) (s\<lparr>arrivals := xs @ Closed # ys\<rparr>) = Inl Endless_Loop) \<and>
    (pieces xs = net32 n @ later \<and> 0 \<le> n \<and> n < 8 \<and> nat n \<le> 4 + length later \<longrightarrow>
      main_loop (Suc k) (s\<lparr>arrivals := xs\<rparr>) = Inl Out_Of_Bounds) \<and>
    (pieces xs = net32 n @ later \<and> - (2 ^ 31) \<le> n \<and> n < 2 ^ 31 \<and> (n < 0 \<or> 10000 < n) \<longrightarrow>
      (\<exists>rest. main_loop (Suc k) (s\<lparr>arrivals := xs\<rparr>) = Inr (-1, s\<lparr>arrivals := rest, socket_closed := True\<rparr>))) \<and>
    (pieces xs = vns_message VNS_RTABLE (ident @ 0 # table) @ later \<and> 0 \<notin> set ident \<and> 32 < length ident \<and>
        length (ident @ 0 # table) \<le> 9992 \<longrightarrow>
      main_loop (Suc k) (s\<lparr>arrivals := xs\<rparr>) = Inl Out_Of_Bounds)"
proof (intro conjI impI)
  assume "length (pieces xs) < 4"
  then show "main_loop (Suc k) (s\<lparr>arrivals := xs @ Closed # ys\<rparr>) = Inl Endless_Loop"
    using receive_closed [OF assms, of 4 ys] by (simp add: sr_read_from_server_def sr_read_from_server_expect_def)
next
  assume n: "pieces xs = net32 n @ later \<and> 0 \<le> n \<and> n < 8 \<and> nat n \<le> 4 + length later"
  obtain r where r: "receive xs 4 = Inr (Some (net32 n), r)" "calm r" "pieces r = later"
    using receive_calm [OF assms, of 4] n by auto
  have v: "sint (ntohl (word32 (net32 n))) = n" by (rule net32_value) (use n in simp_all)
  obtain r' where r': "receive r (nat n - 4) = Inr (Some (take (nat n - 4) later), r')"
    using receive_calm [OF r(2), of "nat n - 4"] r(3) n by (auto simp: le_diff_conv)
  have "nat n < 8" using n by linarith
  then have "nat n - 4 < 4" by linarith
  then have "\<not> 4 \<le> length (take (nat n - 4) later)" by (simp add: not_le)
  then have "load32 0 (take (nat n - 4) later) = Inl Out_Of_Bounds" by (simp del: length_take add: load32_def load_def)
  then show "main_loop (Suc k) (s\<lparr>arrivals := xs\<rparr>) = Inl Out_Of_Bounds"
    using r(1) v r' n by (simp add: sr_read_from_server_def sr_read_from_server_expect_def Let_def)
next
  assume n: "pieces xs = net32 n @ later \<and> - (2 ^ 31) \<le> n \<and> n < 2 ^ 31 \<and> (n < 0 \<or> 10000 < n)"
  obtain r where r: "receive xs 4 = Inr (Some (net32 n), r)" using receive_calm [OF assms, of 4] n by auto
  have v: "sint (ntohl (word32 (net32 n))) = n" by (rule net32_value) (use n in simp_all)
  show "\<exists>rest. main_loop (Suc k) (s\<lparr>arrivals := xs\<rparr>) = Inr (-1, s\<lparr>arrivals := rest, socket_closed := True\<rparr>)"
    using r v n by (auto simp: sr_read_from_server_def sr_read_from_server_expect_def intro: exI [of _ r])
next
  assume m: "pieces xs = vns_message VNS_RTABLE (ident @ 0 # table) @ later \<and> 0 \<notin> set ident \<and> 32 < length ident \<and>
        length (ident @ 0 # table) \<le> 9992"
  obtain r where r: "sr_read_from_server_expect 0 (s\<lparr>arrivals := xs\<rparr>) =
      handle_message VNS_RTABLE (ident @ 0 # table) (s\<lparr>arrivals := r\<rparr>)"
    using read_message [of "s\<lparr>arrivals := xs\<rparr>" VNS_RTABLE "ident @ 0 # table" later 0] assms m by auto
  have "c_string (ident @ 0 # table) = Inr ident" using m by (simp add: c_string_def)
  then show "main_loop (Suc k) (s\<lparr>arrivals := xs\<rparr>) = Inl Out_Of_Bounds"
    using r m by (simp add: sr_read_from_server_def handle_message_def sr_handle_rtable_def)
qed

theorem hostile_sessions_witness:
  "main_loop 1 (sample\<lparr>arrivals := [Bytes [0, 0], Closed]\<rparr>) = Inl Endless_Loop \<and>
   main_loop 1 (sample\<lparr>arrivals := [Bytes (net32 6), Bytes [1, 2]]\<rparr>) = Inl Out_Of_Bounds \<and>
   (\<exists>rest. main_loop 1 (sample\<lparr>arrivals := [Bytes (net32 20000)]\<rparr>) = Inr (-1, sample\<lparr>arrivals := rest, socket_closed := True\<rparr>)) \<and>
   main_loop 1 (sample\<lparr>arrivals := [Bytes (vns_message VNS_RTABLE (replicate 33 65 @ [0]))]\<rparr>) = Inl Out_Of_Bounds"
proof -
  have l: "length (vns_message VNS_RTABLE (replicate 33 65 @ [0])) = 42" by (simp add: vns_message_def)
  show ?thesis
    using hostile_sessions [where xs = "[Bytes [0, 0]]" and k = 0 and s = sample and ys = "[]" and n = 0 and later = "[]" and ident = "[]" and table = "[]"]
      hostile_sessions [where xs = "[Bytes (net32 6), Bytes [1, 2]]" and k = 0 and s = sample and ys = "[]" and n = 6 and later = "[1, 2]" and ident = "[]" and table = "[]"]
      hostile_sessions [where xs = "[Bytes (net32 20000)]" and k = 0 and s = sample and ys = "[]" and n = 20000 and later = "[]" and ident = "[]" and table = "[]"]
      hostile_sessions [where xs = "[Bytes (vns_message VNS_RTABLE (replicate 33 65 @ [0]))]" and k = 0 and s = sample and ys = "[]" and n = 0 and later = "[]" and ident = "replicate 33 65" and table = "[]"]
    by (simp del: main_loop.simps)
qed

end
