(* ===== verification/Sr_Dump.thy ===== *)
theory Sr_Dump
  imports Sr_Memory
begin

text \<open>
  The log file of the router (\<open>sr_dumper.c\<close> and \<open>sr_log_packet\<close> of \<open>sr_vns_comm.c\<close>): the bytes that are written,
  and that a reader of the format gets the packets back, cut to 1024 bytes.  The file is in the byte order of
  the machine; a write does not fail.
\<close>

abbreviation (input) PACKET_DUMP_SIZE :: int where "PACKET_DUMP_SIZE \<equiv> 1024"

definition sf_write_header :: "32 word \<Rightarrow> 32 word \<Rightarrow> 32 word \<Rightarrow> byte list" where
  "sf_write_header linktype thiszone snaplen =
     bytes32 0xa1b2c3d4 @ bytes16 2 @ bytes16 4 @ bytes32 thiszone @ bytes32 0 @ bytes32 snaplen @ bytes32 linktype"

definition sr_dump_open :: "bool \<Rightarrow> 32 word \<Rightarrow> 32 word \<Rightarrow> byte list option" where
  "sr_dump_open opened thiszone snaplen = (if opened then Some (sf_write_header 1 thiszone snaplen) else None)"

text \<open>\<open>caplen\<close> and \<open>n\<close> are the two lengths of the header; \<open>caplen\<close> bytes of the packet are written.\<close>

definition sr_dump :: "32 word \<times> 32 word \<Rightarrow> 32 word \<Rightarrow> 32 word \<Rightarrow> byte list \<Rightarrow> byte list \<Rightarrow> sr_fault + byte list" where
  "sr_dump ts caplen n sp file =
     (if unat caplen \<le> length sp then
        Inr (file @ bytes32 (fst ts) @ bytes32 (snd ts) @ bytes32 caplen @ bytes32 n @ take (unat caplen) sp)
      else Inl Out_Of_Bounds)"

definition sr_log_packet ::
  "32 word \<times> 32 word \<Rightarrow> byte list \<Rightarrow> int \<Rightarrow> byte list option \<Rightarrow> sr_fault + byte list option" where
  "sr_log_packet ts buf len logfile =
     (case logfile of
        None \<Rightarrow> Inr None
      | Some f \<Rightarrow>
          let size = min PACKET_DUMP_SIZE len in
          and_then (sr_dump ts (of_int size) (of_int (if size < PACKET_DUMP_SIZE then size else PACKET_DUMP_SIZE)) buf f)
            (\<lambda>f. Inr (Some f)))"

subsection \<open>Reading it back\<close>

text \<open>A reader of the records behind the header of the file: time, original length and bytes.\<close>

function read_records :: "byte list \<Rightarrow> ((32 word \<times> 32 word) \<times> nat \<times> byte list) list" where
  "read_records f =
     (if length f < 16 then []
      else
        let n = unat (word32 (take 4 (drop 8 f))) in
        ((word32 (take 4 f), word32 (take 4 (drop 4 f))), unat (word32 (take 4 (drop 12 f))), take n (drop 16 f)) #
          read_records (drop (16 + n) f))"
  by auto
termination by (relation "measure length") auto

declare read_records.simps [simp del]

lemma log_one:
  "sr_log_packet ts p (int (length p)) (Some f) = Inr (Some (f @ bytes32 (fst ts) @ bytes32 (snd ts) @
     bytes32 (of_nat (min 1024 (length p))) @ bytes32 (of_nat (min 1024 (length p))) @ take 1024 p))"
proof -
  have "unat (of_nat (min 1024 (length p)) :: 32 word) = min 1024 (length p)"
    by (simp add: unsigned_of_nat take_bit_nat_eq_self min_less_iff_disj)
  moreover have "(of_int (min 1024 (int (length p))) :: 32 word) = of_nat (min 1024 (length p))"
    by (simp add: min_def)
  moreover have "(if min 1024 (int (length p)) < 1024 then min 1024 (int (length p)) else 1024) = min 1024 (int (length p))" by simp
  ultimately show ?thesis by (simp only: sr_log_packet_def sr_dump_def option.case Let_def) (simp add: min_def)
qed

theorem log_reads_back:
  "\<exists>f. for_each xs (\<lambda>(ts, p). sr_log_packet ts p (int (length p))) (sr_dump_open True zone 1024) = Inr (Some f) \<and>
    read_records (drop 24 f) = map (\<lambda>(ts, p). (ts, min 1024 (length p), take 1024 p)) xs"
proof -
  have "\<exists>g. for_each xs (\<lambda>(ts, p). sr_log_packet ts p (int (length p))) (Some f) = Inr (Some (f @ g)) \<and>
    read_records g = map (\<lambda>(ts, p). (ts, min 1024 (length p), take 1024 p)) xs" for f
  proof (induction xs arbitrary: f)
    case Nil
    then show ?case by (simp add: read_records.simps [of "[]"])
  next
    case (Cons x xs)
    obtain ts p where x: "x = (ts, p)" by (cases x)
    let ?n = "of_nat (min 1024 (length p)) :: 32 word"
    let ?r = "bytes32 (fst ts) @ bytes32 (snd ts) @ bytes32 ?n @ bytes32 ?n @ take 1024 p"
    have take_min: "take (min 1024 (length p)) p = take 1024 p" by (simp add: min_def)
    have n: "unat ?n = min 1024 (length p)" by (simp add: unsigned_of_nat take_bit_nat_eq_self min_less_iff_disj)
    obtain g where g: "for_each xs (\<lambda>(ts, p). sr_log_packet ts p (int (length p))) (Some (f @ ?r)) = Inr (Some ((f @ ?r) @ g))"
      "read_records g = map (\<lambda>(ts, p). (ts, min 1024 (length p), take 1024 p)) xs"
      using Cons.IH [of "f @ ?r"] by blast
    have "read_records (?r @ g) = (ts, min 1024 (length p), take 1024 p) # read_records g"
      by (subst read_records.simps) (simp add: n Let_def take_min del: of_nat_min)
    then show ?case using g log_one [of ts p f] by (intro exI [of _ "?r @ g"]) (simp add: x)
  qed
  from this [of "sf_write_header 1 zone 1024"] obtain g where
    "for_each xs (\<lambda>(ts, p). sr_log_packet ts p (int (length p))) (sr_dump_open True zone 1024) =
      Inr (Some (sf_write_header 1 zone 1024 @ g))"
    "read_records g = map (\<lambda>(ts, p). (ts, min 1024 (length p), take 1024 p)) xs"
    by (auto simp: sr_dump_open_def)
  then show ?thesis by (intro exI [of _ "sf_write_header 1 zone 1024 @ g"]) (simp add: sf_write_header_def)
qed

end
