(* ===== verification/Stcp_Sock.thy ===== *)
theory Stcp_Sock
  imports Sr_Memory
begin

text \<open>
  The mysocket layer under and above the transport layer (\<open>mysock.c\<close>, \<open>mysock_api.c\<close>,
  \<open>stcp_api.c\<close>, \<open>network.c\<close>, \<open>tcp_sum.c\<close>): packet queues, the wait for an event, reading
  and writing of the application, and the way of a segment to the network and back.  A mutex
  protects single operations on the queues, so each is one step.
\<close>

subsection \<open>The mysocket\<close>

text \<open>
  A queue is the list of its buffers.  \<open>wire\<close> has what was given to
  \<open>_network_send_packet\<close>; this call and \<open>rand_r\<close> are the environment, as the fields \<open>send_ok\<close>
  (whether a send succeeds) and \<open>rand_r\<close>.  Addresses and ports are in network order.  The state
  of another thread is not needed: the application is the operations \<open>mywrite\<close>, \<open>myread\<close> and
  \<open>myclose_request\<close>.
\<close>

type_synonym packet_queue = "byte list list"

record mysock =
  network_recv_queue :: packet_queue
  app_send_queue :: packet_queue
  app_recv_queue :: packet_queue
  close_requested :: bool
  eof :: bool
  blocking :: bool
  listening :: bool
  is_reliable :: bool
  local_addr :: "32 word"
  local_port :: "16 word"
  peer_addr :: "32 word"
  peer_port :: "16 word"
  random_seed :: "32 word"
  rand_r :: "32 word \<Rightarrow> 32 word \<times> 32 word"
  copied :: bool
  copy_buffer :: "byte list"
  send_ok :: bool
  wire :: "byte list list"

subsection \<open>Queues\<close>

definition mysock_enqueue_buffer :: "byte list \<Rightarrow> packet_queue \<Rightarrow> packet_queue" where
  "mysock_enqueue_buffer packet pq = pq @ [packet]"

text \<open>
  The bytes copied to \<open>dst\<close>, the value returned and the queue.  The rest of a partly
  removed buffer is moved to its front with \<open>memcpy\<close>, which must not overlap.  Without
  \<open>remove_partial\<close> the length of the whole buffer is returned, whatever fits into \<open>dst\<close>.
\<close>

definition mysock_dequeue_buffer ::
  "packet_queue \<Rightarrow> nat \<Rightarrow> bool \<Rightarrow> sr_fault + byte list \<times> nat \<times> packet_queue" where
  "mysock_dequeue_buffer pq max_len remove_partial =
     (case pq of
        [] \<Rightarrow> Inl Would_Block
      | node # rest \<Rightarrow>
          if length node > max_len \<and> remove_partial then
            if length node - max_len > max_len then Inl Overlapping_Copy
            else Inr (take max_len node, max_len, drop max_len node # rest)
          else Inr (take max_len node, length node, rest))"

text \<open>The result says whether there was a buffer at all; the loop over the buffers adds nothing.\<close>

definition mysock_free_queue :: "packet_queue \<Rightarrow> bool \<times> packet_queue" where
  "mysock_free_queue pq = (pq \<noteq> [] \<or> (\<exists>node \<in> set pq. node \<noteq> []), [])"

subsection \<open>The application\<close>

abbreviation (input) TIMEOUT :: "32 word" where "TIMEOUT \<equiv> 0"
abbreviation (input) APP_DATA :: "32 word" where "APP_DATA \<equiv> 1"
abbreviation (input) NETWORK_DATA :: "32 word" where "NETWORK_DATA \<equiv> 2"
abbreviation (input) APP_CLOSE_REQUESTED :: "32 word" where "APP_CLOSE_REQUESTED \<equiv> 4"
abbreviation (input) ANY_EVENT :: "32 word" where "ANY_EVENT \<equiv> 7"

definition mywrite :: "byte list \<Rightarrow> 'a mysock_scheme \<Rightarrow> sr_fault + int \<times> 'a mysock_scheme" where
  "mywrite buf s =
     (if listening s then Inr (-1, s)
      else if close_requested s then Inl Assertion_Failed
      else Inr (int (length buf), s\<lparr>app_recv_queue := mysock_enqueue_buffer buf (app_recv_queue s)\<rparr>))"

definition myread :: "nat \<Rightarrow> 'a mysock_scheme \<Rightarrow> sr_fault + int \<times> byte list \<times> 'a mysock_scheme" where
  "myread buf_len s =
     (if listening s then Inr (-1, [], s)
      else if close_requested s then Inl Assertion_Failed
      else if eof s then Inr (0, [], s)
      else
        and_then (mysock_dequeue_buffer (app_send_queue s) buf_len True) (\<lambda>(buf, n, pq).
        let s = s\<lparr>app_send_queue := pq\<rparr> in
        Inr (int n, buf, if n = 0 then s\<lparr>eof := True\<rparr> else s)))"

text \<open>The part of \<open>myclose\<close> the transport layer sees.\<close>

definition myclose_request :: "'a mysock_scheme \<Rightarrow> 'a mysock_scheme" where
  "myclose_request s = s\<lparr>close_requested := True\<rparr>"

text \<open>
  \<open>passed\<close> says whether the time to wait until has passed; without one it is false.  A request
  to close is reported whatever the flags are, once, and after all data of the application.
\<close>

definition stcp_wait_for_event ::
  "32 word \<Rightarrow> bool \<Rightarrow> 'a mysock_scheme \<Rightarrow> sr_fault + 32 word \<times> 'a mysock_scheme" where
  "stcp_wait_for_event flags passed s =
     (let app = (if flags AND APP_DATA \<noteq> 0 \<and> app_recv_queue s \<noteq> [] then APP_DATA else 0);
          net = (if flags AND NETWORK_DATA \<noteq> 0 \<and> network_recv_queue s \<noteq> [] then NETWORK_DATA else 0);
          closing = close_requested s \<and> app_recv_queue s = [];
          rc = app OR net OR (if closing then APP_CLOSE_REQUESTED else 0);
          s = (if closing then s\<lparr>close_requested := False\<rparr> else s) in
      if rc \<noteq> 0 then Inr (rc, s) else if passed then Inr (0, s) else Inl Would_Block)"

definition stcp_app_recv :: "nat \<Rightarrow> 'a mysock_scheme \<Rightarrow> sr_fault + byte list \<times> nat \<times> 'a mysock_scheme" where
  "stcp_app_recv max_len s =
     and_then (mysock_dequeue_buffer (app_recv_queue s) max_len True) (\<lambda>(buf, n, pq).
     Inr (buf, n, s\<lparr>app_recv_queue := pq\<rparr>))"

definition stcp_app_send :: "byte list \<Rightarrow> 'a mysock_scheme \<Rightarrow> 'a mysock_scheme" where
  "stcp_app_send src s =
     (if length src > 0 then s\<lparr>app_send_queue := mysock_enqueue_buffer src (app_send_queue s)\<rparr> else s)"

definition stcp_fin_received :: "'a mysock_scheme \<Rightarrow> 'a mysock_scheme" where
  "stcp_fin_received s = s\<lparr>app_send_queue := mysock_enqueue_buffer [] (app_send_queue s)\<rparr>"

definition stcp_unblock_application :: "'a mysock_scheme \<Rightarrow> sr_fault + 'a mysock_scheme" where
  "stcp_unblock_application s =
     (if blocking s then Inr (s\<lparr>blocking := False\<rparr>) else Inl Assertion_Failed)"

subsection \<open>The network\<close>

text \<open>
  The checksum over the pseudo header and the segment, the word at offset 16 left out, with a
  last odd byte as a word of its own.  Segments have at most 1500 bytes, so the 32 bit sum does
  not overflow.
\<close>

fun sum16 :: "(nat \<Rightarrow> bool) \<Rightarrow> nat \<Rightarrow> byte list \<Rightarrow> 32 word \<Rightarrow> 32 word" where
  "sum16 skip k (a # b # bs) s =
     sum16 skip (Suc k) bs (if skip k then s else s + ucast (word16 [a, b]))"
| "sum16 skip k [a] s = s + ucast (word16 [a, 0])"
| "sum16 skip k [] s = s"

definition pseudo_header :: "32 word \<Rightarrow> 32 word \<Rightarrow> nat \<Rightarrow> byte list" where
  "pseudo_header src_addr dst_addr n =
     bytes32 src_addr @ bytes32 dst_addr @ [0, 6] @ bytes16 (htons (of_nat n))"

definition mysock_tcp_checksum :: "32 word \<Rightarrow> 32 word \<Rightarrow> byte list \<Rightarrow> sr_fault + 16 word" where
  "mysock_tcp_checksum src_addr dst_addr packet =
     (if length packet < 20 \<or> src_addr = 0 \<or> dst_addr = 0 then Inl Assertion_Failed
      else
        let sum = sum16 (\<lambda>_. False) 0 (pseudo_header src_addr dst_addr (length packet)) 0;
            sum = sum16 (\<lambda>k. k = 8) 0 packet sum;
            sum = drop_bit 16 sum + (sum AND 0xffff);
            sum = sum + drop_bit 16 sum in
        Inr (ucast (NOT sum)))"

definition mysock_set_checksum :: "'a mysock_scheme \<Rightarrow> byte list \<Rightarrow> sr_fault + byte list" where
  "mysock_set_checksum s packet =
     and_then (mysock_tcp_checksum (local_addr s) (peer_addr s) packet) (\<lambda>sum.
     store 16 (bytes16 sum) packet)"

definition mysock_verify_checksum :: "'a mysock_scheme \<Rightarrow> byte list \<Rightarrow> sr_fault + bool" where
  "mysock_verify_checksum s packet =
     and_then (mysock_tcp_checksum (peer_addr s) (local_addr s) packet) (\<lambda>my_sum.
     and_then (load16 16 packet) (\<lambda>sum.
     Inr (my_sum = sum)))"

text \<open>The simulation of an unreliable network; -1 is the failure of the send.\<close>

definition network_send_packet :: "byte list \<Rightarrow> 'a mysock_scheme \<Rightarrow> int \<times> 'a mysock_scheme" where
  "network_send_packet buf s =
     (if send_ok s then (int (length buf), s\<lparr>wire := wire s @ [buf]\<rparr>) else (-1, s))"

definition network_send :: "byte list \<Rightarrow> 'a mysock_scheme \<Rightarrow> sr_fault + int \<times> 'a mysock_scheme" where
  "network_send buf s =
     (if is_reliable s then Inr (network_send_packet buf s)
      else
        let (r, seed) = rand_r s (random_seed s);
            s = s\<lparr>random_seed := seed\<rparr>;
            r = r AND 0x1f in
        if r = 0 then Inr (int (length buf), s)
        else if r = 1 then Inr (network_send_packet buf (snd (network_send_packet buf s)))
        else if r = 2 then
          if length buf > 1500 then Inl Assertion_Failed
          else Inr (int (length buf), s\<lparr>copy_buffer := buf, copied := True\<rparr>)
        else if r = 3 then
          Inr (int (length buf),
            snd (network_send_packet (if copied s then copy_buffer s else buf) s))
        else Inr (network_send_packet buf s))"

text \<open>The fields of the header the transport layer does not handle are filled in.\<close>

definition stcp_network_send :: "byte list \<Rightarrow> 'a mysock_scheme \<Rightarrow> sr_fault + int \<times> 'a mysock_scheme" where
  "stcp_network_send src s =
     (if length src > 1500 \<or> length src < 20 \<or> peer_port s = 0 then Inl Assertion_Failed
      else
        and_then (store 0 (bytes16 (local_port s) @ bytes16 (peer_port s)) src) (\<lambda>packet.
        and_then (store 16 [0, 0, 0, 0] packet) (\<lambda>packet.
        and_then (mysock_set_checksum s packet) (\<lambda>packet.
        network_send packet s))))"

text \<open>
  What is received is verified over the length of the packet, also where it is longer than the
  buffer.
\<close>

definition stcp_network_recv :: "nat \<Rightarrow> 'a mysock_scheme \<Rightarrow> sr_fault + byte list \<times> nat \<times> 'a mysock_scheme" where
  "stcp_network_recv max_len s =
     and_then (mysock_dequeue_buffer (network_recv_queue s) max_len False) (\<lambda>(buf, n, pq).
     and_then (if n = 0 then Inr True
               else if n > max_len then Inl Out_Of_Bounds
               else mysock_verify_checksum s buf) (\<lambda>ok.
     if ok then Inr (buf, n, s\<lparr>network_recv_queue := pq\<rparr>) else Inl Assertion_Failed))"

end
