(* ===== verification/Stcp_Transport.thy ===== *)
theory Stcp_Transport
  imports Stcp_Sock
begin

text \<open>
  The connection of the transport layer (\<open>transport.c\<close>): its context, the list of packets that
  are not acknowledged yet, the estimate of the round trip time, the receipt of a packet
  and the rounds of the main loop.  Debug output is left out.
\<close>

subsection \<open>The context\<close>

abbreviation (input) MAXLEN :: nat where "MAXLEN \<equiv> 536"
abbreviation (input) MAXOPS :: nat where "MAXOPS \<equiv> 40"
abbreviation (input) HEADERSIZE :: nat where "HEADERSIZE \<equiv> 20"
abbreviation (input) WINLEN :: nat where "WINLEN \<equiv> 3072"

abbreviation (input) TH_FIN :: byte where "TH_FIN \<equiv> 0x01"
abbreviation (input) TH_SYN :: byte where "TH_SYN \<equiv> 0x02"
abbreviation (input) TH_ACK :: byte where "TH_ACK \<equiv> 0x10"

datatype cstate =
    CSTATE_ESTABLISHED | CSTATE_SYN_SENT | CSTATE_SYN_RECEIVED | CSTATE_FIN_WAIT1
  | CSTATE_FIN_WAIT2 | CSTATE_CLOSE_WAIT | CSTATE_LAST_ACK | CSTATE_CLOSING | CSTATE_CLOSED

type_synonym timespec = "int \<times> int"

record packet_t =
  start_time :: timespec
  retry_count :: int
  seq_num :: "32 word"
  packet :: "byte list"

text \<open>
  \<open>recv_wind\<close> is never used and \<open>done\<close> never set.  A character of the indicator is a truth
  value, NUL is \<open>False\<close>.  \<open>rto_init\<close> is the static variable of \<open>update_rto\<close>, which all
  connections of the process share; \<open>clock\<close> is what the clock shows; \<open>packtosend_set\<close> says
  whether the pointer \<open>packtosend\<close> of the main loop has been given a value yet.
\<close>

record stcp = mysock +
  connection_state :: cstate
  initial_sequence_num :: "32 word"
  send_unack :: "32 word"
  send_next :: "32 word"
  send_wind :: "32 word"
  recv_next :: "32 word"
  recv_buffer :: "byte list"
  recv_indicator :: "bool list"
  rto :: timespec
  srtt :: timespec
  rttvar :: timespec
  rto_init :: bool
  unackd_packets :: "packet_t list"
  clock :: timespec
  packtosend_set :: bool

subsection \<open>Segments\<close>

text \<open>A header without options; the other fields are zero, and so are the \<open>n\<close> bytes behind it.\<close>

definition make_stcp_packet :: "byte \<Rightarrow> 32 word \<Rightarrow> 32 word \<Rightarrow> nat \<Rightarrow> byte list" where
  "make_stcp_packet flags seq ack n =
     [0, 0, 0, 0] @ bytes32 (ntohl seq) @ bytes32 (ntohl ack) @ [push_bit 4 5, flags] @
     bytes16 (htons (of_nat WINLEN)) @ [0, 0, 0, 0] @ replicate n 0"

text \<open>The fields of a header that are read.\<close>

definition th_seq :: "byte list \<Rightarrow> 32 word" where
  "th_seq h = ntohl (word32 (take 4 (drop 4 h)))"

definition th_ack :: "byte list \<Rightarrow> 32 word" where
  "th_ack h = ntohl (word32 (take 4 (drop 8 h)))"

definition th_off :: "byte list \<Rightarrow> nat" where
  "th_off h = unat (drop_bit 4 (h ! 12))"

definition th_flags :: "byte list \<Rightarrow> byte" where
  "th_flags h = h ! 13"

definition th_win :: "byte list \<Rightarrow> 16 word" where
  "th_win h = ntohs (word16 (take 2 (drop 14 h)))"

abbreviation has_flag :: "byte list \<Rightarrow> byte \<Rightarrow> bool" where
  "has_flag h f \<equiv> th_flags h AND f \<noteq> 0"

subsection \<open>Packets that are not acknowledged\<close>

definition packet_t_create :: "byte list \<Rightarrow> stcp \<Rightarrow> stcp" where
  "packet_t_create p s = s\<lparr>unackd_packets := unackd_packets s @
     [\<lparr>start_time = clock s, retry_count = 0, seq_num = send_next s, packet = p\<rparr>]\<rparr>"

text \<open>
  The estimate is computed in double precision, where all values are exact, and cut to a whole
  number: \<open>trunc_div\<close> is a division that cuts towards zero.
\<close>

definition trunc_div :: "int \<Rightarrow> int \<Rightarrow> int" where
  "trunc_div a b = sgn a * (\<bar>a\<bar> div b)"

text \<open>\<open>a + max(G, K*v)\<close> with a granularity of a tenth and \<open>K\<close> of four.\<close>

definition rto_part :: "int \<Rightarrow> int \<Rightarrow> int" where
  "rto_part a v = (if 4 * v \<ge> 1 then a + 4 * v else trunc_div (10 * a + 1) 10)"

definition update_rto :: "packet_t \<Rightarrow> stcp \<Rightarrow> stcp" where
  "update_rto p s =
     (if retry_count p \<noteq> 0 then s
      else
        let rtt_sec = fst (clock s) - fst (start_time p);
            rtt_nsec = \<bar>snd (clock s) - snd (start_time p)\<bar>;
            (s_sec, s_nsec) = srtt s;
            (v_sec, v_nsec) = rttvar s;
            (new_var, new_srtt) =
              (if \<not> rto_init s then ((trunc_div rtt_sec 2, trunc_div rtt_nsec 2), (rtt_sec, rtt_nsec))
               else ((trunc_div (3 * v_sec + \<bar>s_sec - rtt_sec\<bar>) 4, trunc_div (3 * v_nsec + \<bar>s_nsec - rtt_nsec\<bar>) 4),
                     (trunc_div (7 * s_sec + rtt_sec) 8, trunc_div (7 * s_nsec + rtt_nsec) 8)));
            sec = rto_part (fst new_srtt) (fst new_var);
            nsec = rto_part (snd new_srtt) (snd new_var) in
        s\<lparr>rttvar := new_var, srtt := new_srtt, rto_init := True,
          rto := (if nsec \<ge> 1000000000 then (sec + nsec div 1000000000, nsec mod 1000000000)
                  else (sec, nsec))\<rparr>)"

text \<open>The first packet not wholly acknowledged stays, and all behind it.\<close>

fun remove_packets :: "packet_t list \<Rightarrow> stcp \<Rightarrow> packet_t list \<times> stcp" where
  "remove_packets [] s = ([], s)"
| "remove_packets (p # ps) s =
     (let s = update_rto p s in
      if unat (send_unack s) \<ge> unat (seq_num p) + (length (packet p) - HEADERSIZE)
      then remove_packets ps s else (p # ps, s))"

definition packet_t_remove :: "stcp \<Rightarrow> stcp" where
  "packet_t_remove s = (let (ps, s) = remove_packets (unackd_packets s) s in s\<lparr>unackd_packets := ps\<rparr>)"

subsection \<open>Receiving a packet\<close>

text \<open>\<open>a - b\<close> in the unsigned type \<open>size_t\<close>.\<close>

definition size_minus :: "nat \<Rightarrow> nat \<Rightarrow> nat" where
  "size_minus a b = (if b \<le> a then a - b else a + 2 ^ 64 - b)"

text \<open>\<open>strchr(indicator, 0) - indicator\<close>: a full indicator has no NUL, and the search leaves it.\<close>

definition indicated :: "bool list \<Rightarrow> sr_fault + nat" where
  "indicated ind =
     (let n = length (takeWhile (\<lambda>b. b) ind) in if n = length ind then Inl Out_Of_Bounds else Inr n)"

definition write_at :: "nat \<Rightarrow> 'a list \<Rightarrow> 'a list \<Rightarrow> 'a list" where
  "write_at k ys xs = take k xs @ ys @ drop (k + length ys) xs"

text \<open>
  The payload of a packet: where it goes in the window, where it starts in the packet and how
  long it is; \<open>old\<close> says that there is nothing new in it.  \<open>None\<close> is a packet beyond the window.
\<close>

definition place_payload :: "32 word \<Rightarrow> byte list \<Rightarrow> nat \<Rightarrow> (nat \<times> nat \<times> nat \<times> bool) option" where
  "place_payload next header paylen =
     (let seq = th_seq header; start = 4 * th_off header; buffer_offset = sint (seq - next) in
      if buffer_offset < 0 then
        if (unat seq + paylen) mod 2 ^ 64 \<le> unat next then Some (0, start, 0, True)
        else Some (0, start + unat (next - seq), min (size_minus paylen (unat (next - seq))) WINLEN, False)
      else if buffer_offset > int WINLEN then None
      else Some (nat buffer_offset, start, min paylen (WINLEN - nat buffer_offset), False))"

definition store_payload :: "nat \<Rightarrow> nat \<Rightarrow> nat \<Rightarrow> byte list \<Rightarrow> stcp \<Rightarrow> sr_fault + nat \<times> stcp" where
  "store_payload at start paylen buff s =
     and_then (load start paylen buff) (\<lambda>payload.
     let s = s\<lparr>recv_buffer := write_at at payload (recv_buffer s),
               recv_indicator := write_at at (replicate paylen True) (recv_indicator s)\<rparr> in
     and_then (indicated (recv_indicator s)) (\<lambda>n.
     Inr (n, s\<lparr>recv_next := recv_next s + of_nat n\<rparr>)))"

text \<open>The acknowledgement, the packets it frees, a SYN and the window of a header.\<close>

definition read_header :: "byte list \<Rightarrow> stcp \<Rightarrow> stcp" where
  "read_header h s =
     (let s = (if has_flag h TH_ACK \<and> send_unack s \<le> th_ack h then s\<lparr>send_unack := th_ack h\<rparr> else s);
          s = packet_t_remove s;
          s = (if has_flag h TH_SYN then s\<lparr>recv_next := th_seq h + 1\<rparr> else s) in
      s\<lparr>send_wind := (if unat (th_win h) \<le> WINLEN then ucast (th_win h) else of_nat WINLEN)\<rparr>)"

text \<open>
  The value is the size of the data for the application, -2 for old data and -1 for a packet
  that is too short or beyond the window; with it comes the header, zero when there is none.
\<close>

definition recv_packet :: "stcp \<Rightarrow> sr_fault + int \<times> byte list \<times> stcp" where
  "recv_packet s =
     (let max_len = HEADERSIZE + MAXOPS + MAXLEN in
      and_then (stcp_network_recv max_len s) (\<lambda>(bytes, packlen, s).
      let buff = bytes @ replicate (max_len - length bytes) 0 in
      if packlen < HEADERSIZE then Inr (-1, replicate HEADERSIZE 0, s)
      else
        let h = take HEADERSIZE buff; paylen = size_minus packlen (4 * th_off h) in
        if paylen > 0 then
          (case place_payload (recv_next s) h paylen of
             None \<Rightarrow> Inr (-1, h, s)
           | Some (at, start, n, old) \<Rightarrow>
               and_then (store_payload at start n buff s) (\<lambda>(prefix_len, s).
               Inr (if old then -2 else int prefix_len, h, read_header h s)))
        else Inr (0, h, read_header h s)))"

end
