(* ===== verification/Stcp_Control.thy ===== *)
theory Stcp_Control
  imports Stcp_Transport
begin

text \<open>
  The loops of \<open>transport.c\<close>: a round of the main loop in the pieces its branches make, the
  handshake of either side, and the connection as a step relation in which the loops, the
  application and the network take turns.
\<close>

subsection \<open>Waiting\<close>

text \<open>
  The time of the first packet in the list and the current estimate make the time to wait
  until; a second has less than \<open>1000000000\<close> nanoseconds.
\<close>

definition timeout_of :: "packet_t \<Rightarrow> stcp \<Rightarrow> timespec" where
  "timeout_of p s =
     (let sec = fst (start_time p) + fst (rto s); nsec = snd (start_time p) + snd (rto s) in
      if nsec \<ge> 1000000000 then (sec + nsec div 1000000000, nsec mod 1000000000) else (sec, nsec))"

definition passed :: "timespec \<Rightarrow> stcp \<Rightarrow> bool" where
  "passed t s \<longleftrightarrow> fst t < fst (clock s) \<or> fst t = fst (clock s) \<and> snd t \<le> snd (clock s)"

text \<open>\<open>list_get_at(unackd_packets, 0)\<close>, which is NULL for an empty list.\<close>

definition first_unackd :: "stcp \<Rightarrow> sr_fault + packet_t" where
  "first_unackd s = (case unackd_packets s of [] \<Rightarrow> Inl Null_Pointer | p # ps \<Rightarrow> Inr p)"

subsection \<open>A round of the main loop\<close>

definition send_segment :: "byte list \<Rightarrow> stcp \<Rightarrow> sr_fault + stcp" where
  "send_segment p s = and_then (stcp_network_send p s) (\<lambda>(_, s). Inr s)"

text \<open>
  New data of the application, as much as the window of the peer is open for.  Without data
  (a write of length zero) the pointer to free is the one of an earlier round, if there was one.
\<close>

definition on_app_data :: "stcp \<Rightarrow> sr_fault + stcp" where
  "on_app_data s =
     (let open_window = sint (send_wind s - (send_next s - send_unack s)) in
      if open_window > 0 then
        let send_size = (if open_window > int MAXLEN then MAXLEN else nat open_window) in
        and_then (stcp_app_recv send_size s) (\<lambda>(buffer, tcplen, s).
        if tcplen > 0 then
          and_then (store HEADERSIZE buffer (make_stcp_packet TH_ACK (send_next s) (recv_next s) tcplen)) (\<lambda>p.
          and_then (send_segment p s) (\<lambda>s.
          let s = packet_t_create p s in
          Inr (s\<lparr>send_next := send_next s + of_nat tcplen, packtosend_set := True\<rparr>)))
        else if packtosend_set s then Inr s else Inl Wild_Free)
      else Inr s)"

text \<open>The data for the application and the window moved over it.\<close>

definition deliver :: "nat \<Rightarrow> stcp \<Rightarrow> sr_fault + stcp" where
  "deliver data_size s =
     (let s = stcp_app_send (take data_size (recv_buffer s)) s in
      and_then (indicated (recv_indicator s)) (\<lambda>n.
      Inr (s\<lparr>recv_buffer := drop n (recv_buffer s) @ replicate n 0,
             recv_indicator := drop n (recv_indicator s) @ replicate n False\<rparr>)))"

text \<open>The end of the connection; the truth value says that the loop is left.\<close>

definition on_ack :: "stcp \<Rightarrow> bool \<times> stcp" where
  "on_ack s =
     (let s = (if connection_state s = CSTATE_FIN_WAIT1 then s\<lparr>connection_state := CSTATE_FIN_WAIT2\<rparr> else s) in
      if connection_state s = CSTATE_LAST_ACK \<or> connection_state s = CSTATE_CLOSING
      then (True, s\<lparr>connection_state := CSTATE_CLOSED\<rparr>) else (False, s))"

definition on_fin :: "stcp \<Rightarrow> sr_fault + bool \<times> stcp" where
  "on_fin s =
     (let s = s\<lparr>recv_next := recv_next s + 1, packtosend_set := True\<rparr> in
      and_then (send_segment (make_stcp_packet TH_ACK (send_next s) (recv_next s) 0) s) (\<lambda>s.
      let s = (if connection_state s = CSTATE_ESTABLISHED
               then (stcp_fin_received s)\<lparr>connection_state := CSTATE_CLOSE_WAIT\<rparr> else s) in
      if connection_state s = CSTATE_FIN_WAIT2 then Inr (True, s\<lparr>connection_state := CSTATE_CLOSED\<rparr>)
      else if connection_state s = CSTATE_FIN_WAIT1
      then Inr (False, (stcp_fin_received s)\<lparr>connection_state := CSTATE_CLOSING\<rparr>)
      else Inr (False, s)))"

definition on_network_data :: "stcp \<Rightarrow> sr_fault + bool \<times> stcp" where
  "on_network_data s =
     and_then (recv_packet s) (\<lambda>(data_size, in_header, s).
     and_then (if data_size > 0 \<or> data_size = -2
               then and_then (send_segment (make_stcp_packet TH_ACK (send_next s) (recv_next s) 0) s) (\<lambda>s.
                    Inr (s\<lparr>packtosend_set := True\<rparr>))
               else Inr s) (\<lambda>s.
     and_then (if data_size > 0 then deliver (nat data_size) s else Inr s) (\<lambda>s.
     let (stop, s) = (if has_flag in_header TH_ACK then on_ack s else (False, s)) in
     if stop then Inr (True, s)
     else if has_flag in_header TH_FIN then on_fin s
     else Inr (False, s))))"

text \<open>
  The request to close: the FIN of the side that closes first is sent with one more byte
  acknowledged, that of the other side with one more byte sent.
\<close>

definition on_close :: "stcp \<Rightarrow> sr_fault + stcp" where
  "on_close s =
     (let header = make_stcp_packet TH_FIN (send_next s) (recv_next s) 0 in
      if connection_state s = CSTATE_ESTABLISHED then
        and_then (send_segment header s) (\<lambda>s.
        Inr ((packet_t_create header (s\<lparr>send_unack := send_unack s + 1\<rparr>))\<lparr>connection_state := CSTATE_FIN_WAIT1\<rparr>))
      else if connection_state s = CSTATE_CLOSE_WAIT then
        and_then (send_segment header s) (\<lambda>s.
        let s = packet_t_create header s in
        Inr (s\<lparr>send_next := send_next s + 1, connection_state := CSTATE_LAST_ACK\<rparr>))
      else Inr s)"

text \<open>
  After a time out every packet of the list is sent again, with the current acknowledgement;
  the loop is left when one of them has been sent again too often.
\<close>

fun resend :: "packet_t list \<Rightarrow> stcp \<Rightarrow> sr_fault + bool \<times> packet_t list \<times> stcp" where
  "resend [] s = Inr (False, [], s)"
| "resend (p # ps) s =
     (let giveup = retry_count p > 6 in
      and_then (store 8 (bytes32 (ntohl (recv_next s))) (packet p)) (\<lambda>bytes.
      let p = p\<lparr>retry_count := retry_count p + 1, start_time := clock s, packet := bytes\<rparr> in
      and_then (send_segment bytes s) (\<lambda>s.
      and_then (resend ps s) (\<lambda>(g, ps, s). Inr (giveup \<or> g, p # ps, s)))))"

definition on_timeout :: "stcp \<Rightarrow> sr_fault + bool \<times> stcp" where
  "on_timeout s =
     and_then (resend (unackd_packets s) s) (\<lambda>(giveup, ps, s).
     Inr (giveup, s\<lparr>unackd_packets := ps\<rparr>))"

text \<open>The start of a round: the events waited for and the time to wait until.\<close>

definition control_wait :: "stcp \<Rightarrow> sr_fault + 32 word \<times> stcp" where
  "control_wait s =
     (if send_unack s < send_next s then
        and_then (first_unackd s) (\<lambda>p.
        let t = timeout_of p s in
        stcp_wait_for_event (if fst t \<le> fst (clock s) then NETWORK_DATA OR TIMEOUT else ANY_EVENT) (passed t s) s)
      else stcp_wait_for_event ANY_EVENT False s)"

definition control_round :: "stcp \<Rightarrow> sr_fault + bool \<times> stcp" where
  "control_round s =
     and_then (control_wait s) (\<lambda>(event, s).
     and_then (if event AND APP_DATA \<noteq> 0 then on_app_data s else Inr s) (\<lambda>s.
     and_then (if event AND NETWORK_DATA \<noteq> 0 then on_network_data s else Inr (False, s)) (\<lambda>(stop, s).
     if stop then Inr (True, s)
     else
       and_then (if event AND APP_CLOSE_REQUESTED \<noteq> 0 then on_close s else Inr s) (\<lambda>s.
       if event = TIMEOUT then on_timeout s else Inr (False, s)))))"

subsection \<open>The handshake\<close>

text \<open>
  A fresh connection.  The sequence number is the one of the random generator, at most 255; all
  else is zero, the estimate too.
\<close>

definition transport_context :: "32 word \<Rightarrow> stcp \<Rightarrow> stcp" where
  "transport_context isn s = s\<lparr>connection_state := CSTATE_CLOSED, initial_sequence_num := isn,
     send_unack := 0, send_next := 0, send_wind := 0, recv_next := 0,
     recv_buffer := replicate WINLEN 0, recv_indicator := replicate WINLEN False,
     rto := (0, 0), srtt := (0, 0), rttvar := (0, 0), unackd_packets := [], packtosend_set := False\<rparr>"

text \<open>The active side sends its SYN.\<close>

definition active_start :: "stcp \<Rightarrow> sr_fault + stcp" where
  "active_start s =
     (let s = s\<lparr>send_unack := initial_sequence_num s\<rparr>;
          header = make_stcp_packet TH_SYN (send_unack s) 0 0 in
      and_then (stcp_network_send header s) (\<lambda>(tcplen, s).
      let s = packet_t_create header (s\<lparr>send_next := send_unack s\<rparr>) in
      if tcplen < 0 then Inr s
      else Inr (s\<lparr>send_next := send_next s + 1, connection_state := CSTATE_SYN_SENT\<rparr>)))"

text \<open>A round of each of the three loops of the handshake; the value says that it is left.\<close>

definition syn_sent_round :: "stcp \<Rightarrow> sr_fault + bool \<times> stcp" where
  "syn_sent_round s =
     and_then (first_unackd s) (\<lambda>p.
     and_then (stcp_wait_for_event NETWORK_DATA (passed (timeout_of p s) s) s) (\<lambda>(event, s).
     if event AND NETWORK_DATA \<noteq> 0 then
       and_then (recv_packet s) (\<lambda>(tcplen, header, s).
       if tcplen < 0 \<or> \<not> (has_flag header TH_SYN \<and> has_flag header TH_ACK) then Inr (False, s)
       else if th_ack header = send_next s then
         and_then (stcp_network_send (make_stcp_packet TH_ACK (send_next s) (recv_next s) 0) s) (\<lambda>(tcplen, s).
         if tcplen < 0 then Inr (True, s) else Inr (True, s\<lparr>connection_state := CSTATE_ESTABLISHED\<rparr>))
       else Inr (False, s))
     else Inr (False, s)))"

text \<open>The SYN/ACK is put into the list twice, once before and once after its sending is checked.\<close>

definition closed_round :: "stcp \<Rightarrow> sr_fault + bool \<times> stcp" where
  "closed_round s =
     (let s = s\<lparr>send_unack := initial_sequence_num s, send_next := initial_sequence_num s\<rparr> in
      and_then (stcp_wait_for_event (NETWORK_DATA OR TIMEOUT) False s) (\<lambda>(event, s).
      if event AND NETWORK_DATA \<noteq> 0 then
        and_then (recv_packet s) (\<lambda>(tcplen, header, s).
        if tcplen < 0 \<or> th_flags header \<noteq> TH_SYN then Inr (False, s)
        else
          let s = s\<lparr>connection_state := CSTATE_SYN_RECEIVED\<rparr>;
              header = make_stcp_packet (TH_SYN OR TH_ACK) (send_unack s) (recv_next s) 0 in
          and_then (stcp_network_send header s) (\<lambda>(tcplen, s).
          let s = packet_t_create header s in
          if tcplen < 0 then Inr (True, s)
          else
            let s = packet_t_create header s in
            Inr (True, s\<lparr>send_next := send_next s + 1\<rparr>)))
      else Inr (False, s)))"

definition syn_received_round :: "stcp \<Rightarrow> sr_fault + bool \<times> stcp" where
  "syn_received_round s =
     and_then (first_unackd s) (\<lambda>p.
     and_then (stcp_wait_for_event NETWORK_DATA (passed (timeout_of p s) s) s) (\<lambda>(event, s).
     if event AND NETWORK_DATA \<noteq> 0 then
       and_then (recv_packet s) (\<lambda>(tcplen, header, s).
       if tcplen < 0 \<or> \<not> has_flag header TH_ACK then Inr (False, s)
       else if th_ack header = send_next s then Inr (True, s\<lparr>connection_state := CSTATE_ESTABLISHED\<rparr>)
       else Inr (False, s))
     else Inr (False, s)))"

subsection \<open>The connection\<close>

text \<open>
  Where \<open>transport_init\<close> is.  The end of the handshake unblocks the application, whatever its
  outcome.
\<close>

datatype phase = Syn_Sent_Loop | Closed_Loop | Syn_Received_Loop | Control_Loop | Finished

definition transport_init :: "bool \<Rightarrow> 32 word \<Rightarrow> stcp \<Rightarrow> sr_fault + phase \<times> stcp" where
  "transport_init active isn s =
     (let s = transport_context isn s in
      if active then
        and_then (active_start s) (\<lambda>s.
        if connection_state s = CSTATE_SYN_SENT then Inr (Syn_Sent_Loop, s)
        else and_then (stcp_unblock_application s) (\<lambda>s. Inr (Control_Loop, s)))
      else Inr (Closed_Loop, s))"

definition transport_round :: "phase \<Rightarrow> stcp \<Rightarrow> sr_fault + phase \<times> stcp" where
  "transport_round ph s =
     (case ph of
        Syn_Sent_Loop \<Rightarrow>
          and_then (syn_sent_round s) (\<lambda>(stop, s).
          if stop then and_then (stcp_unblock_application s) (\<lambda>s. Inr (Control_Loop, s))
          else Inr (Syn_Sent_Loop, s))
      | Closed_Loop \<Rightarrow>
          and_then (closed_round s) (\<lambda>(stop, s). Inr (if stop then Syn_Received_Loop else Closed_Loop, s))
      | Syn_Received_Loop \<Rightarrow>
          and_then (syn_received_round s) (\<lambda>(stop, s).
          if stop then and_then (stcp_unblock_application s) (\<lambda>s. Inr (Control_Loop, s))
          else Inr (Syn_Received_Loop, s))
      | Control_Loop \<Rightarrow>
          and_then (control_round s) (\<lambda>(stop, s). Inr (if stop then Finished else Control_Loop, s))
      | Finished \<Rightarrow> Inl Would_Block)"

text \<open>
  A step of a connection: a round of the transport layer, a call of the application, a packet
  from the network, or time that passes.
\<close>

inductive stcp_step :: "phase \<times> stcp \<Rightarrow> phase \<times> stcp \<Rightarrow> bool" where
  stcp_round: "transport_round ph s = Inr (ph', s') \<Longrightarrow> stcp_step (ph, s) (ph', s')"
| stcp_write: "mywrite buf s = Inr (n, s') \<Longrightarrow> stcp_step (ph, s) (ph, s')"
| stcp_read: "myread k s = Inr (n, buf, s') \<Longrightarrow> stcp_step (ph, s) (ph, s')"
| stcp_close: "stcp_step (ph, s) (ph, myclose_request s)"
| stcp_packet: "stcp_step (ph, s) (ph, s\<lparr>network_recv_queue := network_recv_queue s @ [p]\<rparr>)"
| stcp_time: "stcp_step (ph, s) (ph, s\<lparr>clock := t, send_ok := b\<rparr>)"

inductive stcp_reachable :: "phase \<times> stcp \<Rightarrow> phase \<times> stcp \<Rightarrow> bool" where
  stcp_start: "stcp_reachable c c"
| stcp_next: "stcp_reachable c c' \<Longrightarrow> stcp_step c' c'' \<Longrightarrow> stcp_reachable c c''"

end
