(* ===== verification/Stcp_Wire.thy ===== *)
theory Stcp_Wire
  imports Stcp_Control Sr_Checksum
begin

text \<open>
  Segments on their way: the checksum of \<open>tcp_sum.c\<close> is the Internet checksum the router
  computes with a carry in every step, what is sent verifies at the peer, and the fields of a
  header that was made are read back.
\<close>

subsection \<open>The checksum\<close>

text \<open>The words that are summed: an odd byte is followed by a zero, the skipped word is zero.\<close>

fun padded :: "byte list \<Rightarrow> byte list" where
  "padded (a # b # bs) = a # b # padded bs"
| "padded [a] = [a, 0]"
| "padded [] = []"

lemma even_padded: "even (length (padded bs))"
  by (induction bs rule: padded.induct) simp_all

lemma total_le: "total (words16 bs) \<le> 65535 * (length bs div 2)"
proof (induction bs rule: words16.induct)
  case (1 a b bs)
  have "unat (word16 [a, b]) \<le> 65535" using unat_less [of "word16 [a, b]"] by simp
  with 1 show ?case by (simp add: total_def)
qed (simp_all add: total_def)

lemma length_padded: "length (padded bs) \<le> length bs + 1"
  by (induction bs rule: padded.induct) simp_all

lemma unat_wide: "unat (ucast (w :: 16 word) :: 32 word) = unat w"
  using unat_less [of w] by (simp add: unsigned_ucast_eq take_bit_nat_eq_self)

lemma unat_sum16:
  assumes "unat s + 65535 * (length bs + 1) < 2 ^ 32"
  shows "unat (sum16 (\<lambda>_. False) k bs s) = unat s + total (words16 (padded bs))"
  using assms
proof (induction "\<lambda>_ :: nat. False" k bs s rule: sum16.induct)
  case (1 k a b bs s)
  have w: "unat (word16 [a, b]) \<le> 65535" using unat_less [of "word16 [a, b]"] by simp
  have "unat (s + ucast (word16 [a, b])) = unat s + unat (word16 [a, b])"
    using 1(2) w by (simp add: unat_word_ariths unat_wide)
  with 1 w show ?case by (simp add: total_def)
next
  case (2 k a s)
  have w: "unat (word16 [a, 0]) \<le> 65535" using unat_less [of "word16 [a, 0]"] by simp
  show ?case using 2 w by (simp add: unat_word_ariths unat_wide total_def)
qed (simp add: total_def)

text \<open>Leaving a word out is summing a zero in its place.\<close>

lemma sum16_skip_later: "\<forall>j \<ge> k. \<not> skip j \<Longrightarrow> sum16 skip k bs s = sum16 (\<lambda>_. False) k bs s"
  by (induction skip k bs s rule: sum16.induct) simp_all

lemma sum16_append:
  "even (length xs) \<Longrightarrow> sum16 skip k (xs @ ys) s = sum16 skip (k + length xs div 2) ys (sum16 skip k xs s)"
  by (induction skip k xs s rule: sum16.induct) simp_all

lemma sum16_skip_before:
  "k + length xs div 2 \<le> n \<Longrightarrow> sum16 (\<lambda>k. k = n) k xs s = sum16 (\<lambda>_. False) k xs s"
  by (induction "\<lambda>k. k = n" k xs s rule: sum16.induct) auto

lemma sum16_skips:
  assumes "18 \<le> length p"
  shows "sum16 (\<lambda>k. k = 8) 0 p s = sum16 (\<lambda>_. False) 0 (take 16 p @ [0, 0] @ drop 18 p) s"
proof -
  define x y where "x = p ! 16" and "y = p ! 17"
  have "p = take 16 p @ [x, y] @ drop 18 p"
  proof -
    have "p = take 16 p @ drop 16 p" by simp
    also have "drop 16 p = [x, y] @ drop 18 p"
      using assms Cons_nth_drop_Suc [of 16 p] Cons_nth_drop_Suc [of 17 p] by (simp add: x_def y_def)
    finally show ?thesis .
  qed
  then obtain q where p: "p = take 16 p @ [x, y] @ q" and q: "q = drop 18 p" by blast
  have l: "length (take 16 p) = 16" using assms by simp
  let ?n = "\<lambda>_ :: nat. False"
  have "sum16 (\<lambda>k. k = 8) 0 p s = sum16 (\<lambda>k. k = 8) 0 (take 16 p @ [x, y] @ q) s"
    by (rule arg_cong [OF p])
  also have "\<dots> = sum16 (\<lambda>k. k = 8) 8 ([x, y] @ q) (sum16 (\<lambda>k. k = 8) 0 (take 16 p) s)"
    using sum16_append [of "take 16 p" "\<lambda>k. k = 8" 0 "[x, y] @ q" s] by (simp only: l) simp
  also have "\<dots> = sum16 ?n 9 q (sum16 ?n 0 (take 16 p) s)"
    using l sum16_skip_later [of 9 "\<lambda>k. k = 8" q] sum16_skip_before [of 0 "take 16 p" 8] by simp
  also have "\<dots> = sum16 ?n 0 (take 16 p @ [0, 0] @ q) s"
    using l by (simp add: sum16_append) (simp add: word16_def)
  finally show ?thesis by (simp only: q)
qed

text \<open>The folding at the end is the carrying of every step.\<close>

lemma fold_nat:
  assumes "n < 2 ^ 30" and "u = n div 65536 + n mod 65536"
  shows "(u + u div 65536) mod 65536 = ones_rest n"
proof -
  have q: "n div 65536 < 16384" using assms(1) by (simp add: less_mult_imp_div_less)
  have r: "n mod 65536 < 65536" by simp
  have n: "n = 65535 * (n div 65536) + u" using assms(2) by simp
  have "ones_rest n = ones_rest u"
  proof (rule ones_rest_unique)
    show "n mod 65535 = u mod 65535" using n by (metis mod_mult_self4)
    show "n = 0 \<longleftrightarrow> u = 0" using n assms(2) by auto
  qed
  moreover have "(u + u div 65536) mod 65536 = ones_rest u"
  proof (cases "u < 65536")
    case True
    then show ?thesis using ones_rest_small [of u] by simp
  next
    case False
    have "u < 65536 + 16384" using q r assms(2) by linarith
    then have "u div 65536 = 1" using False by (simp add: div_nat_eqI)
    moreover have "ones_rest u = u - 65535"
    proof -
      obtain k where k: "u = 65536 + k" "k < 65535"
        using that [of "u - 65536"] False \<open>u < 65536 + 16384\<close> by linarith
      then show ?thesis by (simp add: ones_rest_def)
    qed
    moreover have "(u + 1) mod 65536 = u - 65535"
      using False \<open>u < 65536 + 16384\<close> by (simp add: mod_if)
    ultimately show ?thesis by simp
  qed
  ultimately show ?thesis by simp
qed

lemma fold_total:
  fixes t :: "32 word"
  assumes "unat t < 2 ^ 30"
  shows "unat (ucast (NOT (let u = drop_bit 16 t + (t AND 0xffff) in u + drop_bit 16 u)) :: 16 word)
    = 65535 - ones_rest (unat t)"
proof -
  let ?u = "drop_bit 16 t + (t AND 0xffff)"
  have hi: "unat (drop_bit 16 w) = unat w div 65536" for w :: "32 word"
  proof -
    have "unat (drop_bit 16 w) = drop_bit 16 (unat w)" by (rule unat_drop_bit_eq)
    also have "\<dots> = unat w div 65536" by (simp add: drop_bit_eq_div)
    finally show ?thesis .
  qed
  have "(0xffff :: 32 word) = mask 16" by (simp add: mask_eq_exp_minus_1)
  then have "unat (t AND 0xffff) = unat (take_bit 16 t)" by (simp only: take_bit_eq_mask)
  also have "\<dots> = take_bit 16 (unat t)" by (rule unsigned_take_bit_eq)
  finally have lo: "unat (t AND 0xffff) = unat t mod 65536" by (simp add: take_bit_eq_mod)
  have q: "unat t div 65536 < 16384" "unat t mod 65536 < 65536" using assms by (simp_all add: less_mult_imp_div_less)
  then have u: "unat ?u = unat t div 65536 + unat t mod 65536"
    unfolding unat_word_ariths hi lo by (intro mod_less) simp
  have "unat (?u + drop_bit 16 ?u) = (unat ?u + unat ?u div 65536)"
  proof -
    have "unat ?u < 2 ^ 17" using q unfolding u by simp
    moreover have "unat ?u div 65536 \<le> unat ?u" by simp
    ultimately have "unat ?u + unat ?u div 65536 < 2 ^ 32" by simp
    then show ?thesis by (simp only: unat_word_ariths(1) [of ?u "drop_bit 16 ?u"] hi) simp
  qed
  moreover have "ucast (NOT (?u + drop_bit 16 ?u)) = NOT (ucast (?u + drop_bit 16 ?u) :: 16 word)"
    by (rule bit_word_eqI) (auto simp: bit_simps)
  moreover have "unat (ucast (?u + drop_bit 16 ?u) :: 16 word) = unat (?u + drop_bit 16 ?u) mod 65536"
    by (simp only: unsigned_ucast_eq take_bit_eq_mod) simp
  ultimately show ?thesis
    using fold_nat [OF assms u] by (simp only: Let_def unat_not16)
qed

lemma padded_append: "even (length xs) \<Longrightarrow> padded (xs @ ys) = xs @ padded ys"
  by (induction xs rule: padded.induct) simp_all

lemma length_pseudo [simp]: "length (pseudo_header a b n) = 12"
  by (simp add: pseudo_header_def)

lemma sum16_index: "sum16 (\<lambda>_. False) k bs s = sum16 (\<lambda>_. False) 0 bs s"
proof -
  have "sum16 (\<lambda>_. False) k bs s = sum16 (\<lambda>_. False) m bs s" for m
    by (induction bs arbitrary: k m s rule: padded.induct) simp_all
  then show ?thesis .
qed

lemma tcp_checksum_eq:
  assumes "20 \<le> length p" and "length p \<le> 1500" and "a \<noteq> 0" and "b \<noteq> 0"
  shows "mysock_tcp_checksum a b p =
    Inr (checksum (padded (pseudo_header a b (length p) @ take 16 p @ [0, 0] @ drop 18 p)))"
proof -
  let ?n = "\<lambda>_ :: nat. False" and ?h = "pseudo_header a b (length p)"
  let ?q = "take 16 p @ [0, 0] @ drop 18 p"
  define t where "t = sum16 ?n 0 ?q (sum16 ?n 0 ?h 0)"
  have t: "t = sum16 ?n 0 (?h @ ?q) 0"
    using sum16_append [of ?h ?n 0 ?q 0] sum16_index [of 6 ?q] by (simp add: t_def)
  have "length (?h @ ?q) \<le> 1514" using assms(2) by simp
  then have u: "unat t = total (words16 (padded (?h @ ?q)))" "unat t < 2 ^ 30"
    using unat_sum16 [of 0 "?h @ ?q" 0] total_le [of "padded (?h @ ?q)"] length_padded [of "?h @ ?q"]
    by (simp_all add: t)
  have "unat (checksum (padded (?h @ ?q)))
    = unat (ucast (NOT (let u = drop_bit 16 t + (t AND 0xffff) in u + drop_bit 16 u)) :: 16 word)"
    unfolding unat_checksum fold_total [OF u(2)] by (simp only: u(1))
  then have "ucast (NOT (let u = drop_bit 16 t + (t AND 0xffff) in u + drop_bit 16 u)) = checksum (padded (?h @ ?q))"
    by (simp only: word_unat_eq_iff)
  moreover have "sum16 (\<lambda>k. k = 8) 0 p (sum16 ?n 0 ?h 0) = t"
    using assms(1) by (simp only: t_def sum16_skips)
  ultimately show ?thesis
    using assms by (simp add: mysock_tcp_checksum_def Let_def)
qed

subsection \<open>Sending a segment\<close>

text \<open>A segment with the fields the mysocket layer fills in.\<close>

definition stamped :: "'a mysock_scheme \<Rightarrow> byte list \<Rightarrow> 16 word \<Rightarrow> byte list" where
  "stamped s src c = bytes16 (local_port s) @ bytes16 (peer_port s) @ take 12 (drop 4 src) @ bytes16 c @ [0, 0] @ drop 20 src"

definition connected :: "'a mysock_scheme \<Rightarrow> bool" where
  "connected s \<longleftrightarrow> peer_port s \<noteq> 0 \<and> local_addr s \<noteq> 0 \<and> peer_addr s \<noteq> 0"

definition segment_sum :: "'a mysock_scheme \<Rightarrow> byte list \<Rightarrow> 16 word" where
  "segment_sum s src = checksum (padded (pseudo_header (local_addr s) (peer_addr s) (length src) @
     take 16 (stamped s src 0) @ [0, 0] @ drop 18 (stamped s src 0)))"

lemma length_stamped: "20 \<le> length src \<Longrightarrow> length (stamped s src c) = length src"
  by (simp add: stamped_def)

lemma stamped_around: "20 \<le> length src \<Longrightarrow>
  take 16 (stamped s src c) @ [0, 0] @ drop 18 (stamped s src c) =
  take 16 (stamped s src 0) @ [0, 0] @ drop 18 (stamped s src 0)"
  by (simp add: stamped_def)

lemma network_send_eq:
  assumes "connected s" and "20 \<le> length src" and "length src \<le> 1500"
  shows "stcp_network_send src s = network_send (stamped s src (segment_sum s src)) s"
proof -
  let ?p = "stamped s src 0"
  have "store 0 (bytes16 (local_port s) @ bytes16 (peer_port s)) src
      = Inr (bytes16 (local_port s) @ bytes16 (peer_port s) @ drop 4 src)"
    using assms(2) by (simp add: store_def)
  moreover have "store 16 [0, 0, 0, 0] (bytes16 (local_port s) @ bytes16 (peer_port s) @ drop 4 src) = Inr ?p"
    using assms(2) by (simp add: store_def stamped_def bytes16_def)
  moreover have "mysock_tcp_checksum (local_addr s) (peer_addr s) ?p = Inr (segment_sum s src)"
    using assms length_stamped [OF assms(2), of s 0]
    by (subst tcp_checksum_eq) (simp_all add: connected_def segment_sum_def)
  moreover have "store 16 (bytes16 c) ?p = Inr (stamped s src c)" for c
    using assms(2) by (simp add: store_def stamped_def)
  ultimately show ?thesis
    using assms by (simp add: stcp_network_send_def mysock_set_checksum_def connected_def)
qed

lemma stamped_verifies:
  assumes "connected s" and "20 \<le> length src" and "length src \<le> 1500"
    and "local_addr r = peer_addr s" and "peer_addr r = local_addr s"
  shows "mysock_verify_checksum r (stamped s src (segment_sum s src)) = Inr True"
proof -
  let ?p = "stamped s src (segment_sum s src)"
  have "mysock_tcp_checksum (local_addr s) (peer_addr s) (stamped s src c) = Inr (segment_sum s src)" for c
  proof -
    have "mysock_tcp_checksum (local_addr s) (peer_addr s) (stamped s src c) =
      Inr (checksum (padded (pseudo_header (local_addr s) (peer_addr s) (length (stamped s src c)) @
        take 16 (stamped s src c) @ [0, 0] @ drop 18 (stamped s src c))))"
      using assms(1-3) by (intro tcp_checksum_eq) (simp_all add: connected_def length_stamped)
    also have "take 16 (stamped s src c) @ [0, 0] @ drop 18 (stamped s src c) =
      take 16 (stamped s src 0) @ [0, 0] @ drop 18 (stamped s src 0)"
      by (rule stamped_around [OF assms(2)])
    finally show ?thesis by (simp only: segment_sum_def length_stamped [OF assms(2)])
  qed
  moreover have "load16 16 ?p = Inr (segment_sum s src)"
    using assms(2) by (simp add: load16_def load_def stamped_def)
  ultimately show ?thesis by (simp add: mysock_verify_checksum_def assms(4,5) del: append_assoc)
qed

end
