(* ===== verification/Stcp_Receive.thy ===== *)
theory Stcp_Receive
  imports Stcp_Wire
begin

text \<open>
  The receiving side.  The stream of the peer is a list of bytes; a packet carries a piece of
  it at its sequence number.  The window of the receiver holds pieces of the stream beyond
  what was delivered, and whatever pieces arrive, in whatever order, the application gets a
  prefix of the stream.
\<close>

subsection \<open>Sending changes nothing but the wire\<close>

definition wires :: "'a mysock_scheme \<Rightarrow> 'a mysock_scheme \<Rightarrow> bool" where
  "wires s t \<longleftrightarrow> (\<exists>w sd c b. t = s\<lparr>wire := w, random_seed := sd, copied := c, copy_buffer := b\<rparr>)"

lemma wires_refl [simp, intro]: "wires s s"
  unfolding wires_def by (intro exI [of _ "wire s"] exI [of _ "random_seed s"] exI [of _ "copied s"] exI [of _ "copy_buffer s"]) simp

lemma wires_trans:
  assumes "wires s t" and "wires t u"
  shows "wires s u"
proof -
  from assms(1) obtain w sd c b where t: "t = s\<lparr>wire := w, random_seed := sd, copied := c, copy_buffer := b\<rparr>"
    unfolding wires_def by blast
  from assms(2) obtain w' sd' c' b' where "u = t\<lparr>wire := w', random_seed := sd', copied := c', copy_buffer := b'\<rparr>"
    unfolding wires_def by blast
  then have "u = s\<lparr>wire := w', random_seed := sd', copied := c', copy_buffer := b'\<rparr>" by (simp add: t)
  then show ?thesis unfolding wires_def by blast
qed

lemma wires_fields:
  fixes s :: stcp
  assumes "wires s t"
  shows "network_recv_queue t = network_recv_queue s" "app_send_queue t = app_send_queue s"
    "app_recv_queue t = app_recv_queue s" "send_unack t = send_unack s" "send_next t = send_next s"
    "send_wind t = send_wind s" "recv_next t = recv_next s" "recv_buffer t = recv_buffer s"
    "recv_indicator t = recv_indicator s" "unackd_packets t = unackd_packets s"
    "connection_state t = connection_state s" "clock t = clock s" "packtosend_set t = packtosend_set s"
    "local_addr t = local_addr s" "peer_addr t = peer_addr s" "peer_port t = peer_port s"
    "local_port t = local_port s" "rto t = rto s" "send_ok t = send_ok s"
    "close_requested t = close_requested s" "blocking t = blocking s" "rto_init t = rto_init s"
  using assms by (auto simp: wires_def)

lemma packet_wires: "wires s (snd (network_send_packet p s))"
proof -
  have "wires s (s\<lparr>wire := w\<rparr>)" for w
    unfolding wires_def by (intro exI [of _ w] exI [of _ "random_seed s"] exI [of _ "copied s"] exI [of _ "copy_buffer s"]) simp
  then show ?thesis by (simp add: network_send_packet_def)
qed

lemma network_send_runs:
  assumes "length p \<le> 1500"
  shows "\<exists>n t. network_send p s = Inr (n, t) \<and> wires s t"
proof (cases "is_reliable s")
  case True
  then show ?thesis using packet_wires [of s p]
    by (cases "network_send_packet p s") (simp add: network_send_def)
next
  case False
  obtain r sd where r: "rand_r s (random_seed s) = (r, sd)" by (cases "rand_r s (random_seed s)") auto
  let ?s = "s\<lparr>random_seed := sd\<rparr>"
  have s: "wires s ?s"
    unfolding wires_def by (intro exI [of _ "wire s"] exI [of _ sd] exI [of _ "copied s"] exI [of _ "copy_buffer s"]) simp
  have b: "wires s (?s\<lparr>copy_buffer := p, copied := True\<rparr>)"
    unfolding wires_def by (intro exI [of _ "wire s"] exI [of _ sd] exI [of _ True] exI [of _ p]) simp
  have one: "wires s (snd (network_send_packet q ?s))" for q
    using s packet_wires by (rule wires_trans)
  then have two: "wires s (snd (network_send_packet p (snd (network_send_packet q ?s))))" for q
    using packet_wires by (rule wires_trans)
  have pair: "\<exists>n t. Inr (network_send_packet q u) = (Inr (n, t) :: sr_fault + _) \<and> wires s t"
    if "wires s (snd (network_send_packet q u))" for q u
    using that by (cases "network_send_packet q u") auto
  show ?thesis
    using assms False r s b one two pair [OF one] pair [OF two]
    by (auto simp: network_send_def Let_def)
qed

lemma send_segment_runs:
  assumes "connected s" and "20 \<le> length p" and "length p \<le> 1500"
  shows "\<exists>t. send_segment p s = Inr t \<and> wires s t"
proof -
  have "length (stamped s p (segment_sum s p)) \<le> 1500" using assms(2,3) by (simp add: length_stamped)
  from network_send_runs [OF this, of s] obtain n t where
    "network_send (stamped s p (segment_sum s p)) s = Inr (n, t)" "wires s t" by blast
  then show ?thesis using network_send_eq [OF assms] by (simp add: send_segment_def)
qed

lemma length_make [simp]: "length (make_stcp_packet f q a n) = 20 + n"
  by (simp add: make_stcp_packet_def)

lemma connected_wires: "wires (s :: stcp) t \<Longrightarrow> connected t = connected s"
  by (simp add: connected_def wires_fields)

subsection \<open>Reading a header\<close>

definition timed :: "stcp \<Rightarrow> stcp \<Rightarrow> bool" where
  "timed s t \<longleftrightarrow> (\<exists>v r i u. t = s\<lparr>rttvar := v, srtt := r, rto_init := i, rto := u\<rparr>)"

lemma timed_refl [simp]: "timed s s"
  unfolding timed_def
  by (intro exI [of _ "rttvar s"] exI [of _ "srtt s"] exI [of _ "rto_init s"] exI [of _ "rto s"]) simp

lemma timed_trans:
  assumes "timed s t" and "timed t u"
  shows "timed s u"
proof -
  from assms(1) obtain v r i w where t: "t = s\<lparr>rttvar := v, srtt := r, rto_init := i, rto := w\<rparr>"
    unfolding timed_def by blast
  from assms(2) obtain v' r' i' w' where "u = t\<lparr>rttvar := v', srtt := r', rto_init := i', rto := w'\<rparr>"
    unfolding timed_def by blast
  then have "u = s\<lparr>rttvar := v', srtt := r', rto_init := i', rto := w'\<rparr>" by (simp add: t)
  then show ?thesis unfolding timed_def by blast
qed

lemma timed_set [simp]: "timed s (s\<lparr>rttvar := v, srtt := r, rto_init := i, rto := w\<rparr>)"
  unfolding timed_def by blast

lemma update_timed: "timed s (update_rto p s)"
proof (cases "retry_count p = 0")
  case True
  obtain a b c d where "srtt s = (a, b)" "rttvar s = (c, d)" by (metis surj_pair)
  then show ?thesis using True
    by (simp only: update_rto_def Let_def prod.case split: if_split) simp
qed (simp add: update_rto_def)

lemma timed_fields:
  assumes "timed s t"
  shows "send_unack t = send_unack s" "send_next t = send_next s" "unackd_packets t = unackd_packets s"
    "connected t = connected s"
  using assms by (auto simp: timed_def connected_def)

text \<open>The packets that stay, without the times.\<close>

definition acked :: "32 word \<Rightarrow> packet_t \<Rightarrow> bool" where
  "acked u p \<longleftrightarrow> unat u \<ge> unat (seq_num p) + (length (packet p) - 20)"

lemma remove_packets_eq:
  "\<exists>t. remove_packets ps s = (dropWhile (acked (send_unack s)) ps, t) \<and> timed s t"
proof (induction ps arbitrary: s)
  case (Cons p ps)
  have u: "timed s (update_rto p s)" by (rule update_timed)
  from Cons [of "update_rto p s"] u show ?case
    by (auto simp: Let_def acked_def timed_fields intro: timed_trans)
qed simp

lemma packet_t_remove_eq:
  "\<exists>t. packet_t_remove s = t\<lparr>unackd_packets := dropWhile (acked (send_unack s)) (unackd_packets s)\<rparr> \<and> timed s t"
  using remove_packets_eq [of "unackd_packets s" s] by (auto simp: packet_t_remove_def)

text \<open>What an acknowledgement leaves of the receiving side: everything but for a SYN.\<close>

lemma read_header_receiver:
  assumes "\<not> has_flag h TH_SYN"
  shows "recv_next (read_header h s) = recv_next s" "recv_buffer (read_header h s) = recv_buffer s"
    "recv_indicator (read_header h s) = recv_indicator s" "app_send_queue (read_header h s) = app_send_queue s"
    "network_recv_queue (read_header h s) = network_recv_queue s" "connected (read_header h s) = connected s"
    "connection_state (read_header h s) = connection_state s" "local_addr (read_header h s) = local_addr s"
    "peer_addr (read_header h s) = peer_addr s"
  using assms packet_t_remove_eq [of s] packet_t_remove_eq [of "s\<lparr>send_unack := th_ack h\<rparr>"]
  by (auto simp: read_header_def Let_def timed_def connected_def)


subsection \<open>The window\<close>

lemma length_write_at [simp]: "k + length ys \<le> length xs \<Longrightarrow> length (write_at k ys xs) = length xs"
  by (simp add: write_at_def)

lemma nth_write_at:
  assumes "k + length ys \<le> length xs" and "i < length xs"
  shows "write_at k ys xs ! i = (if k \<le> i \<and> i < k + length ys then ys ! (i - k) else xs ! i)"
  using assms by (auto simp: write_at_def nth_append)

text \<open>
  The window starts at byte \<open>base\<close> of the stream \<open>S\<close>, and \<open>R\<close> are the bytes it has.
\<close>

definition holds :: "byte list \<Rightarrow> nat \<Rightarrow> nat set \<Rightarrow> byte list \<Rightarrow> bool list \<Rightarrow> bool" where
  "holds S base R buf ind \<longleftrightarrow> length buf = WINLEN \<and> length ind = WINLEN \<and>
     (\<forall>i < WINLEN. ind ! i = (base + i \<in> R)) \<and> (\<forall>i < WINLEN. base + i \<in> R \<longrightarrow> buf ! i = S ! (base + i))"

definition run_length :: "nat \<Rightarrow> nat set \<Rightarrow> nat" where
  "run_length base R = length (takeWhile (\<lambda>i. i \<in> R) [base..<base + WINLEN])"

lemma holds_write:
  assumes "holds S base R buf ind" and "base \<le> j" and "j + l \<le> base + WINLEN" and "j + l \<le> length S"
  shows "holds S base (R \<union> {j..<j + l}) (write_at (j - base) (take l (drop j S)) buf)
    (write_at (j - base) (replicate l True) ind)"
proof -
  have d: "length (take l (drop j S)) = l" using assms(4) by simp
  have b: "length buf = WINLEN" "length ind = WINLEN" using assms(1) by (simp_all add: holds_def)
  have f: "j - base + l \<le> WINLEN" using assms(2,3) by linarith
  have "write_at (j - base) (replicate l True) ind ! i = (base + i \<in> R \<union> {j..<j + l})" if "i < WINLEN" for i
    using nth_write_at [of "j - base" "replicate l True" ind i] assms(1,2) that f b
    by (auto simp: holds_def)
  moreover have "write_at (j - base) (take l (drop j S)) buf ! i = S ! (base + i)"
    if "i < WINLEN" "base + i \<in> R \<union> {j..<j + l}" for i
    using nth_write_at [of "j - base" "take l (drop j S)" buf i] assms that f b d
    by (auto simp: holds_def add.commute [of i base])
  ultimately show ?thesis using b d f by (simp add: holds_def)
qed

lemma holds_slide:
  assumes "holds S base R buf ind" and "R \<subseteq> {..<base + WINLEN}" and "m \<le> WINLEN"
  shows "holds S (base + m) R (drop m buf @ replicate m 0) (drop m ind @ replicate m False)"
proof -
  have b: "length buf = WINLEN" "length ind = WINLEN" using assms(1) by (simp_all add: holds_def)
  have "(drop m ind @ replicate m False) ! i = (base + m + i \<in> R)" if "i < WINLEN" for i
    using assms that b by (cases "m + i < WINLEN") (auto simp: holds_def nth_append ac_simps)
  moreover have "(drop m buf @ replicate m 0) ! i = S ! (base + m + i)" if "i < WINLEN" "base + m + i \<in> R" for i
    using assms that b by (cases "m + i < WINLEN") (auto simp: holds_def nth_append ac_simps)
  ultimately show ?thesis using b assms(3) by (simp add: holds_def)
qed

lemma holds_run:
  assumes "holds S base R buf ind"
  shows "length (takeWhile (\<lambda>b. b) ind) = run_length base R"
proof -
  have "ind = map (\<lambda>i. i \<in> R) [base..<base + WINLEN]"
    using assms by (intro nth_equalityI) (auto simp: holds_def)
  then show ?thesis by (simp add: run_length_def takeWhile_map comp_def)
qed

lemma run_member: "i < run_length base R \<Longrightarrow> base + i \<in> R"
proof -
  assume i: "i < run_length base R"
  then have "takeWhile (\<lambda>i. i \<in> R) [base..<base + WINLEN] ! i \<in> R"
    using set_takeWhileD [OF nth_mem] by (metis run_length_def)
  moreover have "takeWhile (\<lambda>i. i \<in> R) [base..<base + WINLEN] ! i = [base..<base + WINLEN] ! i"
    using i by (intro takeWhile_nth) (simp add: run_length_def)
  moreover have "run_length base R \<le> WINLEN"
    using length_takeWhile_le [of "\<lambda>i. i \<in> R" "[base..<base + WINLEN]"] by (simp add: run_length_def)
  ultimately show ?thesis using i by simp
qed

lemma run_le: "run_length base R \<le> WINLEN"
  using length_takeWhile_le [of "\<lambda>i. i \<in> R" "[base..<base + WINLEN]"] by (simp add: run_length_def)

lemma run_ends: "run_length base R < WINLEN \<Longrightarrow> base + run_length base R \<notin> R"
  using nth_length_takeWhile [of "\<lambda>i. i \<in> R" "[base..<base + WINLEN]"] by (simp add: run_length_def)

lemma run_ge: "{base..<base + m} \<subseteq> R \<Longrightarrow> m \<le> WINLEN \<Longrightarrow> m \<le> run_length base R"
proof (rule ccontr)
  assume "{base..<base + m} \<subseteq> R" "m \<le> WINLEN" "\<not> m \<le> run_length base R"
  then have "run_length base R < WINLEN" "base + run_length base R \<in> R" by auto
  then show False using run_ends by blast
qed

lemma run_content:
  assumes "holds S base R buf ind" and "R \<subseteq> {..<length S}"
  shows "take (run_length base R) buf = take (run_length base R) (drop base S)"
proof (rule nth_equalityI)
  let ?m = "run_length base R"
  have m: "?m = 0 \<or> base + (?m - 1) < length S"
  proof (cases "?m = 0")
    case False
    then have "base + (?m - 1) \<in> R" by (intro run_member) simp
    then show ?thesis using assms(2) by auto
  qed simp
  have b: "length buf = WINLEN" using assms(1) by (simp add: holds_def)
  show "length (take ?m buf) = length (take ?m (drop base S))" using m run_le [of base R] b by auto
  show "take ?m buf ! i = take ?m (drop base S) ! i" if "i < length (take ?m buf)" for i
    using that assms run_member [of i base R] run_le [of base R] m by (auto simp: holds_def)
qed

end
