(* ===== verification/Stcp_Stream.thy ===== *)
theory Stcp_Stream
  imports Stcp_Receive
begin

text \<open>
  A packet of the stream at the receiver: one round of the main loop refines the receiver of
  the specification, which is the number of bytes delivered and the set of bytes received.
\<close>

subsection \<open>The specification\<close>

text \<open>
  A piece \<open>(k, n)\<close> is the \<open>n\<close> bytes of the stream from byte \<open>k\<close>.  What is beyond the window
  is cut, and what is complete is delivered; a window that is complete to its end has
  no place for the character the search stops at.
\<close>

definition accept :: "nat \<times> nat \<Rightarrow> nat \<times> nat set \<Rightarrow> (nat \<times> nat set) option" where
  "accept piece = (\<lambda>(base, R).
     let (k, n) = piece;
         R = R \<union> {max k base..<min (k + n) (base + WINLEN)};
         m = run_length base R in
     if m = WINLEN then None else Some (base + m, R))"

fun accept_all :: "(nat \<times> nat) list \<Rightarrow> nat \<times> nat set \<Rightarrow> (nat \<times> nat set) option" where
  "accept_all [] r = Some r"
| "accept_all (x # xs) r = (case accept x r of None \<Rightarrow> None | Some r' \<Rightarrow> accept_all xs r')"

text \<open>A packet with a piece of the stream \<open>S\<close>, whose first byte has the number \<open>r0\<close>.\<close>

definition carries :: "byte list \<Rightarrow> 32 word \<Rightarrow> nat \<times> nat \<Rightarrow> byte list \<Rightarrow> bool" where
  "carries S r0 = (\<lambda>(k, n) p. k + n \<le> length S \<and> n \<le> MAXLEN + MAXOPS \<and> length p = HEADERSIZE + n \<and>
     th_off p = 5 \<and> \<not> has_flag p TH_SYN \<and> \<not> has_flag p TH_FIN \<and> th_seq p = r0 + of_nat k \<and>
     drop HEADERSIZE p = take n (drop k S))"

definition receiver :: "byte list \<Rightarrow> 32 word \<Rightarrow> nat \<times> nat set \<Rightarrow> stcp \<Rightarrow> bool" where
  "receiver S r0 = (\<lambda>(base, R) s. base \<notin> R \<and> R \<subseteq> {..<base + WINLEN} \<and> R \<subseteq> {..<length S} \<and> base \<le> length S \<and>
     recv_next s = r0 + of_nat base \<and> holds S base R (recv_buffer s) (recv_indicator s) \<and>
     connection_state s = CSTATE_ESTABLISHED \<and> connected s)"

subsection \<open>Placing a piece\<close>

lemma header_fields:
  assumes "20 \<le> length p"
  shows "th_seq (take 20 p) = th_seq p" "th_ack (take 20 p) = th_ack p" "th_off (take 20 p) = th_off p"
    "th_flags (take 20 p) = th_flags p" "th_win (take 20 p) = th_win p"
  using assms by (simp_all add: th_seq_def th_ack_def th_off_def th_flags_def th_win_def drop_take)

lemma network_recv_eq:
  assumes "network_recv_queue s = p # q" and "mysock_verify_checksum s p = Inr True" and "length p \<le> k"
  shows "stcp_network_recv k s = Inr (p, length p, s\<lparr>network_recv_queue := q\<rparr>)"
  using assms by (simp add: stcp_network_recv_def mysock_dequeue_buffer_def)

lemma recv_packet_eq:
  assumes "network_recv_queue s = p # q" and "mysock_verify_checksum s p = Inr True"
    and "length p = 20 + n" and "n \<le> 576" and "th_off p = 5"
  shows "recv_packet s =
    (if n > 0 then
       (case place_payload (recv_next s) (take 20 p) n of
          None \<Rightarrow> Inr (-1, take 20 p, s\<lparr>network_recv_queue := q\<rparr>)
        | Some (at, start, l, old) \<Rightarrow>
            and_then (store_payload at start l (p @ replicate (576 - n) 0) (s\<lparr>network_recv_queue := q\<rparr>)) (\<lambda>(m, s).
            Inr (if old then -2 else int m, take 20 p, read_header (take 20 p) s)))
     else Inr (0, take 20 p, read_header (take 20 p) (s\<lparr>network_recv_queue := q\<rparr>)))"
  using assms network_recv_eq [OF assms(1,2), of 596] header_fields [of p]
  by (simp add: recv_packet_def Let_def size_minus_def cong: option.case_cong)

lemma sint_diff:
  assumes "a < 2 ^ 31" and "b < 2 ^ 31"
  shows "sint (x + of_nat a - (x + of_nat b) :: 32 word) = int a - int b"
proof -
  have "x + of_nat a - (x + of_nat b) = (of_int (int a - int b) :: 32 word)" by simp
  moreover have "sint (of_int (int a - int b) :: 32 word) = int a - int b"
    unfolding sint_sbintrunc' using assms by (intro signed_take_bit_int_eq_self) simp_all
  ultimately show ?thesis by simp
qed

lemma place_payload_eq:
  assumes "carries S r0 (k, n) p" and "n > 0" and "base \<le> length S" and "unat r0 + length S < 2 ^ 31"
  shows "place_payload (r0 + of_nat base) (take 20 p) n =
    (if k + n \<le> base then Some (0, 20, 0, True)
     else if k > base + WINLEN then None
     else Some (max k base - base, 20 + (max k base - k), min (k + n) (base + WINLEN) - max k base, False))"
proof -
  have p: "th_seq (take 20 p) = r0 + of_nat k" "th_off (take 20 p) = 5" "k + n \<le> length S"
    using assms(1) by (simp_all add: carries_def header_fields)
  have l: "k < 2 ^ 31" "base < 2 ^ 31" "k \<le> length S" using p(3) assms(3,4) by simp_all
  have d: "sint (r0 + of_nat k - (r0 + of_nat base)) = int k - int base" by (rule sint_diff [OF l(1,2)])
  then have d': "sint (of_nat k - of_nat base :: 32 word) = int k - int base" by simp
  have u: "unat (r0 + of_nat i) = unat r0 + i" if "i \<le> length S" for i
    using that assms(4) by (subst unat_add_lem [THEN iffD1]) (simp_all add: unat_of_nat)
  have e: "unat (r0 + of_nat base - (r0 + of_nat k)) = base - k" if "k \<le> base"
  proof -
    have "r0 + of_nat base - (r0 + of_nat k) = (of_nat (base - k) :: 32 word)"
      using that by simp
    then show ?thesis using l(2) by (simp add: unat_of_nat)
  qed
  show ?thesis
  proof (cases "k < base")
    case True
    have "n \<le> 576" using assms(1) by (simp add: carries_def)
    then show ?thesis
      using True assms(2-4) l(3) u [of k] u [of base] p(3) e
      by (auto simp: place_payload_def Let_def p d' size_minus_def)
  next
    case False
    then show ?thesis using assms(2) by (auto simp: place_payload_def Let_def p d')
  qed
qed

lemma store_payload_eq:
  assumes "carries S r0 (k, n) p" and "holds S base R (recv_buffer s) (recv_indicator s)"
    and "k \<le> j" and "base \<le> j" and "j + l \<le> k + n" and "j + l \<le> base + WINLEN" and "R' = R \<union> {j..<j + l}"
  shows "store_payload (j - base) (20 + (j - k)) l (p @ replicate (576 - n) 0) s =
    (let m = run_length base R' in
     if m = WINLEN then Inl Out_Of_Bounds
     else Inr (m, s\<lparr>recv_buffer := write_at (j - base) (take l (drop j S)) (recv_buffer s),
       recv_indicator := write_at (j - base) (replicate l True) (recv_indicator s), recv_next := recv_next s + of_nat m\<rparr>))"
proof -
  have p: "k + n \<le> length S" "n \<le> 576" "length p = 20 + n" "drop 20 p = take n (drop k S)"
    using assms(1) by (simp_all add: carries_def)
  have "take l (drop (20 + (j - k)) (p @ replicate (576 - n) 0)) = take l (drop (j - k) (drop 20 p))"
    using p(2,3) assms(3,5) by (simp add: add.commute)
  also have "\<dots> = take l (drop j S)"
    using assms(3,5) unfolding p(4) by (simp add: drop_take min_def)
  finally have d: "load (20 + (j - k)) l (p @ replicate (576 - n) 0) = Inr (take l (drop j S))"
    using p assms(3,5) by (simp add: load_def)
  have h: "holds S base R' (write_at (j - base) (take l (drop j S)) (recv_buffer s))
      (write_at (j - base) (replicate l True) (recv_indicator s))"
    unfolding assms(7) using assms(2,4,5,6) p(1) by (intro holds_write) simp_all
  then have "length (write_at (j - base) (replicate l True) (recv_indicator s)) = WINLEN" by (simp add: holds_def)
  then show ?thesis
    using holds_run [OF h] by (simp add: store_payload_def d indicated_def Let_def)
qed


subsection \<open>A packet in a round\<close>

text \<open>What a packet leaves of the side that sends and of the application's queue.\<close>

definition stays :: "stcp \<Rightarrow> stcp \<Rightarrow> bool" where
  "stays s t \<longleftrightarrow> local_addr t = local_addr s \<and> peer_addr t = peer_addr s \<and> app_recv_queue t = app_recv_queue s \<and>
     close_requested t = close_requested s \<and> send_next t = send_next s \<and> send_unack s \<le> send_unack t"

lemma stays_trans: "stays s t \<Longrightarrow> stays t u \<Longrightarrow> stays s u"
  by (auto simp: stays_def)

lemma wires_stays: "wires s t \<Longrightarrow> stays s t"
  by (simp add: stays_def wires_fields)

lemma read_header_stays: "stays s (read_header h s)"
  using packet_t_remove_eq [of s] packet_t_remove_eq [of "s\<lparr>send_unack := th_ack h\<rparr>"]
  by (auto simp: read_header_def Let_def timed_def stays_def)

definition sends :: "stcp \<Rightarrow> stcp \<Rightarrow> bool" where
  "sends s t \<longleftrightarrow> (\<exists>u b. wires s u \<and> t = u\<lparr>packtosend_set := b\<rparr>)"

lemma sends_fields:
  assumes "sends s t"
  shows "network_recv_queue t = network_recv_queue s" "app_send_queue t = app_send_queue s"
    "recv_next t = recv_next s" "recv_buffer t = recv_buffer s" "recv_indicator t = recv_indicator s"
    "connection_state t = connection_state s" "connected t = connected s" "stays s t"
  using assms by (auto simp: sends_def wires_fields connected_def stays_def)

lemma sends_refl [simp]: "sends s s"
  unfolding sends_def by (intro exI [of _ s] exI [of _ "packtosend_set s"]) simp

lemma on_data_eq:
  assumes "recv_packet s = Inr (d, h, t)" and "connection_state t = CSTATE_ESTABLISHED" and "connected t"
    and "\<not> has_flag h TH_FIN"
  shows "\<exists>u. sends t u \<and> on_network_data s =
    (if d > 0 then and_then (deliver (nat d) u) (\<lambda>s. Inr (False, s)) else Inr (False, u))"
proof -
  obtain u where u: "send_segment (make_stcp_packet TH_ACK (send_next t) (recv_next t) 0) t = Inr u" "wires t u"
    using send_segment_runs [OF assms(3), of "make_stcp_packet TH_ACK (send_next t) (recv_next t) 0"] by auto
  let ?u = "if d > 0 \<or> d = -2 then u\<lparr>packtosend_set := True\<rparr> else t"
  have s: "sends t ?u" using u(2) sends_refl unfolding sends_def by auto
  have fin: "on_ack v = (False, v)" if "connection_state v = CSTATE_ESTABLISHED" for v
    using that by (simp add: on_ack_def)
  have "connection_state ?u = CSTATE_ESTABLISHED" using sends_fields(6) [OF s] assms(2) by simp
  then have e: "connection_state v = CSTATE_ESTABLISHED" if "deliver m ?u = Inr v" for v m
    using that by (auto simp: deliver_def Let_def stcp_app_send_def indicated_def simp del: if_split_asm split: if_splits)
  have "on_network_data s =
    (if d > 0 then and_then (deliver (nat d) ?u) (\<lambda>s. Inr (False, s)) else Inr (False, ?u))"
  proof (cases "d > 0")
    case True
    then show ?thesis using assms(1,4) u(1) e
      by (cases "deliver (nat d) ?u") (simp_all add: on_network_data_def fin)
  next
    case False
    then show ?thesis using assms(1,2,4) u(1) wires_fields(11) [OF u(2)]
      by (simp add: on_network_data_def fin)
  qed
  then show ?thesis using s by blast
qed

lemma deliver_eq:
  assumes "holds S base R (recv_buffer s) (recv_indicator s)" and "R \<subseteq> {..<length S}"
    and "m = run_length base R" and "0 < m" and "m < WINLEN"
  shows "deliver m s = Inr (s\<lparr>app_send_queue := app_send_queue s @ [take m (drop base S)],
    recv_buffer := drop m (recv_buffer s) @ replicate m 0,
    recv_indicator := drop m (recv_indicator s) @ replicate m False\<rparr>)"
proof -
  have b: "length (recv_buffer s) = WINLEN" "length (recv_indicator s) = WINLEN"
    using assms(1) by (simp_all add: holds_def)
  have "take m (recv_buffer s) = take m (drop base S)" using run_content [OF assms(1,2)] assms(3) by simp
  then show ?thesis
    using assms(3-5) b holds_run [OF assms(1)]
    by (auto simp: deliver_def Let_def stcp_app_send_def indicated_def mysock_enqueue_buffer_def)
qed

lemma accept_nothing:
  assumes "base \<notin> R" and "min (k + n) (base + WINLEN) \<le> max k base"
  shows "accept (k, n) (base, R) = Some (base, R)"
proof -
  have "run_length base R = 0" using assms(1) run_member [of 0 base R] by (cases "run_length base R") simp_all
  then show ?thesis using assms(2) by (simp add: accept_def)
qed


lemma receiver_queue [simp]: "receiver S r0 br (s\<lparr>network_recv_queue := q\<rparr>) = receiver S r0 br s"
  by (cases br) (simp add: receiver_def connected_def)

lemma stays_queue [simp]: "stays s (s\<lparr>network_recv_queue := q\<rparr>)"
  by (simp add: stays_def)

lemma receiver_header: "\<not> has_flag h TH_SYN \<Longrightarrow> receiver S r0 br (read_header h s) = receiver S r0 br s"
  by (cases br) (simp add: receiver_def read_header_receiver)

lemma receiver_sends: "sends s t \<Longrightarrow> receiver S r0 br t = receiver S r0 br s"
  by (cases br) (simp add: receiver_def sends_fields)

text \<open>Nothing new in a packet.\<close>

lemma idle_round:
  assumes r: "receiver S r0 (base, R) s" and run: "recv_packet s = Inr (d, h, t)" and "d \<le> 0"
    and t: "t = s\<lparr>network_recv_queue := q\<rparr> \<or> t = read_header h (s\<lparr>network_recv_queue := q\<rparr>)"
    and h: "\<not> has_flag h TH_SYN" "\<not> has_flag h TH_FIN"
  shows "\<exists>t. on_network_data s = Inr (False, t) \<and> receiver S r0 (base, R) t \<and>
    network_recv_queue t = q \<and> stays s t \<and> app_send_queue t = app_send_queue s"
proof -
  have t: "receiver S r0 (base, R) t \<and> network_recv_queue t = q \<and> app_send_queue t = app_send_queue s \<and> stays s t"
    using t
  proof
    assume "t = read_header h (s\<lparr>network_recv_queue := q\<rparr>)"
    moreover have "stays s (read_header h (s\<lparr>network_recv_queue := q\<rparr>))"
      using stays_queue read_header_stays by (rule stays_trans)
    ultimately show ?thesis using r by (simp add: receiver_header [OF h(1)] read_header_receiver [OF h(1)])
  qed (use r in simp)
  then have "connection_state t = CSTATE_ESTABLISHED" "connected t" by (simp_all add: receiver_def)
  from on_data_eq [OF run this h(2)] assms(3) obtain u where u: "on_network_data s = Inr (False, u)" "sends t u"
    by auto
  moreover have "stays s u" using t sends_fields(8) [OF u(2)] stays_trans by blast
  ultimately show ?thesis using t receiver_sends [OF u(2)] sends_fields [OF u(2)] by auto
qed

text \<open>What is complete at the front of the window is delivered.\<close>

lemma new_round:
  assumes r: "receiver S r0 (base, R) s" and run: "recv_packet s = Inr (int m, h, read_header h t)"
    and t: "t = s\<lparr>network_recv_queue := q, recv_buffer := buf, recv_indicator := ind, recv_next := recv_next s + of_nat m\<rparr>"
    and w: "holds S base R' buf ind" and sub: "R' \<subseteq> {..<base + WINLEN}" "R' \<subseteq> {..<length S}"
    and m: "m = run_length base R'" "m < WINLEN"
    and h: "\<not> has_flag h TH_SYN" "\<not> has_flag h TH_FIN"
  shows "\<exists>t. on_network_data s = Inr (False, t) \<and> receiver S r0 (base + m, R') t \<and>
    network_recv_queue t = q \<and> stays s t \<and>
    app_send_queue t = app_send_queue s @ (if m = 0 then [] else [take m (drop base S)])"
proof -
  let ?t = "read_header h t"
  have b: "base + m \<notin> R'" "base + m \<le> length S"
  proof -
    show "base + m \<notin> R'" using m run_ends by blast
    show "base + m \<le> length S"
    proof (cases m)
      case 0
      then show ?thesis using r by (simp add: receiver_def)
    next
      case (Suc l)
      then have "base + l \<in> R'" using m(1) by (intro run_member) simp
      then show ?thesis using sub(2) Suc by auto
    qed
  qed
  have "connected s" "connection_state s = CSTATE_ESTABLISHED" "recv_next s = r0 + of_nat base"
    using r by (simp_all add: receiver_def)
  then have "connected t" "connection_state t = CSTATE_ESTABLISHED" "recv_next t = r0 + of_nat (base + m)"
    by (simp_all add: t connected_def)
  then have c: "connection_state ?t = CSTATE_ESTABLISHED" "connected ?t" "recv_next ?t = r0 + of_nat (base + m)"
    "recv_buffer ?t = buf" "recv_indicator ?t = ind" "network_recv_queue ?t = q" "app_send_queue ?t = app_send_queue s"
    by (simp_all only: read_header_receiver [OF h(1)]) (simp_all add: t)
  have "stays s t" by (simp add: t stays_def)
  then have st: "stays s ?t" using read_header_stays by (rule stays_trans)
  from on_data_eq [OF run c(1,2) h(2)] obtain u where u: "sends ?t u"
    "on_network_data s = (if int m > 0 then and_then (deliver (nat (int m)) u) (\<lambda>s. Inr (False, s)) else Inr (False, u))"
    by blast
  note uf = sends_fields [OF u(1)]
  have su: "stays s u" using st uf(8) by (rule stays_trans)
  show ?thesis
  proof (cases "m = 0")
    case True
    then show ?thesis using u(2) uf c b sub su w by (simp add: receiver_def)
  next
    case False
    let ?v = "u\<lparr>app_send_queue := app_send_queue u @ [take m (drop base S)],
      recv_buffer := drop m buf @ replicate m 0, recv_indicator := drop m ind @ replicate m False\<rparr>"
    have "deliver m u = Inr ?v"
      using deliver_eq [of S base R' u m] w uf c sub(2) m False by simp
    moreover have "holds S (base + m) R' (recv_buffer ?v) (recv_indicator ?v)"
      using holds_slide [OF w sub(1), of m] m(2) by simp
    moreover have "stays s ?v" using su by (simp add: stays_def)
    moreover have "connected ?v" using uf(7) c(2) by (simp add: connected_def)
    ultimately show ?thesis
      using u(2) uf c b sub False by (auto simp: receiver_def)
  qed
qed

lemma receiver_round:
  assumes r: "receiver S r0 (base, R) s" and c: "carries S r0 (k, n) p"
    and q: "network_recv_queue s = p # q" and v: "mysock_verify_checksum s p = Inr True"
    and l: "unat r0 + length S < 2 ^ 31"
  shows "case accept (k, n) (base, R) of
      None \<Rightarrow> on_network_data s = Inl Out_Of_Bounds
    | Some (base', R') \<Rightarrow> \<exists>t. on_network_data s = Inr (False, t) \<and> receiver S r0 (base', R') t \<and>
        network_recv_queue t = q \<and> stays s t \<and>
        app_send_queue t = app_send_queue s @ (if base' = base then [] else [take (base' - base) (drop base S)])"
proof -
  let ?s = "s\<lparr>network_recv_queue := q\<rparr>" and ?h = "take 20 p"
  let ?from = "max k base" and ?to = "min (k + n) (base + WINLEN)"
  have p: "length p = 20 + n" "n \<le> 576" "th_off p = 5" "\<not> has_flag ?h TH_SYN" "\<not> has_flag ?h TH_FIN" "k + n \<le> length S"
    using c by (simp_all add: carries_def header_fields)
  have b: "base \<notin> R" "R \<subseteq> {..<base + WINLEN}" "R \<subseteq> {..<length S}" "base \<le> length S"
    "recv_next s = r0 + of_nat base" "holds S base R (recv_buffer s) (recv_indicator s)"
    using r by (simp_all add: receiver_def)
  note recv = recv_packet_eq [OF q v p(1-3)]
  note place = place_payload_eq [OF c _ b(4) l]
  have idle: ?thesis if "recv_packet s = Inr (d, ?h, t)" "d \<le> 0" "t = ?s \<or> t = read_header ?h ?s" "?to \<le> ?from" for d t
    using idle_round [OF r that(1-3) p(4,5)] accept_nothing [OF b(1) that(4)] by simp
  consider "n = 0" | "0 < n" "k > base + WINLEN" | "0 < n" "k \<le> base + WINLEN" "k + n \<le> base"
    | "0 < n" "k \<le> base + WINLEN" "base < k + n" by linarith
  then show ?thesis
  proof cases
    case 1
    then show ?thesis using recv by (intro idle) auto
  next
    case 2
    then have "recv_packet s = Inr (-1, ?h, ?s)" using recv place by (simp add: b(5))
    then show ?thesis using 2 by (intro idle) auto
  next
    case 3
    have "run_length base R = 0" using b(1) run_member [of 0 base R] by (cases "run_length base R") simp_all
    then have "store_payload 0 20 0 (p @ replicate (576 - n) 0) ?s = Inr (0, ?s)"
      using b(6) holds_run [OF b(6)]
      by (auto simp: store_payload_def load_def indicated_def write_at_def holds_def p(1) Let_def)
    then have "recv_packet s = Inr (-2, ?h, read_header ?h ?s)" using recv place 3 by (simp add: b(5))
    then show ?thesis using 3 by (intro idle) auto
  next
    case 4
    define R' where "R' = R \<union> {?from..<?from + (?to - ?from)}"
    let ?m = "run_length base R'"
    have ft: "?from \<le> ?to" using 4 by simp
    have e: "R' = R \<union> {?from..<?to}" using ft by (simp add: R'_def)
    have a: "accept (k, n) (base, R) = (if ?m = WINLEN then None else Some (base + ?m, R'))"
      by (simp only: accept_def prod.case Let_def e)
    let ?t = "?s\<lparr>recv_buffer := write_at (?from - base) (take (?to - ?from) (drop ?from S)) (recv_buffer s),
      recv_indicator := write_at (?from - base) (replicate (?to - ?from) True) (recv_indicator s),
      recv_next := recv_next s + of_nat ?m\<rparr>"
    have st: "store_payload (?from - base) (20 + (?from - k)) (?to - ?from) (p @ replicate (576 - n) 0) ?s =
      (if ?m = WINLEN then Inl Out_Of_Bounds else Inr (?m, ?t))"
    proof -
      have "holds S base R (recv_buffer ?s) (recv_indicator ?s)" "k \<le> ?from" "base \<le> ?from" using b(6) by simp_all
      moreover have "?from + (?to - ?from) \<le> k + n" "?from + (?to - ?from) \<le> base + WINLEN" using ft by linarith+
      moreover have "recv_buffer ?s = recv_buffer s" "recv_indicator ?s = recv_indicator s" "recv_next ?s = recv_next s"
        by simp_all
      ultimately show ?thesis using store_payload_eq [OF c, of base R ?s ?from "?to - ?from" R'] R'_def by (simp only: Let_def)
    qed
    have "recv_packet s = (if ?m = WINLEN then Inl Out_Of_Bounds else Inr (int ?m, ?h, read_header ?h ?t))"
    proof -
      have "\<not> k + n \<le> base" "\<not> k > base + WINLEN" using 4(2,3) by linarith+
      then have "place_payload (recv_next s) ?h n = Some (?from - base, 20 + (?from - k), ?to - ?from, False)"
        unfolding b(5) place [OF 4(1)] by (simp only: if_False)
      then show ?thesis
        unfolding recv by (simp only: 4(1) if_True option.case prod.case st and_then_simps if_False split: if_split) simp
    qed
    moreover have "?thesis" if "?m = WINLEN" "recv_packet s = Inl Out_Of_Bounds"
      using that by (simp add: a on_network_data_def)
    moreover have "?thesis" if m: "?m \<noteq> WINLEN" and run: "recv_packet s = Inr (int ?m, ?h, read_header ?h ?t)"
    proof -
      have h: "holds S base R' (write_at (?from - base) (take (?to - ?from) (drop ?from S)) (recv_buffer s))
        (write_at (?from - base) (replicate (?to - ?from) True) (recv_indicator s))"
        using holds_write [OF b(6), of ?from "?to - ?from"] ft p(6) by (simp add: R'_def)
      have sub: "R' \<subseteq> {..<base + WINLEN}" "R' \<subseteq> {..<length S}" using b(2,3) p(6) ft by (auto simp: R'_def)
      have "?m < WINLEN" using m run_le [of base R'] by linarith
      note goes = new_round [OF r run refl h sub refl this p(4,5)]
      have "(base + ?m = base) = (?m = 0)" "base + ?m - base = ?m" by simp_all
      then show ?thesis using goes by (simp only: a m if_False option.case prod.case)
    qed
    ultimately show ?thesis by argo
  qed
qed

subsection \<open>Rounds of the main loop\<close>

text \<open>A number of rounds, unless the loop is left before.\<close>

fun rounds :: "nat \<Rightarrow> stcp \<Rightarrow> sr_fault + bool \<times> stcp" where
  "rounds 0 s = Inr (False, s)"
| "rounds (Suc n) s = and_then (control_round s) (\<lambda>(stop, s). if stop then Inr (True, s) else rounds n s)"

text \<open>A side that waits for nothing but the network.\<close>

definition quiet :: "stcp \<Rightarrow> bool" where
  "quiet s \<longleftrightarrow> app_recv_queue s = [] \<and> \<not> close_requested s \<and> send_next s \<le> send_unack s"

lemma quiet_stays: "quiet s \<Longrightarrow> stays s t \<Longrightarrow> quiet t"
  by (auto simp: quiet_def stays_def)

lemma quiet_round:
  assumes "quiet s" and "network_recv_queue s \<noteq> []"
  shows "control_round s = on_network_data s"
proof -
  have "\<not> send_unack s < send_next s" using assms(1) by (auto simp: quiet_def)
  then have "control_wait s = Inr (NETWORK_DATA, s)"
    using assms by (simp add: control_wait_def quiet_def stcp_wait_for_event_def Let_def)
  then show ?thesis
    by (cases "on_network_data s") (auto simp: control_round_def)
qed

lemma verify_stays: "stays s t \<Longrightarrow> mysock_verify_checksum t p = mysock_verify_checksum s p"
  by (simp add: stays_def mysock_verify_checksum_def)

lemma receiver_rounds:
  assumes "receiver S r0 (base, R) s" and "list_all2 (carries S r0) pieces q"
    and "network_recv_queue s = q" and "\<forall>p \<in> set q. mysock_verify_checksum s p = Inr True"
    and "quiet s" and "unat r0 + length S < 2 ^ 31"
  shows "case accept_all pieces (base, R) of
      None \<Rightarrow> rounds (length q) s = Inl Out_Of_Bounds
    | Some (base', R') \<Rightarrow> \<exists>t. rounds (length q) s = Inr (False, t) \<and> receiver S r0 (base', R') t \<and>
        base \<le> base' \<and> concat (app_send_queue t) = concat (app_send_queue s) @ take (base' - base) (drop base S)"
  using assms
proof (induction pieces arbitrary: base R s q)
  case Nil
  then show ?case by simp
next
  case (Cons piece pieces)
  obtain k n where piece: "piece = (k, n)" by (cases piece)
  from Cons.prems(2) obtain p ps where q: "q = p # ps" and c: "carries S r0 (k, n) p"
    and cs: "list_all2 (carries S r0) pieces ps" by (auto simp: list_all2_Cons1 piece)
  have n: "network_recv_queue s = p # ps" using Cons.prems(3) q by simp
  have v: "mysock_verify_checksum s p = Inr True" using Cons.prems(4) q by simp
  have run: "control_round s = on_network_data s" using quiet_round [OF Cons.prems(5)] n by simp
  note step = receiver_round [OF Cons.prems(1) c n v Cons.prems(6)]
  show ?case
  proof (cases "accept (k, n) (base, R)")
    case None
    then show ?thesis using step by (simp add: piece q run)
  next
    case (Some r)
    obtain base' R' where r: "r = (base', R')" by (cases r)
    from step Some r obtain t where t: "on_network_data s = Inr (False, t)" "receiver S r0 (base', R') t"
      "network_recv_queue t = ps" "stays s t"
      "app_send_queue t = app_send_queue s @ (if base' = base then [] else [take (base' - base) (drop base S)])"
      by auto
    have le: "base \<le> base'" using Some r by (auto simp: accept_def Let_def split: if_splits)
    have "\<forall>p \<in> set ps. mysock_verify_checksum t p = Inr True"
      using Cons.prems(4) q verify_stays [OF t(4)] by simp
    note IH = Cons.IH [OF t(2) cs t(3) this quiet_stays [OF Cons.prems(5) t(4)] Cons.prems(6)]
    have glue: "take (base' - base) (drop base S) @ take (b - base') (drop base' S) = take (b - base) (drop base S)"
      if "base' \<le> b" for b
    proof -
      have "take (b - base) (drop base S) = take (base' - base + (b - base')) (drop base S)" using le that by simp
      also have "\<dots> = take (base' - base) (drop base S) @ take (b - base') (drop (base' - base) (drop base S))"
        by (rule take_add)
      finally show ?thesis using le by simp
    qed
    have all: "accept_all (piece # pieces) (base, R) = accept_all pieces (base', R')" using Some r by (simp add: piece)
    have go: "rounds (length q) s = rounds (length ps) t" by (simp add: q run t(1))
    show ?thesis
    proof (cases "accept_all pieces (base', R')")
      case None
      then show ?thesis using IH all go by simp
    next
      case (Some z)
      obtain b R'' where z: "z = (b, R'')" by (cases z)
      with IH Some obtain u where u: "rounds (length ps) t = Inr (False, u)" "receiver S r0 (b, R'') u" "base' \<le> b"
        "concat (app_send_queue u) = concat (app_send_queue t) @ take (b - base') (drop base' S)" by auto
      have "concat (app_send_queue t) = concat (app_send_queue s) @ take (base' - base) (drop base S)"
        using t(5) by simp
      then show ?thesis using all go Some z u le glue [OF u(3)] by auto
    qed
  qed
qed

subsection \<open>Streams that arrive\<close>

text \<open>
  What a receiver delivers that keeps nothing out of order: the receiver with a window is at
  least as far.
\<close>

fun in_order :: "(nat \<times> nat) list \<Rightarrow> nat \<Rightarrow> nat" where
  "in_order [] base = base"
| "in_order ((k, n) # pieces) base = in_order pieces (if k \<le> base then max base (k + n) else base)"

lemma in_order_mono: "a \<le> b \<Longrightarrow> in_order pieces a \<le> in_order pieces b"
proof (induction pieces arbitrary: a b)
  case (Cons piece pieces)
  obtain k n where piece: "piece = (k, n)" by (cases piece)
  have "(if k \<le> a then max a (k + n) else a) \<le> (if k \<le> b then max b (k + n) else b)"
    using Cons.prems by (simp add: max_def)
  from Cons.IH [OF this] show ?case by (simp only: piece in_order.simps)
qed simp

lemma accept_progress:
  assumes "accept (k, n) (base, R) = Some (base', R')" and "k \<le> base"
  shows "k + n \<le> base'"
proof -
  let ?R = "R \<union> {max k base..<min (k + n) (base + WINLEN)}"
  have r: "run_length base ?R \<noteq> WINLEN" "base' = base + run_length base ?R"
    using assms(1) by (simp add: accept_def Let_def split: if_splits, auto simp: accept_def Let_def split: if_splits)
  have "{base..<base + min (k + n - base) WINLEN} \<subseteq> ?R" using assms(2) by auto
  then have "min (k + n - base) WINLEN \<le> run_length base ?R" by (rule run_ge) simp
  then show ?thesis using r run_le [of base ?R] by linarith
qed

lemma accept_le: "accept (k, n) (base, R) = Some (base', R') \<Longrightarrow> base \<le> base'"
  by (auto simp: accept_def Let_def split: if_splits)

lemma accept_all_in_order:
  "accept_all pieces (base, R) = Some (base', R') \<Longrightarrow> in_order pieces base \<le> base'"
proof (induction pieces arbitrary: base R)
  case (Cons piece pieces)
  obtain k n where piece: "piece = (k, n)" by (cases piece)
  from Cons.prems obtain b Q where a: "accept (k, n) (base, R) = Some (b, Q)" "accept_all pieces (b, Q) = Some (base', R')"
    by (auto simp: piece split: option.splits)
  have "(if k \<le> base then max base (k + n) else base) \<le> b"
    using accept_progress [OF a(1)] accept_le [OF a(1)] by simp
  from le_trans [OF in_order_mono [OF this] Cons.IH [OF a(2)]] show ?case by (simp only: piece in_order.simps)
qed simp

lemma accept_all_short:
  assumes "R \<subseteq> {..<l}" and "l < base + WINLEN" and "\<forall>(k, n) \<in> set pieces. k + n \<le> l"
  shows "accept_all pieces (base, R) \<noteq> None"
  using assms
proof (induction pieces arbitrary: base R)
  case (Cons piece pieces)
  obtain k n where piece: "piece = (k, n)" by (cases piece)
  let ?R = "R \<union> {max k base..<min (k + n) (base + WINLEN)}"
  have sub: "?R \<subseteq> {..<l}" using Cons.prems(1,3) by (auto simp: piece)
  have "run_length base ?R \<noteq> WINLEN"
  proof
    assume "run_length base ?R = WINLEN"
    then have "base + (WINLEN - 1) \<in> ?R" by (intro run_member) simp
    then have "base + (WINLEN - 1) < l" using sub by blast
    then show False using Cons.prems(2) by simp
  qed
  then have "accept piece (base, R) = Some (base + run_length base ?R, ?R)" by (simp add: accept_def piece Let_def)
  moreover have "accept_all pieces (base + run_length base ?R, ?R) \<noteq> None"
    using Cons.prems sub by (intro Cons.IH) auto
  ultimately show ?case by simp
qed simp

end
