(* ===== verification/Stcp_Send.thy ===== *)
theory Stcp_Send
  imports Stcp_Stream
begin

text \<open>
  The sending side: segments of the application's data, the window they keep to, the list of
  what is not acknowledged, and sending it again.
\<close>

subsection \<open>Segments\<close>

text \<open>A segment as the transport layer makes it, with its payload.\<close>

definition segment :: "byte \<Rightarrow> 32 word \<Rightarrow> 32 word \<Rightarrow> byte list \<Rightarrow> byte list" where
  "segment flags seq ack payload =
     [0, 0, 0, 0] @ bytes32 (ntohl seq) @ bytes32 (ntohl ack) @ [push_bit 4 5, flags] @
     bytes16 (htons (of_nat WINLEN)) @ [0, 0, 0, 0] @ payload"

lemma make_segment: "make_stcp_packet flags seq ack n = segment flags seq ack (replicate n 0)"
  by (simp add: make_stcp_packet_def segment_def)

lemma length_segment [simp]: "length (segment flags seq ack payload) = 20 + length payload"
  by (simp add: segment_def)

lemma store_payload_segment:
  "store 20 d (make_stcp_packet flags seq ack (length d)) = Inr (segment flags seq ack d)"
  by (simp add: make_segment store_def) (simp add: segment_def bytes32_def bytes16_def)

lemma store_ack_segment:
  "store 8 (bytes32 (ntohl ack')) (segment flags seq ack d) = Inr (segment flags seq ack' d)"
  by (simp add: store_def) (simp add: segment_def bytes32_def bytes16_def)

lemma stamped_segment:
  "stamped s (segment flags seq ack d) c = bytes16 (local_port s) @ bytes16 (peer_port s) @ bytes32 (ntohl seq) @
     bytes32 (ntohl ack) @ [push_bit 4 5, flags] @ bytes16 (htons (of_nat WINLEN)) @ bytes16 c @ [0, 0] @ d"
  by (simp add: stamped_def segment_def bytes32_def bytes16_def)

lemma stamped_fields:
  "th_seq (stamped s (segment flags seq ack d) c) = seq"
  "th_ack (stamped s (segment flags seq ack d) c) = ack"
  "th_off (stamped s (segment flags seq ack d) c) = 5"
  "th_flags (stamped s (segment flags seq ack d) c) = flags"
  "drop 20 (stamped s (segment flags seq ack d) c) = d"
  by (simp_all add: stamped_segment th_seq_def th_ack_def th_off_def th_flags_def nth_append)

text \<open>A segment of data carries its piece of the stream.\<close>

lemma segment_carries:
  assumes "d = take n (drop k S)" and "k + n \<le> length S" and "n \<le> 576"
  shows "carries S r0 (k, n) (stamped s (segment TH_ACK (r0 + of_nat k) ack d) c)"
  using assms by (simp add: carries_def stamped_fields length_stamped)

subsection \<open>Sending\<close>

lemma network_send_wires:
  assumes "network_send p s = Inr (n, t)" and "length p \<le> 1500"
  shows "wires s t"
  using network_send_runs [OF assms(2), of s] assms(1) by auto

lemma stcp_send_wires: "stcp_network_send p s = Inr (n, t) \<Longrightarrow> wires s t"
  by (auto simp: stcp_network_send_def mysock_set_checksum_def and_then_eq_Inr dest!: store_Inr
      intro: network_send_wires split: if_splits)

lemma send_segment_wires: "send_segment p s = Inr t \<Longrightarrow> wires s t"
  by (auto simp: send_segment_def and_then_eq_Inr intro: stcp_send_wires)

text \<open>A connection that loses nothing on its own side.\<close>

lemma send_segment_reliable:
  assumes "connected s" and "20 \<le> length p" and "length p \<le> 1500" and "is_reliable s" and "send_ok s"
  shows "send_segment p s = Inr (s\<lparr>wire := wire s @ [stamped s p (segment_sum s p)]\<rparr>)"
  using network_send_eq [OF assms(1-3)] assms(4,5)
  by (simp add: send_segment_def network_send_def network_send_packet_def)

subsection \<open>Data of the application\<close>

definition open_window :: "stcp \<Rightarrow> int" where
  "open_window s = sint (send_wind s - (send_next s - send_unack s))"

definition unackd :: "stcp \<Rightarrow> byte list \<Rightarrow> packet_t" where
  "unackd s p = \<lparr>start_time = clock s, retry_count = 0, seq_num = send_next s, packet = p\<rparr>"

lemma app_data_cases:
  assumes "on_app_data s = Inr t"
  obtains "unackd_packets t = unackd_packets s" "send_next t = send_next s" "send_unack t = send_unack s"
      "send_wind t = send_wind s" "connection_state t = connection_state s"
    | d where "d \<noteq> []" "int (length d) \<le> open_window s" "length d \<le> MAXLEN"
      "unackd_packets t = unackd_packets s @ [unackd s (segment TH_ACK (send_next s) (recv_next s) d)]"
      "send_next t = send_next s + of_nat (length d)" "send_unack t = send_unack s"
      "send_wind t = send_wind s" "connection_state t = connection_state s"
proof (cases "open_window s > 0")
  case False
  then show thesis using assms that(1) by (simp add: on_app_data_def open_window_def Let_def)
next
  case True
  let ?size = "if open_window s > int MAXLEN then MAXLEN else nat (open_window s)"
  obtain d n u where r: "stcp_app_recv ?size s = Inr (d, n, u)"
    using assms True unfolding on_app_data_def Let_def open_window_def [symmetric] by (auto simp: and_then_eq_Inr)
  obtain q where u: "u = s\<lparr>app_recv_queue := q\<rparr>" "length d = n" "n \<le> ?size"
    using r True
    by (auto simp: stcp_app_recv_def mysock_dequeue_buffer_def and_then_eq_Inr split: list.splits if_splits)
  note run = assms [unfolded on_app_data_def Let_def open_window_def [symmetric]]
  show thesis
  proof (cases "n > 0")
    case False
    then show thesis using run True r u(1) that(1) by (auto split: if_splits)
  next
    case n: True
    obtain v where v: "send_segment (segment TH_ACK (send_next u) (recv_next u) d) u = Inr v"
      "t = packet_t_create (segment TH_ACK (send_next u) (recv_next u) d) v\<lparr>send_next := send_next v + of_nat n, packtosend_set := True\<rparr>"
      using run True r n store_payload_segment [of d TH_ACK "send_next u" "recv_next u"] u(2)
      by (auto simp: and_then_eq_Inr packet_t_create_def)
    note w = wires_fields [OF send_segment_wires [OF v(1)]]
    show thesis
      using v(2) w u n True by (intro that(2) [of d]) (auto simp: packet_t_create_def unackd_def split: if_splits)
  qed
qed

text \<open>The first buffer of the application, as much of it as fits.\<close>

lemma app_data_sent:
  assumes "connected s" and "is_reliable s" and "send_ok s" and "open_window s > 0"
    and "room = min MAXLEN (nat (open_window s))"
    and "app_recv_queue s = b # bs" and "b \<noteq> []" and "length b \<le> 2 * room"
    and "seg = segment TH_ACK (send_next s) (recv_next s) (take room b)"
  shows "on_app_data s = Inr (s\<lparr>app_recv_queue := (if length b > room then drop room b # bs else bs),
    wire := wire s @ [stamped s seg (segment_sum s seg)], unackd_packets := unackd_packets s @ [unackd s seg],
    send_next := send_next s + of_nat (length (take room b)), packtosend_set := True\<rparr>)"
proof -
  let ?q = "if length b > room then drop room b # bs else bs" and ?d = "take room b"
  let ?s = "s\<lparr>app_recv_queue := ?q\<rparr>"
  have room: "(if open_window s > int MAXLEN then MAXLEN else nat (open_window s)) = room" "0 < room" "room \<le> MAXLEN"
    using assms(4,5) by auto
  have r: "stcp_app_recv room s = Inr (?d, length ?d, ?s)"
    using assms(6,8) by (auto simp: stcp_app_recv_def mysock_dequeue_buffer_def)
  have c: "connected ?s" "is_reliable ?s" "send_ok ?s" using assms(1-3) by (simp_all add: connected_def)
  have seg: "20 \<le> length seg" "length seg \<le> 1500" using room(3) assms(9) by simp_all
  have same: "stamped ?s seg x = stamped s seg x" "segment_sum ?s seg = segment_sum s seg" for x
    by (simp_all add: stamped_def segment_sum_def)
  have "send_segment seg ?s = Inr (?s\<lparr>wire := wire s @ [stamped s seg (segment_sum s seg)]\<rparr>)"
    using send_segment_reliable [OF c(1) seg c(2,3)] by (simp add: same)
  moreover have "length ?d > 0" using assms(7) room(2) by simp
  ultimately show ?thesis
    using assms(4) r store_payload_segment [of ?d TH_ACK "send_next s" "recv_next s"]
    unfolding on_app_data_def Let_def open_window_def [symmetric] room(1)
    by (simp add: assms(9) [symmetric] packet_t_create_def unackd_def)
qed

subsection \<open>The window\<close>

lemma sint_bounds: "- 2147483648 \<le> sint (w :: 32 word)" "sint (w :: 32 word) < 2147483648"
  using sint_ge [of w] sint_lt [of w] by simp_all

text \<open>What is on its way stays within the window of the peer, in the arithmetic of sequence numbers.\<close>

lemma window_kept:
  fixes w u v :: "32 word"
  assumes "0 < n" and "int n \<le> sint (w - (v - u))" and "unat w \<le> 3072"
  shows "sint (v + of_nat n - u) \<le> int (unat w)"
proof -
  define o' where "o' = sint (w - (v - u))"
  have "w - (v - u) = of_int o'" by (simp add: o'_def)
  then have "v - u = w - of_int o'" by (simp add: algebra_simps)
  then have "v + of_nat n - u = of_int (int (unat w) - (o' - int n))" by (simp add: algebra_simps)
  moreover have "sint (of_int (int (unat w) - (o' - int n)) :: 32 word) = int (unat w) - (o' - int n)"
  proof -
    have "- 2147483648 \<le> int (unat w) - (o' - int n)" "int (unat w) - (o' - int n) < 2147483648"
      using sint_bounds [of "w - (v - u)"] assms(2,3) unfolding o'_def by linarith+
    then show ?thesis unfolding sint_sbintrunc' by (intro signed_take_bit_int_eq_self) simp_all
  qed
  ultimately have "sint (v + of_nat n - u) = int (unat w) - (o' - int n)" by (simp only:)
  then show ?thesis using assms(2) unfolding o'_def by linarith
qed

subsection \<open>The list has what is not acknowledged\<close>

text \<open>
  Where something is to be acknowledged, a packet of the list reaches to the end of what
  was sent, so the list is not empty.
\<close>

definition reaches :: "32 word \<Rightarrow> packet_t \<Rightarrow> bool" where
  "reaches w p \<longleftrightarrow> unat w \<le> unat (seq_num p) + (length (packet p) - 20)"

definition covered :: "stcp \<Rightarrow> bool" where
  "covered s \<longleftrightarrow> send_next s \<le> send_unack s \<or> (\<exists>p \<in> set (unackd_packets s). reaches (send_next s) p)"

lemma covered_first: "covered s \<Longrightarrow> send_unack s < send_next s \<Longrightarrow> \<exists>p. first_unackd s = Inr p"
  by (auto simp: covered_def first_unackd_def split: list.splits)

lemma covered_mono:
  assumes "covered s" and "send_next t = send_next s" and "send_unack s \<le> send_unack t"
    and "unackd_packets t = unackd_packets s"
  shows "covered t"
  using assms by (auto simp: covered_def)

lemma reaches_dropWhile:
  assumes "p \<in> set ps" and "reaches w p" and "u < w"
  shows "p \<in> set (dropWhile (acked u) ps)"
proof (rule ccontr)
  assume "p \<notin> set (dropWhile (acked u) ps)"
  then have "p \<in> set (takeWhile (acked u) ps)" using assms(1) by (metis UnE set_append takeWhile_dropWhile_id)
  then have "acked u p" by (rule set_takeWhileD [THEN conjunct2])
  then show False using assms(2,3) by (auto simp: acked_def reaches_def word_less_nat_alt)
qed

lemma covered_remove:
  assumes "covered s"
  shows "covered (packet_t_remove s)"
proof -
  obtain t where t: "packet_t_remove s = t\<lparr>unackd_packets := dropWhile (acked (send_unack s)) (unackd_packets s)\<rparr>"
    "timed s t" using packet_t_remove_eq by blast
  note f = timed_fields [OF t(2)]
  show ?thesis
  proof (cases "send_next s \<le> send_unack s")
    case True
    then show ?thesis by (simp add: covered_def t(1) f)
  next
    case False
    then obtain p where "p \<in> set (unackd_packets s)" "reaches (send_next s) p" "send_unack s < send_next s"
      using assms by (auto simp: covered_def)
    then show ?thesis using reaches_dropWhile by (auto simp: covered_def t(1) f)
  qed
qed

lemma covered_header:
  assumes "covered s"
  shows "covered (read_header h s)"
proof -
  let ?s = "if has_flag h TH_ACK \<and> send_unack s \<le> th_ack h then s\<lparr>send_unack := th_ack h\<rparr> else s"
  have "covered ?s" using assms by (intro covered_mono [OF assms]) auto
  then have "covered (packet_t_remove ?s)" by (rule covered_remove)
  then show ?thesis by (auto simp: read_header_def Let_def covered_def)
qed

subsection \<open>Sending it again\<close>

text \<open>A packet of the list that is sent again.\<close>

definition again :: "stcp \<Rightarrow> packet_t \<Rightarrow> packet_t" where
  "again s p = p\<lparr>retry_count := retry_count p + 1, start_time := clock s,
     packet := take 8 (packet p) @ bytes32 (ntohl (recv_next s)) @ drop 12 (packet p)\<rparr>"

lemma resend_all:
  assumes "resend ps s = Inr (giveup, qs, t)"
  shows "qs = map (again s) ps \<and> wires s t \<and> giveup = (\<exists>p \<in> set ps. retry_count p > 6)"
  using assms
proof (induction ps arbitrary: s giveup qs t)
  case (Cons p ps)
  from Cons.prems obtain bytes u g rs where r: "store 8 (bytes32 (ntohl (recv_next s))) (packet p) = Inr bytes"
    "send_segment bytes s = Inr u" "resend ps u = Inr (g, rs, t)"
    "qs = p\<lparr>retry_count := retry_count p + 1, start_time := clock s, packet := bytes\<rparr> # rs"
    "giveup = (retry_count p > 6 \<or> g)"
    by (auto simp: Let_def and_then_eq_Inr)
  have b: "bytes = take 8 (packet p) @ bytes32 (ntohl (recv_next s)) @ drop 12 (packet p)"
    using r(1) by (auto simp: store_def split: if_splits)
  have w: "wires s u" by (rule send_segment_wires [OF r(2)])
  have "again u = again s" by (rule ext) (simp add: again_def wires_fields [OF w])
  then show ?case
    using Cons.IH [OF r(3)] r(4,5) wires_trans [OF w] by (simp add: again_def b)
qed simp

lemma resend_reliable:
  assumes "connected s" and "is_reliable s" and "send_ok s"
    and "\<forall>p \<in> set ps. 20 \<le> length (packet p) \<and> length (packet p) \<le> 1500"
  shows "resend ps s = Inr (\<exists>p \<in> set ps. retry_count p > 6, map (again s) ps,
    s\<lparr>wire := wire s @ map (\<lambda>p. stamped s (packet (again s p)) (segment_sum s (packet (again s p)))) ps\<rparr>)"
  using assms
proof (induction ps arbitrary: s)
  case (Cons p ps)
  let ?b = "packet (again s p)"
  let ?s = "s\<lparr>wire := wire s @ [stamped s ?b (segment_sum s ?b)]\<rparr>"
  have b: "store 8 (bytes32 (ntohl (recv_next s))) (packet p) = Inr ?b" "20 \<le> length ?b" "length ?b \<le> 1500"
    using Cons.prems(4) by (simp_all add: store_def again_def)
  have same: "again ?s = again s" "stamped ?s = stamped s" "segment_sum ?s = segment_sum s"
    by (simp_all add: again_def stamped_def segment_sum_def fun_eq_iff)
  have c: "connected ?s" "is_reliable ?s" "send_ok ?s" using Cons.prems(1-3) by (simp_all add: connected_def)
  have IH: "resend ps ?s = Inr (\<exists>p \<in> set ps. retry_count p > 6, map (again s) ps,
      ?s\<lparr>wire := wire ?s @ map (\<lambda>p. stamped s (packet (again s p)) (segment_sum s (packet (again s p)))) ps\<rparr>)"
    using Cons.IH [OF c] Cons.prems(4) unfolding same by simp
  show ?case
    using b(1) send_segment_reliable [OF Cons.prems(1) b(2,3) Cons.prems(2,3)] IH
    by (simp add: again_def)
qed simp

end
