(* ===== verification/Stcp_Loop.thy ===== *)
theory Stcp_Loop
  imports Stcp_Send
begin

text \<open>
  The main loop as a whole: what a round keeps, how it moves between the states of a
  connection, and that it does not dereference NULL while the FIN of the side that closes
  last is not on its way.
\<close>

subsection \<open>What the pieces of a round keep\<close>

definition keeps :: "stcp \<Rightarrow> stcp \<Rightarrow> bool" where
  "keeps s t \<longleftrightarrow> (covered s \<longrightarrow> covered t) \<and> connection_state t = connection_state s \<and>
     (unat (send_wind s) \<le> WINLEN \<longrightarrow> unat (send_wind t) \<le> WINLEN)"

lemma keeps_refl [simp]: "keeps s s"
  by (simp add: keeps_def)

lemma keeps_trans: "keeps s t \<Longrightarrow> keeps t u \<Longrightarrow> keeps s u"
  by (simp add: keeps_def)

lemma keeps_same:
  assumes "send_next t = send_next s" and "send_unack t = send_unack s" and "unackd_packets t = unackd_packets s"
    and "connection_state t = connection_state s" and "send_wind t = send_wind s"
  shows "keeps s t"
  using assms by (simp add: keeps_def covered_def)

lemma wires_keeps: "wires s t \<Longrightarrow> keeps s t"
  by (intro keeps_same) (simp_all add: wires_fields)

lemma wait_keeps: "stcp_wait_for_event flags p s = Inr (event, t) \<Longrightarrow> keeps s t"
  by (intro keeps_same) (auto simp: stcp_wait_for_event_def Let_def split: if_splits)

lemma control_wait_keeps: "control_wait s = Inr (event, t) \<Longrightarrow> keeps s t"
  by (auto simp: control_wait_def Let_def and_then_eq_Inr intro: wait_keeps split: if_splits)

lemma app_data_keeps:
  assumes "on_app_data s = Inr t"
  shows "keeps s t"
proof -
  from assms show ?thesis
  proof (cases rule: app_data_cases)
    case 1
    then show ?thesis by (intro keeps_same)
  next
    case (2 d)
    let ?p = "unackd s (segment TH_ACK (send_next s) (recv_next s) d)"
    have "unat (send_next s + of_nat (length d)) \<le> unat (send_next s) + length d"
      by (simp add: unat_word_ariths unat_of_nat)
    then have "reaches (send_next t) ?p" by (simp add: reaches_def unackd_def 2)
    then show ?thesis using 2 by (auto simp: keeps_def covered_def)
  qed
qed

lemma header_wind: "unat (send_wind (read_header h s)) \<le> WINLEN"
proof -
  have "unat (ucast (th_win h) :: 32 word) \<le> unat (th_win h)"
    by (simp add: unsigned_ucast_eq take_bit_nat_less_eq_self)
  then show ?thesis by (auto simp: read_header_def Let_def)
qed

lemma header_state: "connection_state (read_header h s) = connection_state s"
  using packet_t_remove_eq [of s] packet_t_remove_eq [of "s\<lparr>send_unack := th_ack h\<rparr>"]
  by (auto simp: read_header_def Let_def timed_def)

lemma header_keeps: "keeps s (read_header h s)"
  using header_wind covered_header header_state by (simp add: keeps_def)

lemma store_payload_keeps: "store_payload at start n buff s = Inr (m, t) \<Longrightarrow> keeps s t"
  by (intro keeps_same) (auto simp: store_payload_def and_then_eq_Inr)

lemma network_recv_keeps: "stcp_network_recv k s = Inr (bytes, n, t) \<Longrightarrow> keeps s t"
  by (intro keeps_same) (auto simp: stcp_network_recv_def and_then_eq_Inr split: if_splits)

lemma recv_packet_keeps:
  assumes "recv_packet s = Inr (d, h, t)"
  shows "keeps s t"
proof (cases "stcp_network_recv 596 s")
  case (Inr r)
  obtain bytes n u where r: "r = (bytes, n, u)" by (cases r)
  have "keeps u t"
    using assms Inr r
    by (auto simp: recv_packet_def Let_def and_then_eq_Inr intro: header_keeps keeps_trans [OF store_payload_keeps header_keeps]
        split: if_splits option.splits)
  then show ?thesis using network_recv_keeps Inr r keeps_trans by blast
qed (use assms in \<open>simp add: recv_packet_def\<close>)

lemma deliver_keeps: "deliver n s = Inr t \<Longrightarrow> keeps s t"
  by (intro keeps_same) (auto simp: deliver_def Let_def stcp_app_send_def and_then_eq_Inr)

lemma timeout_keeps:
  assumes "on_timeout s = Inr (giveup, t)"
  shows "keeps s t \<and> giveup = (\<exists>p \<in> set (unackd_packets s). retry_count p > 6) \<and>
    unackd_packets t = map (again s) (unackd_packets s)"
proof -
  obtain qs u where r: "resend (unackd_packets s) s = Inr (giveup, qs, u)" "t = u\<lparr>unackd_packets := qs\<rparr>"
    using assms by (auto simp: on_timeout_def and_then_eq_Inr)
  note a = resend_all [OF r(1)]
  then have w: "wires s u" by simp
  have "length (packet p) - 20 \<le> length (packet (again s p)) - 20" for p by (simp add: again_def)
  then have "reaches w (again s p)" if "reaches w p" for w p
    using that unfolding reaches_def by (metis (no_types, lifting) add_le_cancel_left again_def order_trans
      packet_t.select_convs(3) packet_t.surjective packet_t.update_convs(1,2,4))
  then have "covered s \<longrightarrow> covered t"
    using a r(2) by (auto simp: covered_def wires_fields [OF w])
  then show ?thesis using a r(2) by (simp add: keeps_def wires_fields [OF w])
qed

subsection \<open>The states of a connection\<close>

text \<open>
  The moves of one round: data and a FIN of the peer come first, then the request to close.
\<close>

fun may_move :: "cstate \<Rightarrow> cstate \<Rightarrow> bool" where
  "may_move CSTATE_ESTABLISHED c = (c \<in> {CSTATE_ESTABLISHED, CSTATE_CLOSE_WAIT, CSTATE_FIN_WAIT1, CSTATE_LAST_ACK})"
| "may_move CSTATE_FIN_WAIT1 c = (c \<in> {CSTATE_FIN_WAIT1, CSTATE_FIN_WAIT2, CSTATE_CLOSING, CSTATE_CLOSED})"
| "may_move CSTATE_FIN_WAIT2 c = (c \<in> {CSTATE_FIN_WAIT2, CSTATE_CLOSED})"
| "may_move CSTATE_CLOSE_WAIT c = (c \<in> {CSTATE_CLOSE_WAIT, CSTATE_LAST_ACK})"
| "may_move CSTATE_LAST_ACK c = (c \<in> {CSTATE_LAST_ACK, CSTATE_CLOSED})"
| "may_move CSTATE_CLOSING c = (c \<in> {CSTATE_CLOSING, CSTATE_CLOSED})"
| "may_move c d = (d = c)"

text \<open>The part of a round that deals with the network.\<close>

fun net_move :: "cstate \<Rightarrow> bool \<Rightarrow> cstate \<Rightarrow> bool" where
  "net_move CSTATE_ESTABLISHED stop c = (\<not> stop \<and> c \<in> {CSTATE_ESTABLISHED, CSTATE_CLOSE_WAIT})"
| "net_move CSTATE_FIN_WAIT1 stop c = (if stop then c = CSTATE_CLOSED else c \<in> {CSTATE_FIN_WAIT1, CSTATE_FIN_WAIT2, CSTATE_CLOSING})"
| "net_move CSTATE_FIN_WAIT2 stop c = (c = (if stop then CSTATE_CLOSED else CSTATE_FIN_WAIT2))"
| "net_move CSTATE_LAST_ACK stop c = (c = (if stop then CSTATE_CLOSED else CSTATE_LAST_ACK))"
| "net_move CSTATE_CLOSING stop c = (c = (if stop then CSTATE_CLOSED else CSTATE_CLOSING))"
| "net_move c stop d = (\<not> stop \<and> d = c)"

lemma ack_moves: "on_ack s = (stop, t) \<Longrightarrow>
  (covered s \<longrightarrow> covered t) \<and> (unat (send_wind s) \<le> WINLEN \<longrightarrow> unat (send_wind t) \<le> WINLEN) \<and>
  net_move (connection_state s) stop (connection_state t)"
  by (cases "connection_state s") (auto simp: on_ack_def Let_def covered_def split: if_splits)

lemma fin_moves:
  assumes "on_fin s = Inr (stop, t)"
  shows "(covered s \<longrightarrow> covered t) \<and> (unat (send_wind s) \<le> WINLEN \<longrightarrow> unat (send_wind t) \<le> WINLEN) \<and>
    net_move (connection_state s) stop (connection_state t) \<and> (connection_state s = CSTATE_FIN_WAIT1 \<longrightarrow> connection_state t = CSTATE_CLOSING)"
proof -
  let ?s = "s\<lparr>recv_next := recv_next s + 1, packtosend_set := True\<rparr>"
  obtain u where u: "send_segment (make_stcp_packet TH_ACK (send_next ?s) (recv_next ?s) 0) ?s = Inr u"
    using assms by (auto simp: on_fin_def Let_def and_then_eq_Inr)
  note w = wires_fields(4,5,6,10,11) [OF send_segment_wires [OF u]]
  have c: "covered u = covered s" "send_wind u = send_wind s" "connection_state u = connection_state s"
    by (simp_all add: covered_def w)
  have "Inr (stop, t) = (let v = (if connection_state u = CSTATE_ESTABLISHED
       then (stcp_fin_received u)\<lparr>connection_state := CSTATE_CLOSE_WAIT\<rparr> else u) in
      if connection_state v = CSTATE_FIN_WAIT2 then Inr (True, v\<lparr>connection_state := CSTATE_CLOSED\<rparr>)
      else if connection_state v = CSTATE_FIN_WAIT1
      then Inr (False, (stcp_fin_received v)\<lparr>connection_state := CSTATE_CLOSING\<rparr>)
      else Inr (False, v) :: sr_fault + bool \<times> stcp)"
    using assms u by (simp add: on_fin_def Let_def)
  then have "(stop, t) = (if connection_state s = CSTATE_ESTABLISHED
      then (False, (stcp_fin_received u)\<lparr>connection_state := CSTATE_CLOSE_WAIT\<rparr>)
      else if connection_state s = CSTATE_FIN_WAIT2 then (True, u\<lparr>connection_state := CSTATE_CLOSED\<rparr>)
      else if connection_state s = CSTATE_FIN_WAIT1
      then (False, (stcp_fin_received u)\<lparr>connection_state := CSTATE_CLOSING\<rparr>) else (False, u))"
    by (cases "connection_state s") (simp_all add: c(3))
  moreover have "covered ((stcp_fin_received u)\<lparr>connection_state := x\<rparr>) = covered s"
    "covered (u\<lparr>connection_state := x\<rparr>) = covered s" "send_wind (stcp_fin_received u) = send_wind s" for x
    using c(1,2) by (simp_all add: covered_def stcp_fin_received_def)
  ultimately show ?thesis
    by (cases "connection_state s") (simp_all add: c)
qed

lemma net_move_trans: "net_move a False b \<Longrightarrow> net_move b stop c \<Longrightarrow> net_move a stop c"
  by (cases a) (auto split: if_splits)

lemma network_moves:
  assumes "on_network_data s = Inr (stop, t)"
  shows "(covered s \<longrightarrow> covered t) \<and> (unat (send_wind s) \<le> WINLEN \<longrightarrow> unat (send_wind t) \<le> WINLEN) \<and>
    net_move (connection_state s) stop (connection_state t)"
proof -
  obtain d h u where r: "recv_packet s = Inr (d, h, u)" using assms by (auto simp: on_network_data_def and_then_eq_Inr)
  obtain v where v: "(if d > 0 \<or> d = -2
      then and_then (send_segment (make_stcp_packet TH_ACK (send_next u) (recv_next u) 0) u) (\<lambda>s. Inr (s\<lparr>packtosend_set := True\<rparr>))
      else Inr u) = Inr v"
    using assms r by (auto simp: on_network_data_def and_then_eq_Inr)
  obtain w where w: "(if d > 0 then deliver (nat d) v else Inr v) = Inr w"
    using assms r v by (auto simp: on_network_data_def and_then_eq_Inr)
  have "keeps u v"
    using v by (auto simp: and_then_eq_Inr intro!: keeps_trans [OF wires_keeps [OF send_segment_wires] keeps_same] split: if_splits)
  moreover have "keeps v w" using w deliver_keeps by (auto split: if_splits)
  ultimately have k: "keeps s w" using recv_packet_keeps [OF r] keeps_trans by blast
  obtain b x where x: "(if has_flag h TH_ACK then on_ack w else (False, w)) = (b, x)" by fastforce
  have run: "(if b then Inr (True, x) else if has_flag h TH_FIN then on_fin x else Inr (False, x)) = Inr (stop, t)"
    using assms r v w x by (simp add: on_network_data_def)
  have a: "(covered w \<longrightarrow> covered x) \<and> (unat (send_wind w) \<le> WINLEN \<longrightarrow> unat (send_wind x) \<le> WINLEN) \<and>
      net_move (connection_state w) b (connection_state x)"
    using x ack_moves [of w b x] by (cases "connection_state w") (auto split: if_splits)
  show ?thesis
  proof (cases "b \<or> \<not> has_flag h TH_FIN")
    case True
    then show ?thesis using run a k by (auto simp: keeps_def split: if_splits)
  next
    case False
    then have "on_fin x = Inr (stop, t)" using run by simp
    from fin_moves [OF this] a False k show ?thesis
      using net_move_trans [of "connection_state w" "connection_state x" stop "connection_state t"]
      by (auto simp: keeps_def)
  qed
qed

lemma close_moves:
  assumes "on_close s = Inr t"
  shows "(covered s \<longrightarrow> covered t \<or> connection_state t = CSTATE_LAST_ACK) \<and>
    (unat (send_wind s) \<le> WINLEN \<longrightarrow> unat (send_wind t) \<le> WINLEN) \<and>
    connection_state t = (if connection_state s = CSTATE_ESTABLISHED then CSTATE_FIN_WAIT1
      else if connection_state s = CSTATE_CLOSE_WAIT then CSTATE_LAST_ACK else connection_state s)"
proof -
  let ?h = "make_stcp_packet TH_FIN (send_next s) (recv_next s) 0"
  have "wires s u" if "send_segment ?h s = Inr u" for u using that by (rule send_segment_wires)
  then show ?thesis using assms
    by (auto simp: on_close_def Let_def and_then_eq_Inr packet_t_create_def covered_def reaches_def wires_fields split: if_splits)
qed

lemma net_move_may: "net_move a stop b \<Longrightarrow>
  c = (if b = CSTATE_ESTABLISHED then CSTATE_FIN_WAIT1 else if b = CSTATE_CLOSE_WAIT then CSTATE_LAST_ACK else b) \<or> c = b \<Longrightarrow>
  may_move a c"
  by (cases a) (auto split: if_splits)

lemma net_move_stops: "net_move a True b \<Longrightarrow> b = CSTATE_CLOSED"
  by (cases a) simp_all

lemma net_move_closed: "net_move a False CSTATE_CLOSED \<Longrightarrow> a = CSTATE_CLOSED"
  by (cases a) simp_all

lemma net_move_refl [simp]: "net_move a False a"
  by (cases a) simp_all

lemma round_moves:
  assumes "control_round s = Inr (stop, t)"
  shows "may_move (connection_state s) (connection_state t) \<and>
    (stop \<longrightarrow> connection_state t = CSTATE_CLOSED \<or> (\<exists>p \<in> set (unackd_packets t). retry_count p > 7)) \<and>
    (\<not> stop \<and> connection_state t = CSTATE_CLOSED \<longrightarrow> connection_state s = CSTATE_CLOSED) \<and>
    (covered s \<longrightarrow> covered t \<or> connection_state t = CSTATE_LAST_ACK) \<and>
    (unat (send_wind s) \<le> WINLEN \<longrightarrow> unat (send_wind t) \<le> WINLEN)"
proof -
  obtain event a where a: "control_wait s = Inr (event, a)" using assms by (auto simp: control_round_def and_then_eq_Inr)
  obtain b where b: "(if event AND APP_DATA \<noteq> 0 then on_app_data a else Inr a) = Inr b"
    using assms a by (auto simp: control_round_def and_then_eq_Inr)
  obtain q c where c: "(if event AND NETWORK_DATA \<noteq> 0 then on_network_data b else Inr (False, b)) = Inr (q, c)"
    using assms a b by (auto simp: control_round_def and_then_eq_Inr)
  have "keeps a b" using b app_data_keeps by (auto split: if_splits)
  with control_wait_keeps [OF a] have k: "keeps s b" by (rule keeps_trans)
  have n: "(covered b \<longrightarrow> covered c) \<and> (unat (send_wind b) \<le> WINLEN \<longrightarrow> unat (send_wind c) \<le> WINLEN) \<and>
      net_move (connection_state b) q (connection_state c)"
    using c network_moves [of b q c] by (auto split: if_splits)
  show ?thesis
  proof (cases q)
    case True
    then have "stop" "t = c" using assms a b c by (simp_all add: control_round_def)
    then show ?thesis
      using True k n net_move_stops net_move_may [of "connection_state s" q "connection_state c" "connection_state c"]
      by (auto simp: keeps_def)
  next
    case False
    obtain d where d: "(if event AND APP_CLOSE_REQUESTED \<noteq> 0 then on_close c else Inr c) = Inr d"
      using assms a b c False by (auto simp: control_round_def and_then_eq_Inr)
    have e: "(if event = TIMEOUT then on_timeout d else Inr (False, d)) = Inr (stop, t)"
      using assms a b c d False by (simp add: control_round_def)
    have m: "(covered c \<longrightarrow> covered d \<or> connection_state d = CSTATE_LAST_ACK) \<and>
        (unat (send_wind c) \<le> WINLEN \<longrightarrow> unat (send_wind d) \<le> WINLEN) \<and>
        (connection_state d = (if connection_state c = CSTATE_ESTABLISHED then CSTATE_FIN_WAIT1
          else if connection_state c = CSTATE_CLOSE_WAIT then CSTATE_LAST_ACK else connection_state c) \<or>
         connection_state d = connection_state c)"
      using d close_moves [of c d] by (auto split: if_splits)
    have t: "keeps d t \<and> (stop \<longrightarrow> (\<exists>p \<in> set (unackd_packets t). retry_count p > 7))"
    proof -
      have "retry_count (again d p) > 7 \<longleftrightarrow> retry_count p > 6" for p by (simp add: again_def) arith
      then show ?thesis using e timeout_keeps [of d stop t] by (auto split: if_splits)
    qed
    have "may_move (connection_state s) (connection_state d)"
      using n m k net_move_may [of "connection_state s" q "connection_state c" "connection_state d"]
      by (simp add: keeps_def)
    moreover have "connection_state s = CSTATE_CLOSED" if "connection_state t = CSTATE_CLOSED"
      using that t m n k False net_move_closed [of "connection_state b"] by (auto simp: keeps_def split: if_splits)
    ultimately show ?thesis using t m n k False by (auto simp: keeps_def)
  qed
qed

subsection \<open>No NULL\<close>

lemma no_null_parts:
  "load i n f \<noteq> Inl Null_Pointer" "store i bs f \<noteq> Inl Null_Pointer"
  "mysock_dequeue_buffer pq n b \<noteq> Inl Null_Pointer" "indicated ind \<noteq> Inl Null_Pointer"
  "stcp_wait_for_event flags p s \<noteq> Inl Null_Pointer" "network_send q s \<noteq> Inl Null_Pointer"
  "mysock_tcp_checksum x y q \<noteq> Inl Null_Pointer"
  by (auto simp: load_def store_def mysock_dequeue_buffer_def indicated_def stcp_wait_for_event_def
      network_send_def mysock_tcp_checksum_def Let_def split: list.splits prod.splits)

lemma no_null_send: "stcp_network_send q s \<noteq> Inl Null_Pointer" "send_segment q s \<noteq> Inl Null_Pointer"
proof -
  show "stcp_network_send q s \<noteq> Inl Null_Pointer"
    by (auto simp: stcp_network_send_def mysock_set_checksum_def and_then_eq_Inl no_null_parts)
  then show "send_segment q s \<noteq> Inl Null_Pointer" by (auto simp: send_segment_def and_then_eq_Inl)
qed

lemma no_null_recv: "recv_packet s \<noteq> Inl Null_Pointer"
proof -
  have "stcp_network_recv k s \<noteq> Inl Null_Pointer" for k
    by (auto simp: stcp_network_recv_def mysock_verify_checksum_def load16_def and_then_eq_Inl no_null_parts)
  moreover have "store_payload a b c buff t \<noteq> Inl Null_Pointer" for a b c buff t
    by (auto simp: store_payload_def Let_def and_then_eq_Inl no_null_parts)
  ultimately show ?thesis
    by (auto simp: recv_packet_def Let_def and_then_eq_Inl split: option.splits if_splits)
qed

lemma no_null_rounds:
  "on_app_data s \<noteq> Inl Null_Pointer" "on_network_data s \<noteq> Inl Null_Pointer" "on_close s \<noteq> Inl Null_Pointer"
  "on_timeout s \<noteq> Inl Null_Pointer"
proof -
  show "on_app_data s \<noteq> Inl Null_Pointer"
    by (auto simp: on_app_data_def Let_def stcp_app_recv_def and_then_eq_Inl no_null_parts no_null_send split: if_splits)
  have "on_fin t \<noteq> Inl Null_Pointer" "deliver n t \<noteq> Inl Null_Pointer" for n t
    by (auto simp: on_fin_def deliver_def Let_def and_then_eq_Inl no_null_parts no_null_send split: if_splits)
  then show "on_network_data s \<noteq> Inl Null_Pointer"
    by (auto simp: on_network_data_def Let_def and_then_eq_Inl no_null_send no_null_recv split: if_splits prod.splits)
  show "on_close s \<noteq> Inl Null_Pointer"
    by (auto simp: on_close_def Let_def and_then_eq_Inl no_null_send split: if_splits)
  have "resend ps t \<noteq> Inl Null_Pointer" for ps t
    by (induction ps t rule: resend.induct) (auto simp: Let_def and_then_eq_Inl no_null_parts no_null_send)
  then show "on_timeout s \<noteq> Inl Null_Pointer"
    by (auto simp: on_timeout_def and_then_eq_Inl)
qed

lemma control_wait_null: "control_wait s = Inl Null_Pointer \<longleftrightarrow> send_unack s < send_next s \<and> unackd_packets s = []"
  by (auto simp: control_wait_def first_unackd_def Let_def and_then_eq_Inl no_null_parts split: list.splits)

lemma covered_no_null: "covered s \<Longrightarrow> control_round s \<noteq> Inl Null_Pointer"
  using covered_first [of s]
  by (auto simp: control_round_def and_then_eq_Inl control_wait_null no_null_rounds first_unackd_def split: if_splits list.splits)

text \<open>The end of the handshake covers what was sent, and so does a failed start.\<close>

lemma header_acks: "has_flag h TH_ACK \<Longrightarrow> th_ack h \<le> send_unack (read_header h s)"
  using packet_t_remove_eq [of s] packet_t_remove_eq [of "s\<lparr>send_unack := th_ack h\<rparr>"]
  by (auto simp: read_header_def Let_def timed_def)

lemma recv_packet_read:
  assumes "recv_packet s = Inr (d, h, t)" and "\<not> d < 0"
  shows "\<exists>v. t = read_header h v"
  using assms by (auto simp: recv_packet_def Let_def and_then_eq_Inr split: if_splits option.splits)

lemma acked_covered:
  assumes "recv_packet s = Inr (d, h, t)" and "\<not> d < 0" and "has_flag h TH_ACK" and "th_ack h = send_next t"
  shows "covered t"
  using recv_packet_read [OF assms(1,2)] header_acks [OF assms(3)] assms(4) by (auto simp: covered_def)

lemma unblock_keeps: "stcp_unblock_application s = Inr t \<Longrightarrow> keeps s t"
  by (intro keeps_same) (auto simp: stcp_unblock_application_def split: if_splits)

text \<open>A round of the handshake waits, receives and, on one side, sends.\<close>

lemma syn_sent_cases:
  assumes "syn_sent_round s = Inr (b, t)"
  obtains (waits) "keeps s t" "\<not> b"
    | (receives) d h u v where "keeps s u" "recv_packet u = Inr (d, h, v)" "t = v" "\<not> b"
    | (ends) d h u v n w where "keeps s u" "recv_packet u = Inr (d, h, v)" "\<not> d < 0" "has_flag h TH_ACK"
        "th_ack h = send_next v" "stcp_network_send (make_stcp_packet TH_ACK (send_next v) (recv_next v) 0) v = Inr (n, w)"
        "t = (if n < 0 then w else w\<lparr>connection_state := CSTATE_ESTABLISHED\<rparr>)" "b"
proof -
  obtain p event u where u: "first_unackd s = Inr p"
    "stcp_wait_for_event NETWORK_DATA (passed (timeout_of p s) s) s = Inr (event, u)"
    using assms by (auto simp: syn_sent_round_def and_then_eq_Inr)
  have k: "keeps s u" by (rule wait_keeps [OF u(2)])
  show thesis
  proof (cases "event AND NETWORK_DATA = 0")
    case True
    then show thesis using assms u k waits by (simp add: syn_sent_round_def)
  next
    case False
    obtain d h v where v: "recv_packet u = Inr (d, h, v)"
      using assms u False by (cases "recv_packet u") (auto simp: syn_sent_round_def)
    note run = assms [unfolded syn_sent_round_def u and_then_simps prod.case]
    show thesis
    proof (cases "d < 0 \<or> \<not> (has_flag h TH_SYN \<and> has_flag h TH_ACK) \<or> th_ack h \<noteq> send_next v")
      case True
      then have "t = v" "\<not> b" using run False v by (auto split: if_splits)
      then show thesis by (rule receives [OF k v])
    next
      case sent: False
      obtain n w where w: "stcp_network_send (make_stcp_packet TH_ACK (send_next v) (recv_next v) 0) v = Inr (n, w)"
        using run False v sent by (cases "stcp_network_send (make_stcp_packet TH_ACK (send_next v) (recv_next v) 0) v") auto
      then have "t = (if n < 0 then w else w\<lparr>connection_state := CSTATE_ESTABLISHED\<rparr>)" "b"
        using run False v sent by (auto split: if_splits)
      with sent show thesis by (intro ends [OF k v _ _ _ w]) simp_all
    qed
  qed
qed

lemma syn_sent_end:
  assumes "syn_sent_round s = Inr (True, t)"
  shows "covered t"
  using assms
proof (cases rule: syn_sent_cases)
  case (ends d h u v n w)
  have "covered v" by (rule acked_covered [OF ends(2-5)])
  then have "covered w" using wires_keeps [OF stcp_send_wires [OF ends(6)]] by (simp add: keeps_def)
  then show ?thesis by (simp add: ends(7) covered_def)
qed simp_all

lemma syn_received_end:
  assumes "syn_received_round s = Inr (True, t)"
  shows "covered t"
proof -
  obtain d h u v where r: "recv_packet u = Inr (d, h, v)" "\<not> d < 0" "has_flag h TH_ACK" "th_ack h = send_next v"
    and t: "t = v\<lparr>connection_state := CSTATE_ESTABLISHED\<rparr>"
    using assms by (auto simp: syn_received_round_def Let_def and_then_eq_Inr split: if_splits)
  have "covered v" by (rule acked_covered [OF r])
  then show ?thesis by (simp add: covered_def t)
qed

text \<open>The window of the peer is never more than the own one, whatever the peer says.\<close>

definition sound_loop :: "phase \<times> stcp \<Rightarrow> bool" where
  "sound_loop = (\<lambda>(ph, s). unat (send_wind s) \<le> WINLEN \<and>
     (ph = Control_Loop \<longrightarrow> covered s \<or> connection_state s = CSTATE_LAST_ACK))"

definition winds :: "stcp \<Rightarrow> stcp \<Rightarrow> bool" where
  "winds s t \<longleftrightarrow> (unat (send_wind s) \<le> WINLEN \<longrightarrow> unat (send_wind t) \<le> WINLEN)"

lemma winds_trans: "winds s t \<Longrightarrow> winds t u \<Longrightarrow> winds s u"
  by (simp add: winds_def)

lemma keeps_winds: "keeps s t \<Longrightarrow> winds s t"
  by (simp add: keeps_def winds_def)

lemma winds_simps [simp]:
  "winds s s" "winds s (t\<lparr>connection_state := c\<rparr>) = winds s t" "winds s (t\<lparr>send_next := n\<rparr>) = winds s t"
  "winds s (packet_t_create p t) = winds s t"
  by (simp_all add: winds_def packet_t_create_def)

lemma handshake_wind:
  shows "syn_sent_round s = Inr (b, t) \<Longrightarrow> winds s t"
    and "syn_received_round s = Inr (b, t) \<Longrightarrow> winds s t"
    and "closed_round s = Inr (b, t) \<Longrightarrow> winds s t"
proof -
  note trans = winds_trans [OF keeps_winds keeps_winds]
  show "winds s t" if "syn_sent_round s = Inr (b, t)"
    using that
  proof (cases rule: syn_sent_cases)
    case waits
    then show ?thesis by (intro keeps_winds)
  next
    case (receives d h u v)
    then show ?thesis using trans recv_packet_keeps by blast
  next
    case (ends d h u v n w)
    have "winds s v" using ends(1) recv_packet_keeps [OF ends(2)] by (rule trans)
    moreover have "winds v w" using ends(6) by (intro keeps_winds wires_keeps) (rule stcp_send_wires)
    ultimately show ?thesis using winds_trans ends(7) by auto
  qed
  show "winds s t" if run: "syn_received_round s = Inr (b, t)"
  proof -
    obtain p event u where u: "first_unackd s = Inr p"
      "stcp_wait_for_event NETWORK_DATA (passed (timeout_of p s) s) s = Inr (event, u)"
      using run by (auto simp: syn_received_round_def and_then_eq_Inr)
    have k: "keeps s u" by (rule wait_keeps [OF u(2)])
    have "t = u \<or> (\<exists>d h v. recv_packet u = Inr (d, h, v) \<and> (t = v \<or> t = v\<lparr>connection_state := CSTATE_ESTABLISHED\<rparr>))"
      using run u by (auto simp: syn_received_round_def and_then_eq_Inr split: if_splits)
    then show ?thesis using k keeps_winds [OF k] trans [OF k recv_packet_keeps] by auto
  qed
  show "winds s t" if run: "closed_round s = Inr (b, t)"
  proof -
    let ?s = "s\<lparr>send_unack := initial_sequence_num s, send_next := initial_sequence_num s\<rparr>"
    obtain event u where u: "stcp_wait_for_event (NETWORK_DATA OR TIMEOUT) False ?s = Inr (event, u)"
      using run by (auto simp: closed_round_def Let_def and_then_eq_Inr)
    have k: "winds s u" using keeps_winds [OF wait_keeps [OF u]] by (simp add: winds_def)
    note run = run [unfolded closed_round_def Let_def u and_then_simps prod.case]
    show ?thesis
    proof (cases "event AND NETWORK_DATA = 0")
      case True
      then show ?thesis using run k by simp
    next
      case False
      obtain d h v where v: "recv_packet u = Inr (d, h, v)"
        using run False by (cases "recv_packet u") auto
      have w: "winds s v" using k keeps_winds [OF recv_packet_keeps [OF v]] by (rule winds_trans)
      show ?thesis
      proof (cases "d < 0 \<or> th_flags h \<noteq> TH_SYN")
        case True
        then show ?thesis using run False v w by (auto split: if_splits)
      next
        case sent: False
        let ?v = "v\<lparr>connection_state := CSTATE_SYN_RECEIVED\<rparr>"
        obtain n x where x: "stcp_network_send (make_stcp_packet (TH_SYN OR TH_ACK) (send_unack ?v) (recv_next ?v) 0) ?v = Inr (n, x)"
          using run False v sent
          by (cases "stcp_network_send (make_stcp_packet (TH_SYN OR TH_ACK) (send_unack ?v) (recv_next ?v) 0) ?v") auto
        have "winds ?v x" using x by (intro keeps_winds wires_keeps) (rule stcp_send_wires)
        then have "winds s x" using w by (simp add: winds_def)
        then show ?thesis using run False v sent x by (auto split: if_splits)
      qed
    qed
  qed
qed

lemma init_sound:
  assumes "transport_init active isn s = Inr c"
  shows "sound_loop c"
proof (cases active)
  case False
  then show ?thesis using assms by (auto simp: transport_init_def transport_context_def sound_loop_def)
next
  case True
  let ?s = "(transport_context isn s)\<lparr>send_unack := initial_sequence_num (transport_context isn s)\<rparr>"
  obtain n u where u: "stcp_network_send (make_stcp_packet TH_SYN (send_unack ?s) 0 0) ?s = Inr (n, u)"
    using assms True by (auto simp: transport_init_def active_start_def Let_def and_then_eq_Inr)
  let ?u = "packet_t_create (make_stcp_packet TH_SYN (send_unack ?s) 0 0) (u\<lparr>send_next := send_unack u\<rparr>)"
  have a: "active_start (transport_context isn s) = Inr (if n < 0 then ?u
      else ?u\<lparr>send_next := send_next ?u + 1, connection_state := CSTATE_SYN_SENT\<rparr>)"
    using u by (simp add: active_start_def Let_def)
  note w = wires_fields [OF stcp_send_wires [OF u]]
  have z: "send_wind u = 0" "connection_state u = CSTATE_CLOSED" using w by (simp_all add: transport_context_def)
  show ?thesis
    using assms True a z
    by (auto simp: transport_init_def Let_def packet_t_create_def sound_loop_def covered_def stcp_unblock_application_def
        split: if_splits)
qed

lemma round_sound:
  assumes "sound_loop (ph, s)" and "transport_round ph s = Inr (ph', t)"
  shows "sound_loop (ph', t)"
proof (cases ph)
  case Syn_Sent_Loop
  then show ?thesis
    using assms handshake_wind(1) unblock_keeps syn_sent_end
    by (fastforce simp: winds_def sound_loop_def transport_round_def and_then_eq_Inr keeps_def split: if_splits)
next
  case Closed_Loop
  then show ?thesis
    using assms handshake_wind(3)
    by (auto simp: winds_def sound_loop_def transport_round_def and_then_eq_Inr split: if_splits)
next
  case Syn_Received_Loop
  then show ?thesis
    using assms handshake_wind(2) unblock_keeps syn_received_end
    by (fastforce simp: winds_def sound_loop_def transport_round_def and_then_eq_Inr keeps_def split: if_splits)
next
  case Control_Loop
  then obtain stop where "control_round s = Inr (stop, t)" "ph' = (if stop then Finished else Control_Loop)"
    using assms(2) by (auto simp: transport_round_def and_then_eq_Inr)
  then show ?thesis
    using assms(1) Control_Loop round_moves [of s stop t] by (auto simp: sound_loop_def split: if_splits)
next
  case Finished
  then show ?thesis using assms(2) by (simp add: transport_round_def)
qed

lemma sound_same:
  assumes "sound_loop (ph, s)" and "send_next t = send_next s" and "send_unack t = send_unack s"
    and "unackd_packets t = unackd_packets s" and "connection_state t = connection_state s" and "send_wind t = send_wind s"
  shows "sound_loop (ph, t)"
  using assms keeps_same [OF assms(2-6)] by (simp add: sound_loop_def covered_def)

lemma step_sound:
  assumes "stcp_step c c'" and "sound_loop c"
  shows "sound_loop c'"
  using assms
proof (cases rule: stcp_step.cases)
  case (stcp_round ph s ph' t)
  then show ?thesis using assms(2) round_sound by simp
next
  case (stcp_write buf s n t ph)
  then show ?thesis using assms(2) by (auto simp: mywrite_def intro: sound_same split: if_splits)
next
  case (stcp_read k s n buf t ph)
  then show ?thesis using assms(2) by (auto simp: myread_def Let_def and_then_eq_Inr intro: sound_same split: if_splits)
qed (auto simp: myclose_request_def intro: sound_same)

lemma reachable_sound:
  assumes "transport_init active isn s = Inr c" and "stcp_reachable c c'"
  shows "sound_loop c'"
  using assms(2,1) by (induction rule: stcp_reachable.induct) (auto intro: init_sound step_sound)

end
