(* ===== verification/Stcp_Open.thy ===== *)
theory Stcp_Open
  imports Stcp_Loop
begin

text \<open>
  The handshake: what a header leaves behind, and the segments of either side with what they
  do to the other.
\<close>

subsection \<open>A header in full\<close>

definition acknowledged :: "byte list \<Rightarrow> stcp \<Rightarrow> 32 word" where
  "acknowledged h s = (if has_flag h TH_ACK \<and> send_unack s \<le> th_ack h then th_ack h else send_unack s)"

lemma read_header_fields:
  "send_unack (read_header h s) = acknowledged h s"
  "unackd_packets (read_header h s) = dropWhile (acked (acknowledged h s)) (unackd_packets s)"
  "recv_next (read_header h s) = (if has_flag h TH_SYN then th_seq h + 1 else recv_next s)"
  "send_wind (read_header h s) = (if unat (th_win h) \<le> WINLEN then ucast (th_win h) else of_nat WINLEN)"
  "send_next (read_header h s) = send_next s" "connection_state (read_header h s) = connection_state s"
  "connected (read_header h s) = connected s" "is_reliable (read_header h s) = is_reliable s"
  "send_ok (read_header h s) = send_ok s" "wire (read_header h s) = wire s" "blocking (read_header h s) = blocking s"
  "network_recv_queue (read_header h s) = network_recv_queue s" "local_addr (read_header h s) = local_addr s"
  "peer_addr (read_header h s) = peer_addr s" "app_recv_queue (read_header h s) = app_recv_queue s"
  "close_requested (read_header h s) = close_requested s" "recv_buffer (read_header h s) = recv_buffer s"
  "recv_indicator (read_header h s) = recv_indicator s" "app_send_queue (read_header h s) = app_send_queue s"
  "local_port (read_header h s) = local_port s" "peer_port (read_header h s) = peer_port s"
  "listening (read_header h s) = listening s"
  using packet_t_remove_eq [of s] packet_t_remove_eq [of "s\<lparr>send_unack := th_ack h\<rparr>"]
  by (auto simp: read_header_def Let_def timed_def acknowledged_def connected_def)

lemma connected_updates [simp]:
  fixes s :: stcp
  shows "connected (s\<lparr>connection_state := c\<rparr>) = connected s" "connected (s\<lparr>network_recv_queue := q\<rparr>) = connected s"
    "connected (s\<lparr>send_unack := w\<rparr>) = connected s" "connected (s\<lparr>send_next := w\<rparr>) = connected s"
    "connected (s\<lparr>wire := ps\<rparr>) = connected s" "connected (s\<lparr>unackd_packets := us\<rparr>) = connected s"
    "connected (s\<lparr>blocking := b\<rparr>) = connected s" "connected (transport_context isn s) = connected s"
  by (simp_all add: connected_def transport_context_def)

text \<open>A segment without data from the other side.\<close>

definition arriving :: "'a mysock_scheme \<Rightarrow> byte \<Rightarrow> 32 word \<Rightarrow> 32 word \<Rightarrow> byte list" where
  "arriving s flags seq ack = stamped s (segment flags seq ack []) (segment_sum s (segment flags seq ack []))"

lemma arriving_fields:
  "length (arriving s flags seq ack) = 20" "th_seq (arriving s flags seq ack) = seq"
  "th_ack (arriving s flags seq ack) = ack" "th_off (arriving s flags seq ack) = 5"
  "th_flags (arriving s flags seq ack) = flags" "th_win (arriving s flags seq ack) = of_nat WINLEN"
  by (simp_all add: arriving_def stamped_fields length_stamped)
    (simp add: stamped_segment th_win_def)

lemma send_arriving:
  assumes "connected s" and "is_reliable s" and "send_ok s"
  shows "stcp_network_send (make_stcp_packet flags seq ack 0) s =
    Inr (20, s\<lparr>wire := wire s @ [arriving s flags seq ack]\<rparr>)"
  using network_send_eq [OF assms(1), of "segment flags seq ack []"] assms(2,3)
  by (simp add: make_segment arriving_def network_send_def network_send_packet_def length_stamped)

lemma receive_arriving:
  assumes "connected p" and "local_addr s = peer_addr p" and "peer_addr s = local_addr p"
    and "network_recv_queue s = arriving p flags seq ack # q"
  shows "recv_packet s = Inr (0, arriving p flags seq ack,
    read_header (arriving p flags seq ack) (s\<lparr>network_recv_queue := q\<rparr>))"
proof -
  let ?a = "arriving p flags seq ack"
  have "mysock_verify_checksum s ?a = Inr True"
    unfolding arriving_def using assms(1-3) by (intro stamped_verifies) simp_all
  moreover have "take 20 ?a = ?a" by (simp add: arriving_fields)
  ultimately show ?thesis
    using recv_packet_eq [OF assms(4), of 0] by (simp add: arriving_fields)
qed

subsection \<open>Three segments\<close>

text \<open>Two mysockets before their connection, and what one of them is afterwards.\<close>

definition unopened :: "stcp \<Rightarrow> bool" where
  "unopened s \<longleftrightarrow> connected s \<and> is_reliable s \<and> send_ok s \<and> blocking s \<and> \<not> listening s \<and> \<not> close_requested s \<and>
     app_recv_queue s = [] \<and> network_recv_queue s = [] \<and> wire s = []"

definition facing :: "stcp \<Rightarrow> stcp \<Rightarrow> bool" where
  "facing s t \<longleftrightarrow> local_addr s = peer_addr t \<and> peer_addr s = local_addr t"

definition opened :: "32 word \<Rightarrow> 32 word \<Rightarrow> stcp \<Rightarrow> bool" where
  "opened own other s \<longleftrightarrow> connection_state s = CSTATE_ESTABLISHED \<and> send_next s = own + 1 \<and> send_unack s = own + 1 \<and>
     recv_next s = other + 1 \<and> send_wind s = of_nat WINLEN \<and> unackd_packets s = [] \<and> \<not> blocking s \<and>
     recv_indicator s = replicate WINLEN False \<and> recv_buffer s = replicate WINLEN 0 \<and> connected s \<and>
     is_reliable s \<and> send_ok s \<and> \<not> listening s \<and> \<not> close_requested s \<and> app_recv_queue s = [] \<and> network_recv_queue s = []"

text \<open>The active side \<open>a\<close> and the passive side \<open>b\<close>, with nothing lost between them.\<close>

definition open_connection ::
  "32 word \<Rightarrow> 32 word \<Rightarrow> stcp \<Rightarrow> stcp \<Rightarrow> sr_fault + (phase \<times> stcp) \<times> (phase \<times> stcp)" where
  "open_connection ia ib a b =
     and_then (transport_init True ia a) (\<lambda>(pa, a).
     and_then (transport_init False ib b) (\<lambda>(pb, b).
     and_then (transport_round pb (b\<lparr>network_recv_queue := wire a\<rparr>)) (\<lambda>(pb, b).
     and_then (transport_round pa (a\<lparr>network_recv_queue := wire b\<rparr>)) (\<lambda>(pa, a).
     and_then (transport_round pb (b\<lparr>network_recv_queue := tl (wire a)\<rparr>)) (\<lambda>(pb, b).
     Inr ((pa, a), (pb, b)))))))"

lemma initial_sequence:
  fixes i :: "32 word"
  assumes "unat i < 256"
  shows "i \<le> i + 1" "unat (i + 1) = unat i + 1"
proof -
  show "unat (i + 1) = unat i + 1" using assms by (simp add: unat_word_ariths)
  then show "i \<le> i + 1" by (simp add: word_le_nat_alt)
qed

lemma arriving_same:
  "local_addr s = local_addr t \<Longrightarrow> peer_addr s = peer_addr t \<Longrightarrow> local_port s = local_port t \<Longrightarrow>
   peer_port s = peer_port t \<Longrightarrow> arriving s = arriving t"
  by (intro ext) (simp add: arriving_def stamped_def segment_sum_def)

lemma active_opens:
  assumes "unopened a"
  shows "transport_init True ia a = Inr (Syn_Sent_Loop, (transport_context ia a)\<lparr>send_unack := ia, wire := [arriving a TH_SYN ia 0],
    unackd_packets := [\<lparr>start_time = clock a, retry_count = 0, seq_num = ia, packet = segment TH_SYN ia 0 []\<rparr>],
    send_next := ia + 1, connection_state := CSTATE_SYN_SENT\<rparr>)"
proof -
  let ?s = "(transport_context ia a)\<lparr>send_unack := ia\<rparr>"
  have c: "connected ?s" "is_reliable ?s" "send_ok ?s" "wire ?s = []"
    using assms by (simp_all add: unopened_def connected_def transport_context_def)
  have "arriving ?s = arriving a" by (rule arriving_same) (simp_all add: transport_context_def)
  then have "stcp_network_send (make_stcp_packet TH_SYN ia 0 0) ?s = Inr (20, ?s\<lparr>wire := [arriving a TH_SYN ia 0]\<rparr>)"
    using send_arriving [OF c(1-3)] c(4) by simp
  then show ?thesis
    by (simp add: transport_init_def active_start_def Let_def packet_t_create_def)
      (simp add: transport_context_def make_segment)
qed

text \<open>The passive side after the SYN.\<close>

definition half_open :: "32 word \<Rightarrow> 32 word \<Rightarrow> stcp \<Rightarrow> stcp \<Rightarrow> bool" where
  "half_open own other b s \<longleftrightarrow> connection_state s = CSTATE_SYN_RECEIVED \<and> send_next s = own + 1 \<and> send_unack s = own \<and>
     recv_next s = other + 1 \<and> wire s = [arriving b (TH_SYN OR TH_ACK) own (other + 1)] \<and>
     (\<exists>p. unackd_packets s = [p, p] \<and> seq_num p = own \<and> length (packet p) = 20) \<and> blocking s \<and> \<not> close_requested s \<and>
     app_recv_queue s = [] \<and> facing s b = facing b b \<and> peer_addr s = peer_addr b \<and> local_addr s = local_addr b \<and>
     recv_indicator s = replicate WINLEN False \<and> recv_buffer s = replicate WINLEN 0 \<and> connected s \<and>
     is_reliable s \<and> send_ok s \<and> \<not> listening s"

lemma syn_arrives:
  assumes "unopened a" and "unopened b" and "facing a b"
  shows "\<exists>t. transport_round Closed_Loop ((transport_context ib b)\<lparr>network_recv_queue := [arriving a TH_SYN ia 0]\<rparr>)
      = Inr (Syn_Received_Loop, t) \<and> half_open ib ia b t"
proof -
  let ?syn = "arriving a TH_SYN ia 0"
  let ?s = "(transport_context ib b)\<lparr>network_recv_queue := [?syn], send_unack := ib, send_next := ib\<rparr>"
  let ?q = "?s\<lparr>network_recv_queue := []\<rparr>"
  define r where "r = (read_header ?syn ?q)\<lparr>connection_state := CSTATE_SYN_RECEIVED\<rparr>"
  have ok: "connected a" "connected b" "is_reliable b" "send_ok b" "blocking b" "\<not> close_requested b" "app_recv_queue b = []" "\<not> listening b"
    "wire b = []" "local_addr ?s = peer_addr a" "peer_addr ?s = local_addr a"
    using assms by (simp_all add: unopened_def facing_def transport_context_def)
  have w: "stcp_wait_for_event (NETWORK_DATA OR TIMEOUT) False ?s = Inr (NETWORK_DATA, ?s)"
    using ok by (simp add: stcp_wait_for_event_def transport_context_def Let_def)
  have recv: "recv_packet ?s = Inr (0, ?syn, read_header ?syn ?q)"
    by (rule receive_arriving [OF ok(1) ok(10,11)]) simp
  have q: "send_unack ?q = ib" "send_next ?q = ib" "connected ?q" "is_reliable ?q" "send_ok ?q" "wire ?q = []" "blocking ?q" "\<not> listening ?q"
    "unackd_packets ?q = []" "\<not> close_requested ?q" "app_recv_queue ?q = []" "local_addr ?q = local_addr b"
    "peer_addr ?q = peer_addr b" "recv_indicator ?q = replicate WINLEN False" "recv_buffer ?q = replicate WINLEN 0"
    using ok by simp_all (simp_all add: transport_context_def)
  have f: "has_flag ?syn TH_SYN" "\<not> has_flag ?syn TH_ACK" "acknowledged ?syn ?q = ib"
    using q(1) by (simp_all add: arriving_fields acknowledged_def)
  have r: "send_unack r = ib" "send_next r = ib" "recv_next r = ia + 1" "connected r" "is_reliable r" "send_ok r" "wire r = []"
    "blocking r" "unackd_packets r = []" "\<not> listening r" "\<not> close_requested r" "app_recv_queue r = []" "local_addr r = local_addr b"
    "peer_addr r = peer_addr b" "connection_state r = CSTATE_SYN_RECEIVED"
    "recv_indicator r = replicate WINLEN False" "recv_buffer r = replicate WINLEN 0"
    unfolding r_def using q f
    by (simp_all add: read_header_fields arriving_fields)
  let ?ack = "arriving b (TH_SYN OR TH_ACK) ib (ia + 1)"
  let ?p = "\<lparr>start_time = clock r, retry_count = 0, seq_num = ib, packet = segment (TH_SYN OR TH_ACK) ib (ia + 1) []\<rparr>"
  let ?t = "r\<lparr>wire := [?ack], unackd_packets := [?p, ?p], send_next := ib + 1\<rparr>"
  have "arriving r = arriving b"
  proof (rule arriving_same)
    show "local_port r = local_port b" "peer_port r = peer_port b"
      by (simp_all add: r_def read_header_fields) (simp_all add: transport_context_def)
  qed (simp_all add: r)
  then have send: "stcp_network_send (make_stcp_packet (TH_SYN OR TH_ACK) ib (ia + 1) 0) r = Inr (20, r\<lparr>wire := [?ack]\<rparr>)"
    using send_arriving [OF r(4,5,6)] r(7) by simp
  have "closed_round ((transport_context ib b)\<lparr>network_recv_queue := [?syn]\<rparr>) = Inr (True, ?t)"
  proof -
    define r0 where "r0 = read_header ?syn ?q"
    have r0: "recv_packet ?s = Inr (0, ?syn, r0)" "r0\<lparr>connection_state := CSTATE_SYN_RECEIVED\<rparr> = r"
      "send_unack r0 = ib" "recv_next r0 = ia + 1"
      using recv q(1) f(1,3) by (simp_all add: r0_def r_def read_header_fields arriving_fields)
    have "initial_sequence_num ((transport_context ib b)\<lparr>network_recv_queue := [?syn]\<rparr>) = ib"
      by (simp add: transport_context_def)
    then show ?thesis
      unfolding closed_round_def Let_def
      using w r0 r(1-3,9) send by (simp add: arriving_fields packet_t_create_def make_segment)
  qed
  then have "transport_round Closed_Loop ((transport_context ib b)\<lparr>network_recv_queue := [?syn]\<rparr>) = Inr (Syn_Received_Loop, ?t)"
    by (simp add: transport_round_def)
  moreover have "half_open ib ia b ?t"
    using r by (simp add: half_open_def facing_def)
  ultimately show ?thesis by blast
qed

lemma acked_exactly: "seq_num p = i \<Longrightarrow> length (packet p) = 20 \<Longrightarrow> i \<le> u \<Longrightarrow> acked u p"
  by (simp add: acked_def word_le_nat_alt)

lemma syn_ack_arrives:
  assumes "unopened a" and "unopened b" and "facing a b" and "unat ia < 256"
    and "half_open ib ia b s" and "transport_init True ia a = Inr (Syn_Sent_Loop, t)"
  shows "\<exists>u. transport_round Syn_Sent_Loop (t\<lparr>network_recv_queue := wire s\<rparr>) = Inr (Control_Loop, u) \<and>
    opened ia ib u \<and> wire u = [arriving a TH_SYN ia 0, arriving a TH_ACK (ia + 1) (ib + 1)] \<and>
    local_addr u = local_addr a \<and> peer_addr u = peer_addr a"
proof -
  let ?ack = "arriving b (TH_SYN OR TH_ACK) ib (ia + 1)" and ?s = "t\<lparr>network_recv_queue := wire s\<rparr>"
  let ?q = "?s\<lparr>network_recv_queue := []\<rparr>"
  have wire: "network_recv_queue ?s = [?ack]" using assms(5) by (simp add: half_open_def)
  have i: "ia \<le> ia + 1" using initial_sequence [OF assms(4)] by simp
  have t: "t = (transport_context ia a)\<lparr>send_unack := ia, wire := [arriving a TH_SYN ia 0],
    unackd_packets := [\<lparr>start_time = clock a, retry_count = 0, seq_num = ia, packet = segment TH_SYN ia 0 []\<rparr>],
    send_next := ia + 1, connection_state := CSTATE_SYN_SENT\<rparr>"
    using active_opens [OF assms(1), of ia] assms(6) by simp
  have ok: "connected b" "local_addr ?s = peer_addr b" "peer_addr ?s = local_addr b" "connected a" "is_reliable a" "send_ok a"
    "blocking a" "\<not> close_requested a" "app_recv_queue a = []" "\<not> listening a"
    using assms(1-3) by (simp_all add: unopened_def facing_def t transport_context_def)
  have w: "stcp_wait_for_event NETWORK_DATA p ?s = Inr (NETWORK_DATA, ?s)" for p
    using ok wire by (simp add: stcp_wait_for_event_def Let_def) (simp add: t transport_context_def)
  have recv: "recv_packet ?s = Inr (0, ?ack, read_header ?ack ?q)"
    by (rule receive_arriving [OF ok(1-3) wire])
  have q: "send_unack ?q = ia" "send_next ?q = ia + 1" "connected ?q" "is_reliable ?q" "send_ok ?q"
    "wire ?q = [arriving a TH_SYN ia 0]" "blocking ?q" "\<not> close_requested ?q"
    "unackd_packets ?q = [\<lparr>start_time = clock a, retry_count = 0, seq_num = ia, packet = segment TH_SYN ia 0 []\<rparr>]"
    "local_addr ?q = local_addr a" "peer_addr ?q = peer_addr a" "local_port ?q = local_port a" "peer_port ?q = peer_port a"
    "recv_indicator ?q = replicate WINLEN False" "recv_buffer ?q = replicate WINLEN 0"
    "app_recv_queue ?q = []" "network_recv_queue ?q = []" "\<not> listening ?q"
    using ok by (simp_all add: t) (simp_all add: transport_context_def)
  have f: "has_flag ?ack TH_SYN" "has_flag ?ack TH_ACK" "acknowledged ?ack ?q = ia + 1"
    using q(1) i by (simp_all add: arriving_fields acknowledged_def)
  define r where "r = read_header ?ack ?q"
  have recv: "recv_packet ?s = Inr (0, ?ack, r)" unfolding r_def by (rule recv)
  have r: "send_unack r = ia + 1" "send_next r = ia + 1" "recv_next r = ib + 1" "connected r" "is_reliable r" "send_ok r"
    "wire r = [arriving a TH_SYN ia 0]" "blocking r" "unackd_packets r = []" "send_wind r = of_nat WINLEN"
    "recv_indicator r = replicate WINLEN False" "recv_buffer r = replicate WINLEN 0"
    "local_addr r = local_addr a" "peer_addr r = peer_addr a" "local_port r = local_port a" "peer_port r = peer_port a"
    "app_recv_queue r = []" "network_recv_queue r = []" "\<not> close_requested r" "\<not> listening r"
    unfolding r_def using q f i acked_exactly [of _ ia "ia + 1"]
    by (simp_all add: read_header_fields arriving_fields)
  have same: "arriving r = arriving a" by (rule arriving_same) (simp_all add: r)
  have send: "stcp_network_send (make_stcp_packet TH_ACK (ia + 1) (ib + 1) 0) r =
      Inr (20, r\<lparr>wire := [arriving a TH_SYN ia 0, arriving a TH_ACK (ia + 1) (ib + 1)]\<rparr>)"
    using send_arriving [OF r(4,5,6)] r(7) by (simp add: same)
  let ?r = "r\<lparr>wire := [arriving a TH_SYN ia 0, arriving a TH_ACK (ia + 1) (ib + 1)], connection_state := CSTATE_ESTABLISHED\<rparr>"
  have "first_unackd ?s = Inr \<lparr>start_time = clock a, retry_count = 0, seq_num = ia, packet = segment TH_SYN ia 0 []\<rparr>"
    by (simp add: first_unackd_def t)
  then have "syn_sent_round ?s = Inr (True, ?r)"
    unfolding syn_sent_round_def using w recv f(1,2) send r(2,3) by (simp add: arriving_fields)
  then have "transport_round Syn_Sent_Loop ?s = Inr (Control_Loop, ?r\<lparr>blocking := False\<rparr>)"
    using r(8) by (simp add: transport_round_def stcp_unblock_application_def)
  moreover have "opened ia ib (?r\<lparr>blocking := False\<rparr>)" using r by (simp add: opened_def)
  ultimately show ?thesis using r(13,14) by auto
qed

lemma ack_arrives:
  assumes "unopened a" and "unopened b" and "facing a b" and "unat ib < 256" and "half_open ib ia b s"
  shows "\<exists>u. transport_round Syn_Received_Loop (s\<lparr>network_recv_queue := [arriving a TH_ACK (ia + 1) (ib + 1)]\<rparr>)
      = Inr (Control_Loop, u) \<and> opened ib ia u \<and> local_addr u = local_addr b \<and> peer_addr u = peer_addr b"
proof -
  let ?ack = "arriving a TH_ACK (ia + 1) (ib + 1)"
  let ?s = "s\<lparr>network_recv_queue := [?ack]\<rparr>" and ?q = "s\<lparr>network_recv_queue := []\<rparr>"
  have i: "ib \<le> ib + 1" using initial_sequence [OF assms(4)] by simp
  have ok: "connected a" "local_addr ?s = peer_addr a" "peer_addr ?s = local_addr a"
    using assms(1,3,5) by (simp_all add: unopened_def facing_def half_open_def)
  obtain p where p: "unackd_packets s = [p, p]" "seq_num p = ib" "length (packet p) = 20"
    using assms(5) by (auto simp: half_open_def)
  have w: "stcp_wait_for_event NETWORK_DATA x ?s = Inr (NETWORK_DATA, ?s)" for x
    using assms(5) by (simp add: stcp_wait_for_event_def Let_def half_open_def)
  have recv: "recv_packet ?s = Inr (0, ?ack, read_header ?ack ?q)"
    using receive_arriving [OF ok] by simp
  have f: "\<not> has_flag ?ack TH_SYN" "has_flag ?ack TH_ACK" "acknowledged ?ack ?q = ib + 1"
    using assms(5) i by (simp_all add: arriving_fields acknowledged_def half_open_def)
  define r where "r = read_header ?ack ?q"
  have recv: "recv_packet ?s = Inr (0, ?ack, r)" unfolding r_def by (rule recv)
  have r: "send_unack r = ib + 1" "send_next r = ib + 1" "recv_next r = ia + 1" "connected r" "blocking r"
    "unackd_packets r = []" "send_wind r = of_nat WINLEN" "recv_indicator r = replicate WINLEN False"
    "recv_buffer r = replicate WINLEN 0" "is_reliable r" "send_ok r" "app_recv_queue r = []" "network_recv_queue r = []"
    "\<not> close_requested r" "\<not> listening r" "local_addr r = local_addr b" "peer_addr r = peer_addr b"
    unfolding r_def using assms(5) f i p acked_exactly [OF p(2,3) i]
    by (simp_all add: read_header_fields arriving_fields half_open_def)
  have "syn_received_round ?s = Inr (True, r\<lparr>connection_state := CSTATE_ESTABLISHED\<rparr>)"
    unfolding syn_received_round_def first_unackd_def
    using w recv f(2) r(2) p(1) by (simp add: arriving_fields)
  then have "transport_round Syn_Received_Loop ?s = Inr (Control_Loop, r\<lparr>connection_state := CSTATE_ESTABLISHED, blocking := False\<rparr>)"
    using r(5) by (simp add: transport_round_def stcp_unblock_application_def)
  moreover have "opened ib ia (r\<lparr>connection_state := CSTATE_ESTABLISHED, blocking := False\<rparr>)" using r by (simp add: opened_def)
  ultimately show ?thesis using r(16,17) by auto
qed

lemma connection_opens:
  assumes "unopened a" and "unopened b" and "facing a b" and "unat ia < 256" and "unat ib < 256"
  shows "\<exists>s t. open_connection ia ib a b = Inr ((Control_Loop, s), (Control_Loop, t)) \<and> opened ia ib s \<and> opened ib ia t \<and>
    facing s t"
proof -
  note act = active_opens [OF assms(1), of ia]
  obtain b1 where b1: "transport_round Closed_Loop ((transport_context ib b)\<lparr>network_recv_queue := [arriving a TH_SYN ia 0]\<rparr>)
      = Inr (Syn_Received_Loop, b1)" "half_open ib ia b b1" using syn_arrives [OF assms(1-3)] by blast
  obtain a2 where a2: "opened ia ib a2" "wire a2 = [arriving a TH_SYN ia 0, arriving a TH_ACK (ia + 1) (ib + 1)]"
    "local_addr a2 = local_addr a" "peer_addr a2 = peer_addr a"
    "transport_round Syn_Sent_Loop (((transport_context ia a)\<lparr>send_unack := ia, wire := [arriving a TH_SYN ia 0],
      unackd_packets := [\<lparr>start_time = clock a, retry_count = 0, seq_num = ia, packet = segment TH_SYN ia 0 []\<rparr>],
      send_next := ia + 1, connection_state := CSTATE_SYN_SENT\<rparr>)\<lparr>network_recv_queue := wire b1\<rparr>) = Inr (Control_Loop, a2)"
    using syn_ack_arrives [OF assms(1-4) b1(2) act] by blast
  obtain b2 where b2: "transport_round Syn_Received_Loop (b1\<lparr>network_recv_queue := [arriving a TH_ACK (ia + 1) (ib + 1)]\<rparr>)
      = Inr (Control_Loop, b2)" "opened ib ia b2" "local_addr b2 = local_addr b" "peer_addr b2 = peer_addr b" using ack_arrives [OF assms(1-3,5) b1(2)] by blast
  have "transport_init False ib b = Inr (Closed_Loop, transport_context ib b)" by (simp add: transport_init_def)
  then have "open_connection ia ib a b = Inr ((Control_Loop, a2), (Control_Loop, b2))"
    using act b1(1) a2(2,5) b2(1) by (simp add: open_connection_def)
  moreover have "facing a2 b2" using assms(3) a2(3,4) b2(3,4) by (simp add: facing_def)
  ultimately show ?thesis using a2(1) b2(2) by blast
qed

text \<open>What follows the handshake: a receiver that has nothing yet.\<close>

lemma opened_receiver:
  assumes "opened own other s"
  shows "receiver S (other + 1) (0, {}) s"
  using assms by (simp add: opened_def receiver_def holds_def)

text \<open>The states the active side goes through.\<close>

lemma opened_reachable:
  assumes "unopened a" and "unopened b" and "facing a b" and "unat ia < 256"
  shows "\<exists>c s. transport_init True ia a = Inr c \<and> stcp_reachable c (Control_Loop, s) \<and> opened ia ib s"
proof -
  obtain b1 where b1: "half_open ib ia b b1" using syn_arrives [OF assms(1-3)] by blast
  obtain t where t: "transport_init True ia a = Inr (Syn_Sent_Loop, t)" "network_recv_queue t = []"
    using active_opens [OF assms(1), of ia] assms(1) by (auto simp: unopened_def transport_context_def)
  obtain u where u: "transport_round Syn_Sent_Loop (t\<lparr>network_recv_queue := wire b1\<rparr>) = Inr (Control_Loop, u)" "opened ia ib u"
    using syn_ack_arrives [OF assms b1 t(1)] by blast
  have "wire b1 = [hd (wire b1)]" using b1 by (simp add: half_open_def)
  then have "stcp_step (Syn_Sent_Loop, t) (Syn_Sent_Loop, t\<lparr>network_recv_queue := wire b1\<rparr>)"
    using stcp_packet [of Syn_Sent_Loop t "hd (wire b1)"] t(2) by simp
  then have "stcp_reachable (Syn_Sent_Loop, t) (Control_Loop, u)"
    using stcp_next [OF stcp_next [OF stcp_start] stcp_round [OF u(1)]] by blast
  then show ?thesis using t(1) u(2) by blast
qed

end
