(* ===== verification/Stcp_Across.thy ===== *)
theory Stcp_Across
  imports Stcp_Open
begin

text \<open>
  From one application to the other: the rounds of a side that only sends, whose segments are
  pieces of the stream of its application.
\<close>

subsection \<open>A round that sends\<close>

text \<open>
  The state while the first \<open>k\<close> bytes after the number \<open>r0\<close> are on their way.  Without a whole
  second in the estimate the packet that was sent last is taken to be late at once.
\<close>

definition sending :: "32 word \<Rightarrow> nat \<Rightarrow> stcp \<Rightarrow> bool" where
  "sending r0 k s \<longleftrightarrow> connected s \<and> is_reliable s \<and> send_ok s \<and> network_recv_queue s = [] \<and> \<not> close_requested s \<and>
     send_unack s = r0 \<and> send_next s = r0 + of_nat k \<and> send_wind s = of_nat WINLEN \<and> 0 < fst (rto s) \<and>
     (\<forall>p \<in> set (unackd_packets s). start_time p = clock s) \<and> (k = 0 \<or> unackd_packets s \<noteq> [])"

lemma sending_window: "sending r0 k s \<Longrightarrow> k \<le> WINLEN \<Longrightarrow> open_window s = int (WINLEN - k)"
  using sint_diff [of WINLEN k 0] by (simp add: sending_def open_window_def of_nat_diff)

lemma not_late: "start_time p = clock s \<Longrightarrow> 0 < fst (rto s) \<Longrightarrow> \<not> fst (timeout_of p s) \<le> fst (clock s)"
  using pos_imp_zdiv_nonneg_iff [of 1000000000 "snd (clock s) + snd (rto s)"] by (auto simp: timeout_of_def Let_def)

lemma sending_wait:
  assumes "sending r0 k s" and "app_recv_queue s \<noteq> []"
  shows "control_wait s = Inr (APP_DATA, s)"
proof -
  have s: "network_recv_queue s = []" "\<not> close_requested s" "0 < fst (rto s)" using assms(1) by (simp_all add: sending_def)
  have w: "stcp_wait_for_event ANY_EVENT x s = Inr (APP_DATA, s)" for x
    using assms(2) s by (simp add: stcp_wait_for_event_def Let_def)
  show ?thesis
  proof (cases "send_unack s < send_next s")
    case True
    then have "k \<noteq> 0" using assms(1) by (cases k) (simp_all add: sending_def)
    then obtain p ps where p: "unackd_packets s = p # ps" "start_time p = clock s"
      using assms(1) by (cases "unackd_packets s") (auto simp: sending_def)
    then show ?thesis using True w not_late [OF p(2) s(3)] by (simp add: control_wait_def first_unackd_def Let_def)
  qed (simp add: control_wait_def w)
qed

lemma sending_round:
  assumes "sending r0 k s" and "app_recv_queue s = b # bs" and "b \<noteq> []" and "length b \<le> MAXLEN"
    and "k + length b \<le> WINLEN" and "seg = segment TH_ACK (send_next s) (recv_next s) b"
  shows "\<exists>t. control_round s = Inr (False, t) \<and> sending r0 (k + length b) t \<and> app_recv_queue t = bs \<and>
    wire t = wire s @ [stamped s seg (segment_sum s seg)] \<and> local_addr t = local_addr s \<and> peer_addr t = peer_addr s"
proof -
  have s: "connected s" "is_reliable s" "send_ok s" using assms(1) by (simp_all add: sending_def)
  have w: "open_window s = int (WINLEN - k)" "0 < open_window s"
    using sending_window [OF assms(1)] assms(3,5) by (cases b; simp)+
  have room: "length b \<le> min MAXLEN (nat (open_window s))" using w(1) assms(4,5) by simp
  then have t: "take (min MAXLEN (nat (open_window s))) b = b" by simp
  let ?t = "s\<lparr>app_recv_queue := bs, wire := wire s @ [stamped s seg (segment_sum s seg)],
    unackd_packets := unackd_packets s @ [unackd s seg], send_next := send_next s + of_nat (length b), packtosend_set := True\<rparr>"
  have "on_app_data s = Inr ?t"
    using app_data_sent [OF s w(2) refl assms(2,3), of seg] room t assms(6) by simp
  then have "control_round s = Inr (False, ?t)"
    using sending_wait [OF assms(1)] assms(2) by (simp add: control_round_def)
  moreover have "sending r0 (k + length b) ?t"
    using assms(1) by (auto simp: sending_def connected_def unackd_def)
  ultimately show ?thesis by (intro exI [of _ ?t]) simp
qed

subsection \<open>All that is written\<close>

lemma pieces_within: "list_all2 (carries S r0) pieces q \<Longrightarrow> \<forall>(k, n) \<in> set pieces. k + n \<le> length S"
  by (induction rule: list_all2_induct) (auto simp: carries_def)

lemma sending_rounds:
  assumes "sending r0 k s" and "\<forall>b \<in> set (app_recv_queue s). b \<noteq> [] \<and> length b \<le> MAXLEN"
    and "facing s r" and "k \<le> length S" and "length S \<le> WINLEN" and "concat (app_recv_queue s) = drop k S"
  shows "\<exists>t segs pieces. rounds (length (app_recv_queue s)) s = Inr (False, t) \<and> wire t = wire s @ segs \<and>
    list_all2 (carries S r0) pieces segs \<and> (\<forall>p \<in> set segs. mysock_verify_checksum r p = Inr True) \<and>
    length segs = length (app_recv_queue s) \<and> in_order pieces k = length S \<and> app_recv_queue t = [] \<and>
    sending r0 (length S) t"
  using assms
proof (induction "app_recv_queue s" arbitrary: s k)
  case Nil
  then show ?case by (intro exI [of _ s] exI [of _ "[]"]) simp
next
  case (Cons b bs)
  note q = Cons.hyps(2) [symmetric]
  define seg where "seg = segment TH_ACK (send_next s) (recv_next s) b"
  let ?p = "stamped s seg (segment_sum s seg)"
  have b: "b \<noteq> []" "length b \<le> MAXLEN" "b @ concat bs = drop k S" using Cons.prems(2,6) q by simp_all
  have l: "k + length b \<le> length S" using arg_cong [OF b(3), of length] Cons.prems(4) by simp
  obtain t where t: "control_round s = Inr (False, t)" "sending r0 (k + length b) t" "app_recv_queue t = bs"
    "wire t = wire s @ [?p]" "local_addr t = local_addr s" "peer_addr t = peer_addr s"
    using sending_round [OF Cons.prems(1) q b(1,2) _ seg_def] l Cons.prems(5) by auto
  have d: "b = take (length b) (drop k S)" "concat bs = drop (k + length b) S"
    using b(3) by (metis append_eq_conv_conj, metis append_eq_conv_conj drop_drop add.commute)
  have c: "carries S r0 (k, length b) ?p"
    unfolding seg_def using Cons.prems(1) segment_carries [OF d(1) l] b(2) by (simp add: sending_def)
  have v: "mysock_verify_checksum r ?p = Inr True"
    using Cons.prems(1,3) b(2) by (intro stamped_verifies) (simp_all add: seg_def sending_def facing_def)
  have "\<exists>u segs pieces. rounds (length (app_recv_queue t)) t = Inr (False, u) \<and> wire u = wire t @ segs \<and>
    list_all2 (carries S r0) pieces segs \<and> (\<forall>p \<in> set segs. mysock_verify_checksum r p = Inr True) \<and>
    length segs = length (app_recv_queue t) \<and> in_order pieces (k + length b) = length S \<and> app_recv_queue u = [] \<and>
    sending r0 (length S) u"
    using Cons.prems(2,3,5) t(2,3,5,6) l d(2) q by (intro Cons.hyps(1)) (auto simp: facing_def)
  then obtain u segs pieces where u: "rounds (length bs) t = Inr (False, u)" "wire u = wire t @ segs"
    "list_all2 (carries S r0) pieces segs" "\<forall>p \<in> set segs. mysock_verify_checksum r p = Inr True"
    "length segs = length bs" "in_order pieces (k + length b) = length S" "app_recv_queue u = []"
    "sending r0 (length S) u" using t(3) by auto
  show ?case
    using u c v t by (intro exI [of _ u] exI [of _ "?p # segs"] exI [of _ "(k, length b) # pieces"]) (simp add: q max_def)
qed

text \<open>
  Buffers of at most 536 bytes, fewer than 3072 in all, without a wait for acknowledgements: a round of the
  sender for every buffer makes segments, and a round of the receiver for every segment puts their bytes
  into the queue of its application.  The estimate of the round trip time has to be at least a second,
  which \<open>opened\<close> does not say: after a handshake with short round trips it is none.
\<close>

lemma burst_goes_across:
  assumes "opened own other s" and "opened other own t" and "facing s t"
    and "\<forall>b \<in> set bufs. b \<noteq> [] \<and> length b \<le> MAXLEN" and "length (concat bufs) < WINLEN"
    and "0 < fst (rto s)" and "unat own < 256"
  shows "\<exists>u segs v. rounds (length bufs) (s\<lparr>app_recv_queue := bufs\<rparr>) = Inr (False, u) \<and> wire u = wire s @ segs \<and>
    rounds (length bufs) (t\<lparr>network_recv_queue := segs\<rparr>) = Inr (False, v) \<and>
    concat (app_send_queue v) = concat (app_send_queue t) @ concat bufs"
proof -
  let ?s = "s\<lparr>app_recv_queue := bufs\<rparr>"
  have snd: "sending (own + 1) 0 ?s"
    using assms(1,6) by (auto simp: opened_def sending_def connected_def)
  have f: "facing ?s t" "wire ?s = wire s" "app_recv_queue ?s = bufs" using assms(3) by (simp_all add: facing_def)
  obtain u segs pieces where u: "rounds (length bufs) ?s = Inr (False, u)" "wire u = wire s @ segs"
    "list_all2 (carries (concat bufs) (own + 1)) pieces segs" "\<forall>p \<in> set segs. mysock_verify_checksum t p = Inr True"
    "length segs = length bufs" "in_order pieces 0 = length (concat bufs)"
    using sending_rounds [OF snd _ f(1), of "concat bufs"] assms(4,5) f(2,3) by auto
  let ?t = "t\<lparr>network_recv_queue := segs\<rparr>"
  have "receiver (concat bufs) (own + 1) (0, {}) ?t" using opened_receiver [OF assms(2)] by simp
  moreover have "quiet ?t" using assms(2) by (simp add: opened_def quiet_def)
  moreover have "mysock_verify_checksum ?t p = mysock_verify_checksum t p" for p by (simp add: mysock_verify_checksum_def)
  moreover have "unat (own + 1) + length (concat bufs) < 2 ^ 31"
    using initial_sequence [OF assms(7)] assms(5,7) by simp
  moreover have "accept_all pieces (0, {}) \<noteq> None"
    using pieces_within [OF u(3)] assms(5) by (intro accept_all_short) auto
  then obtain b R where r: "accept_all pieces (0, {}) = Some (b, R)" by auto
  moreover have "length (concat bufs) \<le> b" using accept_all_in_order [OF r] u(6) by simp
  ultimately obtain v where "rounds (length segs) ?t = Inr (False, v)"
    "concat (app_send_queue v) = concat (app_send_queue ?t) @ take b (concat bufs)"
    using receiver_rounds [of "concat bufs" "own + 1" 0 "{}" ?t pieces segs] u(3,4) by auto
  then show ?thesis using u \<open>length (concat bufs) \<le> b\<close> by auto
qed

end
