(* ===== verification/Stcp_Exchange.thy ===== *)
theory Stcp_Exchange
  imports Stcp_Across
begin

text \<open>
  Stop and wait: one application writes, its side sends the segment, the other side delivers it and sends
  the acknowledgement, which the first side takes in.  No estimate of the round trip time and no clock matters:
  a segment that counts as late is acknowledged all the same.
\<close>

subsection \<open>Two sides at rest\<close>

definition resting :: "nat \<Rightarrow> 32 word \<Rightarrow> stcp \<Rightarrow> bool" where
  "resting x y s \<longleftrightarrow> connected s \<and> is_reliable s \<and> send_ok s \<and> \<not> close_requested s \<and>
     connection_state s = CSTATE_ESTABLISHED \<and> send_next s = of_nat x \<and> send_unack s = of_nat x \<and> recv_next s = y \<and>
     send_wind s = of_nat WINLEN \<and> unackd_packets s = [] \<and> recv_indicator s = replicate WINLEN False \<and>
     recv_buffer s = replicate WINLEN 0 \<and> app_recv_queue s = [] \<and> network_recv_queue s = []"

lemma opened_resting: "opened own other s \<Longrightarrow> resting (unat own + 1) (other + 1) s"
  by (simp add: opened_def resting_def)

text \<open>The write of \<open>b\<close> makes a segment.\<close>

lemma rest_sends:
  assumes s: "resting x y s" and b: "b \<noteq> []" "length b \<le> MAXLEN"
    and seg: "seg = segment TH_ACK (of_nat x) y b"
  shows "control_round (s\<lparr>app_recv_queue := [b], wire := []\<rparr>) = Inr (False, s\<lparr>wire := [stamped s seg (segment_sum s seg)],
    unackd_packets := [unackd s seg], send_next := of_nat (x + length b), packtosend_set := True\<rparr>)"
proof -
  let ?s = "s\<lparr>app_recv_queue := [b], wire := []\<rparr>"
  have f: "connected ?s" "is_reliable ?s" "send_ok ?s" "\<not> close_requested ?s" "send_next ?s = of_nat x" "recv_next ?s = y"
    "unackd_packets ?s = []" "network_recv_queue ?s = []" "\<not> send_unack ?s < send_next ?s" "app_recv_queue s = []"
    using s by (simp_all add: resting_def connected_def)
  have w: "open_window ?s = int WINLEN" using s by (simp add: open_window_def resting_def)
  have same: "stamped ?s p c = stamped s p c" "segment_sum ?s p = segment_sum s p" "unackd ?s p = unackd s p" for p c
    by (simp_all add: stamped_def segment_sum_def unackd_def)
  have wait: "control_wait ?s = Inr (APP_DATA, ?s)"
    using f by (simp add: control_wait_def stcp_wait_for_event_def Let_def)
  have t: "take (min MAXLEN (nat (open_window ?s))) b = b" using b(2) by (simp add: w)
  have "on_app_data ?s = Inr (?s\<lparr>app_recv_queue := [], wire := [stamped s seg (segment_sum s seg)],
      unackd_packets := [unackd s seg], send_next := of_nat x + of_nat (length b), packtosend_set := True\<rparr>)"
    using app_data_sent [OF f(1-3) _ refl, of b "[]" seg] w b t f(5-7) seg by (simp add: same)
  moreover have "?s\<lparr>app_recv_queue := [], wire := [stamped s seg (segment_sum s seg)],
      unackd_packets := [unackd s seg], send_next := of_nat x + of_nat (length b), packtosend_set := True\<rparr>
    = s\<lparr>wire := [stamped s seg (segment_sum s seg)],
      unackd_packets := [unackd s seg], send_next := of_nat (x + length b), packtosend_set := True\<rparr>"
    using f(10) by (cases s) simp
  ultimately show ?thesis using wait by (simp add: control_round_def)
qed

text \<open>The segment is delivered and acknowledged.\<close>

lemma write_whole: "write_at 0 b (replicate k c) = b @ replicate (k - length b) c"
  by (simp add: write_at_def)

lemma run_front: "n \<le> WINLEN \<Longrightarrow> run_length 0 {0..<n} = n"
proof -
  assume n: "n \<le> WINLEN"
  have "n \<le> run_length 0 {0..<n}" using run_ge [of 0 n "{0..<n}"] n by simp
  moreover have "run_length 0 {0..<n} \<le> n"
  proof (rule ccontr)
    assume "\<not> run_length 0 {0..<n} \<le> n"
    then show False using run_member [of n 0 "{0..<n}"] by simp
  qed
  ultimately show ?thesis by simp
qed

lemma rest_receives:
  assumes t: "resting z r t" and b: "b \<noteq> []" "length b \<le> MAXLEN" and r: "unat r + length b < 2 ^ 31"
    and s: "connected s" "facing s t"
    and p: "p = stamped s (segment TH_ACK r (of_nat z) b) (segment_sum s (segment TH_ACK r (of_nat z) b))"
  shows "\<exists>v. control_round (t\<lparr>network_recv_queue := [p], wire := []\<rparr>) = Inr (False, v) \<and>
    resting z (r + of_nat (length b)) v \<and> wire v = [arriving t TH_ACK (of_nat z) (r + of_nat (length b))] \<and>
    app_send_queue v = app_send_queue t @ [b] \<and> local_addr v = local_addr t \<and> peer_addr v = peer_addr t"
proof -
  let ?t = "t\<lparr>network_recv_queue := [p], wire := []\<rparr>" and ?n = "length b" and ?h = "take 20 p"
  let ?buf = "b @ replicate (WINLEN - ?n) 0" and ?ind = "replicate ?n True @ replicate (WINLEN - ?n) False"
  have f: "connected t" "is_reliable t" "send_ok t" "\<not> close_requested t" "connection_state t = CSTATE_ESTABLISHED"
    "send_next t = of_nat z" "send_unack t = of_nat z" "recv_next t = r" "send_wind t = of_nat WINLEN" "unackd_packets t = []"
    "recv_indicator t = replicate WINLEN False" "recv_buffer t = replicate WINLEN 0" "app_recv_queue t = []"
    using t by (simp_all add: resting_def)
  have c: "carries b r (0, ?n) p" using segment_carries [of b ?n 0 b r] b(2) by (simp add: p)
  have l: "length p = 20 + ?n" "th_off p = 5" "th_ack ?h = of_nat z" "th_flags ?h = TH_ACK" "th_win ?h = of_nat WINLEN"
    using c by (simp_all add: carries_def header_fields p stamped_fields length_stamped)
      (simp add: stamped_segment th_win_def)
  have v: "mysock_verify_checksum ?t p = Inr True"
    unfolding p using s b(2) by (intro stamped_verifies) (simp_all add: facing_def)
  have place: "place_payload r ?h ?n = Some (0, 20, ?n, False)"
    using place_payload_eq [OF c, of 0] b r by simp
  have hold: "holds b 0 {} (replicate WINLEN 0) (replicate WINLEN False)" by (simp add: holds_def)
  let ?q = "t\<lparr>wire := [], network_recv_queue := []\<rparr>"
  have m: "run_length 0 {0..<?n} = ?n" "?n \<noteq> WINLEN" using b(2) run_front [of ?n] by simp_all
  have store: "store_payload 0 20 ?n (p @ replicate (576 - ?n) 0) ?q =
      Inr (?n, ?q\<lparr>recv_buffer := ?buf, recv_indicator := ?ind, recv_next := r + of_nat ?n\<rparr>)"
    using store_payload_eq [OF c, of 0 "{}" ?q 0 ?n "{0..<?n}"] hold b(2) m f(8,11,12)
    by (simp add: write_whole Let_def)
  let ?w = "?q\<lparr>recv_buffer := ?buf, recv_indicator := ?ind, recv_next := r + of_nat ?n\<rparr>"
  define u where "u = read_header ?h ?w"
  have run: "recv_packet ?t = Inr (int ?n, ?h, u)"
    using recv_packet_eq [OF _ v l(1), of "[]"] l(2) b f(8) place store by (simp add: u_def)
  have "has_flag ?h TH_ACK" "\<not> has_flag ?h TH_SYN" by (simp_all add: l)
  then have "acknowledged ?h ?w = of_nat z" using f(7) l(3) by (simp add: acknowledged_def)
  then have u: "send_unack u = of_nat z" "unackd_packets u = []" "recv_next u = r + of_nat ?n" "send_wind u = of_nat WINLEN"
    "send_next u = of_nat z" "connection_state u = CSTATE_ESTABLISHED" "connected u" "is_reliable u" "send_ok u" "wire u = []"
    "network_recv_queue u = []" "local_addr u = local_addr t" "peer_addr u = peer_addr t" "app_recv_queue u = []"
    "\<not> close_requested u" "recv_buffer u = ?buf" "recv_indicator u = ?ind" "app_send_queue u = app_send_queue t"
    "local_port u = local_port t" "peer_port u = peer_port t"
    unfolding u_def using f l by (simp_all add: read_header_fields connected_def)
  let ?ack = "arriving t TH_ACK (of_nat z) (r + of_nat ?n)"
  have "arriving u = arriving t" by (rule arriving_same) (simp_all add: u)
  then have send: "send_segment (make_stcp_packet TH_ACK (send_next u) (recv_next u) 0) u = Inr (u\<lparr>wire := [?ack]\<rparr>)"
    using send_arriving [OF u(7-9)] u(3,5,10) by (simp add: send_segment_def)
  let ?u = "u\<lparr>wire := [?ack], packtosend_set := True\<rparr>"
  have all: "holds b 0 {0..<?n} (recv_buffer ?u) (recv_indicator ?u)"
    using holds_write [OF hold, of 0 ?n] b(2) by (simp add: u write_whole)
  let ?v = "?u\<lparr>app_send_queue := app_send_queue t @ [b], recv_buffer := replicate WINLEN 0,
    recv_indicator := replicate WINLEN False\<rparr>"
  have full: "replicate (WINLEN - ?n) c @ replicate ?n c = replicate WINLEN c" for c :: 'c
    using b(2) by (simp flip: replicate_add)
  have "{0..<?n} \<subseteq> {..<length b}" by auto
  then have deliver: "deliver ?n ?u = Inr ?v"
    using deliver_eq [OF all _ m(1) [symmetric]] b by (simp add: u full)
  have ack: "on_ack ?v = (False, ?v)" using u(6) by (simp add: on_ack_def)
  have "on_network_data ?t = Inr (False, ?v)"
    using run send deliver ack b(1) l(4) by (simp add: on_network_data_def)
  moreover have "control_wait ?t = Inr (NETWORK_DATA, ?t)"
    using f by (simp add: control_wait_def stcp_wait_for_event_def Let_def)
  ultimately have "control_round ?t = Inr (False, ?v)" by (simp add: control_round_def)
  moreover have "resting z (r + of_nat ?n) ?v" using u by (simp add: resting_def connected_def)
  ultimately show ?thesis using u(12,13) by (intro exI [of _ ?v]) simp
qed

text \<open>The acknowledgement is taken in, late or not.\<close>

lemma unat_small: "n < 2 ^ 32 \<Longrightarrow> unat (of_nat n :: 32 word) = n"
  by (simp add: unat_of_nat)

lemma rest_acknowledged:
  assumes s: "resting x y s" and b: "b \<noteq> []" and x: "x + length b < 2 ^ 32"
    and t: "connected t" "facing s t"
    and u: "u = s\<lparr>wire := ps, unackd_packets := [unackd s (segment TH_ACK (of_nat x) y b)],
      send_next := of_nat (x + length b), packtosend_set := True\<rparr>"
  shows "\<exists>v. control_round (u\<lparr>clock := later, network_recv_queue := [arriving t TH_ACK y (of_nat (x + length b))]\<rparr>)
      = Inr (False, v) \<and> resting (x + length b) y v \<and> local_addr v = local_addr s \<and> peer_addr v = peer_addr s"
proof -
  let ?p = "arriving t TH_ACK y (of_nat (x + length b))"
  let ?u = "u\<lparr>clock := later, network_recv_queue := [?p]\<rparr>" and ?q = "u\<lparr>clock := later, network_recv_queue := []\<rparr>"
  have f: "connected s" "is_reliable s" "send_ok s" "\<not> close_requested s" "connection_state s = CSTATE_ESTABLISHED"
    "send_unack s = of_nat x" "send_next s = of_nat x" "recv_next s = y" "recv_indicator s = replicate WINLEN False"
    "recv_buffer s = replicate WINLEN 0" "app_recv_queue s = []" "network_recv_queue s = []"
    using s by (simp_all add: resting_def)
  have wait: "stcp_wait_for_event (if c then NETWORK_DATA OR TIMEOUT else ANY_EVENT) w ?u = Inr (NETWORK_DATA, ?u)" for c w
    using f by (simp add: u stcp_wait_for_event_def Let_def)
  have wait: "control_wait ?u = Inr (NETWORK_DATA, ?u)"
    using wait wait [of False] by (simp add: control_wait_def first_unackd_def u Let_def)
  have "local_addr ?u = peer_addr t" "peer_addr ?u = local_addr t" "network_recv_queue ?u = [?p]"
    using t(2) by (simp_all add: u facing_def)
  from receive_arriving [OF t(1) this] have recv: "recv_packet ?u = Inr (0, ?p, read_header ?p ?q)" by simp
  have n: "unat (of_nat x :: 32 word) = x" "unat (of_nat (x + length b) :: 32 word) = x + length b"
    using x by (simp_all add: unat_small del: of_nat_add)
  have le: "(of_nat x :: 32 word) \<le> of_nat (x + length b)" unfolding word_le_nat_alt n by simp
  have "has_flag ?p TH_ACK" "\<not> has_flag ?p TH_SYN" by (simp_all add: arriving_fields)
  then have a: "acknowledged ?p ?q = of_nat (x + length b)"
    using f(6) le by (simp add: acknowledged_def arriving_fields u)
  have gone: "acked (of_nat (x + length b)) (unackd s (segment TH_ACK (of_nat x) y b))"
    unfolding acked_def n using n(1) f(7) by (simp add: unackd_def)
  define v where "v = read_header ?p ?q"
  have v: "send_unack v = of_nat (x + length b)" "unackd_packets v = []" "recv_next v = y" "send_wind v = of_nat WINLEN"
    "send_next v = of_nat (x + length b)" "connection_state v = CSTATE_ESTABLISHED" "connected v" "is_reliable v" "send_ok v"
    "network_recv_queue v = []" "local_addr v = local_addr s" "peer_addr v = peer_addr s" "app_recv_queue v = []"
    "\<not> close_requested v" "recv_buffer v = replicate WINLEN 0" "recv_indicator v = replicate WINLEN False"
    unfolding v_def using f gone a
    by (simp_all only: read_header_fields) (simp_all add: u arriving_fields connected_def)
  have "on_ack v = (False, v)" using v(6) by (simp add: on_ack_def)
  then have "on_network_data ?u = Inr (False, v)"
    using recv v_def by (simp add: on_network_data_def arriving_fields)
  then have "control_round ?u = Inr (False, v)" using wait by (simp add: control_round_def)
  moreover have "resting (x + length b) y v" using v by (simp add: resting_def)
  ultimately show ?thesis using v(11,12) by blast
qed

subsection \<open>Write after write\<close>

text \<open>
  The writes of one application, each with the time at which its acknowledgement comes; the segments on the
  wire of either side are what the other one receives.  The value says whether a loop was left.
\<close>

fun exchange :: "(timespec \<times> byte list) list \<Rightarrow> stcp \<times> stcp \<Rightarrow> sr_fault + bool \<times> stcp \<times> stcp" where
  "exchange [] (s, t) = Inr (False, s, t)"
| "exchange ((later, b) # ws) (s, t) =
     and_then (control_round (s\<lparr>app_recv_queue := [b], wire := []\<rparr>)) (\<lambda>(e1, s).
     and_then (control_round (t\<lparr>network_recv_queue := wire s, wire := []\<rparr>)) (\<lambda>(e2, t).
     and_then (control_round (s\<lparr>clock := later, network_recv_queue := wire t\<rparr>)) (\<lambda>(e3, s).
     if e1 \<or> e2 \<or> e3 then Inr (True, s, t) else exchange ws (s, t))))"

lemma exchange_all:
  assumes "resting x z s" and "resting y (of_nat x) t" and "z = of_nat y" and "facing s t"
    and "\<forall>w \<in> set ws. snd w \<noteq> [] \<and> length (snd w) \<le> MAXLEN" and "x + length (concat (map snd ws)) < 2 ^ 31"
  shows "\<exists>u v. exchange ws (s, t) = Inr (False, u, v) \<and> resting (x + length (concat (map snd ws))) z u \<and>
    resting y (of_nat (x + length (concat (map snd ws)))) v \<and>
    concat (app_send_queue v) = concat (app_send_queue t) @ concat (map snd ws)"
  using assms
proof (induction ws arbitrary: s t x)
  case Nil
  then show ?case by simp
next
  case (Cons w ws)
  obtain later b where w: "w = (later, b)" by (cases w)
  have b: "b \<noteq> []" "length b \<le> MAXLEN" "x + length b < 2 ^ 31" "x + length b < 2 ^ 32" using Cons.prems(5,6) w by auto
  have n: "unat (of_nat x :: 32 word) = x" using b(4) by (simp add: unat_small)
  have c: "connected s" "connected t" using Cons.prems(1,2) by (simp_all add: resting_def)
  define seg where "seg = segment TH_ACK (of_nat x :: 32 word) z b"
  define u where "u = s\<lparr>wire := [stamped s seg (segment_sum s seg)], unackd_packets := [unackd s seg],
    send_next := of_nat (x + length b), packtosend_set := True\<rparr>"
  have one: "control_round (s\<lparr>app_recv_queue := [b], wire := []\<rparr>) = Inr (False, u)"
    unfolding u_def by (rule rest_sends [OF Cons.prems(1) b(1,2) seg_def])
  have "unat (of_nat x :: 32 word) + length b < 2 ^ 31" using n b(3) by simp
  from rest_receives [OF Cons.prems(2) b(1,2) this c(1) Cons.prems(4), of "stamped s seg (segment_sum s seg)"]
  obtain v where v: "control_round (t\<lparr>network_recv_queue := wire u, wire := []\<rparr>) = Inr (False, v)"
    "resting y (of_nat x + of_nat (length b)) v" "wire v = [arriving t TH_ACK z (of_nat (x + length b))]"
    "app_send_queue v = app_send_queue t @ [b]" "local_addr v = local_addr t" "peer_addr v = peer_addr t"
    by (auto simp: u_def seg_def Cons.prems(3))
  from rest_acknowledged [OF Cons.prems(1) b(1,4) c(2) Cons.prems(4), of u _ later] u_def seg_def
  obtain s' where s': "control_round (u\<lparr>clock := later, network_recv_queue := wire v\<rparr>) = Inr (False, s')"
    "resting (x + length b) z s'" "local_addr s' = local_addr s" "peer_addr s' = peer_addr s"
    unfolding v(3) by blast
  have "facing s' v" using Cons.prems(4) v(5,6) s'(3,4) by (simp add: facing_def)
  moreover have "resting y (of_nat (x + length b)) v" using v(2) by simp
  moreover have "(x + length b) + length (concat (map snd ws)) < 2 ^ 31" using Cons.prems(6) w by simp
  moreover have "\<forall>w \<in> set ws. snd w \<noteq> [] \<and> length (snd w) \<le> MAXLEN" using Cons.prems(5) by simp
  ultimately obtain u2 v2 where "exchange ws (s', v) = Inr (False, u2, v2)"
    "resting (x + length b + length (concat (map snd ws))) z u2"
    "resting y (of_nat (x + length b + length (concat (map snd ws)))) v2"
    "concat (app_send_queue v2) = concat (app_send_queue v) @ concat (map snd ws)"
    using Cons.IH [OF s'(2) _ Cons.prems(3)] by blast
  then show ?case
    using one v(1,4) s'(1) by (intro exI [of _ u2] exI [of _ v2]) (simp add: w add.assoc)
qed

end
