(* ===== verification/Stcp_Properties.thy ===== *)
theory Stcp_Properties
  imports Stcp_Exchange
begin

text \<open>
  The properties of the transport layer, with witnesses on two mysockets that face each
  other.
\<close>

subsection \<open>Two mysockets\<close>

definition mysocket :: "32 word \<Rightarrow> 32 word \<Rightarrow> stcp" where
  "mysocket here there = \<lparr>network_recv_queue = [], app_send_queue = [], app_recv_queue = [], close_requested = False,
     eof = False, blocking = True, listening = False, is_reliable = True, local_addr = here, local_port = 1,
     peer_addr = there, peer_port = 1, random_seed = 0, rand_r = (\<lambda>r. (r, r)), copied = False, copy_buffer = [],
     send_ok = True, wire = [], connection_state = CSTATE_CLOSED, initial_sequence_num = 0, send_unack = 0,
     send_next = 0, send_wind = 0, recv_next = 0, recv_buffer = replicate WINLEN 0,
     recv_indicator = replicate WINLEN False, rto = (0, 0), srtt = (0, 0), rttvar = (0, 0), rto_init = False,
     unackd_packets = [], clock = (0, 0), packtosend_set = False\<rparr>"

abbreviation left :: stcp where "left \<equiv> mysocket 1 2"
abbreviation right :: stcp where "right \<equiv> mysocket 2 1"

lemma unopened_mysocket: "here \<noteq> 0 \<Longrightarrow> there \<noteq> 0 \<Longrightarrow> unopened (mysocket here there)"
  by (simp add: unopened_def mysocket_def connected_def)

text \<open>After a handshake in which both sides began with 0.\<close>

definition established :: "stcp \<Rightarrow> stcp" where
  "established s = s\<lparr>connection_state := CSTATE_ESTABLISHED, send_unack := 1, send_next := 1, recv_next := 1,
     send_wind := of_nat WINLEN, blocking := False, rto := (1, 0)\<rparr>"

lemma opened_mysocket: "here \<noteq> 0 \<Longrightarrow> there \<noteq> 0 \<Longrightarrow> opened 0 0 (established (mysocket here there))"
  by (simp add: opened_def established_def mysocket_def connected_def)

text \<open>A piece of a stream on its way from \<open>left\<close> to \<open>right\<close>.\<close>

definition piece_packet :: "nat \<Rightarrow> byte list \<Rightarrow> byte list" where
  "piece_packet k d = stamped left (segment TH_ACK (1 + of_nat k) 1 d) (segment_sum left (segment TH_ACK (1 + of_nat k) 1 d))"

lemma piece_carries:
  "d = take n (drop k S) \<Longrightarrow> k + n \<le> length S \<Longrightarrow> n \<le> 576 \<Longrightarrow> carries S 1 (k, n) (piece_packet k d)"
  unfolding piece_packet_def by (rule segment_carries)

definition receiving :: "byte list list \<Rightarrow> stcp" where
  "receiving ps = (established right)\<lparr>network_recv_queue := ps\<rparr>"

lemma piece_verifies:
  assumes "length d \<le> 576"
  shows "mysock_verify_checksum (receiving ps) (piece_packet k d) = Inr True"
  unfolding piece_packet_def using assms
  by (intro stamped_verifies) (simp_all add: connected_def mysocket_def receiving_def established_def)

lemma receiving_facts:
  "receiver S 1 (0, {}) (receiving ps)" "quiet (receiving ps)" "network_recv_queue (receiving ps) = ps"
  "app_send_queue (receiving ps) = []"
  by (simp_all add: receiver_def holds_def quiet_def receiving_def established_def mysocket_def connected_def)

subsection \<open>The stream at the receiver\<close>

text \<open>
  C27.  Whatever pieces of a stream arrive, in whatever order, again or overlapping, the rounds of the main
  loop do what the receiver of the specification does: the application gets the stream up to
  the first byte that is missing, once and in order.  They end with an access past the
  indicator exactly where the specification has no place for a window that is complete.
\<close>

theorem stream_is_reassembled:
  assumes "receiver S r0 (base, R) s" and "list_all2 (carries S r0) pieces (network_recv_queue s)"
    and "\<forall>p \<in> set (network_recv_queue s). mysock_verify_checksum s p = Inr True"
    and "quiet s" and "unat r0 + length S < 2 ^ 31"
  shows "case accept_all pieces (base, R) of
      None \<Rightarrow> rounds (length pieces) s = Inl Out_Of_Bounds
    | Some (base', R') \<Rightarrow> \<exists>t. rounds (length pieces) s = Inr (False, t) \<and> receiver S r0 (base', R') t \<and>
        base \<le> base' \<and> concat (app_send_queue t) = concat (app_send_queue s) @ take (base' - base) (drop base S)"
  unfolding list_all2_lengthD [OF assms(2)] by (rule receiver_rounds [OF assms(1,2) refl assms(3-5)])

lemma run_eq:
  assumes "{base..<base + m} \<subseteq> R" and "base + m \<notin> R" and "m \<le> WINLEN"
  shows "run_length base R = m"
proof -
  have "m \<le> run_length base R" by (rule run_ge [OF assms(1,3)])
  moreover have "\<not> m < run_length base R" using run_member [of m base R] assms(2) by auto
  ultimately show ?thesis by simp
qed

theorem stream_is_reassembled_witness:
  "\<exists>t. rounds 2 (receiving [piece_packet 2 [30, 40, 50], piece_packet 0 [10, 20]]) = Inr (False, t) \<and>
     concat (app_send_queue t) = [10, 20, 30, 40, 50]"
proof -
  let ?S = "[10, 20, 30, 40, 50]" and ?q = "[piece_packet 2 [30, 40, 50], piece_packet 0 [10, 20]]"
  have c: "list_all2 (carries ?S 1) [(2, 3), (0, 2)] (network_recv_queue (receiving ?q))"
    by (simp add: receiving_facts piece_carries)
  have v: "\<forall>p \<in> set (network_recv_queue (receiving ?q)). mysock_verify_checksum (receiving ?q) p = Inr True"
    by (simp add: receiving_facts piece_verifies)
  have a: "accept_all [(2, 3), (0, 2)] (0, {}) = Some (5, {2..<5} \<union> {0..<2})"
  proof -
    have "run_length 0 {2..<5} = 0" by (rule run_eq) simp_all
    moreover have "run_length 0 ({2..<5} \<union> {0..<2}) = 5" by (rule run_eq) auto
    ultimately show ?thesis by (simp add: accept_def)
  qed
  have two: "length [(2, 3), (0 :: nat, 2 :: nat)] = 2" by simp
  show ?thesis
    using stream_is_reassembled [OF receiving_facts(1) c v receiving_facts(2), unfolded a two option.case prod.case]
    by (auto simp: receiving_facts)
qed

text \<open>
  C28.  A stream shorter than the window arrives in full, and no fault occurs, once among all that
  arrives there are pieces that follow each other from its first byte to its last.
\<close>

theorem short_streams_arrive:
  assumes "receiver S r0 (0, {}) s" and "list_all2 (carries S r0) pieces (network_recv_queue s)"
    and "\<forall>p \<in> set (network_recv_queue s). mysock_verify_checksum s p = Inr True"
    and "quiet s" and "unat r0 + length S < 2 ^ 31"
    and "length S < WINLEN" and "in_order pieces 0 = length S"
  shows "\<exists>t. rounds (length pieces) s = Inr (False, t) \<and> concat (app_send_queue t) = concat (app_send_queue s) @ S"
proof -
  have "accept_all pieces (0, {}) \<noteq> None" using pieces_within [OF assms(2)] assms(6) by (intro accept_all_short) auto
  then obtain b R where r: "accept_all pieces (0, {}) = Some (b, R)" by auto
  have "length S \<le> b" using accept_all_in_order [OF r] assms(7) by simp
  moreover obtain t where t: "rounds (length pieces) s = Inr (False, t)"
    "concat (app_send_queue t) = concat (app_send_queue s) @ take (b - 0) (drop 0 S)"
    using receiver_rounds [OF assms(1,2) refl assms(3-5)] r list_all2_lengthD [OF assms(2)] by auto
  ultimately show ?thesis by auto
qed

theorem short_streams_arrive_witness:
  "\<exists>t. rounds 3 (receiving [piece_packet 0 [10, 20], piece_packet 1 [20, 30], piece_packet 3 [40]]) = Inr (False, t) \<and>
     concat (app_send_queue t) = [10, 20, 30, 40]"
proof -
  let ?S = "[10, 20, 30, 40]" and ?q = "[piece_packet 0 [10, 20], piece_packet 1 [20, 30], piece_packet 3 [40]]"
  have c: "list_all2 (carries ?S 1) [(0, 2), (1, 2), (3, 1)] (network_recv_queue (receiving ?q))"
    by (simp add: receiving_facts piece_carries)
  have v: "\<forall>p \<in> set (network_recv_queue (receiving ?q)). mysock_verify_checksum (receiving ?q) p = Inr True"
    by (simp add: receiving_facts piece_verifies)
  have three: "length [(0, 2), (1, 2), (3 :: nat, 1 :: nat)] = 3" by simp
  show ?thesis
    using short_streams_arrive [OF receiving_facts(1) c v receiving_facts(2), unfolded three]
    by (simp add: receiving_facts)
qed

subsection \<open>From application to application\<close>



subsection \<open>The handshake\<close>

text \<open>
  C30.  Three segments open a connection between two mysockets that face each other: both sides are
  established and their applications go on, each expects the number the other sends
  next, nothing is left to be acknowledged, and the windows are empty and open.
\<close>

theorem handshake_agrees:
  assumes "unopened a" and "unopened b" and "facing a b" and "unat ia < 256" and "unat ib < 256"
  shows "\<exists>s t. open_connection ia ib a b = Inr ((Control_Loop, s), (Control_Loop, t)) \<and>
    opened ia ib s \<and> opened ib ia t \<and> recv_next t = send_next s \<and> recv_next s = send_next t"
  using connection_opens [OF assms] by (auto simp: opened_def)

theorem handshake_agrees_witness:
  "\<exists>s t. open_connection 7 9 left right = Inr ((Control_Loop, s), (Control_Loop, t)) \<and>
     connection_state s = CSTATE_ESTABLISHED \<and> recv_next s = 10 \<and> connection_state t = CSTATE_ESTABLISHED \<and> recv_next t = 8"
proof -
  have "unopened left" "unopened right" "facing left right"
    by (simp_all add: unopened_mysocket) (simp add: facing_def mysocket_def)
  from handshake_agrees [OF this, of 7 9] show ?thesis by (auto simp: opened_def)
qed

subsection \<open>What the loop never does\<close>

text \<open>
  C31.  In every state the main loop is reached in, except while it waits for the acknowledgement of
  the last FIN, a round does not dereference NULL: where something is on its way, its packet
  is in the list, so the time to wait until can be computed.
\<close>

theorem loop_never_null:
  assumes "transport_init active isn s0 = Inr c" and "stcp_reachable c (Control_Loop, s)"
    and "connection_state s \<noteq> CSTATE_LAST_ACK"
  shows "control_round s \<noteq> Inl Null_Pointer"
  using reachable_sound [OF assms(1,2)] assms(3) by (intro covered_no_null) (simp add: sound_loop_def)

lemma left_opens: "\<exists>c s. transport_init True 7 left = Inr c \<and> stcp_reachable c (Control_Loop, s) \<and> opened 7 9 s"
  by (rule opened_reachable [of left right]) (simp_all add: unopened_mysocket, simp add: facing_def mysocket_def)

theorem loop_never_null_witness:
  "\<exists>c s. transport_init True 7 left = Inr c \<and> stcp_reachable c (Control_Loop, s) \<and>
     connection_state s = CSTATE_ESTABLISHED \<and> control_round s \<noteq> Inl Null_Pointer"
proof -
  obtain c s where s: "transport_init True 7 left = Inr c" "stcp_reachable c (Control_Loop, s)" "opened 7 9 s"
    using left_opens by blast
  then have e: "connection_state s = CSTATE_ESTABLISHED" by (simp add: opened_def)
  then have "control_round s \<noteq> Inl Null_Pointer" by (intro loop_never_null [OF s(1,2)]) simp
  then show ?thesis using s e by blast
qed

text \<open>
  C32.  What is on its way after data was sent is within the window of the peer, which is never taken to be more
  than 3072 bytes, and no segment has more than 536 bytes of data.
\<close>

theorem window_is_respected:
  assumes "transport_init active isn s0 = Inr c" and "stcp_reachable c (Control_Loop, s)"
    and "on_app_data s = Inr t" and "send_next t \<noteq> send_next s"
  shows "sint (send_next t - send_unack t) \<le> int (unat (send_wind t)) \<and> unat (send_wind t) \<le> WINLEN \<and>
    length (packet (last (unackd_packets t))) \<le> HEADERSIZE + MAXLEN"
proof -
  have w: "unat (send_wind s) \<le> WINLEN" using reachable_sound [OF assms(1,2)] by (simp add: sound_loop_def)
  from assms(3) show ?thesis
  proof (cases rule: app_data_cases)
    case 1
    then show ?thesis using assms(4) by simp
  next
    case (2 d)
    have "sint (send_next s + of_nat (length d) - send_unack s) \<le> int (unat (send_wind s))"
      using 2(1,2) w by (intro window_kept) (simp_all add: open_window_def)
    then show ?thesis using 2 w by (simp add: unackd_def)
  qed
qed

theorem window_is_respected_witness:
  "\<exists>c s t. stcp_reachable c (Control_Loop, s) \<and> on_app_data s = Inr t \<and> send_next t = 10 \<and>
     sint (send_next t - send_unack t) \<le> 3072"
proof -
  obtain c s where s: "transport_init True 7 left = Inr c" "stcp_reachable c (Control_Loop, s)" "opened 7 9 s"
    using left_opens by blast
  let ?s = "s\<lparr>app_recv_queue := [[72, 105]]\<rparr>"
  have "mywrite [72, 105] s = Inr (2, ?s)" using s(3) by (simp add: mywrite_def opened_def mysock_enqueue_buffer_def)
  then have r: "stcp_reachable c (Control_Loop, ?s)" using s(2) stcp_write stcp_next by blast
  have o: "connected ?s" "is_reliable ?s" "send_ok ?s" "open_window ?s = 3072"
    using s(3) by (simp_all add: opened_def open_window_def connected_def)
  obtain t where t: "on_app_data ?s = Inr t" "send_next t = 10"
    using app_data_sent [OF o(1-3) _ refl, of "[72, 105]" "[]" "segment TH_ACK (send_next ?s) (recv_next ?s) [72, 105]"] o(4) s(3)
    by (simp add: opened_def)
  moreover have "send_next t \<noteq> send_next ?s" using t(2) s(3) by (simp add: opened_def)
  ultimately have "sint (send_next t - send_unack t) \<le> int (unat (send_wind t)) \<and> unat (send_wind t) \<le> WINLEN"
    using window_is_respected [OF s(1) r t(1)] by blast
  then have "sint (send_next t - send_unack t) \<le> 3072" by linarith
  then show ?thesis using r t by blast
qed

subsection \<open>Closing\<close>

text \<open>
  C33.  Every round moves between the states of a connection as \<open>may_move\<close> says, and the loop is left
  only when the connection is closed or a packet was sent again more than seven
  times; it does not go on in a connection that it has closed.
\<close>

theorem rounds_follow_states:
  assumes "control_round s = Inr (stop, t)"
  shows "may_move (connection_state s) (connection_state t) \<and>
    (stop \<longrightarrow> connection_state t = CSTATE_CLOSED \<or> (\<exists>p \<in> set (unackd_packets t). retry_count p > 7)) \<and>
    (\<not> stop \<and> connection_state t = CSTATE_CLOSED \<longrightarrow> connection_state s = CSTATE_CLOSED)"
  using round_moves [OF assms] by blast

theorem rounds_follow_states_witness:
  "\<exists>t. control_round ((established left)\<lparr>close_requested := True\<rparr>) = Inr (False, t) \<and>
     connection_state t = CSTATE_FIN_WAIT1 \<and> may_move CSTATE_ESTABLISHED CSTATE_FIN_WAIT1"
proof -
  let ?s = "(established left)\<lparr>close_requested := True\<rparr>" and ?e = "established left"
  have e: "connected ?e" "is_reliable ?e" "send_ok ?e" "connection_state ?e = CSTATE_ESTABLISHED" "\<not> send_unack ?e < send_next ?e"
    "app_recv_queue ?e = []" "network_recv_queue ?e = []" "?s\<lparr>close_requested := False\<rparr> = ?e"
    by (simp_all add: established_def mysocket_def connected_def)
  have "control_wait ?s = Inr (APP_CLOSE_REQUESTED, ?e)"
    using e by (simp add: control_wait_def stcp_wait_for_event_def)
  moreover obtain t where t: "on_close ?e = Inr t" "connection_state t = CSTATE_FIN_WAIT1"
    using send_arriving [OF e(1-3), of TH_FIN "send_next ?e" "recv_next ?e"] e(4)
    by (simp add: on_close_def send_segment_def Let_def packet_t_create_def)
  ultimately have r: "control_round ?s = Inr (False, t)" by (simp add: control_round_def)
  from rounds_follow_states [OF r] t(2) e(4) show ?thesis using r by auto
qed

text \<open>
  C34.  While the side that closes last waits for the acknowledgement of its FIN, a FIN of the peer that was
  sent again empties the list of packets, and the next round dereferences NULL.
\<close>

theorem late_fin_crashes:
  assumes "connected s" and "connected r" and "facing s r"
    and "connection_state s = CSTATE_LAST_ACK" and "send_unack s < send_next s"
    and "unackd_packets s = [p]" and "seq_num p = send_unack s" and "length (packet p) = HEADERSIZE"
    and "network_recv_queue s = [arriving r TH_FIN seq ack]" and "app_recv_queue s = []" and "\<not> close_requested s"
  shows "rounds 2 s = Inl Null_Pointer"
proof -
  let ?fin = "arriving r TH_FIN seq ack" and ?q = "s\<lparr>network_recv_queue := []\<rparr>"
  define u where "u = read_header ?fin ?q"
  have w: "control_wait s = Inr (NETWORK_DATA, s)"
    using assms(5,6,9-11)
    by (simp add: control_wait_def first_unackd_def stcp_wait_for_event_def Let_def)
  have recv: "recv_packet s = Inr (0, ?fin, u)"
    unfolding u_def using assms(2,3,9) by (intro receive_arriving) (simp_all add: facing_def)
  have f: "\<not> has_flag ?fin TH_ACK" "has_flag ?fin TH_FIN" "acknowledged ?fin ?q = send_unack s"
    by (simp_all add: arriving_fields acknowledged_def)
  have u: "connection_state u = CSTATE_LAST_ACK" "connected u" "unackd_packets u = []"
    "send_unack u = send_unack s" "send_next u = send_next s"
    unfolding u_def using assms(1,4,6,7,8) f acked_exactly [of p "send_unack s" "send_unack s"]
    by (simp_all add: read_header_fields)
  let ?u = "u\<lparr>recv_next := recv_next u + 1, packtosend_set := True\<rparr>"
  have c: "connected ?u" using u(2) by (simp add: connected_def)
  obtain v where v: "send_segment (make_stcp_packet TH_ACK (send_next ?u) (recv_next ?u) 0) ?u = Inr v" "wires ?u v"
    using send_segment_runs [OF c, of "make_stcp_packet TH_ACK (send_next ?u) (recv_next ?u) 0"] by auto
  note vf = wires_fields(4,5,10,11) [OF v(2)]
  have "on_fin u = Inr (False, v)" using v(1) vf u(1) by (simp add: on_fin_def Let_def)
  then have "on_network_data s = Inr (False, v)" using recv f by (simp add: on_network_data_def)
  then have "control_round s = Inr (False, v)" using w by (simp add: control_round_def)
  moreover have "control_round v = Inl Null_Pointer"
    using vf u assms(5) control_wait_null [of v] by (simp add: control_round_def)
  ultimately show ?thesis by (simp add: numeral_2_eq_2)
qed

definition last_ack :: stcp where
  "last_ack = (established left)\<lparr>connection_state := CSTATE_LAST_ACK, send_next := 2,
     unackd_packets := [unackd (established left) (segment TH_FIN 1 1 [])],
     network_recv_queue := [arriving right TH_FIN 1 1]\<rparr>"

theorem late_fin_crashes_witness: "rounds 2 last_ack = Inl Null_Pointer"
  by (rule late_fin_crashes [of _ right "unackd (established left) (segment TH_FIN 1 1 [])" 1 1])
    (simp_all add: last_ack_def established_def mysocket_def connected_def facing_def unackd_def)

text \<open>
  C35.  After a time out every packet of the list is sent again, in order, with the acknowledgement of now;
  its retries are counted, and the loop is left when one of them had been sent again seven times before.
\<close>

theorem timeout_resends:
  assumes "connected s" and "is_reliable s" and "send_ok s" and "\<not> close_requested s"
    and "app_recv_queue s = []" and "network_recv_queue s = []"
    and "send_unack s < send_next s" and "unackd_packets s = p # ps" and "passed (timeout_of p s) s"
    and "\<forall>p \<in> set (unackd_packets s). HEADERSIZE \<le> length (packet p) \<and> length (packet p) \<le> 1500"
  shows "control_round s = Inr (\<exists>p \<in> set (unackd_packets s). retry_count p > 6,
    s\<lparr>wire := wire s @ map (\<lambda>p. stamped s (packet (again s p)) (segment_sum s (packet (again s p)))) (unackd_packets s),
      unackd_packets := map (again s) (unackd_packets s)\<rparr>)"
proof -
  have "control_wait s = Inr (TIMEOUT, s)"
    using assms(4-9) by (simp add: control_wait_def first_unackd_def stcp_wait_for_event_def Let_def)
  moreover have "on_timeout s = Inr (\<exists>p \<in> set (unackd_packets s). retry_count p > 6,
    s\<lparr>wire := wire s @ map (\<lambda>p. stamped s (packet (again s p)) (segment_sum s (packet (again s p)))) (unackd_packets s),
      unackd_packets := map (again s) (unackd_packets s)\<rparr>)"
    using resend_reliable [OF assms(1-3,10)] by (simp add: on_timeout_def)
  ultimately show ?thesis by (simp add: control_round_def)
qed

definition unanswered :: stcp where
  "unanswered = (established left)\<lparr>send_next := 3, clock := (5, 0), recv_next := 4,
     unackd_packets := [unackd (established left) (segment TH_ACK 1 1 [72, 105])]\<rparr>"

theorem timeout_resends_witness:
  "\<exists>t. control_round unanswered = Inr (False, t) \<and> length (wire t) = 1 \<and>
     drop 20 (hd (wire t)) = [72, 105] \<and> th_ack (hd (wire t)) = 4 \<and> th_seq (hd (wire t)) = 1"
proof -
  let ?p = "unackd (established left) (segment TH_ACK 1 1 [72, 105])"
  have e: "unackd_packets unanswered = [?p]" "connected unanswered" "is_reliable unanswered" "send_ok unanswered"
    "\<not> close_requested unanswered" "app_recv_queue unanswered = []" "network_recv_queue unanswered = []"
    "send_unack unanswered < send_next unanswered" "passed (timeout_of ?p unanswered) unanswered" "wire unanswered = []"
    "recv_next unanswered = 4" "packet ?p = segment TH_ACK 1 1 [72, 105]" "retry_count ?p = 0"
    by (simp_all add: unanswered_def established_def mysocket_def connected_def passed_def timeout_of_def unackd_def)
  have "packet (again unanswered ?p) = segment TH_ACK 1 4 [72, 105]"
    using store_ack_segment [of 4 TH_ACK 1 1 "[72, 105]"] e(11,12) by (simp add: again_def store_def)
  then show ?thesis
    using timeout_resends [OF e(2-8,1,9)] e by (simp add: stamped_fields)
qed

end
