(* ===== verification/Stcp_Hash.thy ===== *)
theory Stcp_Hash
  imports Sr_Memory "HOL-Library.Signed_Division"
begin

text \<open>
  The hash tables of \<open>mysock_hash.h\<close>: the functions that \<open>HASH_TABLE_DECLARE\<close> generates, for keys
  of type \<open>mysocket_t\<close> and a table of \<open>MAX_NUM_CONNECTIONS\<close> chains.  A chain is the list of its
  entries.  The locale \<open>finite_map\<close> is what a client of a table relies on; the table is one as
  long as no key is inserted twice.
\<close>

abbreviation (input) MAX_NUM_CONNECTIONS :: nat where "MAX_NUM_CONNECTIONS \<equiv> 64"

type_synonym 'v hash_table = "(int \<times> 'v) list list"

subsection \<open>The functions of the table\<close>

text \<open>
  The index is the remainder of C, of the sign of the key, in an \<open>unsigned int\<close>; a negative one
  fails the assertion.
\<close>

definition hash_index :: "int \<Rightarrow> sr_fault + nat" where
  "hash_index key =
     (let ndx = key smod int MAX_NUM_CONNECTIONS in
      if ndx < 0 then Inl Assertion_Failed else Inr (nat ndx))"

definition hash_get_entry :: "int \<Rightarrow> 'v hash_table \<Rightarrow> sr_fault + 'v option" where
  "hash_get_entry key tbl = and_then (hash_index key) (\<lambda>ndx. Inr (map_of (tbl ! ndx) key))"

definition hash_insert :: "int \<Rightarrow> 'v \<Rightarrow> 'v hash_table \<Rightarrow> sr_fault + 'v hash_table" where
  "hash_insert key data tbl =
     and_then (hash_index key) (\<lambda>ndx. Inr (tbl[ndx := (key, data) # tbl ! ndx]))"

definition hash_lookup :: "int \<Rightarrow> 'v hash_table \<Rightarrow> sr_fault + 'v" where
  "hash_lookup key tbl =
     and_then (hash_get_entry key tbl) (\<lambda>e.
     case e of None \<Rightarrow> Inl Assertion_Failed | Some data \<Rightarrow> Inr data)"

definition hash_lookup_ptr :: "int \<Rightarrow> 'v hash_table \<Rightarrow> sr_fault + 'v option" where
  "hash_lookup_ptr key tbl = hash_get_entry key tbl"

definition hash_entry_exists :: "int \<Rightarrow> 'v hash_table \<Rightarrow> sr_fault + bool" where
  "hash_entry_exists key tbl = and_then (hash_get_entry key tbl) (\<lambda>e. Inr (e \<noteq> None))"

text \<open>The assignment \<open>e->data = data\<close> for the first entry with the key.\<close>

primrec assign_entry :: "int \<Rightarrow> 'v \<Rightarrow> (int \<times> 'v) list \<Rightarrow> (int \<times> 'v) list" where
  "assign_entry key data [] = []"
| "assign_entry key data (e # es) =
     (if fst e = key then (fst e, data) # es else e # assign_entry key data es)"

definition hash_set_entry :: "int \<Rightarrow> 'v \<Rightarrow> 'v hash_table \<Rightarrow> sr_fault + 'v hash_table" where
  "hash_set_entry key data tbl =
     and_then (hash_get_entry key tbl) (\<lambda>e.
     if e \<noteq> None then
       and_then (hash_index key) (\<lambda>ndx. Inr (tbl[ndx := assign_entry key data (tbl ! ndx)]))
     else hash_insert key data tbl)"

text \<open>Only the first entry with the key is taken out; a second one fails the assertion.\<close>

definition hash_delete :: "int \<Rightarrow> 'v hash_table \<Rightarrow> sr_fault + 'v hash_table" where
  "hash_delete key tbl =
     and_then (hash_index key) (\<lambda>ndx.
     let tbl = tbl[ndx := remove_first (\<lambda>e. fst e = key) (tbl ! ndx)] in
     and_then (hash_get_entry key tbl) (\<lambda>e.
     if e \<noteq> None then Inl Assertion_Failed else Inr tbl))"

definition hash_empty :: "'v hash_table" where
  "hash_empty = replicate MAX_NUM_CONNECTIONS []"

subsection \<open>The contract\<close>

text \<open>
  A table that holds at most one value for a key.  \<open>valid\<close> are the keys, \<open>sound\<close> the tables
  the operations make; an insertion is for a key without a value.
\<close>

datatype ('k, 'v) table_op = Insert 'k 'v | Assign 'k 'v | Delete 'k

locale finite_map =
  fixes sound :: "'t \<Rightarrow> bool" and valid :: "'k \<Rightarrow> bool"
    and look :: "'k \<Rightarrow> 't \<Rightarrow> 'e + 'v option"
    and insert_value :: "'k \<Rightarrow> 'v \<Rightarrow> 't \<Rightarrow> 'e + 't"
    and assign_value :: "'k \<Rightarrow> 'v \<Rightarrow> 't \<Rightarrow> 'e + 't"
    and delete_key :: "'k \<Rightarrow> 't \<Rightarrow> 'e + 't"
  assumes look_returns: "sound t \<Longrightarrow> valid k \<Longrightarrow> \<exists>r. look k t = Inr r"
    and insert_law: "sound t \<Longrightarrow> valid k \<Longrightarrow> look k t = Inr None \<Longrightarrow>
      \<exists>t'. insert_value k v t = Inr t' \<and> sound t' \<and>
        (\<forall>j. valid j \<longrightarrow> look j t' = (if j = k then Inr (Some v) else look j t))"
    and assign_law: "sound t \<Longrightarrow> valid k \<Longrightarrow>
      \<exists>t'. assign_value k v t = Inr t' \<and> sound t' \<and>
        (\<forall>j. valid j \<longrightarrow> look j t' = (if j = k then Inr (Some v) else look j t))"
    and delete_law: "sound t \<Longrightarrow> valid k \<Longrightarrow>
      \<exists>t'. delete_key k t = Inr t' \<and> sound t' \<and>
        (\<forall>j. valid j \<longrightarrow> look j t' = (if j = k then Inr None else look j t))"
begin

text \<open>The map a table stands for.\<close>

definition contents :: "'t \<Rightarrow> 'k \<rightharpoonup> 'v" where
  "contents t k = (if valid k then case look k t of Inl e \<Rightarrow> None | Inr r \<Rightarrow> r else None)"

lemma look_contents: "sound t \<Longrightarrow> valid k \<Longrightarrow> look k t = Inr (contents t k)"
  using look_returns [of t k] by (auto simp: contents_def)

lemma insert_contents:
  assumes "sound t" "valid k" "contents t k = None"
  shows "\<exists>t'. insert_value k v t = Inr t' \<and> sound t' \<and> contents t' = (contents t)(k \<mapsto> v)"
proof -
  from insert_law [of t k v] assms look_contents [of t k] obtain t' where
    "insert_value k v t = Inr t'" "sound t'"
    "\<forall>j. valid j \<longrightarrow> look j t' = (if j = k then Inr (Some v) else look j t)" by auto
  then show ?thesis using assms(2) by (intro exI [of _ t']) (auto simp: contents_def)
qed

lemma assign_contents:
  assumes "sound t" "valid k"
  shows "\<exists>t'. assign_value k v t = Inr t' \<and> sound t' \<and> contents t' = (contents t)(k \<mapsto> v)"
  using assign_law [of t k v] assms by (fastforce simp: contents_def)

lemma delete_contents:
  assumes "sound t" "valid k"
  shows "\<exists>t'. delete_key k t = Inr t' \<and> sound t' \<and> contents t' = (contents t)(k := None)"
  using delete_law [of t k] assms by (fastforce simp: contents_def)

text \<open>Sequences of operations against the same sequence on the map.\<close>

fun perform :: "('k, 'v) table_op \<Rightarrow> 't \<Rightarrow> 'e + 't" where
  "perform (Insert k v) t = insert_value k v t"
| "perform (Assign k v) t = assign_value k v t"
| "perform (Delete k) t = delete_key k t"

fun on_map :: "('k, 'v) table_op \<Rightarrow> ('k \<rightharpoonup> 'v) \<Rightarrow> ('k \<rightharpoonup> 'v) option" where
  "on_map (Insert k v) m = (if valid k \<and> m k = None then Some (m(k \<mapsto> v)) else None)"
| "on_map (Assign k v) m = (if valid k then Some (m(k \<mapsto> v)) else None)"
| "on_map (Delete k) m = (if valid k then Some (m(k := None)) else None)"

fun all_on_map :: "('k, 'v) table_op list \<Rightarrow> ('k \<rightharpoonup> 'v) \<Rightarrow> ('k \<rightharpoonup> 'v) option" where
  "all_on_map [] m = Some m"
| "all_on_map (x # xs) m = (case on_map x m of None \<Rightarrow> None | Some m' \<Rightarrow> all_on_map xs m')"

lemma perform_refines:
  assumes "sound t" "on_map x (contents t) = Some m"
  shows "\<exists>t'. perform x t = Inr t' \<and> sound t' \<and> contents t' = m"
  using assms insert_contents assign_contents delete_contents
  by (cases x) (auto split: if_splits)

lemma all_refine:
  "sound t \<Longrightarrow> all_on_map xs (contents t) = Some m \<Longrightarrow>
   \<exists>t'. for_each xs perform t = Inr t' \<and> sound t' \<and> contents t' = m"
proof (induction xs arbitrary: t)
  case (Cons x xs)
  from Cons.prems(2) obtain m' where m': "on_map x (contents t) = Some m'" "all_on_map xs m' = Some m"
    by (auto split: option.splits)
  from perform_refines [OF Cons.prems(1) m'(1)] obtain t' where
    t': "perform x t = Inr t'" "sound t'" "contents t' = m'" by blast
  with Cons.IH [of t'] m'(2) show ?case by simp
qed simp

end

subsection \<open>The table keeps the contract\<close>

definition hash_sound :: "'v hash_table \<Rightarrow> bool" where
  "hash_sound tbl \<longleftrightarrow> length tbl = MAX_NUM_CONNECTIONS \<and>
     (\<forall>ndx < MAX_NUM_CONNECTIONS. distinct (map fst (tbl ! ndx)))"

lemma hash_index_valid: "0 \<le> key \<Longrightarrow> hash_index key = Inr (nat (key mod 64))"
  using smod_mod_positive [of key 64] by (simp add: hash_index_def Let_def)

lemma hash_index_bound: "hash_index key = Inr ndx \<Longrightarrow> ndx < MAX_NUM_CONNECTIONS"
proof -
  have "key smod 64 < 64" using smod_int_range [of 64 key] by simp
  then show "hash_index key = Inr ndx \<Longrightarrow> ndx < MAX_NUM_CONNECTIONS"
    by (auto simp: hash_index_def Let_def split: if_splits)
qed

lemma map_of_assign_entry:
  "map_of (assign_entry k v es) j = (if j = k \<and> map_of es k \<noteq> None then Some v else map_of es j)"
  by (induction es) auto

lemma keys_assign_entry [simp]: "map fst (assign_entry k v es) = map fst es"
  by (induction es) auto

lemma keys_remove_first: "set (map fst (remove_first P es)) \<subseteq> set (map fst es)"
  by (induction es) auto

lemma distinct_remove_first: "distinct (map fst es) \<Longrightarrow> distinct (map fst (remove_first P es))"
proof (induction es)
  case (Cons e es)
  then show ?case using keys_remove_first [of P es] by auto
qed simp

lemma map_of_remove_first:
  "distinct (map fst es) \<Longrightarrow>
   map_of (remove_first (\<lambda>e. fst e = k) es) j = (if j = k then None else map_of es j)"
proof (induction es)
  case (Cons e es)
  then have "fst e = k \<Longrightarrow> map_of es k = None" by (auto simp: map_of_eq_None_iff)
  with Cons show ?case by (cases e) auto
qed simp

text \<open>A change of one chain.\<close>

lemma chain_update:
  assumes "hash_sound tbl" "hash_index k = Inr ndx" "distinct (map fst es)"
    and "\<And>j. j \<noteq> k \<Longrightarrow> map_of es j = map_of (tbl ! ndx) j"
  shows "hash_sound (tbl[ndx := es])"
    and "hash_get_entry j (tbl[ndx := es]) = (if j = k then Inr (map_of es k) else hash_get_entry j tbl)"
proof -
  have b: "ndx < 64" using hash_index_bound [OF assms(2)] .
  show "hash_sound (tbl[ndx := es])"
    using assms(1,3) by (metis hash_sound_def length_list_update nth_list_update_eq nth_list_update_neq)
  show "hash_get_entry j (tbl[ndx := es]) = (if j = k then Inr (map_of es k) else hash_get_entry j tbl)"
    using assms b by (cases "hash_index j") (auto simp: hash_get_entry_def hash_sound_def nth_list_update)
qed

interpretation table: finite_map hash_sound "\<lambda>key. 0 \<le> key" hash_get_entry hash_insert
  hash_set_entry hash_delete
proof
  fix t :: "'v hash_table" and k :: int and v :: 'v
  assume t: "hash_sound t" and k: "0 \<le> k"
  define ndx where "ndx = nat (k mod 64)"
  have i: "hash_index k = Inr ndx" unfolding ndx_def by (rule hash_index_valid [OF k])
  have b: "ndx < 64" using hash_index_bound [OF i] .
  have d: "distinct (map fst (t ! ndx))" using t b by (simp add: hash_sound_def)
  show "\<exists>r. hash_get_entry k t = Inr r" by (simp add: hash_get_entry_def i)
  show ins: "\<exists>t'. hash_insert k v t = Inr t' \<and> hash_sound t' \<and>
      (\<forall>j. 0 \<le> j \<longrightarrow> hash_get_entry j t' = (if j = k then Inr (Some v) else hash_get_entry j t))"
    if "hash_get_entry k t = Inr None"
  proof -
    from that have "map_of (t ! ndx) k = None" by (simp add: hash_get_entry_def i)
    then have "distinct (map fst ((k, v) # t ! ndx))" using d by (simp add: map_of_eq_None_iff)
    note c = chain_update [OF t i this]
    show ?thesis using c by (simp add: hash_insert_def i)
  qed
  show "\<exists>t'. hash_set_entry k v t = Inr t' \<and> hash_sound t' \<and>
      (\<forall>j. 0 \<le> j \<longrightarrow> hash_get_entry j t' = (if j = k then Inr (Some v) else hash_get_entry j t))"
  proof (cases "map_of (t ! ndx) k")
    case None
    then show ?thesis using ins by (simp add: hash_set_entry_def hash_get_entry_def i)
  next
    case (Some u)
    have c: "hash_sound (t[ndx := assign_entry k v (t ! ndx)])"
      "hash_get_entry j (t[ndx := assign_entry k v (t ! ndx)]) =
        (if j = k then Inr (Some v) else hash_get_entry j t)" for j
      using chain_update [OF t i, of "assign_entry k v (t ! ndx)"] d Some
      by (simp_all add: map_of_assign_entry)
    have "hash_set_entry k v t = Inr (t[ndx := assign_entry k v (t ! ndx)])"
      using Some by (simp add: hash_set_entry_def hash_get_entry_def i)
    then show ?thesis using c by blast
  qed
  show "\<exists>t'. hash_delete k t = Inr t' \<and> hash_sound t' \<and>
      (\<forall>j. 0 \<le> j \<longrightarrow> hash_get_entry j t' = (if j = k then Inr None else hash_get_entry j t))"
  proof -
    have c: "hash_sound (t[ndx := remove_first (\<lambda>e. fst e = k) (t ! ndx)])"
      "hash_get_entry j (t[ndx := remove_first (\<lambda>e. fst e = k) (t ! ndx)]) =
        (if j = k then Inr None else hash_get_entry j t)" for j
      using chain_update [OF t i, of "remove_first (\<lambda>e. fst e = k) (t ! ndx)"] d
      by (simp_all add: map_of_remove_first distinct_remove_first)
    show ?thesis using c by (simp add: hash_delete_def i)
  qed
qed

lemma hash_empty_sound [simp]: "hash_sound hash_empty"
  by (simp add: hash_sound_def hash_empty_def)

lemma hash_empty_contents [simp]: "table.contents hash_empty = Map.empty"
proof
  fix k show "table.contents hash_empty k = None"
    using hash_index_bound [of k]
    by (cases "hash_index k") (auto simp: table.contents_def hash_get_entry_def hash_empty_def)
qed

end
