(* ===== verification/Stcp_Network.thy ===== *)
theory Stcp_Network
  imports Stcp_Control
begin

text \<open>
  The network under a mysocket: the context of a mysocket as the mysocket layer sees it
  (\<open>mysock_impl.h\<close>, \<open>network_io.h\<close>, \<open>network_io_socket.h\<close>) and the datagrams over TCP of
  \<open>network_io_tcp.c\<close>, each with its length in front.  The answers of the socket library are
  arguments.
\<close>

subsection \<open>Addresses\<close>

text \<open>A \<open>struct sockaddr\<close> of sixteen bytes, read as a \<open>struct sockaddr_in\<close>.\<close>

type_synonym sockaddr = "byte list"

abbreviation (input) sockaddr_size :: nat where "sockaddr_size \<equiv> 16"
abbreviation (input) MAX_IP_PAYLOAD_LEN :: nat where "MAX_IP_PAYLOAD_LEN \<equiv> 1500"
abbreviation (input) AF_INET :: "16 word" where "AF_INET \<equiv> 2"

definition sa_family :: "sockaddr \<Rightarrow> 16 word" where
  "sa_family a = word16 (take 2 a)"

definition sin_port :: "sockaddr \<Rightarrow> 16 word" where
  "sin_port a = word16 (take 2 (drop 2 a))"

definition sin_addr :: "sockaddr \<Rightarrow> 32 word" where
  "sin_addr a = word32 (take 4 (drop 4 a))"

definition null_sockaddr :: sockaddr where
  "null_sockaddr = replicate sockaddr_size 0"

subsection \<open>The context of a mysocket\<close>

text \<open>
  \<open>conn\<close> has the queues and the connection of the transport layer, \<open>thread\<close> where its thread is
  (\<open>None\<close> before it runs).  \<open>socket_fd\<close>, \<open>new_socket\<close>, \<open>connected\<close>, \<open>connect_locked\<close> and the flag of the
  receive thread are the state behind \<open>impl_data\<close>.
\<close>

record sock_context =
  conn :: stcp
  is_active :: bool
  bound :: bool
  my_sd :: int
  listen_sd :: int
  stcp_errno :: int
  thread_started :: bool
  thread :: "phase option"
  local_sockaddr :: sockaddr
  peer_sockaddr :: sockaddr
  peer_addr_len :: nat
  peer_addr_valid :: bool
  socket_fd :: int
  recv_thread_started :: bool
  recv_thread_over :: bool
  new_socket :: int
  connected :: bool
  connect_locked :: bool

abbreviation is_listening :: "sock_context \<Rightarrow> bool" where
  "is_listening c \<equiv> listening (conn c)"

subsection \<open>Reading and writing all of a buffer\<close>

text \<open>
  \<open>_tcp_io\<close> with \<open>read\<close>: the stream is the list of what each call of \<open>read\<close> would find, at its end
  \<open>read\<close> returns \<open>e\<close>, which is not positive.
\<close>

fun tcp_read :: "int \<Rightarrow> nat \<Rightarrow> byte list list \<Rightarrow> int + byte list \<times> byte list list" where
  "tcp_read e n [] = (if n = 0 then Inr ([], []) else Inl e)"
| "tcp_read e n (seg # segs) =
     (if n = 0 then Inr ([], seg # segs)
      else if seg = [] then Inl 0
      else if length seg \<le> n then
        and_then (tcp_read e (n - length seg) segs) (\<lambda>(bs, rest). Inr (seg @ bs, rest))
      else Inr (take n seg, drop n seg # segs))"

text \<open>\<open>_tcp_io\<close> with \<open>write\<close>, whose results are given: the value returned and the bytes that left.\<close>

fun tcp_write :: "int list \<Rightarrow> nat \<Rightarrow> byte list \<Rightarrow> sr_fault + int \<times> byte list" where
  "tcp_write rcs count [] = Inr (int count, [])"
| "tcp_write [] count bs = Inl Would_Block"
| "tcp_write (rc # rcs) count bs =
     (if rc \<le> 0 then Inr (rc, [])
      else if rc > int (length bs) then Inl Assertion_Failed
      else
        and_then (tcp_write rcs count (drop (nat rc) bs)) (\<lambda>(r, out).
        Inr (r, take (nat rc) bs @ out)))"

subsection \<open>The connection under a mysocket\<close>

text \<open>The mutex stays locked when \<open>connect\<close> fails.\<close>

definition tcp_connect :: "bool \<Rightarrow> sock_context \<Rightarrow> sr_fault + int \<times> sock_context" where
  "tcp_connect ok c =
     (if connect_locked c then Inl Would_Block
      else if connected c then Inr (0, c)
      else if \<not> peer_addr_valid c \<or> sa_family (peer_sockaddr c) \<noteq> AF_INET \<or> sin_port (peer_sockaddr c) = 0 then
        Inl Assertion_Failed
      else if \<not> ok then Inr (-1, c\<lparr>connect_locked := True\<rparr>)
      else Inr (0, c\<lparr>connected := True\<rparr>))"

text \<open>
  A packet leaves with its length in front, in network order.  The result is the value returned,
  the bytes written and the context.
\<close>

definition tcp_send_packet ::
  "bool \<Rightarrow> int list \<Rightarrow> int list \<Rightarrow> byte list \<Rightarrow> sock_context \<Rightarrow> sr_fault + int \<times> byte list \<times> sock_context" where
  "tcp_send_packet ok rcs rcs' src c =
     (if peer_addr_len c = 0 \<or> socket_fd c < 0 then Inl Assertion_Failed
      else
        and_then (tcp_connect ok c) (\<lambda>(rc, c).
        if rc < 0 then Inr (-1, [], c)
        else
          and_then (tcp_write rcs 2 (bytes16 (htons (of_nat (length src))))) (\<lambda>(rc, bs).
          if rc < 0 then Inr (-1, bs, c)
          else
            and_then (tcp_write rcs' (length src) src) (\<lambda>(rc, bs').
            Inr (if rc < 0 then -1 else int (length src), bs @ bs', c)))))"

text \<open>The length of the packet is returned, also where it is longer than the buffer.\<close>

definition read_packet :: "int \<Rightarrow> nat \<Rightarrow> byte list list \<Rightarrow> int \<times> byte list \<times> byte list list" where
  "read_packet e max_len stream =
     (case tcp_read e 2 stream of
        Inl rc \<Rightarrow> (rc, [], stream)
      | Inr (h, stream) \<Rightarrow>
          let packet_len = unat (ntohs (word16 h)) in
          if packet_len = 0 then (0, [], stream)
          else
            case tcp_read e (min packet_len max_len) stream of
              Inl rc \<Rightarrow> (rc, [], stream)
            | Inr (bs, stream) \<Rightarrow>
                (int packet_len, bs,
                 if packet_len > max_len then
                   case tcp_read e (packet_len - max_len) stream of Inl rc \<Rightarrow> [] | Inr (_, stream) \<Rightarrow> stream
                 else stream))"

text \<open>
  \<open>accepted\<close> is the result of \<open>accept\<close>, the new socket and the address of the peer, if it does not fail;
  \<open>stream\<close> what can be read from the socket of the mysocket, or from the new one.
\<close>

definition network_recv_packet ::
  "bool \<Rightarrow> (int \<times> sockaddr) option \<Rightarrow> int \<Rightarrow> nat \<Rightarrow> byte list list \<Rightarrow> sock_context \<Rightarrow>
   sr_fault + int \<times> byte list \<times> byte list list \<times> sock_context" where
  "network_recv_packet ok accepted e max_len stream c =
     (if socket_fd c < 0 then Inl Assertion_Failed
      else
        and_then (if is_active c then tcp_connect ok c else Inr (0, c)) (\<lambda>(rc, c).
        if rc < 0 then Inr (-1, [], stream, c)
        else
          and_then
            (if is_listening c then
               let c = c\<lparr>peer_addr_len := sockaddr_size\<rparr> in
               case accepted of
                 None \<Rightarrow> Inr (False, c)
               | Some (fd, addr) \<Rightarrow>
                   if new_socket c \<noteq> -1 then Inl Assertion_Failed
                   else Inr (True, c\<lparr>peer_sockaddr := addr, new_socket := fd\<rparr>)
             else Inr (True, c)) (\<lambda>(ready, c).
          if \<not> ready then Inr (-1, [], stream, c)
          else
            let (rc, bs, stream) = read_packet e max_len stream in
            Inr (rc, bs, stream, c))))"

subsection \<open>The other calls of the socket library\<close>

definition network_start_recv_thread :: "sock_context \<Rightarrow> sock_context" where
  "network_start_recv_thread c = c\<lparr>recv_thread_started := True, recv_thread_over := False\<rparr>"

text \<open>
  The receive thread ends at the next \<open>poll\<close>, but not while it waits for the lock in \<open>_tcp_connect\<close>
  or in \<open>read\<close>; \<open>woken\<close> says that it is at \<open>poll\<close>.
\<close>

definition network_stop_recv_thread :: "bool \<Rightarrow> sock_context \<Rightarrow> sr_fault + sock_context" where
  "network_stop_recv_thread woken c =
     (if recv_thread_started c then
        if recv_thread_over c \<or> woken then Inr (c\<lparr>recv_thread_started := False\<rparr>) else Inl Would_Block
      else Inr c)"

text \<open>
  The socket that was accepted goes to the new context, whose own is closed; the descriptor to
  close is returned.
\<close>

definition network_update_passive_state ::
  "sock_context \<Rightarrow> sock_context \<Rightarrow> sr_fault + int \<times> sock_context \<times> sock_context" where
  "network_update_passive_state new acc =
     (if is_listening new \<or> is_active new then Inl Assertion_Failed
      else Inr (socket_fd new, new\<lparr>socket_fd := new_socket acc, connected := True\<rparr>, acc\<lparr>new_socket := -1\<rparr>))"

text \<open>The descriptors that are closed with a context, the pipe left out.\<close>

definition network_close :: "sock_context \<Rightarrow> int list" where
  "network_close c =
     (if new_socket c \<noteq> -1 then [new_socket c] else []) @ (if socket_fd c \<ge> 0 then [socket_fd c] else [])"

subsection \<open>Datagrams come back\<close>

definition nonempty_reads :: "byte list list \<Rightarrow> bool" where
  "nonempty_reads stream \<longleftrightarrow> [] \<notin> set stream"

lemma tcp_read_all:
  assumes "nonempty_reads stream" "n \<le> length (concat stream)"
  shows "\<exists>rest. tcp_read e n stream = Inr (take n (concat stream), rest) \<and>
    concat rest = drop n (concat stream) \<and> nonempty_reads rest"
  using assms
proof (induction e n stream rule: tcp_read.induct)
  case (2 e n seg segs)
  show ?case
  proof (cases "n \<noteq> 0 \<and> length seg \<le> n")
    case True
    moreover have "seg \<noteq> []" "nonempty_reads segs" using 2(2) by (auto simp: nonempty_reads_def)
    ultimately show ?thesis using 2 by fastforce
  next
    case False
    with 2(2) show ?thesis by (auto simp: nonempty_reads_def)
  qed
qed (auto simp: nonempty_reads_def)

lemma tcp_write_all:
  "tcp_write rcs n bs = Inr (r, out) \<Longrightarrow> r = int n \<and> out = bs \<or> r \<le> 0 \<and> r \<in> set rcs"
proof (induction rcs n bs arbitrary: r out rule: tcp_write.induct)
  case (3 rc rcs n b bs)
  show ?case
  proof (cases "rc \<le> 0")
    case False
    with 3(2) obtain o' where o': "rc \<le> int (length (b # bs))"
      "tcp_write rcs n (drop (nat rc) (b # bs)) = Inr (r, o')" "out = take (nat rc) (b # bs) @ o'"
      by (auto simp: and_then_eq_Inr simp del: take_Suc_Cons drop_Suc_Cons split: if_splits)
    from 3(1) [OF False _ o'(2)] o'(1,3) show ?thesis by (auto simp del: length_Cons)
  qed (use 3(2) in auto)
qed auto

definition datagram_frame :: "byte list \<Rightarrow> byte list" where
  "datagram_frame p = bytes16 (htons (of_nat (length p))) @ p"

lemma tcp_send_packet_frame:
  assumes "tcp_send_packet ok rcs rcs' p c = Inr (r, out, c')" "0 \<notin> set rcs \<union> set rcs'" "0 \<le> r"
  shows "r = int (length p) \<and> out = datagram_frame p"
  using assms
  by (auto simp: tcp_send_packet_def and_then_eq_Inr datagram_frame_def split: if_splits
      dest!: tcp_write_all)

lemma read_packet_frame:
  assumes "nonempty_reads stream" "concat stream = datagram_frame p @ bs"
    and p: "0 < length p" "length p \<le> m" "length p < 65536"
  shows "\<exists>rest. read_packet e m stream = (int (length p), p, rest) \<and> concat rest = bs \<and> nonempty_reads rest"
proof -
  let ?h = "bytes16 (htons (of_nat (length p)))"
  from tcp_read_all [OF assms(1), of 2 e] assms(2) obtain s1 where
    s1: "tcp_read e 2 stream = Inr (?h, s1)" "concat s1 = p @ bs" "nonempty_reads s1"
    by (auto simp: datagram_frame_def)
  from tcp_read_all [OF s1(3), of "length p" e] s1(2) obtain s2 where
    s2: "tcp_read e (length p) s1 = Inr (p, s2)" "concat s2 = bs" "nonempty_reads s2" by auto
  have n: "unat (of_nat (length p) :: 16 word) = length p"
    using p(3) by (simp add: unat_of_nat take_bit_nat_eq_self)
  have "min (length p) m = length p" using p(2) by simp
  with s1 s2 p n show ?thesis by (auto simp: read_packet_def Let_def)
qed

text \<open>A context that sends or receives on its own socket.\<close>

definition on_line :: "sock_context \<Rightarrow> bool" where
  "on_line c \<longleftrightarrow> 0 \<le> socket_fd c \<and> \<not> is_listening c \<and> connected c \<and> \<not> connect_locked c"

lemma network_recv_packet_on_line:
  "on_line c \<Longrightarrow> network_recv_packet ok acc e m stream c =
     Inr (let (rc, bs, stream) = read_packet e m stream in (rc, bs, stream, c))"
  by (simp add: on_line_def network_recv_packet_def tcp_connect_def split: prod.splits)

text \<open>The packets of several sends, with the results of the writes, and of several receives.\<close>

primrec send_packets ::
  "(int list \<times> int list \<times> byte list) list \<Rightarrow> sock_context \<Rightarrow> sr_fault + int list \<times> byte list \<times> sock_context" where
  "send_packets [] c = Inr ([], [], c)"
| "send_packets (x # xs) c =
     (let (rcs, rcs', p) = x in
      and_then (tcp_send_packet True rcs rcs' p c) (\<lambda>(r, out, c).
      and_then (send_packets xs c) (\<lambda>(rs, outs, c). Inr (r # rs, out @ outs, c))))"

primrec recv_packets ::
  "int \<Rightarrow> nat \<Rightarrow> byte list list \<Rightarrow> sock_context \<Rightarrow> sr_fault + byte list list \<times> byte list list \<times> sock_context" where
  "recv_packets e 0 stream c = Inr ([], stream, c)"
| "recv_packets e (Suc n) stream c =
     and_then (network_recv_packet True None e 1500 stream c) (\<lambda>(rc, bs, stream, c).
     if rc \<le> 0 then Inr ([], stream, c)
     else and_then (recv_packets e n stream c) (\<lambda>(ps, stream, c). Inr (bs # ps, stream, c)))"

lemma send_packets_frames:
  "send_packets xs c = Inr (rs, out, c') \<Longrightarrow> \<forall>r \<in> set rs. 0 \<le> r \<Longrightarrow>
   \<forall>(ws, ws', p) \<in> set xs. 0 \<notin> set ws \<union> set ws' \<Longrightarrow>
   out = concat (map (\<lambda>(ws, ws', p). datagram_frame p) xs)"
proof (induction xs arbitrary: c rs out)
  case (Cons x xs)
  obtain ws ws' p where x: "x = (ws, ws', p)" by (cases x)
  from Cons.prems(1) obtain r o1 c1 rs' o2 where
    r: "tcp_send_packet True ws ws' p c = Inr (r, o1, c1)" "send_packets xs c1 = Inr (rs', o2, c')"
    "rs = r # rs'" "out = o1 @ o2"
    by (auto simp: x and_then_eq_Inr)
  from tcp_send_packet_frame [OF r(1)] Cons.prems(2,3) r(3) have "o1 = datagram_frame p" by (auto simp: x)
  moreover from Cons.IH [OF r(2)] Cons.prems(2,3) r(3)
  have "o2 = concat (map (\<lambda>(ws, ws', p). datagram_frame p) xs)" by simp
  ultimately show ?case by (simp add: x r(4))
qed simp

lemma recv_packets_frames:
  "on_line c \<Longrightarrow> nonempty_reads stream \<Longrightarrow> concat stream = concat (map datagram_frame ps) \<Longrightarrow>
   \<forall>p \<in> set ps. 0 < length p \<and> length p \<le> 1500 \<Longrightarrow>
   recv_packets e (length ps) stream c = Inr (ps, [], c)"
proof (induction ps arbitrary: stream)
  case Nil
  then show ?case by (cases stream) (auto simp: nonempty_reads_def)
next
  case (Cons p ps)
  from read_packet_frame [of stream p "concat (map datagram_frame ps)" 1500 e] Cons.prems obtain rest where
    rest: "read_packet e 1500 stream = (int (length p), p, rest)"
      "concat rest = concat (map datagram_frame ps)" "nonempty_reads rest" by auto
  have "recv_packets e (length ps) rest c = Inr (ps, [], c)"
    using Cons.IH [OF Cons.prems(1) rest(3,2)] Cons.prems(4) by simp
  with Cons.prems rest(1) show ?case by (simp add: network_recv_packet_on_line)
qed

end
