(* ===== verification/Stcp_Process.thy ===== *)
theory Stcp_Process
  imports Stcp_Hash Stcp_Network
begin

text \<open>
  The mysockets of a process: the descriptor table of \<open>mysock.c\<close> and the queues of connection
  requests of \<open>connection_demux.c\<close>.  A function is one step, as it is when the threads take turns; one
  that waits for another thread gives \<open>Would_Block\<close>.  The locks of the program do not enforce this:
  arrivals, completions and \<open>myaccept\<close> hold \<open>listen_lock\<close> only for reading, and \<open>connection_lock\<close> not at all or
  not around the counter, so two of them can overlap.  \<open>Stcp_Races\<close> shows what is lost then.
\<close>

subsection \<open>The state\<close>

text \<open>
  \<open>user_data\<close> is NULL on this network layer and left out.  A completed entry points into the array
  of requests: \<open>(array, k)\<close> is the element \<open>k\<close> of the array at the address \<open>array\<close>.
\<close>

record connect_request =
  req_peer :: sockaddr
  req_peer_len :: nat
  req_sd :: int

record listen_queue =
  queue_port :: "16 word"
  max_len :: "32 word"
  cur_len :: "32 word"
  array_at :: nat
  connection_queue :: "connect_request list"
  completed_queue :: "(nat \<times> nat) list"

text \<open>
  \<open>errno\<close> is that of the application.  The environment: \<open>closed_fds\<close> is the log of \<open>close\<close>, \<open>port_of\<close>
  the port of a socket in network order, \<open>host_ip\<close> the address of the host, \<open>template\<close> the part of a
  new connection that belongs to the environment (the clock, the random generator) and the
  static variables, \<open>next_array\<close> the next address of \<open>realloc\<close>.
\<close>

record process =
  global_ctx :: "sock_context option list"
  listen_table :: "listen_queue hash_table"
  errno :: int
  closed_fds :: "int list"
  port_of :: "int \<Rightarrow> 16 word"
  host_ip :: "32 word"
  template :: stcp
  next_array :: nat

abbreviation (input) EINTR :: int where "EINTR \<equiv> 4"
abbreviation (input) EINVAL :: int where "EINVAL \<equiv> 22"
abbreviation (input) EMFILE :: int where "EMFILE \<equiv> 24"
abbreviation (input) EADDRNOTAVAIL :: int where "EADDRNOTAVAIL \<equiv> 99"
abbreviation (input) ECONNABORTED :: int where "ECONNABORTED \<equiv> 103"
abbreviation (input) EISCONN :: int where "EISCONN \<equiv> 106"
abbreviation (input) ENOTCONN :: int where "ENOTCONN \<equiv> 107"
abbreviation (input) ECONNREFUSED :: int where "ECONNREFUSED \<equiv> 111"

subsection \<open>Contexts\<close>

definition put_context :: "sock_context \<Rightarrow> process \<Rightarrow> process" where
  "put_context c p = p\<lparr>global_ctx := (global_ctx p)[nat (my_sd c) := Some c]\<rparr>"

text \<open>The checks of \<open>verify_mysocket_descriptor\<close> come first.\<close>

definition mysock_get_context :: "int \<Rightarrow> process \<Rightarrow> sr_fault + sock_context" where
  "mysock_get_context sd p =
     (if sd < 0 \<or> sd \<ge> int MAX_NUM_CONNECTIONS then Inl Assertion_Failed
      else
        case global_ctx p ! nat sd of
          None \<Rightarrow> Inl Assertion_Failed
        | Some c \<Rightarrow> if my_sd c \<noteq> sd then Inl Assertion_Failed else Inr c)"

definition fresh_connection :: "bool \<Rightarrow> stcp \<Rightarrow> stcp" where
  "fresh_connection reliable s = s\<lparr>network_recv_queue := [], app_send_queue := [], app_recv_queue := [],
     close_requested := False, eof := False, blocking := True, listening := False, is_reliable := reliable,
     local_addr := 0, local_port := 0, peer_addr := 0, peer_port := 0, random_seed := 0x632a,
     copied := False, copy_buffer := [], wire := []\<rparr>"

text \<open>\<open>fd\<close> is the result of \<open>socket\<close>.\<close>

definition mysock_allocate_context :: "int \<Rightarrow> bool \<Rightarrow> process \<Rightarrow> sr_fault + sock_context" where
  "mysock_allocate_context fd reliable p =
     (if fd < 0 then Inl Assertion_Failed
      else Inr \<lparr>conn = fresh_connection reliable (template p), is_active = False, bound = False, my_sd = 0,
        listen_sd = -1, stcp_errno = 0, thread_started = False, thread = None,
        local_sockaddr = null_sockaddr, peer_sockaddr = null_sockaddr, peer_addr_len = 0,
        peer_addr_valid = False, socket_fd = fd, recv_thread_started = False, recv_thread_over = False,
        new_socket = -1, connected = False, connect_locked = False\<rparr>)"

text \<open>\<open>registered\<close> says that the context is the one in its place in the table.\<close>

definition mysock_free_context :: "bool \<Rightarrow> sock_context \<Rightarrow> process \<Rightarrow> process" where
  "mysock_free_context registered c p =
     (let p = p\<lparr>closed_fds := closed_fds p @ network_close c\<rparr> in
      if registered then p\<lparr>global_ctx := (global_ctx p)[nat (my_sd c) := None]\<rparr> else p)"

definition mysock_new_mysocket :: "int \<Rightarrow> bool \<Rightarrow> process \<Rightarrow> sr_fault + int \<times> process" where
  "mysock_new_mysocket fd reliable p =
     and_then (mysock_allocate_context fd reliable p) (\<lambda>c.
     case List.find (\<lambda>k. global_ctx p ! k = None) [0..<MAX_NUM_CONNECTIONS] of
       Some k \<Rightarrow> Inr (int k, put_context (c\<lparr>my_sd := int k\<rparr>) p)
     | None \<Rightarrow> Inr (-1, (mysock_free_context False c p)\<lparr>errno := EMFILE\<rparr>))"

definition mysock_transport_init :: "int \<Rightarrow> bool \<Rightarrow> process \<Rightarrow> sr_fault + process" where
  "mysock_transport_init sd active p =
     and_then (mysock_get_context sd p) (\<lambda>c.
     if is_listening c then Inl Assertion_Failed
     else Inr (put_context ((network_start_recv_thread (c\<lparr>is_active := active\<rparr>))\<lparr>thread_started := True\<rparr>) p))"

text \<open>\<open>c\<close> is the context before the wait.\<close>

definition mysock_wait_for_connection :: "sock_context \<Rightarrow> process \<Rightarrow> sr_fault + int \<times> process" where
  "mysock_wait_for_connection c p =
     (if blocking (conn c) then Inl Would_Block
      else Inr (if stcp_errno c \<noteq> 0 then -1 else 0, p\<lparr>errno := stcp_errno c\<rparr>))"

definition mysock_bind_ephemeral :: "int \<Rightarrow> sock_context \<Rightarrow> sr_fault + sock_context" where
  "mysock_bind_ephemeral rc c =
     (if bound c \<or> socket_fd c < 0 \<or> rc < 0 then Inl Assertion_Failed else Inr (c\<lparr>bound := True\<rparr>))"

subsection \<open>Queues of requests\<close>

definition INVALIDATE_CONNECT_REQUEST :: connect_request where
  "INVALIDATE_CONNECT_REQUEST = \<lparr>req_peer = null_sockaddr, req_peer_len = 0, req_sd = -1\<rparr>"

definition get_connection_queue :: "sock_context \<Rightarrow> process \<Rightarrow> sr_fault + listen_queue option" where
  "get_connection_queue c p =
     (if \<not> is_listening c \<or> \<not> bound c then Inl Assertion_Failed
      else hash_lookup_ptr (my_sd c) (listen_table p))"

text \<open>An assignment through the pointer to a queue that is in the table.\<close>

definition put_queue :: "int \<Rightarrow> listen_queue \<Rightarrow> process \<Rightarrow> sr_fault + process" where
  "put_queue sd q p =
     and_then (hash_set_entry sd q (listen_table p)) (\<lambda>t. Inr (p\<lparr>listen_table := t\<rparr>))"

definition mysock_dequeue_connection ::
  "sock_context \<Rightarrow> process \<Rightarrow> sr_fault + sock_context \<times> process" where
  "mysock_dequeue_connection c p =
     and_then (get_connection_queue c p) (\<lambda>q.
     case q of
       None \<Rightarrow> Inl Assertion_Failed
     | Some q \<Rightarrow>
         (case completed_queue q of
            [] \<Rightarrow> Inl Would_Block
          | (array, k) # rest \<Rightarrow>
              if array \<noteq> array_at q then Inl Use_After_Free
              else
                and_then (mysock_get_context (req_sd (connection_queue q ! k)) p) (\<lambda>new.
                if cur_len q = 0 then Inl Assertion_Failed
                else
                  and_then (put_queue (my_sd c)
                    (q\<lparr>completed_queue := rest, cur_len := cur_len q - 1,
                       connection_queue := (connection_queue q)[k := INVALIDATE_CONNECT_REQUEST]\<rparr>) p) (\<lambda>p.
                  Inr (new, p)))))"

text \<open>Whether a request from the same address is in the queue.\<close>

fun is_queued :: "sockaddr \<Rightarrow> nat \<Rightarrow> connect_request list \<Rightarrow> sr_fault + bool" where
  "is_queued addr len [] = Inr False"
| "is_queued addr len (r # rs) =
     (if req_sd r \<noteq> -1 \<and> len \<noteq> req_peer_len r then Inl Assertion_Failed
      else if take len (req_peer r) = take len addr then Inr True
      else is_queued addr len rs)"

text \<open>The place for a new request, if there is one.\<close>

definition queue_slot :: "listen_queue \<Rightarrow> sr_fault + nat option" where
  "queue_slot q =
     (if cur_len q < max_len q then
        case List.find (\<lambda>k. req_sd (connection_queue q ! k) < 0) [0..<unat (max_len q)] of
          None \<Rightarrow> Inl Assertion_Failed
        | Some k \<Rightarrow> Inr (Some k)
      else Inr None)"

text \<open>
  The new mysocket is set up: the address of the peer, the socket that was accepted, its threads and
  the SYN in its queue.  The fields of \<open>conn\<close> are what \<open>network_get_local_addr\<close> and the like read from
  the address and the socket.
\<close>

definition establish ::
  "sock_context \<Rightarrow> byte list \<Rightarrow> sockaddr \<Rightarrow> nat \<Rightarrow> int \<Rightarrow> process \<Rightarrow> sr_fault + process" where
  "establish c syn addr len sd p =
     and_then (mysock_get_context sd p) (\<lambda>new.
     let new = new\<lparr>listen_sd := my_sd c, peer_sockaddr := addr, peer_addr_len := len, peer_addr_valid := True\<rparr> in
     and_then (network_update_passive_state new c) (\<lambda>(fd, new, c).
     let new = new\<lparr>conn := (conn new)\<lparr>local_addr := host_ip p, local_port := port_of p (socket_fd new),
           peer_addr := sin_addr addr, peer_port := sin_port addr\<rparr>\<rparr>;
         p = put_context new (put_context c (p\<lparr>closed_fds := closed_fds p @ [fd]\<rparr>)) in
     and_then (mysock_transport_init sd False p) (\<lambda>p.
     and_then (mysock_get_context sd p) (\<lambda>new.
     Inr (put_context (new\<lparr>conn := (conn new)\<lparr>network_recv_queue :=
       mysock_enqueue_buffer syn (network_recv_queue (conn new))\<rparr>\<rparr>) p)))))"

text \<open>
  \<open>fd\<close> is the result of \<open>socket\<close> for the new mysocket.  The family of the address is asserted in
  \<open>_debug_print_connection\<close>, which every path calls.
\<close>

definition mysock_enqueue_connection ::
  "sock_context \<Rightarrow> byte list \<Rightarrow> sockaddr \<Rightarrow> nat \<Rightarrow> int \<Rightarrow> process \<Rightarrow> sr_fault + bool \<times> process" where
  "mysock_enqueue_connection c syn addr len fd p =
     (if \<not> is_listening c \<or> \<not> bound c \<or> len = 0 \<or> sa_family addr \<noteq> AF_INET then Inl Assertion_Failed
      else if length syn < 20 \<or> \<not> has_flag syn TH_SYN then Inr (False, p)
      else
        and_then (get_connection_queue c p) (\<lambda>q.
        case q of
          None \<Rightarrow> Inr (False, p)
        | Some q \<Rightarrow>
            and_then (is_queued addr len (take (unat (max_len q)) (connection_queue q))) (\<lambda>queued.
            if queued then Inr (False, p)
            else
              and_then (queue_slot q) (\<lambda>slot.
              case slot of
                None \<Rightarrow> Inr (False, p)
              | Some k \<Rightarrow>
                  if req_sd (connection_queue q ! k) \<noteq> -1 then Inl Assertion_Failed
                  else
                    and_then (mysock_new_mysocket fd (is_reliable (conn c)) p) (\<lambda>(sd, p).
                    if sd < 0 then
                      and_then (put_queue (my_sd c) (q\<lparr>connection_queue :=
                        (connection_queue q)[k := INVALIDATE_CONNECT_REQUEST]\<rparr>) p) (\<lambda>p. Inr (False, p))
                    else
                      and_then (put_queue (my_sd c) (q\<lparr>cur_len := cur_len q + 1, connection_queue :=
                        (connection_queue q)[k := \<lparr>req_peer = addr, req_peer_len = len, req_sd = sd\<rparr>]\<rparr>) p) (\<lambda>p.
                      and_then (establish c syn addr len sd p) (\<lambda>p. Inr (True, p))))))))"

definition mysock_passive_connection_complete :: "sock_context \<Rightarrow> process \<Rightarrow> sr_fault + process" where
  "mysock_passive_connection_complete c p =
     (if listen_sd c < 0 then Inl Assertion_Failed
      else
        and_then (mysock_get_context (listen_sd c) p) (\<lambda>l.
        and_then (get_connection_queue l p) (\<lambda>q.
        case q of
          None \<Rightarrow> Inr p
        | Some q \<Rightarrow>
            (case List.find (\<lambda>k. req_sd (connection_queue q ! k) = my_sd c) [0..<unat (max_len q)] of
               None \<Rightarrow> Inl Assertion_Failed
             | Some k \<Rightarrow>
                 put_queue (my_sd l) (q\<lparr>completed_queue := completed_queue q @ [(array_at q, k)]\<rparr>) p))))"

text \<open>
  \<open>moved\<close> says whether \<open>realloc\<close> moves the array.  A smaller backlog leaves the array as it is; the
  array of a larger one is cleared behind the old length, what it had there included.
\<close>

definition resize_queue :: "32 word \<Rightarrow> bool \<Rightarrow> nat \<Rightarrow> listen_queue \<Rightarrow> listen_queue" where
  "resize_queue n moved address q =
     (if n > max_len q then
        q\<lparr>connection_queue := take (unat (max_len q)) (connection_queue q) @
            replicate (unat n - unat (max_len q)) INVALIDATE_CONNECT_REQUEST,
          array_at := if moved then address else array_at q, max_len := n\<rparr>
      else q\<lparr>max_len := n\<rparr>)"

definition mysock_set_backlog :: "sock_context \<Rightarrow> 32 word \<Rightarrow> bool \<Rightarrow> process \<Rightarrow> sr_fault + process" where
  "mysock_set_backlog c backlog moved p =
     (let port = ntohs (port_of p (socket_fd c)) in
      if \<not> is_listening c \<or> \<not> bound c \<or> socket_fd c < 0 \<or> port = 0 then Inl Assertion_Failed
      else
        and_then (get_connection_queue c p) (\<lambda>q.
        and_then
          (case q of
             None \<Rightarrow>
               let q = \<lparr>queue_port = port, max_len = 0, cur_len = 0, array_at = next_array p,
                 connection_queue = [], completed_queue = []\<rparr> in
               and_then (hash_insert (my_sd c) q (listen_table p)) (\<lambda>t. Inr (q, p\<lparr>listen_table := t\<rparr>))
           | Some q \<Rightarrow> Inr (q, p)) (\<lambda>(q, p).
        if queue_port q \<noteq> port then Inl Assertion_Failed
        else
          put_queue (my_sd c) (resize_queue (backlog + 1) moved (next_array p + 1) q)
            (p\<lparr>next_array := next_array p + 2\<rparr>))))"

end
