(* ===== verification/Stcp_Api.thy ===== *)
theory Stcp_Api
  imports Stcp_Process
begin

text \<open>
  The calls of an application (\<open>mysock_api.c\<close>) and the two threads of a mysocket: the receive thread of
  \<open>network_io_socket.c\<close> and the transport thread of \<open>mysock.c\<close>.  \<open>act\<close> performs one of them.
\<close>

subsection \<open>The calls\<close>

definition mybind :: "int \<Rightarrow> sockaddr \<Rightarrow> int \<Rightarrow> process \<Rightarrow> sr_fault + int \<times> process" where
  "mybind sd addr rc p =
     and_then (mysock_get_context sd p) (\<lambda>c.
     if sa_family addr \<noteq> AF_INET then Inr (-1, p\<lparr>errno := EADDRNOTAVAIL\<rparr>)
     else if is_listening c \<or> socket_fd c < 0 then Inl Assertion_Failed
     else Inr (rc, put_context (c\<lparr>bound := True, local_sockaddr := addr\<rparr>) p))"

text \<open>
  \<open>myconnect\<close> up to its wait; the context to wait for is returned, or \<open>None\<close> when the call fails.
  \<open>rc\<close> is the result of \<open>bind\<close>.  The fields of \<open>conn\<close> are what is read from the address later.
\<close>

definition myconnect_start ::
  "int \<Rightarrow> sockaddr \<Rightarrow> nat \<Rightarrow> int \<Rightarrow> process \<Rightarrow> sr_fault + int option \<times> process" where
  "myconnect_start sd name namelen rc p =
     and_then (mysock_get_context sd p) (\<lambda>c.
     if peer_addr_len c \<noteq> 0 then Inr (None, p\<lparr>errno := EISCONN\<rparr>)
     else
       let c = c\<lparr>peer_sockaddr := name, peer_addr_len := namelen, peer_addr_valid := True\<rparr> in
       and_then (if bound c then Inr c else mysock_bind_ephemeral rc c) (\<lambda>c.
       let c = c\<lparr>conn := (conn c)\<lparr>local_addr := host_ip p, local_port := port_of p (socket_fd c),
             peer_addr := sin_addr name, peer_port := sin_port name\<rparr>\<rparr> in
       and_then (mysock_transport_init sd True (put_context c p)) (\<lambda>p. Inr (Some sd, p))))"

definition myconnect_wait :: "int \<Rightarrow> process \<Rightarrow> sr_fault + int \<times> process" where
  "myconnect_wait sd p = and_then (mysock_get_context sd p) (\<lambda>c. mysock_wait_for_connection c p)"

text \<open>The descriptor, with the address of the peer unless there was an error.\<close>

definition myaccept :: "int \<Rightarrow> process \<Rightarrow> sr_fault + int \<times> (sockaddr \<times> nat) option \<times> process" where
  "myaccept sd p =
     and_then (mysock_get_context sd p) (\<lambda>acc.
     if \<not> is_listening acc then Inr (-1, None, p\<lparr>errno := EINVAL\<rparr>)
     else
       and_then (mysock_dequeue_connection acc p) (\<lambda>(c, p).
       if stcp_errno c = 0 \<and> peer_addr_len c = 0 \<or> listen_sd c \<noteq> sd then Inl Assertion_Failed
       else if stcp_errno c = 0 then
         Inr (my_sd c, Some (peer_sockaddr c, peer_addr_len c), p\<lparr>errno := 0\<rparr>)
       else Inr (-1, None, p\<lparr>errno := stcp_errno c\<rparr>)))"

text \<open>The \<open>int\<close> backlog becomes an \<open>unsigned int\<close>; \<open>rc\<close> is the result of \<open>listen\<close>.\<close>

definition mylisten :: "int \<Rightarrow> int \<Rightarrow> bool \<Rightarrow> int \<Rightarrow> process \<Rightarrow> sr_fault + int \<times> process" where
  "mylisten sd backlog moved rc p =
     and_then (mysock_get_context sd p) (\<lambda>c.
     if \<not> bound c then Inl Assertion_Failed
     else
       let c = c\<lparr>conn := (conn c)\<lparr>listening := True\<rparr>\<rparr> in
       and_then (mysock_set_backlog c (of_int backlog) moved (put_context c p)) (\<lambda>p.
       if rc < 0 then Inr (-1, p)
       else Inr (0, put_context (network_start_recv_thread c) p)))"

text \<open>The request to close, after which \<open>myclose\<close> waits for the threads.\<close>

definition myclose_begin :: "int \<Rightarrow> process \<Rightarrow> sr_fault + process" where
  "myclose_begin sd p =
     and_then (mysock_get_context sd p) (\<lambda>c. Inr (put_context (c\<lparr>conn := myclose_request (conn c)\<rparr>) p))"

text \<open>A listening mysocket closes those in its queue; \<open>close\<close> is \<open>myclose\<close>.\<close>

definition mysock_close_passive_socket ::
  "(int \<Rightarrow> process \<Rightarrow> sr_fault + process) \<Rightarrow> sock_context \<Rightarrow> process \<Rightarrow> sr_fault + process" where
  "mysock_close_passive_socket close c p =
     and_then (get_connection_queue c p) (\<lambda>q.
     case q of
       None \<Rightarrow> Inr p
     | Some q \<Rightarrow>
         and_then (for_each (take (unat (max_len q)) (connection_queue q))
           (\<lambda>r p. if req_sd r \<noteq> -1 then close (req_sd r) p else Inr p) p) (\<lambda>p.
         and_then (hash_delete (my_sd c) (listen_table p)) (\<lambda>t.
         Inr (p\<lparr>listen_table := t\<rparr>))))"

text \<open>
  The whole of \<open>myclose\<close>; it waits until the transport thread is over and the receive thread, which
  \<open>woken\<close> is about, can be stopped.  The mysockets in a queue do not listen themselves, so the recursion has
  two levels.
\<close>

primrec myclose :: "nat \<Rightarrow> (int \<Rightarrow> bool) \<Rightarrow> int \<Rightarrow> process \<Rightarrow> sr_fault + process" where
  "myclose 0 woken sd p = Inl Endless_Loop"
| "myclose (Suc n) woken sd p =
     and_then (myclose_begin sd p) (\<lambda>p.
     and_then (mysock_get_context sd p) (\<lambda>c.
     and_then
       (if thread_started c then
          if is_listening c \<or> \<not> (is_active c \<or> listen_sd c \<noteq> -1) then Inl Assertion_Failed
          else if thread c \<noteq> Some Finished then Inl Would_Block
          else Inr (c\<lparr>thread_started := False\<rparr>)
        else Inr c) (\<lambda>c.
     and_then (network_stop_recv_thread (woken sd) c) (\<lambda>c.
     let p = put_context c p in
     and_then (if is_listening c then mysock_close_passive_socket (myclose n woken) c p else Inr p) (\<lambda>p.
     Inr (mysock_free_context True c p))))))"

definition mygetsockname :: "int \<Rightarrow> process \<Rightarrow> sr_fault + sockaddr" where
  "mygetsockname sd p =
     and_then (mysock_get_context sd p) (\<lambda>c.
     let a = local_sockaddr c; port = port_of p (socket_fd c) in
     if (sa_family a \<noteq> 0 \<and> sa_family a \<noteq> AF_INET) \<or> socket_fd c < 0 then Inl Assertion_Failed
     else if \<not> peer_addr_valid c then Inr (bytes16 AF_INET @ bytes16 port @ drop 4 a)
     else if peer_addr_len c = 0 \<or> sa_family (peer_sockaddr c) \<noteq> AF_INET then Inl Assertion_Failed
     else Inr (bytes16 AF_INET @ bytes16 port @ bytes32 (host_ip p) @ drop 8 a))"

text \<open>The bytes copied, the length and the value returned.\<close>

definition mygetpeername :: "int \<Rightarrow> nat \<Rightarrow> process \<Rightarrow> sr_fault + byte list \<times> nat \<times> int \<times> process" where
  "mygetpeername sd namelen p =
     and_then (mysock_get_context sd p) (\<lambda>c.
     let n = peer_addr_len c; bs = take (min namelen n) (peer_sockaddr c) in
     if n > 0 then Inr (bs, n, 0, p) else Inr (bs, n, -1, p\<lparr>errno := ENOTCONN\<rparr>))"

subsection \<open>The threads\<close>

text \<open>
  A round of the receive thread; the arguments are the answers of \<open>connect\<close>, \<open>accept\<close>, \<open>read\<close> and \<open>socket\<close>.
  The rest of the stream is returned, too.
\<close>

definition network_recv_round ::
  "int \<Rightarrow> bool \<Rightarrow> (int \<times> sockaddr) option \<Rightarrow> int \<Rightarrow> byte list list \<Rightarrow> int \<Rightarrow> process \<Rightarrow>
   sr_fault + byte list list \<times> process" where
  "network_recv_round sd ok accepted e stream fd p =
     and_then (mysock_get_context sd p) (\<lambda>c.
     if \<not> recv_thread_started c \<or> recv_thread_over c then Inl Would_Block
     else
       and_then (network_recv_packet ok accepted e MAX_IP_PAYLOAD_LEN stream c) (\<lambda>(bytes_read, buf, stream, c).
       let p = put_context c p in
       if bytes_read \<le> 0 then Inr (stream, put_context (c\<lparr>recv_thread_over := True\<rparr>) p)
       else if bytes_read > int MAX_IP_PAYLOAD_LEN then Inl Assertion_Failed
       else if is_listening c then
         and_then (mysock_enqueue_connection c buf (peer_sockaddr c) (peer_addr_len c) fd p) (\<lambda>(_, p).
         Inr (stream, p))
       else Inr (stream, put_context (c\<lparr>conn := (conn c)\<lparr>network_recv_queue :=
         mysock_enqueue_buffer buf (network_recv_queue (conn c))\<rparr>\<rparr>) p)))"

text \<open>
  What \<open>stcp_unblock_application\<close> does beyond the connection: \<open>e\<close> is \<open>errno\<close> of the transport thread.
\<close>

definition announce :: "int \<Rightarrow> sock_context \<Rightarrow> process \<Rightarrow> sr_fault + process" where
  "announce e c p =
     (let c = c\<lparr>stcp_errno := if e = EINTR then 0 else e\<rparr>; p = put_context c p in
      if is_active c then Inr p else mysock_passive_connection_complete c p)"

text \<open>The end of the thread after \<open>transport_init\<close> has returned.\<close>

definition transport_thread_end :: "int \<Rightarrow> sock_context \<Rightarrow> process \<Rightarrow> sr_fault + process" where
  "transport_thread_end e c p =
     and_then
       (if blocking (conn c) then
          and_then (stcp_unblock_application (conn c)) (\<lambda>s.
          let c = c\<lparr>conn := s\<rparr>;
              e = (if e = 0 \<or> e = EINTR then if is_active c then ECONNREFUSED else ECONNABORTED else e) in
          announce e c p)
        else Inr (put_context c p)) (\<lambda>p.
     and_then (mysock_get_context (my_sd c) p) (\<lambda>c.
     Inr (put_context (c\<lparr>conn := (conn c)\<lparr>app_send_queue :=
       mysock_enqueue_buffer [] (app_send_queue (conn c))\<rparr>\<rparr>) p)))"

text \<open>
  A step of the transport thread: the start of \<open>transport_init\<close> or a round of its loops, and the
  end of the thread with the last one.
\<close>

definition transport_thread_round :: "int \<Rightarrow> 32 word \<Rightarrow> int \<Rightarrow> process \<Rightarrow> sr_fault + process" where
  "transport_thread_round sd isn e p =
     and_then (mysock_get_context sd p) (\<lambda>c.
     if \<not> thread_started c then Inl Would_Block
     else
       and_then
         (case thread c of
            None \<Rightarrow> transport_init (is_active c) isn (conn c)
          | Some ph \<Rightarrow> transport_round ph (conn c)) (\<lambda>(ph, s).
       let unblocked = blocking (conn c) \<and> \<not> blocking s;
           c = c\<lparr>conn := s, thread := Some ph\<rparr> in
       and_then (if unblocked then announce e c p else Inr (put_context c p)) (\<lambda>p.
       if ph = Finished then
         and_then (mysock_get_context sd p) (\<lambda>c. transport_thread_end e c p)
       else Inr p)))"

subsection \<open>A step of the process\<close>

text \<open>\<open>myread\<close> and \<open>mywrite\<close> look the context up, too.\<close>

definition on_connection ::
  "int \<Rightarrow> (stcp \<Rightarrow> sr_fault + stcp) \<Rightarrow> process \<Rightarrow> sr_fault + process" where
  "on_connection sd f p =
     and_then (mysock_get_context sd p) (\<lambda>c.
     and_then (f (conn c)) (\<lambda>s. Inr (put_context (c\<lparr>conn := s\<rparr>) p)))"

datatype call =
    Mysocket int bool
  | Mybind int sockaddr int
  | Mylisten int int bool int
  | Myconnect int sockaddr nat int
  | Myaccept int
  | Mywrite int "byte list"
  | Myread int nat
  | Myclose_Begin int
  | Myclose "int \<Rightarrow> bool" int
  | Receive int bool "(int \<times> sockaddr) option" int "byte list list" int
  | Transport int "32 word" int

fun act :: "call \<Rightarrow> process \<Rightarrow> sr_fault + process" where
  "act (Mysocket fd reliable) p = and_then (mysock_new_mysocket fd reliable p) (\<lambda>(sd, p). Inr p)"
| "act (Mybind sd addr rc) p = and_then (mybind sd addr rc p) (\<lambda>(r, p). Inr p)"
| "act (Mylisten sd backlog moved rc) p = and_then (mylisten sd backlog moved rc p) (\<lambda>(r, p). Inr p)"
| "act (Myconnect sd name n rc) p = and_then (myconnect_start sd name n rc p) (\<lambda>(r, p). Inr p)"
| "act (Myaccept sd) p = and_then (myaccept sd p) (\<lambda>(r, a, p). Inr p)"
| "act (Mywrite sd buf) p = on_connection sd (\<lambda>s. and_then (mywrite buf s) (\<lambda>(n, s). Inr s)) p"
| "act (Myread sd n) p = on_connection sd (\<lambda>s. and_then (myread n s) (\<lambda>(r, buf, s). Inr s)) p"
| "act (Myclose_Begin sd) p = myclose_begin sd p"
| "act (Myclose woken sd) p = myclose 2 woken sd p"
| "act (Receive sd ok accepted e stream fd) p =
     and_then (network_recv_round sd ok accepted e stream fd p) (\<lambda>(stream, p). Inr p)"
| "act (Transport sd isn e) p = transport_thread_round sd isn e p"

definition start_process :: "(int \<Rightarrow> 16 word) \<Rightarrow> 32 word \<Rightarrow> stcp \<Rightarrow> process" where
  "start_process ports ip s = \<lparr>global_ctx = replicate MAX_NUM_CONNECTIONS None, listen_table = hash_empty,
     errno = 0, closed_fds = [], port_of = ports, host_ip = ip, template = s, next_array = 0\<rparr>"

end
