(* ===== verification/Stcp_Flags.thy ===== *)
theory Stcp_Flags
  imports Stcp_Api
begin

text \<open>
  What the transport layer does to the flags the mysocket layer reads: a round leaves \<open>listening\<close>
  alone, and it resets \<open>blocking\<close> only at the end of the handshake.
\<close>

definition flags_of :: "stcp \<Rightarrow> bool \<times> bool" where
  "flags_of s = (listening s, blocking s)"

named_theorems flags \<open>operations that leave the flags alone\<close>

lemma flags_of_updates [simp]:
  "flags_of (s\<lparr>network_recv_queue := x1\<rparr>) = flags_of s" "flags_of (s\<lparr>app_send_queue := x2\<rparr>) = flags_of s"
  "flags_of (s\<lparr>app_recv_queue := x3\<rparr>) = flags_of s" "flags_of (s\<lparr>close_requested := x4\<rparr>) = flags_of s"
  "flags_of (s\<lparr>eof := x5\<rparr>) = flags_of s" "flags_of (s\<lparr>random_seed := x6\<rparr>) = flags_of s"
  "flags_of (s\<lparr>copied := x7\<rparr>) = flags_of s" "flags_of (s\<lparr>copy_buffer := x8\<rparr>) = flags_of s"
  "flags_of (s\<lparr>wire := x9\<rparr>) = flags_of s" "flags_of (s\<lparr>connection_state := x10\<rparr>) = flags_of s"
  "flags_of (s\<lparr>initial_sequence_num := x11\<rparr>) = flags_of s" "flags_of (s\<lparr>send_unack := x12\<rparr>) = flags_of s"
  "flags_of (s\<lparr>send_next := x13\<rparr>) = flags_of s" "flags_of (s\<lparr>send_wind := x14\<rparr>) = flags_of s"
  "flags_of (s\<lparr>recv_next := x15\<rparr>) = flags_of s" "flags_of (s\<lparr>recv_buffer := x16\<rparr>) = flags_of s"
  "flags_of (s\<lparr>recv_indicator := x17\<rparr>) = flags_of s" "flags_of (s\<lparr>rto := x18\<rparr>) = flags_of s"
  "flags_of (s\<lparr>srtt := x19\<rparr>) = flags_of s" "flags_of (s\<lparr>rttvar := x20\<rparr>) = flags_of s"
  "flags_of (s\<lparr>rto_init := x21\<rparr>) = flags_of s" "flags_of (s\<lparr>unackd_packets := x22\<rparr>) = flags_of s"
  "flags_of (s\<lparr>packtosend_set := x23\<rparr>) = flags_of s"
  by (simp_all add: flags_of_def)

subsection \<open>Sending and receiving\<close>

lemma flags_update_rto [simp]: "flags_of (update_rto p t) = flags_of t"
  by (simp_all add: update_rto_def Let_def split: prod.splits)

lemma flags_remove_packets: "remove_packets ps t = (qs, u) \<Longrightarrow> flags_of u = flags_of t"
  by (induction ps t arbitrary: qs u rule: remove_packets.induct)
    (fastforce simp: Let_def split: if_splits)+

lemma flags_packet_t_remove: "flags_of (packet_t_remove t) = flags_of t"
  using flags_remove_packets by (fastforce simp: packet_t_remove_def split: prod.splits)

lemma flags_read_header: "flags_of (read_header h t) = flags_of t"
  using flags_packet_t_remove [of t] flags_packet_t_remove [of "t\<lparr>send_unack := th_ack h\<rparr>"]
  by (simp add: read_header_def Let_def )

text \<open>
  \<open>leaves F r g\<close>: if the run \<open>r\<close> ends normally, the state \<open>g\<close> finds in its result has the flags \<open>F\<close>.
\<close>

abbreviation leaves :: "bool \<times> bool \<Rightarrow> 'e + 'a \<Rightarrow> ('a \<Rightarrow> stcp) \<Rightarrow> bool" where
  "leaves F r g \<equiv> holds r (\<lambda>x. flags_of (g x) = F) (\<lambda>_. True)"

lemma leaves_bind:
  assumes "leaves F r f" "\<And>x. flags_of (f x) = F \<Longrightarrow> leaves F (k x) g"
  shows "leaves F (and_then r k) g"
  using assms by (cases r) simp_all

lemma leaves_bind2:
  assumes "leaves F r snd" "\<And>a t. flags_of t = F \<Longrightarrow> leaves F (k a t) g"
  shows "leaves F (and_then r (\<lambda>(a, t). k a t)) g"
  using assms by (cases r) auto

lemma leaves_bind3:
  assumes "leaves F r (\<lambda>(a, b, t). t)" "\<And>a b t. flags_of t = F \<Longrightarrow> leaves F (k a b t) g"
  shows "leaves F (and_then r (\<lambda>(a, b, t). k a b t)) g"
  using assms by (cases r) auto

lemma leaves_pure:
  assumes "\<And>x. leaves F (k x) g"
  shows "leaves F (and_then r k) g"
  using assms by (cases r) simp_all

lemma leaves_if: "(b \<Longrightarrow> leaves F r g) \<Longrightarrow> (\<not> b \<Longrightarrow> leaves F r' g) \<Longrightarrow> leaves F (if b then r else r') g"
  by simp

lemma leaves_wait [flags]: "flags_of t = F \<Longrightarrow> leaves F (stcp_wait_for_event fl ps t) snd"
  by (simp add: stcp_wait_for_event_def Let_def)

lemma leaves_network_send: "flags_of t = F \<Longrightarrow> leaves F (network_send p t) snd"
  by (simp add: network_send_def network_send_packet_def Let_def split: prod.splits)

lemma leaves_stcp_network_send [flags]:
  assumes "flags_of t = F"
  shows "leaves F (stcp_network_send p t) snd"
  using leaves_network_send [OF assms]
  by (simp add: stcp_network_send_def leaves_pure del: holds_and_then)

lemma leaves_send_segment [flags]: "flags_of t = F \<Longrightarrow> leaves F (send_segment p t) (\<lambda>t. t)"
  unfolding send_segment_def
  by (rule leaves_bind [OF leaves_stcp_network_send]) auto

lemma leaves_app_recv [flags]: "flags_of t = F \<Longrightarrow> leaves F (stcp_app_recv n t) (\<lambda>(b, n, t). t)"
  unfolding stcp_app_recv_def by (rule leaves_pure) auto

lemma leaves_network_recv: "flags_of t = F \<Longrightarrow> leaves F (stcp_network_recv n t) (\<lambda>(b, n, t). t)"
  unfolding stcp_network_recv_def by (rule leaves_pure) (auto intro!: leaves_pure simp del: holds_and_then)

lemma leaves_store_payload: "flags_of t = F \<Longrightarrow> leaves F (store_payload i n k b t) (\<lambda>(n, t). t)"
  unfolding store_payload_def Let_def by (rule leaves_pure, rule leaves_pure) simp

lemma leaves_payload:
  "flags_of t = F \<Longrightarrow>
   leaves F (and_then (store_payload i j k b t) (\<lambda>(n, s). Inr (f n, h, read_header h s))) (\<lambda>(n, h, t). t)"
  by (rule leaves_bind [OF leaves_store_payload]) (auto simp: flags_read_header)

lemma leaves_recv_packet [flags]: "flags_of t = F \<Longrightarrow> leaves F (recv_packet t) (\<lambda>(n, h, t). t)"
  unfolding recv_packet_def Let_def
  by (rule leaves_bind [OF leaves_network_recv])
    (auto simp: flags_read_header leaves_payload simp del: holds_and_then split: option.splits)

text \<open>The operations in front of the rest of a run.\<close>

lemmas leaves_rest = flags [THEN leaves_bind]

lemma leaves_store: "(\<And>x. leaves F (k x) g) \<Longrightarrow> leaves F (and_then (store i b f) k) g"
  by (rule leaves_pure)

lemma leaves_start: "flags_of t = F \<Longrightarrow> leaves F (active_start t) (\<lambda>t. t)"
  unfolding active_start_def Let_def
  by (auto intro!: leaves_rest simp: packet_t_create_def simp del: holds_and_then)

subsection \<open>A round of the main loop\<close>

lemma leaves_app_data: "flags_of t = F \<Longrightarrow> leaves F (on_app_data t) (\<lambda>t. t)"
  unfolding on_app_data_def Let_def
  by (auto simp: packet_t_create_def simp del: holds_and_then intro!: leaves_rest leaves_store)

lemma leaves_deliver: "flags_of t = F \<Longrightarrow> leaves F (deliver n t) (\<lambda>t. t)"
  unfolding deliver_def Let_def by (rule leaves_pure) (simp add: stcp_app_send_def)

lemma leaves_on_fin: "flags_of t = F \<Longrightarrow> leaves F (on_fin t) snd"
  unfolding on_fin_def Let_def
  by (auto simp: stcp_fin_received_def simp del: holds_and_then intro!: leaves_rest)

lemma flags_on_ack: "flags_of (snd (on_ack t)) = flags_of t"
  by (simp add: on_ack_def Let_def)

lemma leaves_network_data: "flags_of t = F \<Longrightarrow> leaves F (on_network_data t) snd"
proof -
  have ack: "leaves F (let (stop, s) = (if has_flag h TH_ACK then on_ack s else (False, s)) in
     if stop then Inr (True, s) else if has_flag h TH_FIN then on_fin s else Inr (False, s)) snd"
    if "flags_of s = F" for h s
    using that flags_on_ack [of s] by (auto simp: leaves_on_fin split: prod.splits)
  have answer: "leaves F (if b then and_then (send_segment p s) (\<lambda>s. Inr (s\<lparr>packtosend_set := True\<rparr>)) else Inr s) (\<lambda>t. t)"
    if "flags_of s = F" for b p s
    using that by (auto intro!: leaves_rest simp del: holds_and_then)
  have data: "leaves F (if b then deliver n s else Inr s) (\<lambda>t. t)" if "flags_of s = F" for b n s
    using that by (simp add: leaves_deliver)
  show "leaves F (on_network_data t) snd" if "flags_of t = F"
    unfolding on_network_data_def
    by (rule leaves_bind3 [OF leaves_recv_packet [OF that]], rule leaves_bind [OF answer], assumption,
        rule leaves_bind [OF data], assumption, rule ack)
qed

lemma leaves_on_close: "flags_of t = F \<Longrightarrow> leaves F (on_close t) (\<lambda>t. t)"
  unfolding on_close_def Let_def
  by (auto simp: packet_t_create_def simp del: holds_and_then intro!: leaves_rest)

lemma leaves_resend: "flags_of t = F \<Longrightarrow> leaves F (resend ps t) (\<lambda>(g, qs, t). t)"
proof (induction ps arbitrary: t)
  case (Cons p ps)
  show ?case
    unfolding resend.simps Let_def
    by (rule leaves_store, rule leaves_bind [OF leaves_send_segment [OF Cons.prems]],
        rule leaves_bind3 [OF Cons.IH], assumption) simp
qed simp

lemma leaves_control_round:
  assumes "flags_of t = F"
  shows "leaves F (control_round t) snd"
proof -
  have wait: "leaves F (control_wait t) snd"
    using assms by (auto simp: control_wait_def Let_def simp del: holds_and_then intro!: flags leaves_pure)
  have timeout: "leaves F (on_timeout u) snd" if "flags_of u = F" for u
    unfolding on_timeout_def by (rule leaves_bind [OF leaves_resend [OF that]]) auto
  have data: "leaves F (if b then on_app_data u else Inr u) (\<lambda>t. t)"
    "leaves F (if b then on_network_data u else Inr (False, u)) snd"
    "leaves F (if b then on_close u else Inr u) (\<lambda>t. t)" if "flags_of u = F" for b u
    using that by (simp_all add: leaves_app_data leaves_network_data leaves_on_close)
  have stop: "leaves F (if b then on_timeout u else Inr (False, u)) snd" if "flags_of u = F" for b u
    using that by (simp add: timeout)
  have close: "leaves F (if b then Inr (True, u) else and_then (if b' then on_close u else Inr u) (\<lambda>s.
      if c then on_timeout s else Inr (False, s))) snd" if "flags_of u = F" for b b' c u
    by (rule leaves_if, simp add: that, rule leaves_bind [OF data(3) [OF that]], rule stop)
  show ?thesis
    unfolding control_round_def
    by (rule leaves_bind2 [OF wait], rule leaves_bind [OF data(1)], assumption,
        rule leaves_bind2 [OF data(2)], assumption, rule close)
qed

subsection \<open>The handshake and the thread\<close>

lemma leaves_handshake:
  assumes "flags_of t = F"
  shows "leaves F (syn_sent_round t) snd" "leaves F (closed_round t) snd" "leaves F (syn_received_round t) snd"
  using assms unfolding syn_sent_round_def closed_round_def syn_received_round_def Let_def
  by (auto simp: packet_t_create_def first_unackd_def simp del: holds_and_then intro!: leaves_rest split: list.splits)

text \<open>A round of the thread: the application is unblocked or the flags stay.\<close>

definition settles :: "stcp \<Rightarrow> stcp \<Rightarrow> bool" where
  "settles s t \<longleftrightarrow> listening t = listening s \<and> (blocking t \<longrightarrow> blocking s)"

lemma unblock_settles:
  assumes "leaves (flags_of s) r f" "r = Inr x" "stcp_unblock_application (f x) = Inr t"
  shows "settles s t"
  using assms by (auto simp: flags_of_def settles_def stcp_unblock_application_def split: if_splits)

lemma leaves_settles: "leaves (flags_of s) r f \<Longrightarrow> r = Inr x \<Longrightarrow> settles s (f x)"
  by (auto simp: flags_of_def settles_def)

lemma transport_init_settles:
  assumes "transport_init active isn s = Inr (ph, t)"
  shows "settles s t"
proof -
  have start: "leaves (flags_of s) (active_start (transport_context isn s)) (\<lambda>t. t)"
    by (rule leaves_start) (simp add: transport_context_def)
  have "settles s (transport_context isn s)" by (simp add: settles_def transport_context_def)
  then show ?thesis
    using assms leaves_settles [OF start] unblock_settles [OF start]
    by (auto simp: transport_init_def Let_def and_then_eq_Inr split: if_splits)
qed

lemma transport_round_settles:
  assumes "transport_round ph s = Inr (ph', t)"
  shows "settles s t"
  using assms leaves_settles [OF leaves_handshake(1)] unblock_settles [OF leaves_handshake(1)]
    leaves_settles [OF leaves_handshake(2)] leaves_settles [OF leaves_handshake(3)]
    unblock_settles [OF leaves_handshake(3)] leaves_settles [OF leaves_control_round]
  by (cases ph) (fastforce simp: transport_round_def and_then_eq_Inr split: if_splits)+

lemma application_flags:
  "mywrite buf s = Inr (n, t) \<Longrightarrow> flags_of t = flags_of s" "myread k s = Inr (m, out, t) \<Longrightarrow> flags_of t = flags_of s"
  "flags_of (myclose_request s) = flags_of s"
  by (auto simp: mywrite_def myread_def myclose_request_def Let_def and_then_eq_Inr split: if_splits)

end
