(* ===== verification/Stcp_Backlog.thy ===== *)
theory Stcp_Backlog
  imports Stcp_Flags
begin

text \<open>
  The invariant of the descriptor table and the queues of connection requests, on the process as two
  maps: \<open>ctx p\<close> the contexts by descriptor and \<open>queues p\<close> the queues by listening descriptor.
\<close>

subsection \<open>The process as two maps\<close>

definition ctx :: "process \<Rightarrow> int \<Rightarrow> sock_context option" where
  "ctx p sd = (if 0 \<le> sd \<and> sd < int MAX_NUM_CONNECTIONS then global_ctx p ! nat sd else None)"

abbreviation queues :: "process \<Rightarrow> int \<Rightarrow> listen_queue option" where
  "queues p \<equiv> table.contents (listen_table p)"

definition tidy_tables :: "process \<Rightarrow> bool" where
  "tidy_tables p \<longleftrightarrow> length (global_ctx p) = MAX_NUM_CONNECTIONS \<and> hash_sound (listen_table p) \<and>
     (\<forall>sd c. ctx p sd = Some c \<longrightarrow> my_sd c = sd)"

lemma ctx_range: "ctx p sd = Some c \<Longrightarrow> 0 \<le> sd \<and> sd < 64"
  by (simp add: ctx_def split: if_splits)

lemma get_context_eq:
  "tidy_tables p \<Longrightarrow> mysock_get_context sd p =
     (case ctx p sd of None \<Rightarrow> Inl Assertion_Failed | Some c \<Rightarrow> Inr c)"
  by (auto simp: mysock_get_context_def tidy_tables_def ctx_def split: option.splits if_splits)

lemma get_context_Inr:
  "tidy_tables p \<Longrightarrow> mysock_get_context sd p = Inr c \<longleftrightarrow> ctx p sd = Some c"
  by (auto simp: get_context_eq split: option.splits)

lemma my_sd_range: "tidy_tables p \<Longrightarrow> ctx p sd = Some c \<Longrightarrow> my_sd c = sd \<and> 0 \<le> sd \<and> sd < 64"
  using ctx_range by (auto simp: tidy_tables_def)

lemma put_context_views:
  assumes "tidy_tables p" "0 \<le> my_sd c" "my_sd c < 64"
  shows "tidy_tables (put_context c p)" "ctx (put_context c p) = (ctx p)(my_sd c \<mapsto> c)"
    "queues (put_context c p) = queues p"
proof -
  show v: "ctx (put_context c p) = (ctx p)(my_sd c \<mapsto> c)"
    using assms by (auto simp: ctx_def put_context_def tidy_tables_def nth_list_update fun_eq_iff)
  show "queues (put_context c p) = queues p" by (simp add: put_context_def)
  show "tidy_tables (put_context c p)"
    using assms(1) v by (auto simp: tidy_tables_def put_context_def)
qed

lemma get_queue_eq:
  assumes "tidy_tables p" "0 \<le> my_sd c" "is_listening c" "bound c"
  shows "get_connection_queue c p = Inr (queues p (my_sd c))"
  using assms table.look_contents [of "listen_table p" "my_sd c"]
  by (simp add: get_connection_queue_def hash_lookup_ptr_def tidy_tables_def)

lemma put_queue_views:
  assumes "tidy_tables p" "0 \<le> sd"
  shows "\<exists>p'. put_queue sd q p = Inr p' \<and> tidy_tables p' \<and> ctx p' = ctx p \<and> queues p' = (queues p)(sd \<mapsto> q) \<and>
    p' = p\<lparr>listen_table := listen_table p'\<rparr>"
proof -
  obtain t where t: "hash_set_entry sd q (listen_table p) = Inr t" "hash_sound t"
    "table.contents t = (queues p)(sd \<mapsto> q)"
    using table.assign_contents [of "listen_table p" sd q] assms by (auto simp: tidy_tables_def)
  let ?p = "p\<lparr>listen_table := t\<rparr>"
  have "ctx ?p = ctx p" by (simp add: ctx_def fun_eq_iff)
  then show ?thesis using t assms(1) by (intro exI [of _ ?p]) (auto simp: put_queue_def tidy_tables_def)
qed

subsection \<open>The invariant\<close>

text \<open>The places of an array of requests that are taken.\<close>

definition slots :: "listen_queue \<Rightarrow> nat set" where
  "slots q = {k. k < length (connection_queue q) \<and> req_sd (connection_queue q ! k) \<noteq> -1}"

definition blocked :: "(int \<Rightarrow> sock_context option) \<Rightarrow> int \<Rightarrow> bool" where
  "blocked C sd \<longleftrightarrow> (case C sd of None \<Rightarrow> True | Some c \<Rightarrow> blocking (conn c))"

text \<open>A request has a mysocket of its own, made for its address and the listening socket \<open>L\<close>.\<close>

definition child_of :: "(int \<Rightarrow> sock_context option) \<Rightarrow> int \<Rightarrow> connect_request \<Rightarrow> bool" where
  "child_of C L r \<longleftrightarrow> (\<exists>c. C (req_sd r) = Some c \<and> listen_sd c = L \<and> \<not> is_active c \<and> \<not> is_listening c \<and>
     thread_started c \<and> peer_sockaddr c = req_peer r \<and> peer_addr_len c = req_peer_len r) \<and>
     0 \<le> req_sd r \<and> req_peer_len r = sockaddr_size \<and> length (req_peer r) = sockaddr_size"

text \<open>
  \<open>cur_len\<close> counts the requests, at most \<open>max_len\<close>; they have different mysockets and come from different
  addresses; those with an established connection are in \<open>completed_queue\<close>, each once.
\<close>

definition queue_ok :: "(int \<Rightarrow> sock_context option) \<Rightarrow> int \<Rightarrow> listen_queue \<Rightarrow> bool" where
  "queue_ok C L q \<longleftrightarrow> length (connection_queue q) = unat (max_len q) \<and> unat (cur_len q) = card (slots q) \<and>
     (\<forall>k \<in> slots q. child_of C L (connection_queue q ! k)) \<and>
     inj_on (\<lambda>k. req_sd (connection_queue q ! k)) (slots q) \<and>
     inj_on (\<lambda>k. req_peer (connection_queue q ! k)) (slots q) \<and>
     (\<forall>k < length (connection_queue q). k \<notin> slots q \<longrightarrow> connection_queue q ! k = INVALIDATE_CONNECT_REQUEST) \<and>
     distinct (completed_queue q) \<and>
     set (completed_queue q) = Pair (array_at q) ` {k \<in> slots q. \<not> blocked C (req_sd (connection_queue q ! k))}"

definition demux_ok :: "(int \<Rightarrow> sock_context option) \<Rightarrow> (int \<Rightarrow> listen_queue option) \<Rightarrow> bool" where
  "demux_ok C Q \<longleftrightarrow>
     (\<forall>sd c. C sd = Some c \<and> is_listening c \<longrightarrow> bound c \<and> \<not> thread_started c \<and> Q sd \<noteq> None) \<and>
     (\<forall>L q. Q L = Some q \<longrightarrow> (\<exists>l. C L = Some l \<and> is_listening l) \<and> queue_ok C L q)"

definition pending :: "(int \<Rightarrow> listen_queue option) \<Rightarrow> int \<Rightarrow> bool" where
  "pending Q sd \<longleftrightarrow> (\<exists>L q. \<exists>k \<in> slots q. Q L = Some q \<and> req_sd (connection_queue q ! k) = sd)"

lemma pending_child:
  assumes "demux_ok C Q" "pending Q sd"
  obtains L q k c where "Q L = Some q" "k \<in> slots q" "req_sd (connection_queue q ! k) = sd" "C sd = Some c"
    "listen_sd c = L" "\<not> is_active c" "\<not> is_listening c" "thread_started c" "peer_addr_len c = 16" "queue_ok C L q"
proof -
  from assms(2) obtain L q k where q: "Q L = Some q" "k \<in> slots q" "req_sd (connection_queue q ! k) = sd"
    by (auto simp: pending_def)
  with assms(1) have ok: "queue_ok C L q" by (simp add: demux_ok_def)
  with q(2) have "child_of C L (connection_queue q ! k)" by (simp add: queue_ok_def)
  then show thesis using q ok that by (auto simp: child_of_def)
qed

lemma queue_owner: "demux_ok C Q \<Longrightarrow> Q L = Some q \<Longrightarrow> \<exists>l. C L = Some l \<and> is_listening l"
  by (simp add: demux_ok_def)

lemma queue_is_ok: "demux_ok C Q \<Longrightarrow> Q L = Some q \<Longrightarrow> queue_ok C L q"
  by (simp add: demux_ok_def)

subsection \<open>Changes that keep the invariant\<close>

text \<open>What the queues see of a context.\<close>

definition face :: "sock_context \<Rightarrow> int \<times> bool \<times> bool \<times> bool \<times> sockaddr \<times> nat" where
  "face c = (listen_sd c, is_active c, is_listening c, thread_started c, peer_sockaddr c, peer_addr_len c)"

lemma child_of_update: "child_of C L r \<Longrightarrow> C sd = Some c \<Longrightarrow> face c' = face c \<Longrightarrow> child_of (C(sd \<mapsto> c')) L r"
  by (cases "req_sd r = sd") (auto simp: child_of_def face_def)

lemma queue_ok_cong:
  assumes "queue_ok C L q"
    and "\<And>k c. k \<in> slots q \<Longrightarrow> C (req_sd (connection_queue q ! k)) = Some c \<Longrightarrow>
      \<exists>c'. C' (req_sd (connection_queue q ! k)) = Some c' \<and> face c' = face c \<and> blocking (conn c') = blocking (conn c)"
  shows "queue_ok C' L q"
proof -
  have "child_of C' L (connection_queue q ! k) \<and>
      blocked C' (req_sd (connection_queue q ! k)) = blocked C (req_sd (connection_queue q ! k))"
    if k: "k \<in> slots q" for k
  proof -
    have "child_of C L (connection_queue q ! k)" using assms(1) k by (simp add: queue_ok_def)
    then obtain c where "C (req_sd (connection_queue q ! k)) = Some c" by (auto simp: child_of_def)
    with assms(2) [OF k this] \<open>child_of C L _\<close> show ?thesis
      by (auto simp: child_of_def face_def blocked_def)
  qed
  then show ?thesis using assms(1) by (auto simp: queue_ok_def cong: conj_cong)
qed

lemma context_change:
  assumes "demux_ok C Q"
    and "is_listening c' \<longleftrightarrow> (\<exists>c. C sd = Some c \<and> is_listening c)"
    and "is_listening c' \<Longrightarrow> bound c' \<and> \<not> thread_started c'"
    and "pending Q sd \<Longrightarrow> \<exists>c. C sd = Some c \<and> face c' = face c \<and> blocking (conn c') = blocking (conn c)"
  shows "demux_ok (C(sd \<mapsto> c')) Q"
proof -
  have "queue_ok (C(sd \<mapsto> c')) L q" if "Q L = Some q" for L q
  proof (rule queue_ok_cong)
    show "queue_ok C L q" using assms(1) that by (simp add: demux_ok_def)
    fix k c assume "k \<in> slots q" "C (req_sd (connection_queue q ! k)) = Some c"
    then show "\<exists>d. (C(sd \<mapsto> c')) (req_sd (connection_queue q ! k)) = Some d \<and> face d = face c \<and>
        blocking (conn d) = blocking (conn c)"
      using assms(4) that by (fastforce simp: pending_def)
  qed
  then show ?thesis using assms(1-3) by (auto simp: demux_ok_def)
qed

lemma context_removed:
  assumes "demux_ok C Q" "\<not> pending Q sd" "\<And>c. C sd = Some c \<Longrightarrow> \<not> is_listening c"
  shows "demux_ok (C(sd := None)) Q"
proof -
  have "queue_ok (C(sd := None)) L q" if "Q L = Some q" for L q
  proof (rule queue_ok_cong)
    show "queue_ok C L q" using assms(1) that by (simp add: demux_ok_def)
    fix k c assume "k \<in> slots q" "C (req_sd (connection_queue q ! k)) = Some c"
    then show "\<exists>c'. (C(sd := None)) (req_sd (connection_queue q ! k)) = Some c' \<and> face c' = face c \<and>
        blocking (conn c') = blocking (conn c)"
      using assms(2) that by (fastforce simp: pending_def)
  qed
  then show ?thesis using assms(1,3) by (fastforce simp: demux_ok_def)
qed

text \<open>One queue changes; the others do not see the contexts that change with it.\<close>

lemma queue_replaced:
  assumes "demux_ok C Q"
    and "\<And>sd c. C' sd = Some c \<Longrightarrow> is_listening c \<Longrightarrow> bound c \<and> \<not> thread_started c \<and> (sd = L \<or> Q sd \<noteq> None)"
    and "\<And>sd c. sd \<noteq> L \<Longrightarrow> C sd = Some c \<Longrightarrow> is_listening c \<Longrightarrow> C' sd = Some c"
    and "\<And>sd c. C sd = Some c \<Longrightarrow> C' sd \<noteq> Some c \<Longrightarrow> listen_sd c = L \<or> is_listening c \<or> \<not> pending Q sd"
    and "C' L = Some l" "is_listening l" "queue_ok C' L q"
  shows "demux_ok C' (Q(L \<mapsto> q))"
proof -
  have "queue_ok C' M r" if r: "Q M = Some r" and m: "M \<noteq> L" for M r
  proof (rule queue_ok_cong)
    show ok: "queue_ok C M r" using assms(1) r by (simp add: demux_ok_def)
    fix k c assume k: "k \<in> slots r" and c: "C (req_sd (connection_queue r ! k)) = Some c"
    have "child_of C M (connection_queue r ! k)" using ok k by (simp add: queue_ok_def)
    then have "listen_sd c = M" "\<not> is_listening c" using c by (auto simp: child_of_def)
    moreover have "pending Q (req_sd (connection_queue r ! k))" using r k by (auto simp: pending_def)
    ultimately have "C' (req_sd (connection_queue r ! k)) = Some c" using assms(4) [OF c] m by auto
    then show "\<exists>d. C' (req_sd (connection_queue r ! k)) = Some d \<and> face d = face c \<and>
        blocking (conn d) = blocking (conn c)" by simp
  qed
  moreover have "\<exists>m. C' M = Some m \<and> is_listening m" if "Q M = Some r" "M \<noteq> L" for M r
    using assms(1,3) that by (fastforce simp: demux_ok_def)
  moreover have "bound c \<and> \<not> thread_started c \<and> (Q(L \<mapsto> q)) sd \<noteq> None" if "C' sd = Some c" "is_listening c" for sd c
    using assms(2) [OF that] by auto
  ultimately show ?thesis using assms(5-7) unfolding demux_ok_def by (auto split: if_splits)
qed

lemma queue_started:
  assumes "demux_ok C Q" "C L = Some l" "\<not> is_listening l" "\<not> thread_started l"
    and "is_listening l'" "bound l'" "\<not> thread_started l'"
  shows "demux_ok (C(L \<mapsto> l')) (Q(L \<mapsto> \<lparr>queue_port = port, max_len = n, cur_len = 0, array_at = a,
    connection_queue = replicate (unat n) INVALIDATE_CONNECT_REQUEST, completed_queue = []\<rparr>))"
proof (rule queue_replaced [OF assms(1)])
  have np: "\<not> pending Q L" using assms(1,2,4) by (auto elim!: pending_child)
  then show "\<And>sd c. C sd = Some c \<Longrightarrow> (C(L \<mapsto> l')) sd \<noteq> Some c \<Longrightarrow> listen_sd c = L \<or> is_listening c \<or> \<not> pending Q sd"
    by (auto split: if_splits)
  let ?q = "\<lparr>queue_port = port, max_len = n, cur_len = 0, array_at = a,
    connection_queue = replicate (unat n) INVALIDATE_CONNECT_REQUEST, completed_queue = []\<rparr>"
  have "slots ?q = {}" by (auto simp: slots_def INVALIDATE_CONNECT_REQUEST_def)
  then show "queue_ok (C(L \<mapsto> l')) L ?q" by (simp add: queue_ok_def)
qed (use assms in \<open>auto simp: demux_ok_def split: if_splits\<close>)

lemma slots_taken:
  "k < length (connection_queue q) \<Longrightarrow> req_sd r \<noteq> -1 \<Longrightarrow>
   slots (q\<lparr>cur_len := n, connection_queue := (connection_queue q)[k := r]\<rparr>) = insert k (slots q)"
  by (auto simp: slots_def nth_list_update)

lemma slots_freed:
  "slots (q\<lparr>completed_queue := cs, cur_len := n, connection_queue :=
     (connection_queue q)[k := INVALIDATE_CONNECT_REQUEST]\<rparr>) = slots q - {k}"
  by (cases "k < length (connection_queue q)")
    (auto simp: slots_def nth_list_update INVALIDATE_CONNECT_REQUEST_def split: if_splits)

lemma finite_slots [simp]: "finite (slots q)"
  by (simp add: slots_def)

lemma slots_bound: "k \<in> slots q \<Longrightarrow> k < length (connection_queue q)"
  by (simp add: slots_def)


lemma inj_on_new:
  assumes "inj_on f S" "\<And>j. j \<in> S \<Longrightarrow> g j = f j" "\<And>j. j \<in> S \<Longrightarrow> f j \<noteq> g k"
  shows "inj_on g (insert k S)"
proof (rule inj_onI)
  fix x y assume "x \<in> insert k S" "y \<in> insert k S" "g x = g y"
  then show "x = y" using assms by (metis inj_onD insertE)
qed

lemma selected_old: "(\<And>j. j \<in> S \<Longrightarrow> P j = R j) \<Longrightarrow> P k \<Longrightarrow> {j \<in> insert k S. \<not> P j} = {j \<in> S. \<not> R j}"
  by auto

text \<open>A larger backlog, or the same again; the completed requests stay where they are.\<close>

lemma queue_resized:
  assumes ok: "demux_ok C Q" "Q L = Some q" and n: "max_len q \<le> n"
    and stay: "max_len q < n \<Longrightarrow> moved \<Longrightarrow> completed_queue q = []"
  shows "demux_ok C (Q(L \<mapsto> resize_queue n moved a q))"
proof (cases "max_len q < n")
  case False
  then have "resize_queue n moved a q = q" using n by (simp add: resize_queue_def)
  moreover have "Q(L \<mapsto> q) = Q" using ok(2) by auto
  ultimately show ?thesis using ok(1) by simp
next
  case True
  let ?q = "resize_queue n moved a q"
  have q: "queue_ok C L q" using ok by (simp add: demux_ok_def)
  have less: "unat (max_len q) < unat n" using True by (simp add: word_less_nat_alt)
  have len: "length (connection_queue q) = unat (max_len q)" using q by (simp add: queue_ok_def)
  have cq: "connection_queue ?q = connection_queue q @ replicate (unat n - unat (max_len q)) INVALIDATE_CONNECT_REQUEST"
    and cs: "completed_queue ?q = completed_queue q" "max_len ?q = n" "cur_len ?q = cur_len q"
    using True len by (simp_all add: resize_queue_def)
  have at: "connection_queue ?q ! k = connection_queue q ! k" if "k < length (connection_queue q)" for k
    using that by (simp add: cq nth_append)
  have new: "connection_queue ?q ! k = INVALIDATE_CONNECT_REQUEST"
    if "k < length (connection_queue ?q)" "\<not> k < length (connection_queue q)" for k
    using that by (simp add: cq nth_append)
  have s: "slots ?q = slots q"
  proof -
    have "k \<in> slots ?q \<longleftrightarrow> k \<in> slots q" for k
      using at [of k] new [of k] cq
      by (cases "k < length (connection_queue q)") (auto simp: slots_def INVALIDATE_CONNECT_REQUEST_def)
    then show ?thesis by blast
  qed
  have cong: "P (connection_queue ?q ! k) = P (connection_queue q ! k)" if "k \<in> slots q" for P :: "connect_request \<Rightarrow> 'b" and k
    using at [OF slots_bound [OF that]] by simp
  have "queue_ok C L ?q"
    unfolding queue_ok_def s cs
  proof (intro conjI)
    show "length (connection_queue ?q) = unat n" using less len by (simp add: cq)
    show "\<forall>k \<in> slots q. child_of C L (connection_queue ?q ! k)"
      using q cong [of _ "child_of C L"] by (simp add: queue_ok_def)
    show "inj_on (\<lambda>k. req_sd (connection_queue ?q ! k)) (slots q)"
      using q inj_on_cong [of "slots q" "\<lambda>k. req_sd (connection_queue ?q ! k)" "\<lambda>k. req_sd (connection_queue q ! k)"]
        cong [of _ req_sd] by (simp add: queue_ok_def)
    show "inj_on (\<lambda>k. req_peer (connection_queue ?q ! k)) (slots q)"
      using q inj_on_cong [of "slots q" "\<lambda>k. req_peer (connection_queue ?q ! k)" "\<lambda>k. req_peer (connection_queue q ! k)"]
        cong [of _ req_peer] by (simp add: queue_ok_def)
    show "\<forall>k < length (connection_queue ?q). k \<notin> slots q \<longrightarrow> connection_queue ?q ! k = INVALIDATE_CONNECT_REQUEST"
    proof (intro allI impI)
      fix k assume k: "k < length (connection_queue ?q)" "k \<notin> slots q"
      show "connection_queue ?q ! k = INVALIDATE_CONNECT_REQUEST"
      proof (cases "k < length (connection_queue q)")
        case True
        then have "connection_queue q ! k = INVALIDATE_CONNECT_REQUEST" using q k(2) unfolding queue_ok_def by blast
        then show ?thesis using at [OF True] by simp
      qed (rule new [OF k(1)])
    qed
    have "{k \<in> slots q. \<not> blocked C (req_sd (connection_queue ?q ! k))}
        = {k \<in> slots q. \<not> blocked C (req_sd (connection_queue q ! k))}" (is "?new = ?old")
      using cong [of _ "\<lambda>r. blocked C (req_sd r)"] by auto
    moreover have "array_at ?q = array_at q \<or> completed_queue q = []"
      using stay [OF True] by (cases moved) (simp_all add: resize_queue_def)
    moreover have "set (completed_queue q) = Pair (array_at q) ` ?old" using q by (simp add: queue_ok_def)
    ultimately show "set (completed_queue q) = Pair (array_at ?q) ` ?new" by auto
  qed (use q in \<open>simp_all add: queue_ok_def\<close>)
  moreover obtain l where "C L = Some l" "is_listening l" using queue_owner [OF ok] by blast
  ultimately show ?thesis
    by (intro queue_replaced [where C = C and l = l]) (use ok in \<open>auto simp: demux_ok_def\<close>)
qed

text \<open>A new request.\<close>

lemma request_added:
  assumes ok: "demux_ok C Q" "C L = Some l" "is_listening l" "Q L = Some q"
    and k: "k < length (connection_queue q)" "k \<notin> slots q" "cur_len q < max_len q"
    and new: "C sd = None" "0 \<le> sd" "listen_sd c = L" "\<not> is_active c" "\<not> is_listening c" "thread_started c"
      "blocking (conn c)" "peer_sockaddr c = addr" "peer_addr_len c = 16" "length addr = 16"
    and peer: "\<forall>j \<in> slots q. req_peer (connection_queue q ! j) \<noteq> addr"
    and l': "is_listening l'" "bound l'" "\<not> thread_started l'"
  shows "demux_ok (C(L \<mapsto> l', sd \<mapsto> c)) (Q(L \<mapsto> q\<lparr>cur_len := cur_len q + 1, connection_queue :=
    (connection_queue q)[k := \<lparr>req_peer = addr, req_peer_len = 16, req_sd = sd\<rparr>]\<rparr>))"
    (is "demux_ok ?C (Q(L \<mapsto> ?q))")
proof (rule queue_replaced [OF ok(1)])
  have q: "queue_ok C L q" using ok(1,4) by (simp add: demux_ok_def)
  have LS: "sd \<noteq> L" using ok(2) new(1) by auto
  have s: "slots ?q = insert k (slots q)" using slots_taken [OF k(1), of "\<lparr>req_peer = addr, req_peer_len = 16, req_sd = sd\<rparr>"] new(2) by simp
  have at: "connection_queue ?q ! j = connection_queue q ! j" if "j \<in> slots q" for j
  proof -
    have "j \<noteq> k" using that k(2) by auto
    then show ?thesis by simp
  qed
  have old: "C (req_sd (connection_queue q ! j)) \<noteq> None" "req_sd (connection_queue q ! j) \<noteq> L"
    "child_of C L (connection_queue q ! j)" if "j \<in> slots q" for j
  proof -
    show "child_of C L (connection_queue q ! j)" using q that by (simp add: queue_ok_def)
    then show "C (req_sd (connection_queue q ! j)) \<noteq> None" "req_sd (connection_queue q ! j) \<noteq> L"
      using ok(2,3) by (auto simp: child_of_def)
  qed
  have same: "?C (req_sd (connection_queue q ! j)) = C (req_sd (connection_queue q ! j))" if "j \<in> slots q" for j
    using old [OF that] new(1) by auto
  show "?C L = Some l'" using LS by simp
  show "queue_ok ?C L ?q"
    unfolding queue_ok_def s
  proof (intro conjI)
    show "length (connection_queue ?q) = unat (max_len ?q)" using q by (simp add: queue_ok_def)
    have "unat (cur_len q + 1) = unat (cur_len q) + 1" using k(3) unsigned_less [of "max_len q", where ?'a = nat]
      by (simp add: word_less_nat_alt unat_word_ariths)
    then show "unat (cur_len ?q) = card (insert k (slots q))" using q k(2) by (simp add: queue_ok_def)
    show "\<forall>j \<in> insert k (slots q). child_of ?C L (connection_queue ?q ! j)"
    proof
      fix j assume "j \<in> insert k (slots q)"
      then consider "j = k" | "j \<in> slots q" by auto
      then show "child_of ?C L (connection_queue ?q ! j)"
      proof cases
        case 1
        then show ?thesis using k(1) new by (simp add: child_of_def)
      next
        case 2
        from old(3) [OF this] same [OF this] have "child_of ?C L (connection_queue q ! j)"
          unfolding child_of_def by metis
        with at [OF 2] show ?thesis by simp
      qed
    qed
    show "inj_on (\<lambda>j. req_sd (connection_queue ?q ! j)) (insert k (slots q))"
    proof (rule inj_on_new)
      show "inj_on (\<lambda>j. req_sd (connection_queue q ! j)) (slots q)" using q by (simp add: queue_ok_def)
      show "req_sd (connection_queue q ! j) \<noteq> req_sd (connection_queue ?q ! k)" if "j \<in> slots q" for j
        using old(1) [OF that] new(1) k(1) by auto
    qed (rule arg_cong [where f = req_sd, OF at])
    show "inj_on (\<lambda>j. req_peer (connection_queue ?q ! j)) (insert k (slots q))"
    proof (rule inj_on_new)
      show "inj_on (\<lambda>j. req_peer (connection_queue q ! j)) (slots q)" using q by (simp add: queue_ok_def)
      show "req_peer (connection_queue q ! j) \<noteq> req_peer (connection_queue ?q ! k)" if "j \<in> slots q" for j
        using peer that k(1) by auto
    qed (rule arg_cong [where f = req_peer, OF at])
    show "\<forall>j < length (connection_queue ?q). j \<notin> insert k (slots q) \<longrightarrow> connection_queue ?q ! j = INVALIDATE_CONNECT_REQUEST"
      using q by (simp add: queue_ok_def)
    show "distinct (completed_queue ?q)" using q by (simp add: queue_ok_def)
    have "blocked ?C (req_sd (connection_queue ?q ! j)) = blocked C (req_sd (connection_queue q ! j))"
      if "j \<in> slots q" for j
      unfolding at [OF that] blocked_def same [OF that] ..
    moreover have "blocked ?C (req_sd (connection_queue ?q ! k))" using new(7) k(1) by (simp add: blocked_def)
    ultimately have "{j \<in> insert k (slots q). \<not> blocked ?C (req_sd (connection_queue ?q ! j))} =
        {j \<in> slots q. \<not> blocked C (req_sd (connection_queue q ! j))}"
      by (rule selected_old)
    then show "set (completed_queue ?q) = Pair (array_at ?q) ` {j \<in> insert k (slots q). \<not> blocked ?C (req_sd (connection_queue ?q ! j))}"
      using q by (simp add: queue_ok_def)
  qed
qed (use assms in \<open>auto simp: demux_ok_def split: if_splits\<close>)

text \<open>The connection of a request is established.\<close>

lemma request_completed:
  assumes ok: "demux_ok C Q" "Q L = Some q" "k \<in> slots q"
    and c: "C (req_sd (connection_queue q ! k)) = Some c" "blocking (conn c)" "face c' = face c" "\<not> blocking (conn c')"
  shows "demux_ok (C(req_sd (connection_queue q ! k) \<mapsto> c'))
    (Q(L \<mapsto> q\<lparr>completed_queue := completed_queue q @ [(array_at q, k)]\<rparr>))" (is "demux_ok ?C (Q(L \<mapsto> ?q))")
proof -
  have q: "queue_ok C L q" using ok by (simp add: demux_ok_def)
  have child: "child_of C L (connection_queue q ! j)" if "j \<in> slots q" for j using q that by (simp add: queue_ok_def)
  obtain l where l: "C L = Some l" "is_listening l" using queue_owner [OF ok(1,2)] by blast
  have f: "listen_sd c = L" "\<not> is_listening c" "\<not> is_listening c'" "thread_started c"
    using child [OF ok(3)] c by (auto simp: child_of_def face_def)
  have sd: "req_sd (connection_queue q ! k) \<noteq> L" using l f c(1) by auto
  have inj: "j = k" if "j \<in> slots q" "req_sd (connection_queue q ! j) = req_sd (connection_queue q ! k)" for j
    using q that ok(3) by (auto simp: queue_ok_def inj_on_def)
  have s: "slots ?q = slots q" by (simp add: slots_def)
  show ?thesis
  proof (rule queue_replaced [OF ok(1)])
    show "queue_ok ?C L ?q"
      unfolding queue_ok_def s
    proof (intro conjI)
      show "\<forall>j \<in> slots q. child_of ?C L (connection_queue ?q ! j)"
        using child_of_update [OF child c(1,3)] by simp
      have "blocked C (req_sd (connection_queue q ! k))" using c by (simp add: blocked_def)
      then have "(array_at q, k) \<notin> set (completed_queue q)" using q by (auto simp: queue_ok_def)
      then show "distinct (completed_queue ?q)" using q by (simp add: queue_ok_def)
      have "{j \<in> slots q. \<not> blocked ?C (req_sd (connection_queue q ! j))} =
          insert k {j \<in> slots q. \<not> blocked C (req_sd (connection_queue q ! j))}"
        using ok(3) c inj by (auto simp: blocked_def)
      then show "set (completed_queue ?q) = Pair (array_at ?q) `
          {j \<in> slots q. \<not> blocked ?C (req_sd (connection_queue ?q ! j))}"
        using q by (simp add: queue_ok_def)
    qed (use q in \<open>simp_all add: queue_ok_def\<close>)
    show "?C L = Some l" "is_listening l" using l sd by simp_all
  qed (use ok f c in \<open>auto simp: demux_ok_def split: if_splits\<close>)
qed

text \<open>A connection is accepted.\<close>

lemma request_accepted:
  assumes ok: "demux_ok C Q" "Q L = Some q" "completed_queue q = (a, k) # rest"
  shows "demux_ok C (Q(L \<mapsto> q\<lparr>completed_queue := rest, cur_len := cur_len q - 1, connection_queue :=
    (connection_queue q)[k := INVALIDATE_CONNECT_REQUEST]\<rparr>))" (is "demux_ok C (Q(L \<mapsto> ?q))")
    and "a = array_at q" "k \<in> slots q" "cur_len q \<noteq> 0"
proof -
  have q: "queue_ok C L q" using ok by (simp add: demux_ok_def)
  have m: "(a, k) \<in> set (completed_queue q)" using ok(3) by simp
  with q show a: "a = array_at q" and k: "k \<in> slots q" by (auto simp: queue_ok_def)
  then have "card (slots q) \<noteq> 0" by auto
  then have cur: "unat (cur_len q) \<noteq> 0" using q by (simp add: queue_ok_def)
  then show "cur_len q \<noteq> 0" by auto
  then have minus: "unat (cur_len q - 1) = unat (cur_len q) - 1"
    using unat_minus_one [of "cur_len q"] by simp
  have s: "slots ?q = slots q - {k}" by (rule slots_freed)
  have at: "connection_queue ?q ! j = connection_queue q ! j" if "j \<noteq> k" for j using that by simp
  obtain l where l: "C L = Some l" "is_listening l" using queue_owner [OF ok(1,2)] by blast
  have "queue_ok C L ?q"
    unfolding queue_ok_def s
  proof (intro conjI)
    show "unat (cur_len ?q) = card (slots q - {k})" using q k minus by (simp add: queue_ok_def)
    show "\<forall>j \<in> slots q - {k}. child_of C L (connection_queue ?q ! j)" using q by (simp add: queue_ok_def)
    show "inj_on (\<lambda>j. req_sd (connection_queue ?q ! j)) (slots q - {k})"
      "inj_on (\<lambda>j. req_peer (connection_queue ?q ! j)) (slots q - {k})"
      using q by (auto simp: queue_ok_def inj_on_def)
    show "\<forall>j < length (connection_queue ?q). j \<notin> slots q - {k} \<longrightarrow> connection_queue ?q ! j = INVALIDATE_CONNECT_REQUEST"
      using q slots_bound [OF k] by (auto simp: queue_ok_def nth_list_update)
    have "set (completed_queue q) = Pair (array_at q) ` {j \<in> slots q. \<not> blocked C (req_sd (connection_queue q ! j))}"
      using q by (simp add: queue_ok_def)
    moreover have "set rest = set (completed_queue q) - {(a, k)}" using q ok(3) by (auto simp: queue_ok_def)
    ultimately show "set (completed_queue ?q) = Pair (array_at ?q) `
        {j \<in> slots q - {k}. \<not> blocked C (req_sd (connection_queue ?q ! j))}"
      using a by auto
  qed (use q ok(3) in \<open>simp_all add: queue_ok_def\<close>)
  then show "demux_ok C (Q(L \<mapsto> ?q))"
    by (intro queue_replaced [where C = C and l = l]) (use ok l in \<open>auto simp: demux_ok_def\<close>)
qed

text \<open>A listening socket is closed, and with it those in its queue.\<close>

lemma queue_closed:
  assumes ok: "demux_ok C Q" "Q L = Some q"
    and gone: "\<And>sd. C' sd = (if sd = L \<or> sd \<in> (\<lambda>k. req_sd (connection_queue q ! k)) ` slots q then None else C sd)"
  shows "demux_ok C' (Q(L := None))"
proof -
  have q: "queue_ok C L q" using ok by (simp add: demux_ok_def)
  have child: "\<exists>c. C sd = Some c \<and> listen_sd c = L \<and> \<not> is_listening c"
    if "sd \<in> (\<lambda>k. req_sd (connection_queue q ! k)) ` slots q" for sd
    using q that by (auto simp: queue_ok_def child_of_def)
  have "queue_ok C' M r" if r: "Q M = Some r" and m: "M \<noteq> L" for M r
  proof (rule queue_ok_cong)
    show rk: "queue_ok C M r" using ok(1) r by (simp add: demux_ok_def)
    fix k c assume k: "k \<in> slots r" and c: "C (req_sd (connection_queue r ! k)) = Some c"
    have "child_of C M (connection_queue r ! k)" using rk k by (simp add: queue_ok_def)
    then have "listen_sd c = M" "\<not> is_listening c" using c by (auto simp: child_of_def)
    then have "C' (req_sd (connection_queue r ! k)) = Some c"
      using c m child ok by (force simp: gone demux_ok_def)
    then show "\<exists>d. C' (req_sd (connection_queue r ! k)) = Some d \<and> face d = face c \<and>
        blocking (conn d) = blocking (conn c)" by simp
  qed
  moreover have "\<exists>m. C' M = Some m \<and> is_listening m" if "Q M = Some r" "M \<noteq> L" for M r
    using ok(1) that child by (fastforce simp: demux_ok_def gone)
  ultimately show ?thesis using ok by (auto simp: demux_ok_def gone split: if_splits)
qed

end
