(* ===== verification/Stcp_Demux.thy ===== *)
theory Stcp_Demux
  imports Stcp_Backlog
begin

text \<open>
  Every step of a process keeps the invariant of \<open>Stcp_Backlog\<close>, operation by operation.
\<close>

definition process_ok :: "process \<Rightarrow> bool" where
  "process_ok p \<longleftrightarrow> tidy_tables p \<and> demux_ok (ctx p) (queues p)"

lemma process_ok_tidy [simp]: "process_ok p \<Longrightarrow> tidy_tables p"
  by (simp add: process_ok_def)

lemma ctx_same: "global_ctx p' = global_ctx p \<Longrightarrow> ctx p' = ctx p"
  by (simp add: ctx_def fun_eq_iff)

lemma process_ok_same:
  "global_ctx p' = global_ctx p \<Longrightarrow> listen_table p' = listen_table p \<Longrightarrow> process_ok p' = process_ok p"
  using ctx_same [of p' p] by (simp add: process_ok_def tidy_tables_def)

lemma process_ok_environment [simp]:
  "process_ok (p\<lparr>errno := e\<rparr>) = process_ok p" "process_ok (p\<lparr>closed_fds := fs\<rparr>) = process_ok p"
  by (rule process_ok_same; simp)+

lemma put_queue_done:
  assumes "put_queue sd q p = Inr u" "tidy_tables p" "0 \<le> sd"
  shows "tidy_tables u" "ctx u = ctx p" "queues u = (queues p)(sd \<mapsto> q)" "u = p\<lparr>listen_table := listen_table u\<rparr>"
  using put_queue_views [OF assms(2,3), of q] assms(1) by auto

lemma my_sd_ok: "process_ok p \<Longrightarrow> ctx p sd = Some c \<Longrightarrow> my_sd c = sd"
  by (simp add: process_ok_def tidy_tables_def)

lemma process_ok_demux: "process_ok p \<Longrightarrow> demux_ok (ctx p) (queues p)"
  by (simp add: process_ok_def)

lemma queue_facts:
  assumes "process_ok p" "queues p L = Some q"
  shows "queue_ok (ctx p) L q" "\<exists>l. ctx p L = Some l \<and> is_listening l"
  using queue_is_ok [OF process_ok_demux [OF assms(1)] assms(2)] queue_owner [OF process_ok_demux [OF assms(1)] assms(2)]
  by auto

lemma pending_facts:
  assumes "process_ok p" "pending (queues p) sd" "ctx p sd = Some c"
  shows "thread_started c" "\<not> is_active c" "\<not> is_listening c" "peer_addr_len c = 16"
proof -
  have "demux_ok (ctx p) (queues p)" using assms(1) by (simp add: process_ok_def)
  from pending_child [OF this assms(2)] obtain d where "ctx p sd = Some d" "thread_started d"
    "\<not> is_active d" "\<not> is_listening d" "peer_addr_len d = 16" by metis
  then show "thread_started c" "\<not> is_active c" "\<not> is_listening c" "peer_addr_len c = 16"
    using assms(3) by auto
qed

lemma put_context_ok:
  assumes "process_ok p" "ctx p sd = Some c" "my_sd c' = sd" "is_listening c' = is_listening c"
    and "is_listening c \<Longrightarrow> bound c' \<and> \<not> thread_started c'"
    and "pending (queues p) sd \<Longrightarrow> face c' = face c \<and> blocking (conn c') = blocking (conn c)"
  shows "process_ok (put_context c' p)" "ctx (put_context c' p) sd = Some c'"
proof -
  have r: "0 \<le> my_sd c'" "my_sd c' < 64" using ctx_range [OF assms(2)] assms(3) by auto
  have "demux_ok ((ctx p)(sd \<mapsto> c')) (queues p)"
    by (rule context_change) (use assms in \<open>auto simp: process_ok_def\<close>)
  then show "process_ok (put_context c' p)" "ctx (put_context c' p) sd = Some c'"
    using put_context_views [OF process_ok_tidy [OF assms(1)] r] assms(3) by (simp_all add: process_ok_def)
qed

text \<open>A change of the connection that leaves the flags alone, and of what the queues do not see.\<close>

lemma put_hidden_ok:
  assumes "process_ok p" "ctx p sd = Some c" "my_sd c' = my_sd c" "face c' = face c"
    and "blocking (conn c') = blocking (conn c)" "bound c' = bound c"
  shows "process_ok (put_context c' p)" "ctx (put_context c' p) sd = Some c'"
proof -
  have m: "my_sd c = sd" by (rule my_sd_ok [OF assms(1,2)])
  have "is_listening c \<Longrightarrow> bound c \<and> \<not> thread_started c"
    using assms(1,2) by (auto simp: process_ok_def demux_ok_def)
  then show "process_ok (put_context c' p)" "ctx (put_context c' p) sd = Some c'"
    using put_context_ok [OF assms(1,2), of c'] assms(3-6) m by (auto simp: face_def)
qed

subsection \<open>Calls\<close>

lemma new_mysocket_cases:
  assumes "mysock_new_mysocket fd reliable p = Inr (sd, p')" "tidy_tables p"
  obtains (full) c where "sd = -1" "p' = p\<lparr>closed_fds := closed_fds p @ network_close c, errno := EMFILE\<rparr>"
      "\<forall>k. 0 \<le> k \<and> k < 64 \<longrightarrow> ctx p k \<noteq> None"
    | (fresh) c where "0 \<le> sd" "sd < 64" "ctx p sd = None" "p' = put_context (c\<lparr>my_sd := sd\<rparr>) p"
      "mysock_allocate_context fd reliable p = Inr c" "\<forall>k. 0 \<le> k \<and> k < sd \<longrightarrow> ctx p k \<noteq> None"
proof -
  from assms(1) obtain c where c: "mysock_allocate_context fd reliable p = Inr c"
    by (auto simp: mysock_new_mysocket_def and_then_eq_Inr)
  show thesis
  proof (cases "List.find (\<lambda>k. global_ctx p ! k = None) [0..<64]")
    case None
    then have "\<forall>k < 64. global_ctx p ! k \<noteq> None" by (auto simp: find_None_iff)
    then have "\<forall>k. 0 \<le> k \<and> k < 64 \<longrightarrow> ctx p k \<noteq> None" by (simp add: ctx_def nat_less_iff)
    then show thesis using assms(1) c None
      by (intro full) (auto simp: mysock_new_mysocket_def mysock_free_context_def)
  next
    case (Some k)
    then have k: "k < 64" "global_ctx p ! k = None" "\<forall>j < k. global_ctx p ! j \<noteq> None"
      by (auto simp: find_Some_iff)
    then have "ctx p (int k) = None" "\<forall>j. 0 \<le> j \<and> j < int k \<longrightarrow> ctx p j \<noteq> None"
      using ctx_def by (auto simp: ctx_def nat_less_iff)
    then show thesis using assms(1) c Some k by (intro fresh [of c]) (auto simp: mysock_new_mysocket_def)
  qed
qed

lemma allocated_fields:
  assumes "mysock_allocate_context fd reliable p = Inr c"
  shows "\<not> is_listening c" "blocking (conn c)" "\<not> is_active c" "socket_fd c = fd" "0 \<le> fd" "peer_addr_len c = 0"
  using assms by (auto simp: mysock_allocate_context_def fresh_connection_def split: if_splits)

lemma new_mysocket_ok:
  assumes "mysock_new_mysocket fd reliable p = Inr (sd, p')" "process_ok p"
  shows "process_ok p'"
proof (rule new_mysocket_cases [OF assms(1) process_ok_tidy [OF assms(2)]])
  fix c assume "p' = p\<lparr>closed_fds := closed_fds p @ network_close c, errno := EMFILE\<rparr>"
  then show ?thesis using assms(2) by simp
next
  fix c assume c: "0 \<le> sd" "sd < 64" "ctx p sd = None" "p' = put_context (c\<lparr>my_sd := sd\<rparr>) p"
    "mysock_allocate_context fd reliable p = Inr c"
  have "demux_ok ((ctx p)(sd \<mapsto> c\<lparr>my_sd := sd\<rparr>)) (queues p)"
  proof (rule context_change)
    show "demux_ok (ctx p) (queues p)" using assms(2) by (simp add: process_ok_def)
    show "\<exists>d. ctx p sd = Some d \<and> face (c\<lparr>my_sd := sd\<rparr>) = face d \<and> blocking (conn (c\<lparr>my_sd := sd\<rparr>)) = blocking (conn d)"
      if "pending (queues p) sd"
      using pending_child [OF \<open>demux_ok (ctx p) (queues p)\<close> that] c(3) by auto
  qed (use allocated_fields(1) [OF c(5)] c(3) in simp_all)
  then show ?thesis
    using put_context_views [OF process_ok_tidy [OF assms(2)], of "c\<lparr>my_sd := sd\<rparr>"] c by (simp add: process_ok_def)
qed

lemma mybind_ok:
  assumes "mybind sd addr rc p = Inr (r, p')" "process_ok p"
  shows "process_ok p'"
proof -
  obtain c where c: "ctx p sd = Some c" "mysock_get_context sd p = Inr c"
    using assms by (auto simp: mybind_def and_then_eq_Inr get_context_Inr)
  have m: "my_sd c = sd" by (rule my_sd_ok [OF assms(2) c(1)])
  have "process_ok (put_context (c\<lparr>bound := True, local_sockaddr := addr\<rparr>) p)" if "\<not> is_listening c"
    by (rule put_context_ok(1) [OF assms(2) c(1)]) (use that m in \<open>simp_all add: face_def\<close>)
  then show ?thesis
    using assms c by (auto simp: mybind_def split: if_splits)
qed

lemma transport_init_ok:
  assumes "mysock_transport_init sd active p = Inr p'" "process_ok p" "\<not> pending (queues p) sd"
  shows "process_ok p'"
proof -
  obtain c where c: "ctx p sd = Some c" "\<not> is_listening c"
    "p' = put_context ((network_start_recv_thread (c\<lparr>is_active := active\<rparr>))\<lparr>thread_started := True\<rparr>) p"
    using assms(1,2) by (auto simp: mysock_transport_init_def and_then_eq_Inr get_context_Inr split: if_splits)
  have m: "my_sd c = sd" by (rule my_sd_ok [OF assms(2) c(1)])
  show ?thesis unfolding c(3)
    by (rule put_context_ok(1) [OF assms(2) c(1)]) (use assms(3) c(2) m in \<open>simp_all add: network_start_recv_thread_def\<close>)
qed

lemma queues_put_context [simp]: "queues (put_context c p) = queues p"
  by (simp add: put_context_def)

lemma myconnect_ok:
  assumes "myconnect_start sd name namelen rc p = Inr (r, p')" "process_ok p"
  shows "process_ok p'"
proof -
  obtain c where c: "ctx p sd = Some c" "mysock_get_context sd p = Inr c"
    using assms by (auto simp: myconnect_start_def and_then_eq_Inr get_context_Inr)
  have m: "my_sd c = sd" by (rule my_sd_ok [OF assms(2) c(1)])
  show ?thesis
  proof (cases "peer_addr_len c = 0")
    case False
    then show ?thesis using assms c by (auto simp: myconnect_start_def)
  next
    case True
    have np: "\<not> pending (queues p) sd" using pending_facts [OF assms(2) _ c(1)] True by auto
    let ?c = "c\<lparr>peer_sockaddr := name, peer_addr_len := namelen, peer_addr_valid := True\<rparr>"
    note run = assms(1) [unfolded myconnect_start_def c(2) and_then_simps Let_def]
    obtain e where e: "(if bound ?c then Inr ?c else mysock_bind_ephemeral rc ?c) = Inr e"
      using run True by (cases "if bound ?c then Inr ?c else mysock_bind_ephemeral rc ?c") auto
    then have e': "my_sd e = sd" "is_listening e = is_listening c"
      using m by (auto simp: mysock_bind_ephemeral_def split: if_splits)
    define d where "d = e\<lparr>conn := (conn e)\<lparr>local_addr := host_ip p, local_port := port_of p (socket_fd e),
      peer_addr := sin_addr name, peer_port := sin_port name\<rparr>\<rparr>"
    have d: "my_sd d = sd" "is_listening d = is_listening c" using e' by (simp_all add: d_def)
    have init: "mysock_transport_init sd True (put_context d p) = Inr p'"
      using run True e by (auto simp: d_def and_then_eq_Inr)
    have v: "tidy_tables (put_context d p)" "ctx (put_context d p) sd = Some d"
      using put_context_views [OF process_ok_tidy [OF assms(2)], of d] ctx_range [OF c(1)] d(1) by simp_all
    then have "\<not> is_listening d"
      using init by (auto simp: mysock_transport_init_def and_then_eq_Inr get_context_Inr split: if_splits)
    then have "process_ok (put_context d p)"
      by (intro put_context_ok(1) [OF assms(2) c(1)]) (use d np in simp_all)
    then show ?thesis by (rule transport_init_ok [OF init]) (use np in simp)
  qed
qed


lemma listening_facts:
  assumes "process_ok p" "ctx p sd = Some c" "is_listening c"
  shows "bound c" "\<not> thread_started c" "\<not> pending (queues p) sd" "\<exists>q. queues p sd = Some q \<and> queue_ok (ctx p) sd q"
proof -
  have l: "bound c \<and> \<not> thread_started c \<and> queues p sd \<noteq> None"
    using process_ok_demux [OF assms(1)] assms(2,3) unfolding demux_ok_def by blast
  then show "bound c" "\<not> thread_started c" "\<exists>q. queues p sd = Some q \<and> queue_ok (ctx p) sd q"
    using queue_facts(1) [OF assms(1)] by auto
  show "\<not> pending (queues p) sd" using pending_facts(3) [OF assms(1) _ assms(2)] assms(3) by auto
qed

lemma mylisten_ok:
  assumes "mylisten sd backlog moved rc p = Inr (r, p')" "process_ok p"
    and "\<And>c. ctx p sd = Some c \<Longrightarrow> \<not> is_listening c \<and> \<not> thread_started c"
  shows "process_ok p'"
proof -
  obtain c where c: "ctx p sd = Some c" "mysock_get_context sd p = Inr c" "bound c"
    using assms by (auto simp: mylisten_def and_then_eq_Inr get_context_Inr split: if_splits)
  note m = my_sd_ok [OF assms(2) c(1)] and r = ctx_range [OF c(1)]
  let ?l = "c\<lparr>conn := (conn c)\<lparr>listening := True\<rparr>\<rparr>" and ?n = "of_int backlog + 1 :: 32 word"
  obtain u where u: "mysock_set_backlog ?l (of_int backlog) moved (put_context ?l p) = Inr u"
    "p' = u \<or> p' = put_context (network_start_recv_thread ?l) u"
    using assms(1) c by (auto simp: mylisten_def Let_def and_then_eq_Inr split: if_splits)
  have v: "tidy_tables (put_context ?l p)" "ctx (put_context ?l p) = (ctx p)(sd \<mapsto> ?l)"
    using put_context_views [OF process_ok_tidy [OF assms(2)], of ?l] m r by simp_all
  have q: "queues p sd = None"
    using queue_facts(2) [OF assms(2), of sd] assms(3) c(1) by (cases "queues p sd") auto
  then have none: "get_connection_queue ?l (put_context ?l p) = Inr None"
    using get_queue_eq [OF v(1), of ?l] m r c(3) by simp
  define port a where "port = ntohs (port_of p (socket_fd c))" and "a = next_array p"
  have t: "and_then (hash_insert sd \<lparr>queue_port = port, max_len = 0, cur_len = 0, array_at = a,
      connection_queue = [], completed_queue = []\<rparr> (listen_table p)) (\<lambda>t.
      put_queue sd (resize_queue ?n moved (a + 1) \<lparr>queue_port = port, max_len = 0, cur_len = 0, array_at = a,
        connection_queue = [], completed_queue = []\<rparr>)
        ((put_context ?l p)\<lparr>listen_table := t, next_array := a + 2\<rparr>)) = Inr u"
    using u(1) none m unfolding mysock_set_backlog_def Let_def
    by (auto simp: and_then_eq_Inr put_context_def port_def a_def split: if_splits)
  obtain b where z: "resize_queue ?n moved (a + 1) \<lparr>queue_port = port, max_len = 0, cur_len = 0, array_at = a,
      connection_queue = [], completed_queue = []\<rparr> = \<lparr>queue_port = port, max_len = ?n, cur_len = 0, array_at = b,
      connection_queue = replicate (unat ?n) INVALIDATE_CONNECT_REQUEST, completed_queue = []\<rparr>"
    by (cases "?n = 0") (auto simp: resize_queue_def word_gt_0)
  let ?q = "\<lparr>queue_port = port, max_len = ?n, cur_len = 0, array_at = b,
      connection_queue = replicate (unat ?n) INVALIDATE_CONNECT_REQUEST, completed_queue = []\<rparr>"
  obtain t where ins: "hash_insert sd \<lparr>queue_port = port, max_len = 0, cur_len = 0, array_at = a,
      connection_queue = [], completed_queue = []\<rparr> (listen_table p) = Inr t" "hash_sound t"
      "table.contents t = (queues p)(sd \<mapsto> \<lparr>queue_port = port, max_len = 0, cur_len = 0, array_at = a,
      connection_queue = [], completed_queue = []\<rparr>)"
    using table.insert_contents [of "listen_table p" sd "\<lparr>queue_port = port, max_len = 0, cur_len = 0,
      array_at = a, connection_queue = [], completed_queue = []\<rparr>"] assms(2) r q
    by (auto simp: process_ok_def tidy_tables_def)
  let ?v = "(put_context ?l p)\<lparr>listen_table := t, next_array := a + 2\<rparr>"
  have w: "tidy_tables ?v" "ctx ?v = (ctx p)(sd \<mapsto> ?l)"
  proof -
    have "ctx ?v = ctx (put_context ?l p)" by (rule ctx_same) simp
    then show "ctx ?v = (ctx p)(sd \<mapsto> ?l)" using v(2) by simp
    then show "tidy_tables ?v" using v ins(2) by (simp add: tidy_tables_def)
  qed
  have put: "put_queue sd ?q ?v = Inr u" using t z ins(1) by simp
  have u': "tidy_tables u" "ctx u = (ctx p)(sd \<mapsto> ?l)" "queues u = (queues p)(sd \<mapsto> ?q)"
    using put_queue_done [OF put w(1)] r w(2) ins(3) by auto
  have "demux_ok ((ctx p)(sd \<mapsto> ?l)) ((queues p)(sd \<mapsto> ?q))"
    by (rule queue_started) (use assms(2,3) c in \<open>auto simp: process_ok_def\<close>)
  then have ok: "process_ok u" using u' by (simp add: process_ok_def)
  have "process_ok (put_context (network_start_recv_thread ?l) u)"
    by (rule put_hidden_ok(1) [OF ok, of sd ?l]) (use u'(2) in \<open>simp_all add: face_def network_start_recv_thread_def\<close>)
  then show ?thesis using u(2) ok by auto
qed


text \<open>\<open>mylisten\<close> on a socket that listens already.\<close>

lemma mylisten_again:
  assumes "mylisten sd backlog moved rc p = Inr (r, p')" "process_ok p"
    and "ctx p sd = Some c" "is_listening c" "queues p sd = Some q"
  shows "\<exists>u a. tidy_tables u \<and> ctx u = ctx p \<and> queues u = (queues p)(sd \<mapsto> resize_queue (of_int backlog + 1) moved a q) \<and>
    (p' = u \<or> p' = put_context (network_start_recv_thread c) u)"
proof -
  note m = my_sd_ok [OF assms(2,3)] and r = ctx_range [OF assms(3)] and f = listening_facts [OF assms(2-4)]
  have same: "c\<lparr>conn := (conn c)\<lparr>listening := True\<rparr>\<rparr> = c" using assms(4) by simp
  have g: "mysock_get_context sd p = Inr c" using assms(2,3) by (simp add: get_context_Inr)
  have v: "tidy_tables (put_context c p)" "ctx (put_context c p) = ctx p"
    using put_context_views [OF process_ok_tidy [OF assms(2)], of c] m r assms(3) by auto
  have some: "get_connection_queue c (put_context c p) = Inr (Some q)"
    using get_queue_eq [OF v(1), of c] m r f(1) assms(4,5) by simp
  obtain u a where u: "put_queue sd (resize_queue (of_int backlog + 1) moved a q)
      ((put_context c p)\<lparr>next_array := next_array (put_context c p) + 2\<rparr>) = Inr u"
    "p' = u \<or> p' = put_context (network_start_recv_thread c) u"
    using assms(1) g some m unfolding mylisten_def mysock_set_backlog_def Let_def
    by (auto simp: and_then_eq_Inr same split: if_splits)
  have w: "tidy_tables ((put_context c p)\<lparr>next_array := n\<rparr>)" "ctx ((put_context c p)\<lparr>next_array := n\<rparr>) = ctx p" for n
  proof -
    show "ctx ((put_context c p)\<lparr>next_array := n\<rparr>) = ctx p" using v(2) ctx_same [of "(put_context c p)\<lparr>next_array := n\<rparr>"] by simp
    then show "tidy_tables ((put_context c p)\<lparr>next_array := n\<rparr>)" using v by (simp add: tidy_tables_def)
  qed
  from put_queue_done [OF u(1) w(1)] r w(2) have
    "tidy_tables u" "ctx u = ctx p" "queues u = (queues p)(sd \<mapsto> resize_queue (of_int backlog + 1) moved a q)"
    by simp_all
  with u(2) show ?thesis by blast
qed

lemma mylisten_again_ok:
  assumes "mylisten sd backlog moved rc p = Inr (r, p')" "process_ok p"
    and c: "ctx p sd = Some c" "is_listening c" "queues p sd = Some q"
    and n: "max_len q \<le> of_int backlog + 1" "max_len q < of_int backlog + 1 \<Longrightarrow> moved \<Longrightarrow> completed_queue q = []"
  shows "process_ok p'"
proof -
  obtain u a where u: "tidy_tables u" "ctx u = ctx p"
    "queues u = (queues p)(sd \<mapsto> resize_queue (of_int backlog + 1) moved a q)"
    "p' = u \<or> p' = put_context (network_start_recv_thread c) u"
    using mylisten_again [OF assms(1-5)] by blast
  have ok: "process_ok u"
    using u(1-3) queue_resized [OF process_ok_demux [OF assms(2)] c(3) n] by (simp add: process_ok_def)
  have "process_ok (put_context (network_start_recv_thread c) u)"
    by (rule put_hidden_ok(1) [OF ok, of sd c]) (use u(2) c in \<open>simp_all add: face_def network_start_recv_thread_def\<close>)
  then show ?thesis using u(4) ok by auto
qed

text \<open>The connection that is accepted is the first of the completed ones.\<close>

lemma dequeue_result:
  assumes "process_ok p" "ctx p L = Some l" "is_listening l" "queues p L = Some q"
  shows "mysock_dequeue_connection l p = (case completed_queue q of [] \<Rightarrow> Inl Would_Block
    | (a, k) # rest \<Rightarrow> and_then (put_queue L (q\<lparr>completed_queue := rest, cur_len := cur_len q - 1,
        connection_queue := (connection_queue q)[k := INVALIDATE_CONNECT_REQUEST]\<rparr>) p)
        (\<lambda>p'. Inr (the (ctx p (req_sd (connection_queue q ! k))), p')))"
proof -
  note m = my_sd_ok [OF assms(1,2)] and r = ctx_range [OF assms(2)] and f = listening_facts [OF assms(1-3)]
  have g: "get_connection_queue l p = Inr (Some q)"
    using get_queue_eq [OF process_ok_tidy [OF assms(1)], of l] m r f(1) assms(3,4) by simp
  show ?thesis
  proof (cases "completed_queue q")
    case Nil
    then show ?thesis by (simp add: mysock_dequeue_connection_def g)
  next
    case (Cons e rest)
    obtain a k where e: "e = (a, k)" by (cases e)
    note acc = request_accepted [OF process_ok_demux [OF assms(1)] assms(4) Cons [unfolded e]]
    have "child_of (ctx p) L (connection_queue q ! k)"
      using queue_facts(1) [OF assms(1,4)] acc(3) by (simp add: queue_ok_def)
    then obtain c where "ctx p (req_sd (connection_queue q ! k)) = Some c" by (auto simp: child_of_def)
    then show ?thesis
      using Cons e g acc(2,4) m
      by (simp add: mysock_dequeue_connection_def get_context_eq [OF process_ok_tidy [OF assms(1)]])
  qed
qed

lemma myaccept_ok:
  assumes "myaccept sd p = Inr (r, a, p')" "process_ok p"
  shows "process_ok p'"
proof -
  obtain l where l: "ctx p sd = Some l" "mysock_get_context sd p = Inr l"
    using assms by (auto simp: myaccept_def and_then_eq_Inr get_context_Inr)
  show ?thesis
  proof (cases "is_listening l")
    case False
    then show ?thesis using assms l by (auto simp: myaccept_def)
  next
    case True
    obtain q where q: "queues p sd = Some q" using listening_facts(4) [OF assms(2) l(1) True] by blast
    obtain c u where u: "mysock_dequeue_connection l p = Inr (c, u)" "process_ok u \<Longrightarrow> process_ok p'"
      using assms(1) l True
      by (auto simp: myaccept_def and_then_eq_Inr split: if_splits)
    from u(1) obtain b k rest where d: "completed_queue q = (b, k) # rest"
      "put_queue sd (q\<lparr>completed_queue := rest, cur_len := cur_len q - 1,
        connection_queue := (connection_queue q)[k := INVALIDATE_CONNECT_REQUEST]\<rparr>) p = Inr u"
      by (auto simp: dequeue_result [OF assms(2) l(1) True q] and_then_eq_Inr split: list.splits)
    note v = put_queue_done [OF d(2) process_ok_tidy [OF assms(2)]]
    with request_accepted(1) [OF process_ok_demux [OF assms(2)] q d(1)] u(2) ctx_range [OF l(1)] show ?thesis
      by (simp add: process_ok_def)
  qed
qed

subsection \<open>Closing\<close>

declare myclose.simps [simp del]

lemma begin_views:
  assumes "myclose_begin sd p = Inr p'" "tidy_tables p"
  shows "\<exists>c. ctx p sd = Some c \<and> tidy_tables p' \<and>
    ctx p' = (ctx p)(sd \<mapsto> c\<lparr>conn := myclose_request (conn c)\<rparr>) \<and> queues p' = queues p"
proof -
  from assms obtain c where c: "ctx p sd = Some c" "p' = put_context (c\<lparr>conn := myclose_request (conn c)\<rparr>) p"
    by (auto simp: myclose_begin_def and_then_eq_Inr get_context_Inr)
  then show ?thesis
    using put_context_views [OF assms(2), of "c\<lparr>conn := myclose_request (conn c)\<rparr>"] my_sd_range [OF assms(2) c(1)] by simp
qed

lemma myclose_begin_ok:
  assumes "myclose_begin sd p = Inr p'" "process_ok p"
  shows "process_ok p'"
proof -
  obtain c where c: "ctx p sd = Some c" "p' = put_context (c\<lparr>conn := myclose_request (conn c)\<rparr>) p"
    using assms by (auto simp: myclose_begin_def and_then_eq_Inr get_context_Inr)
  show ?thesis unfolding c(2)
    by (rule put_hidden_ok(1) [OF assms(2) c(1)]) (simp_all add: face_def myclose_request_def)
qed

lemma free_views:
  assumes "tidy_tables p" "my_sd c = sd" "0 \<le> sd" "sd < 64"
  shows "tidy_tables (mysock_free_context True c p)" "ctx (mysock_free_context True c p) = (ctx p)(sd := None)"
    "queues (mysock_free_context True c p) = queues p"
proof -
  show v: "ctx (mysock_free_context True c p) = (ctx p)(sd := None)"
    using assms by (auto simp: ctx_def mysock_free_context_def Let_def tidy_tables_def nth_list_update fun_eq_iff)
  show "queues (mysock_free_context True c p) = queues p" by (simp add: mysock_free_context_def Let_def)
  show "tidy_tables (mysock_free_context True c p)"
    using assms(1) v by (auto simp: tidy_tables_def mysock_free_context_def Let_def)
qed


lemma stop_recv_fields:
  assumes "network_stop_recv_thread w c = Inr d"
  shows "my_sd d = my_sd c" "conn d = conn c" "bound d = bound c"
  using assms by (auto simp: network_stop_recv_thread_def split: if_splits)

text \<open>\<open>myclose\<close> of a mysocket that does not listen removes it and nothing else.\<close>

lemma myclose_plain:
  assumes "myclose (Suc n) woken sd p = Inr p'" "tidy_tables p" "\<And>c. ctx p sd = Some c \<Longrightarrow> \<not> is_listening c"
  shows "tidy_tables p'" "ctx p' = (ctx p)(sd := None)" "queues p' = queues p"
proof -
  obtain u where u: "myclose_begin sd p = Inr u" using assms(1) by (auto simp: myclose.simps and_then_eq_Inr)
  obtain c where c: "ctx p sd = Some c" "tidy_tables u" "ctx u = (ctx p)(sd \<mapsto> c\<lparr>conn := myclose_request (conn c)\<rparr>)"
    "queues u = queues p" using begin_views [OF u assms(2)] by blast
  let ?c = "c\<lparr>conn := myclose_request (conn c)\<rparr>"
  have l: "\<not> is_listening ?c" using assms(3) [OF c(1)] by (simp add: myclose_request_def)
  have m: "my_sd ?c = sd" "0 \<le> sd" "sd < 64" using my_sd_range [OF assms(2) c(1)] by simp_all
  have g: "mysock_get_context sd u = Inr ?c" using c by (simp add: get_context_Inr)
  note run = assms(1) [unfolded myclose.simps u g and_then_simps Let_def]
  obtain d where d: "my_sd d = sd" "conn d = conn ?c" "p' = mysock_free_context True d (put_context d u)"
  proof -
    obtain d1 where d1: "(if thread_started ?c then
        if is_listening ?c \<or> \<not> (is_active ?c \<or> listen_sd ?c \<noteq> -1) then Inl Assertion_Failed
        else if thread ?c \<noteq> Some Finished then Inl Would_Block else Inr (?c\<lparr>thread_started := False\<rparr>)
      else Inr ?c) = Inr d1"
      using run by (auto simp: and_then_eq_Inr)
    then have f: "my_sd d1 = sd" "conn d1 = conn ?c" using m by (auto split: if_splits)
    note run = run [unfolded d1 and_then_simps]
    obtain d2 where d2: "network_stop_recv_thread (woken sd) d1 = Inr d2" using run by (auto simp: and_then_eq_Inr)
    note f2 = stop_recv_fields [OF d2]
    show thesis
      by (rule that [of d2]) (use run d2 f f2 l in simp_all)
  qed
  have v: "tidy_tables (put_context d u)" "ctx (put_context d u) = (ctx u)(sd \<mapsto> d)"
    using put_context_views [OF c(2), of d] d(1) m by simp_all
  note w = free_views [OF v(1) d(1) m(2,3)]
  show "tidy_tables p'" "ctx p' = (ctx p)(sd := None)" "queues p' = queues p"
    using w v(2) c(3,4) by (simp_all add: d(3))
qed

lemma close_all:
  assumes "for_each rs (\<lambda>r p. if req_sd r \<noteq> -1 then myclose (Suc n) woken (req_sd r) p else Inr p) p = Inr p'"
    and "tidy_tables p" "\<And>r c. r \<in> set rs \<Longrightarrow> ctx p (req_sd r) = Some c \<Longrightarrow> \<not> is_listening c"
  shows "tidy_tables p' \<and> queues p' = queues p \<and>
    ctx p' = (\<lambda>sd. if sd \<in> req_sd ` {r \<in> set rs. req_sd r \<noteq> -1} then None else ctx p sd)"
  using assms
proof (induction rs arbitrary: p)
  case (Cons r rs)
  obtain u where u: "(if req_sd r \<noteq> -1 then myclose (Suc n) woken (req_sd r) p else Inr p) = Inr u"
    "for_each rs (\<lambda>r p. if req_sd r \<noteq> -1 then myclose (Suc n) woken (req_sd r) p else Inr p) u = Inr p'"
    using Cons.prems(1) by (auto simp: and_then_eq_Inr)
  have v: "tidy_tables u \<and> queues u = queues p \<and>
      ctx u = (if req_sd r \<noteq> -1 then (ctx p)(req_sd r := None) else ctx p)"
  proof (cases "req_sd r = -1")
    case True
    then show ?thesis using u(1) Cons.prems(2) by simp
  next
    case False
    then have "myclose (Suc n) woken (req_sd r) p = Inr u" using u(1) by simp
    moreover have "\<not> is_listening c" if "ctx p (req_sd r) = Some c" for c using Cons.prems(3) [of r] that by simp
    ultimately show ?thesis using myclose_plain [OF _ Cons.prems(2)] False by simp
  qed
  have "ctx u sd = Some c \<Longrightarrow> ctx p sd = Some c" for sd c
    using v by (auto split: if_splits)
  then have "\<not> is_listening c" if "x \<in> set rs" "ctx u (req_sd x) = Some c" for x c
    using Cons.prems(3) [of x c] that by simp
  from Cons.IH [OF u(2) _ this] v have "tidy_tables p' \<and> queues p' = queues u \<and>
    ctx p' = (\<lambda>sd. if sd \<in> req_sd ` {r \<in> set rs. req_sd r \<noteq> -1} then None else ctx u sd)" by simp
  with v show ?case by (auto simp: fun_eq_iff)
qed simp

lemma myclose_ok:
  assumes "myclose 2 woken sd p = Inr p'" "process_ok p" "\<not> pending (queues p) sd"
  shows "process_ok p'"
proof -
  define m where "m = Suc 0"
  have close: "myclose (Suc m) woken sd p = Inr p'" using assms(1) by (simp add: m_def numeral_2_eq_2)
  obtain u where u: "myclose_begin sd p = Inr u" using close by (auto simp: myclose.simps and_then_eq_Inr)
  obtain c where c: "ctx p sd = Some c" "tidy_tables u" "ctx u = (ctx p)(sd \<mapsto> c\<lparr>conn := myclose_request (conn c)\<rparr>)"
    "queues u = queues p" using begin_views [OF u process_ok_tidy [OF assms(2)]] by blast
  show ?thesis
  proof (cases "is_listening c")
    case False
    note v = myclose_plain [OF close process_ok_tidy [OF assms(2)]]
    have "demux_ok ((ctx p)(sd := None)) (queues p)"
      by (rule context_removed [OF process_ok_demux [OF assms(2)] assms(3)]) (use c(1) False in simp)
    then show ?thesis using v c(1) False by (simp add: process_ok_def)
  next
    case True
    let ?c = "c\<lparr>conn := myclose_request (conn c)\<rparr>"
    note f = listening_facts [OF assms(2) c(1) True]
    have ok: "process_ok u" by (rule myclose_begin_ok [OF u assms(2)])
    have id: "my_sd ?c = sd" "0 \<le> sd" "sd < 64"
      using my_sd_ok [OF assms(2) c(1)] ctx_range [OF c(1)] by simp_all
    have g: "mysock_get_context sd u = Inr ?c" using c by (simp add: get_context_Inr)
    have l: "is_listening ?c" using True by (simp add: myclose_request_def)
    obtain q where q: "queues u sd = Some q" using f(4) c(4) by auto
    note run = close [unfolded myclose.simps(2) u g and_then_simps Let_def]
    obtain d where d: "network_stop_recv_thread (woken sd) ?c = Inr d"
      using run f(2) by (auto simp: and_then_eq_Inr)
    note df = stop_recv_fields [OF d]
    have v: "tidy_tables (put_context d u)" "ctx (put_context d u) = (ctx u)(sd \<mapsto> d)"
      using put_context_views [OF c(2), of d] df id by simp_all
    have gq: "get_connection_queue d (put_context d u) = Inr (Some q)"
      using get_queue_eq [OF v(1), of d] df id l f(1) q by simp
    obtain w t where w: "for_each (take (unat (max_len q)) (connection_queue q))
        (\<lambda>r p. if req_sd r \<noteq> -1 then myclose m woken (req_sd r) p else Inr p) (put_context d u) = Inr w"
      "hash_delete sd (listen_table w) = Inr t" "p' = mysock_free_context True d (w\<lparr>listen_table := t\<rparr>)"
      using run d df id l f(2) gq
      by (auto simp: mysock_close_passive_socket_def and_then_eq_Inr)
    have qo: "queue_ok (ctx u) sd q" by (rule queue_facts(1) [OF ok q])
    have all: "take (unat (max_len q)) (connection_queue q) = connection_queue q"
      using qo by (simp add: queue_ok_def)
    have sds: "req_sd ` {r \<in> set (connection_queue q). req_sd r \<noteq> -1} = (\<lambda>k. req_sd (connection_queue q ! k)) ` slots q"
      by (auto simp: slots_def in_set_conv_nth image_iff)
    have children: "\<exists>e. ctx u x = Some e \<and> \<not> is_listening e" if "x \<in> (\<lambda>k. req_sd (connection_queue q ! k)) ` slots q" for x
      using qo that by (auto simp: queue_ok_def child_of_def)
    have z: "tidy_tables w" "queues w = queues u"
      "ctx w = (\<lambda>x. if x \<in> (\<lambda>k. req_sd (connection_queue q ! k)) ` slots q then None else ((ctx u)(sd \<mapsto> d)) x)"
    proof -
      have "my_sd d = sd" "is_listening d" using df id l by simp_all
      have "\<not> is_listening e" if r: "r \<in> set (connection_queue q)" "ctx (put_context d u) (req_sd r) = Some e" for r e
      proof -
        have "req_sd r \<noteq> -1" using ctx_range [OF r(2)] by auto
        then have "req_sd r \<in> (\<lambda>k. req_sd (connection_queue q ! k)) ` slots q" using r(1) sds by auto
        from children [OF this] obtain f where f: "ctx u (req_sd r) = Some f" "\<not> is_listening f" by blast
        moreover from this have "req_sd r \<noteq> sd" using c(3) l by auto
        ultimately show ?thesis using r(2) v(2) by simp
      qed
      from close_all [OF w(1) [unfolded m_def] v(1)] this show "tidy_tables w" "queues w = queues u"
        "ctx w = (\<lambda>x. if x \<in> (\<lambda>k. req_sd (connection_queue q ! k)) ` slots q then None else ((ctx u)(sd \<mapsto> d)) x)"
        unfolding all sds v(2) by auto
    qed
    obtain t' where t: "t = t'" "hash_sound t'" "table.contents t' = (queues w)(sd := None)"
      using table.delete_contents [of "listen_table w" sd] z(1) w(2) id(2) by (auto simp: tidy_tables_def)
    let ?w = "w\<lparr>listen_table := t\<rparr>"
    have x: "tidy_tables ?w" "ctx ?w = ctx w"
    proof -
      show "ctx ?w = ctx w" by (rule ctx_same) simp
      then show "tidy_tables ?w" using z(1) t by (simp add: tidy_tables_def)
    qed
    have "my_sd d = sd" using df id by simp
    note y = free_views [OF x(1) this id(2,3)]
    have "demux_ok (ctx p') ((queues u)(sd := None))"
      by (rule queue_closed [OF process_ok_demux [OF ok] q]) (use y(2) x(2) z(3) w(3) in auto)
    moreover have "queues p' = (queues u)(sd := None)" using y(3) t z(2) w(3) by simp
    ultimately show ?thesis using y(1) w(3) by (simp add: process_ok_def)
  qed
qed


subsection \<open>A packet for a listening socket\<close>

lemma is_queued_eq:
  assumes "queue_ok C L q" "length addr = 16" "sa_family addr = AF_INET"
  shows "is_queued addr 16 (take (unat (max_len q)) (connection_queue q)) =
    Inr (\<exists>k \<in> slots q. req_peer (connection_queue q ! k) = addr)"
proof -
  have null: "take 16 null_sockaddr \<noteq> addr"
    using assms(3) by (auto simp: null_sockaddr_def sa_family_def word16_def)
  have run: "is_queued addr 16 rs = Inr (\<exists>r \<in> set rs. req_sd r \<noteq> -1 \<and> req_peer r = addr)"
    if "\<forall>r \<in> set rs. if req_sd r = -1 then req_peer r = null_sockaddr
      else req_peer_len r = 16 \<and> length (req_peer r) = 16" for rs
    using that
  proof (induction rs)
    case (Cons r rs)
    then show ?case using null assms(2) by (auto split: if_splits)
  qed simp
  have "\<forall>r \<in> set (connection_queue q). if req_sd r = -1 then req_peer r = null_sockaddr
      else req_peer_len r = 16 \<and> length (req_peer r) = 16"
  proof
    fix r assume "r \<in> set (connection_queue q)"
    then obtain k where k: "k < length (connection_queue q)" "r = connection_queue q ! k" by (auto simp: in_set_conv_nth)
    then consider "k \<in> slots q" "req_sd r \<noteq> -1" "child_of C L r" | "r = INVALIDATE_CONNECT_REQUEST"
      using assms(1) by (auto simp: queue_ok_def slots_def)
    then show "if req_sd r = -1 then req_peer r = null_sockaddr else req_peer_len r = 16 \<and> length (req_peer r) = 16"
      by cases (auto simp: child_of_def INVALIDATE_CONNECT_REQUEST_def)
  qed
  note run = run [OF this]
  have "(\<exists>r \<in> set (connection_queue q). req_sd r \<noteq> -1 \<and> req_peer r = addr) =
      (\<exists>k \<in> slots q. req_peer (connection_queue q ! k) = addr)"
    by (fastforce simp: slots_def in_set_conv_nth)
  moreover have "take (unat (max_len q)) (connection_queue q) = connection_queue q"
    using assms(1) by (simp add: queue_ok_def)
  ultimately show ?thesis using run by simp
qed

lemma queue_slot_eq:
  assumes "queue_ok C L q" "cur_len q < max_len q"
  obtains k where "queue_slot q = Inr (Some k)" "k < length (connection_queue q)" "k \<notin> slots q"
    "req_sd (connection_queue q ! k) = -1"
proof -
  have "card (slots q) < length (connection_queue q)"
    using assms by (simp add: queue_ok_def word_less_nat_alt)
  then have "\<exists>j < length (connection_queue q). j \<notin> slots q"
    using card_mono [OF finite_slots, of "{..<length (connection_queue q)}" q] by (force simp: not_less)
  then obtain j where j: "j < unat (max_len q)" "req_sd (connection_queue q ! j) < 0"
    using assms(1) by (auto simp: queue_ok_def slots_def)
  then obtain k where k: "List.find (\<lambda>k. req_sd (connection_queue q ! k) < 0) [0..<unat (max_len q)] = Some k"
    by (cases "List.find (\<lambda>k. req_sd (connection_queue q ! k) < 0) [0..<unat (max_len q)]")
      (auto simp: find_None_iff)
  then have "k < length (connection_queue q)" "req_sd (connection_queue q ! k) < 0"
    using assms(1) find_SomeD [OF k] by (auto simp: queue_ok_def)
  moreover from this have "k \<notin> slots q" using assms(1) by (auto simp: queue_ok_def child_of_def)
  ultimately show thesis using that [of k] k assms(2) by (simp add: queue_slot_def slots_def)
qed

lemma establish_views:
  assumes "tidy_tables p" "ctx p sd = Some c" "\<not> is_listening c" "\<not> is_active c"
    and "my_sd l = L" "ctx p L = Some l1" "L \<noteq> sd"
  obtains p' d where "establish l syn addr len sd p = Inr p'" "tidy_tables p'" "queues p' = queues p" "ctx p' = (ctx p)(L \<mapsto> l\<lparr>new_socket := -1\<rparr>, sd \<mapsto> d)"
    "my_sd d = sd" "listen_sd d = L" "\<not> is_active d" "\<not> is_listening d" "thread_started d" "thread d = thread c"
    "blocking (conn d) = blocking (conn c)" "peer_sockaddr d = addr" "peer_addr_len d = len"
    "socket_fd d = new_socket l" "closed_fds p' = closed_fds p @ [socket_fd c]"
    "network_recv_queue (conn d) = network_recv_queue (conn c) @ [syn]"
proof -
  note r = my_sd_range [OF assms(1,2)] my_sd_range [OF assms(1,6)]
  let ?p1 = "p\<lparr>closed_fds := closed_fds p @ [socket_fd c]\<rparr>"
  let ?l = "l\<lparr>new_socket := -1\<rparr>"
  define c2 where "c2 = c\<lparr>listen_sd := L, peer_sockaddr := addr, peer_addr_len := len, peer_addr_valid := True,
    socket_fd := new_socket l, connected := True, conn := (conn c)\<lparr>local_addr := host_ip p,
      local_port := port_of p (new_socket l), peer_addr := sin_addr addr, peer_port := sin_port addr\<rparr>\<rparr>"
  define c3 where "c3 = (network_start_recv_thread (c2\<lparr>is_active := False\<rparr>))\<lparr>thread_started := True\<rparr>"
  define d where "d = c3\<lparr>conn := (conn c3)\<lparr>network_recv_queue := mysock_enqueue_buffer syn (network_recv_queue (conn c3))\<rparr>\<rparr>"
  have m: "my_sd c2 = sd" "my_sd c3 = sd" "my_sd d = sd"
    using r by (simp_all add: c2_def c3_def d_def network_start_recv_thread_def)
  have t1: "tidy_tables ?p1" "ctx ?p1 = ctx p"
  proof -
    show "ctx ?p1 = ctx p" by (rule ctx_same) simp
    then show "tidy_tables ?p1" using assms(1) by (simp add: tidy_tables_def)
  qed
  note v1 = put_context_views [OF t1(1), of ?l]
  note v2 = put_context_views [OF v1(1), of c2]
  note v3 = put_context_views [OF v2(1), of c3]
  note v4 = put_context_views [OF v3(1), of d]
  have views: "tidy_tables (put_context ?l ?p1)" "tidy_tables (put_context c2 (put_context ?l ?p1))"
    "ctx (put_context c2 (put_context ?l ?p1)) = (ctx p)(L \<mapsto> ?l, sd \<mapsto> c2)"
    "tidy_tables (put_context c3 (put_context c2 (put_context ?l ?p1)))"
    "ctx (put_context c3 (put_context c2 (put_context ?l ?p1))) = (ctx p)(L \<mapsto> ?l, sd \<mapsto> c3)"
    using v1 v2 v3 t1(2) m assms(5) r by simp_all
  define p' where "p' = put_context d (put_context c3 (put_context c2 (put_context ?l ?p1)))"
  have run: "establish l syn addr len sd p = Inr (put_context d (put_context c3 (put_context c2 (put_context ?l ?p1))))"
    using assms(2-5) get_context_eq [OF assms(1), of sd] get_context_eq [OF views(2), of sd]
      get_context_eq [OF views(4), of sd] views(3,5)
    by (simp add: establish_def network_update_passive_state_def mysock_transport_init_def c2_def c3_def d_def Let_def)
  show thesis
  proof (rule that [of p' d])
    show "establish l syn addr len sd p = Inr p'" using run by (simp add: p'_def)
    show "ctx p' = (ctx p)(L \<mapsto> ?l, sd \<mapsto> d)" "tidy_tables p'"
      unfolding p'_def using v4 views m r assms(5) by simp_all
    show "queues p' = queues p" "closed_fds p' = closed_fds p @ [socket_fd c]" by (simp_all add: p'_def put_context_def)
  qed (use m assms(3) in \<open>simp_all add: d_def c3_def c2_def network_start_recv_thread_def mysock_enqueue_buffer_def\<close>)
qed


text \<open>
  A packet is dropped, and nothing but the log of \<open>close\<close> changes, or it gets a place and a mysocket.
\<close>

lemma enqueue_cases:
  assumes "mysock_enqueue_connection l syn addr 16 fd p = Inr (b, p')" "process_ok p"
    and l: "ctx p L = Some l" "is_listening l" "queues p L = Some q" and a: "length addr = 16"
  obtains (dropped) "\<not> b" "tidy_tables p'" "ctx p' = ctx p" "queues p' = queues p"
      "length syn < 20 \<or> \<not> has_flag syn TH_SYN \<or> (\<exists>k \<in> slots q. req_peer (connection_queue q ! k) = addr) \<or>
       \<not> cur_len q < max_len q \<or> (\<forall>k. 0 \<le> k \<and> k < 64 \<longrightarrow> ctx p k \<noteq> None)"
    | (queued) k sd c where "b" "tidy_tables p'" "20 \<le> length syn" "has_flag syn TH_SYN"
      "\<not> (\<exists>k \<in> slots q. req_peer (connection_queue q ! k) = addr)" "cur_len q < max_len q"
      "k < length (connection_queue q)" "k \<notin> slots q" "0 \<le> sd" "ctx p sd = None" "\<forall>k. 0 \<le> k \<and> k < sd \<longrightarrow> ctx p k \<noteq> None"
      "ctx p' = (ctx p)(L \<mapsto> l\<lparr>new_socket := -1\<rparr>, sd \<mapsto> c)"
      "queues p' = (queues p)(L \<mapsto> q\<lparr>cur_len := cur_len q + 1, connection_queue :=
        (connection_queue q)[k := \<lparr>req_peer = addr, req_peer_len = 16, req_sd = sd\<rparr>]\<rparr>)"
      "my_sd c = sd" "listen_sd c = L" "\<not> is_active c" "\<not> is_listening c" "thread_started c" "thread c = None"
      "blocking (conn c)" "peer_sockaddr c = addr" "peer_addr_len c = 16" "socket_fd c = new_socket l"
      "network_recv_queue (conn c) = [syn]"
proof -
  note m = my_sd_ok [OF assms(2) l(1)] and r = ctx_range [OF l(1)] and t = process_ok_tidy [OF assms(2)]
  note f = listening_facts [OF assms(2) l(1,2)]
  have q: "queue_ok (ctx p) L q" by (rule queue_facts(1) [OF assms(2) l(3)])
  have g: "get_connection_queue l p = Inr (Some q)" using get_queue_eq [OF t, of l] m r l f(1) by simp
  have fam: "sa_family addr = AF_INET" using assms(1) by (auto simp: mysock_enqueue_connection_def split: if_splits)
  note dup = is_queued_eq [OF q a fam]
  note run = assms(1) [unfolded mysock_enqueue_connection_def g and_then_simps option.case dup]
  show thesis
  proof (cases "length syn < 20 \<or> \<not> has_flag syn TH_SYN \<or> (\<exists>k \<in> slots q. req_peer (connection_queue q ! k) = addr)
      \<or> \<not> cur_len q < max_len q")
    case True
    then have "\<not> b" "p' = p" using run l f(1) fam by (auto simp: queue_slot_def split: if_splits)
    then show thesis using True t by (intro dropped) auto
  next
    case False
    obtain k where k: "queue_slot q = Inr (Some k)" "k < length (connection_queue q)" "k \<notin> slots q"
      "req_sd (connection_queue q ! k) = -1" using queue_slot_eq [OF q] False by metis
    obtain sd u where u: "mysock_new_mysocket fd (is_reliable (conn l)) p = Inr (sd, u)"
      "(if sd < 0 then and_then (put_queue (my_sd l) (q\<lparr>connection_queue :=
          (connection_queue q)[k := INVALIDATE_CONNECT_REQUEST]\<rparr>) u) (\<lambda>p. Inr (False, p))
        else and_then (put_queue (my_sd l) (q\<lparr>cur_len := cur_len q + 1, connection_queue :=
          (connection_queue q)[k := \<lparr>req_peer = addr, req_peer_len = 16, req_sd = sd\<rparr>]\<rparr>) u) (\<lambda>p.
          and_then (establish l syn addr 16 sd p) (\<lambda>p. Inr (True, p)))) = Inr (b, p')"
      using run False l f(1) fam k(1,4) by (auto simp: and_then_eq_Inr)
    show thesis
      using u(1) t
    proof (cases rule: new_mysocket_cases)
      case (full c)
      have "connection_queue q ! k = INVALIDATE_CONNECT_REQUEST" using q k by (simp add: queue_ok_def)
      then have "q\<lparr>connection_queue := (connection_queue q)[k := INVALIDATE_CONNECT_REQUEST]\<rparr> = q"
        using list_update_id [of "connection_queue q" k] by simp
      then have w: "put_queue L q u = Inr p'" "\<not> b" using u(2) full(1) m by (auto simp: and_then_eq_Inr)
      have v: "tidy_tables u" "ctx u = ctx p"
      proof -
        show "ctx u = ctx p" by (rule ctx_same) (simp add: full(2))
        then show "tidy_tables u" using t by (simp add: tidy_tables_def full(2))
      qed
      have "queues u = queues p" by (simp add: full(2))
      with put_queue_done [OF w(1) v(1)] r v(2) l(3) w(2) full(3) show thesis
        by (intro dropped) (auto simp: fun_upd_idem)
    next
      case (fresh c)
      let ?c = "c\<lparr>my_sd := sd\<rparr>"
      have v: "tidy_tables u" "ctx u = (ctx p)(sd \<mapsto> ?c)" "queues u = queues p"
        unfolding fresh(4) using put_context_views [OF t, of ?c] fresh(1,2) by simp_all
      obtain w where w: "put_queue L (q\<lparr>cur_len := cur_len q + 1, connection_queue :=
          (connection_queue q)[k := \<lparr>req_peer = addr, req_peer_len = 16, req_sd = sd\<rparr>]\<rparr>) u = Inr w"
        "establish l syn addr 16 sd w = Inr p'" "b"
        using u(2) fresh(1) m by (auto simp: and_then_eq_Inr)
      have x: "tidy_tables w" "ctx w = ctx u" "queues w = (queues u)(L \<mapsto> q\<lparr>cur_len := cur_len q + 1, connection_queue :=
          (connection_queue q)[k := \<lparr>req_peer = addr, req_peer_len = 16, req_sd = sd\<rparr>]\<rparr>)"
        using put_queue_done [OF w(1) v(1)] r by simp_all
      have ne: "L \<noteq> sd" using l(1) fresh(3) by auto
      note af = allocated_fields [OF fresh(5)]
      have th: "thread c = None" "network_recv_queue (conn c) = []"
        using fresh(5) by (auto simp: mysock_allocate_context_def fresh_connection_def split: if_splits)
      have cw: "ctx w sd = Some ?c" "ctx w L = Some l" using x(2) v(2) l(1) ne by simp_all
      have nl: "\<not> is_listening ?c" "\<not> is_active ?c" using af by simp_all
      obtain d where d:
        "tidy_tables p'" "queues p' = queues w" "ctx p' = (ctx w)(L \<mapsto> l\<lparr>new_socket := -1\<rparr>, sd \<mapsto> d)"
        "my_sd d = sd" "listen_sd d = L" "\<not> is_active d" "\<not> is_listening d" "thread_started d" "thread d = thread ?c"
        "blocking (conn d) = blocking (conn ?c)" "peer_sockaddr d = addr" "peer_addr_len d = 16"
        "socket_fd d = new_socket l" "network_recv_queue (conn d) = network_recv_queue (conn ?c) @ [syn]"
        by (rule establish_views [OF x(1) cw(1) nl m cw(2) ne, of syn addr 16]) (use w(2) in \<open>auto intro: that\<close>)
      have cp: "ctx p' = (ctx p)(L \<mapsto> l\<lparr>new_socket := -1\<rparr>, sd \<mapsto> d)"
        using d(3) x(2) v(2) ne by (auto simp: fun_eq_iff)
      show thesis
        by (rule queued [of k sd d]) (use w(3) d cp False k fresh x(3) v(3) af th in simp_all)
    qed
  qed
qed

lemma enqueue_ok:
  assumes "mysock_enqueue_connection l syn addr 16 fd p = Inr (b, p')" "process_ok p"
    and l: "ctx p L = Some l" "is_listening l" and a: "length addr = 16"
  shows "process_ok p'"
proof -
  obtain q where q: "queues p L = Some q" using listening_facts(4) [OF assms(2) l] by blast
  note f = listening_facts [OF assms(2) l]
  show ?thesis
    using assms(1,2) l q a
  proof (cases rule: enqueue_cases)
    case dropped
    then show ?thesis using assms(2) by (simp add: process_ok_def)
  next
    case (queued k sd c)
    have "demux_ok ((ctx p)(L \<mapsto> l\<lparr>new_socket := -1\<rparr>, sd \<mapsto> c)) ((queues p)(L \<mapsto> q\<lparr>cur_len := cur_len q + 1,
        connection_queue := (connection_queue q)[k := \<lparr>req_peer = addr, req_peer_len = 16, req_sd = sd\<rparr>]\<rparr>))"
      by (rule request_added [OF process_ok_demux [OF assms(2)] l q])
        (use queued f l a in \<open>simp_all add: Ball_def\<close>)
    then show ?thesis using queued(2,12,13) by (simp add: process_ok_def)
  qed
qed

end
