(* ===== verification/Stcp_Steps.thy ===== *)
theory Stcp_Steps
  imports Stcp_Demux
begin

text \<open>
  The threads of a mysocket keep the invariant, and so does every step of a process in which the
  application behaves: it calls \<open>mylisten\<close> once and does not close what it was not given.
\<close>

subsection \<open>The receive thread\<close>

lemma tcp_connect_fields:
  assumes "tcp_connect ok c = Inr (rc, d)"
  shows "my_sd d = my_sd c" "conn d = conn c" "bound d = bound c" "face d = face c" "new_socket d = new_socket c"
    "recv_thread_over d = recv_thread_over c"
  using assms by (auto simp: tcp_connect_def face_def split: if_splits)

lemma received_fields:
  assumes "network_recv_packet ok acc e m stream c = Inr (rc, bs, rest, d)"
  shows "my_sd d = my_sd c" "conn d = conn c" "bound d = bound c" "thread_started d = thread_started c"
    "\<not> is_listening c \<Longrightarrow> face d = face c"
    "is_listening c \<Longrightarrow> 0 < rc \<Longrightarrow> \<exists>fd addr. acc = Some (fd, addr) \<and> new_socket c = -1 \<and>
       peer_sockaddr d = addr \<and> peer_addr_len d = 16 \<and> new_socket d = fd"
proof -
  note run = assms [unfolded network_recv_packet_def]
  obtain r1 c1 where c1: "(if is_active c then tcp_connect ok c else Inr (0, c)) = Inr (r1, c1)"
    using run by (auto simp: and_then_eq_Inr split: if_splits)
  have f1: "my_sd c1 = my_sd c" "conn c1 = conn c" "bound c1 = bound c" "face c1 = face c" "new_socket c1 = new_socket c"
    using c1 by (auto split: if_splits dest: tcp_connect_fields)
  note run = run [unfolded c1 and_then_simps prod.case]
  have "(rc = -1 \<and> d = c1) \<or> (\<not> is_listening c \<and> d = c1) \<or>
      is_listening c \<and> (rc = -1 \<and> d = c1\<lparr>peer_addr_len := 16\<rparr> \<or> (\<exists>fd addr. acc = Some (fd, addr) \<and> new_socket c = -1 \<and>
        d = c1\<lparr>peer_addr_len := 16, peer_sockaddr := addr, new_socket := fd\<rparr>))"
    using run f1(2,5) by (auto simp: and_then_eq_Inr Let_def split: if_splits option.splits prod.splits)
  then show "my_sd d = my_sd c" "conn d = conn c" "bound d = bound c" "thread_started d = thread_started c"
    "\<not> is_listening c \<Longrightarrow> face d = face c"
    "is_listening c \<Longrightarrow> 0 < rc \<Longrightarrow> \<exists>fd addr. acc = Some (fd, addr) \<and> new_socket c = -1 \<and>
       peer_sockaddr d = addr \<and> peer_addr_len d = 16 \<and> new_socket d = fd"
    using f1 by (auto simp: face_def)
qed

lemma network_recv_round_ok:
  assumes "network_recv_round sd ok acc e stream fd p = Inr (rest, p')" "process_ok p"
    and "\<And>f addr. acc = Some (f, addr) \<Longrightarrow> length addr = 16"
  shows "process_ok p'"
proof -
  obtain c where c: "ctx p sd = Some c" "mysock_get_context sd p = Inr c"
    using assms(1,2) by (auto simp: network_recv_round_def and_then_eq_Inr get_context_Inr)
  obtain rc buf r d where d: "network_recv_packet ok acc e 1500 stream c = Inr (rc, buf, r, d)"
    using assms(1) c(2) by (auto simp: network_recv_round_def and_then_eq_Inr split: if_splits)
  note f = received_fields [OF d]
  have m: "my_sd d = sd" using f(1) my_sd_ok [OF assms(2) c(1)] by simp
  have l: "is_listening d = is_listening c" using f(2) by simp
  have lf: "bound d \<and> \<not> thread_started d \<and> \<not> pending (queues p) sd" if "is_listening c"
    using listening_facts [OF assms(2) c(1) that] f(3,4) by simp
  have put: "process_ok (put_context d' p) \<and> ctx (put_context d' p) sd = Some d'"
    if "my_sd d' = my_sd d" "face d' = face d" "bound d' = bound d" "blocking (conn d') = blocking (conn d)" for d'
  proof -
    have "process_ok (put_context d' p)" "ctx (put_context d' p) sd = Some d'"
      by (rule put_context_ok [OF assms(2) c(1)]; use that m l lf f in \<open>auto simp: face_def\<close>)+
    then show ?thesis by simp
  qed
  have twice: "put_context d' (put_context d p) = put_context d' p" if "my_sd d' = my_sd d" for d'
    using that by (simp add: put_context_def)
  note run = assms(1) [unfolded network_recv_round_def c(2) and_then_simps d prod.case Let_def]
  consider (over) "p' = put_context (d\<lparr>recv_thread_over := True\<rparr>) (put_context d p)"
    | (listening) b where "is_listening c" "0 < rc"
        "mysock_enqueue_connection d buf (peer_sockaddr d) (peer_addr_len d) fd (put_context d p) = Inr (b, p')"
    | (other) "p' = put_context (d\<lparr>conn := (conn d)\<lparr>network_recv_queue :=
        mysock_enqueue_buffer buf (network_recv_queue (conn d))\<rparr>\<rparr>) (put_context d p)"
    using run d l by (auto simp: and_then_eq_Inr split: if_splits)
  then show ?thesis
  proof cases
    case over
    then show ?thesis using put [of "d\<lparr>recv_thread_over := True\<rparr>"] twice by (simp add: face_def)
  next
    case other
    then show ?thesis
      using put [of "d\<lparr>conn := (conn d)\<lparr>network_recv_queue := mysock_enqueue_buffer buf (network_recv_queue (conn d))\<rparr>\<rparr>"] twice
      by (simp add: face_def)
  next
    case (listening b)
    obtain addr where a: "peer_sockaddr d = addr" "peer_addr_len d = 16" "length addr = 16"
      using f(6) [OF listening(1,2)] assms(3) by blast
    show ?thesis
      by (rule enqueue_ok [of d buf addr fd "put_context d p" b p' sd])
        (use listening a put [of d] l in simp_all)
  qed
qed

subsection \<open>The transport thread\<close>

lemma announce_ok:
  assumes "announce e d p = Inr p'" "process_ok p" "ctx p sd = Some c"
    and d: "my_sd d = sd" "face d = face c" "bound d = bound c" "\<not> is_listening c" "blocking (conn c)" "\<not> blocking (conn d)"
  shows "process_ok p' \<and> ctx p' sd = Some (d\<lparr>stcp_errno := if e = EINTR then 0 else e\<rparr>)"
proof -
  let ?d = "d\<lparr>stcp_errno := if e = EINTR then 0 else e\<rparr>"
  note r = ctx_range [OF assms(3)]
  have f: "face ?d = face c" "\<not> is_listening ?d" "is_active ?d = is_active c" "is_active d = is_active c" "listen_sd ?d = listen_sd c"
    using d(2,4) by (auto simp: face_def)
  have v: "tidy_tables (put_context ?d p)" "ctx (put_context ?d p) = (ctx p)(sd \<mapsto> ?d)" "queues (put_context ?d p) = queues p"
    using put_context_views [OF process_ok_tidy [OF assms(2)], of ?d] r d(1) by simp_all
  have unseen: "process_ok (put_context ?d p)" if "\<not> pending (queues p) sd"
    by (rule put_context_ok(1) [OF assms(2,3)]) (use that d f in simp_all)
  show ?thesis
  proof (cases "is_active c")
    case True
    then have "\<not> pending (queues p) sd" using pending_facts(2) [OF assms(2) _ assms(3)] by auto
    moreover have "p' = put_context ?d p" using assms(1) True f by (simp add: announce_def Let_def)
    ultimately show ?thesis using unseen v(2) by simp
  next
    case False
    then have run: "mysock_passive_connection_complete ?d (put_context ?d p) = Inr p'"
      using assms(1) f by (simp add: announce_def Let_def)
    then obtain l where l: "ctx (put_context ?d p) (listen_sd c) = Some l"
      "is_listening l" "bound l" "0 \<le> listen_sd c"
      using v(1) f(5) by (auto simp: mysock_passive_connection_complete_def and_then_eq_Inr get_context_Inr
          get_connection_queue_def split: if_splits)
    then have lp: "ctx p (listen_sd c) = Some l" "listen_sd c \<noteq> sd" using v(2) f(2) by (auto split: if_splits)
    obtain q where q: "queues p (listen_sd c) = Some q" "queue_ok (ctx p) (listen_sd c) q"
      using listening_facts(4) [OF assms(2) lp(1) l(2)] by blast
    have m: "my_sd l = listen_sd c" by (rule my_sd_ok [OF assms(2) lp(1)])
    have g: "get_connection_queue l (put_context ?d p) = Inr (Some q)"
      using get_queue_eq [OF v(1), of l] m l q v(3) by simp
    obtain k where k: "List.find (\<lambda>k. req_sd (connection_queue q ! k) = sd) [0..<unat (max_len q)] = Some k"
      "put_queue (listen_sd c) (q\<lparr>completed_queue := completed_queue q @ [(array_at q, k)]\<rparr>) (put_context ?d p) = Inr p'"
      using run l(1,4) g f(5) d(1) m get_context_eq [OF v(1), of "listen_sd c"]
      by (auto simp: mysock_passive_connection_complete_def split: option.splits)
    have s: "k \<in> slots q" "req_sd (connection_queue q ! k) = sd"
      using find_SomeD [OF k(1)] q(2) r by (auto simp: slots_def queue_ok_def)
    note w = put_queue_done [OF k(2) v(1) l(4)]
    have "demux_ok ((ctx p)(sd \<mapsto> ?d)) ((queues p)(listen_sd c \<mapsto> q\<lparr>completed_queue := completed_queue q @ [(array_at q, k)]\<rparr>))"
      using request_completed [OF process_ok_demux [OF assms(2)] q(1) s(1), of c ?d] s(2) assms(3) d(5,6) f(1) by simp
    then show ?thesis using w v by (simp add: process_ok_def)
  qed
qed

lemma transport_thread_round_ok:
  assumes "transport_thread_round sd isn e p = Inr p'" "process_ok p"
  shows "process_ok p'"
proof -
  obtain c where c: "ctx p sd = Some c" "mysock_get_context sd p = Inr c" "thread_started c"
    using assms by (auto simp: transport_thread_round_def and_then_eq_Inr get_context_Inr split: if_splits)
  have l: "\<not> is_listening c" using listening_facts(2) [OF assms(2) c(1)] c(3) by auto
  have m: "my_sd c = sd" by (rule my_sd_ok [OF assms(2) c(1)])
  obtain ph s where s: "(case thread c of None \<Rightarrow> transport_init (is_active c) isn (conn c)
      | Some ph \<Rightarrow> transport_round ph (conn c)) = Inr (ph, s)"
    using assms(1) c by (auto simp: transport_thread_round_def and_then_eq_Inr)
  then have st: "settles (conn c) s"
    using transport_init_settles transport_round_settles by (auto split: option.splits)
  let ?c = "c\<lparr>conn := s, thread := Some ph\<rparr>"
  have f: "face ?c = face c" "my_sd ?c = sd" "bound ?c = bound c" using st m by (auto simp: face_def settles_def)
  obtain u where u: "(if blocking (conn c) \<and> \<not> blocking s then announce e ?c p else Inr (put_context ?c p)) = Inr u"
    "(if ph = Finished then and_then (mysock_get_context sd u) (\<lambda>c. transport_thread_end e c u) else Inr u) = Inr p'"
    using assms(1) c s by (auto simp: transport_thread_round_def Let_def and_then_eq_Inr)
  have ok: "process_ok u \<and> (\<exists>d. ctx u sd = Some d \<and> \<not> is_listening d)"
  proof (cases "blocking (conn c) \<and> \<not> blocking s")
    case True
    then have "announce e ?c p = Inr u" using u(1) by simp
    from announce_ok [OF this assms(2) c(1) f(2,1,3)] l True st show ?thesis by (auto simp: settles_def)
  next
    case False
    then have "blocking s = blocking (conn c)" using st by (auto simp: settles_def)
    then have "process_ok (put_context ?c p)" "ctx (put_context ?c p) sd = Some ?c"
      using put_hidden_ok [OF assms(2) c(1), of ?c] f m by simp_all
    then show ?thesis using u(1) False l st by (auto simp: settles_def)
  qed
  show ?thesis
  proof (cases "ph = Finished")
    case False
    then show ?thesis using u(2) ok by simp
  next
    case True
    obtain d where d: "ctx u sd = Some d" "\<not> is_listening d" "transport_thread_end e d u = Inr p'"
      using u(2) True ok by (auto simp: get_context_eq)
    have md: "my_sd d = sd" using my_sd_ok [OF _ d(1)] ok by simp
    obtain w where w: "(if blocking (conn d) then and_then (stcp_unblock_application (conn d)) (\<lambda>s.
        let c = d\<lparr>conn := s\<rparr>; e = (if e = 0 \<or> e = EINTR then if is_active c then ECONNREFUSED else ECONNABORTED else e) in
        announce e c u)
      else Inr (put_context d u)) = Inr w"
      "and_then (mysock_get_context sd w) (\<lambda>c. Inr (put_context (c\<lparr>conn := (conn c)\<lparr>app_send_queue :=
        mysock_enqueue_buffer [] (app_send_queue (conn c))\<rparr>\<rparr>) w)) = Inr p'"
      using d(3) md by (auto simp: transport_thread_end_def and_then_eq_Inr)
    have "process_ok w \<and> (\<exists>x. ctx w sd = Some x)"
    proof (cases "blocking (conn d)")
      case True
      then have "announce (if e = 0 \<or> e = EINTR then if is_active d then ECONNREFUSED else ECONNABORTED else e)
          (d\<lparr>conn := (conn d)\<lparr>blocking := False\<rparr>\<rparr>) u = Inr w"
        using w(1) by (simp add: stcp_unblock_application_def Let_def cong: if_cong)
      from announce_ok [OF this _ d(1)] ok md d(2) True show ?thesis by (auto simp: face_def)
    next
      case False
      then have "w = put_context d u" using w(1) by simp
      then show ?thesis using put_hidden_ok [of u sd d d] ok d(1) by simp
    qed
    then obtain x where x: "process_ok w" "ctx w sd = Some x" by blast
    then have "p' = put_context (x\<lparr>conn := (conn x)\<lparr>app_send_queue := mysock_enqueue_buffer [] (app_send_queue (conn x))\<rparr>\<rparr>) w"
      using w(2) by (simp add: get_context_eq)
    moreover have "process_ok (put_context (x\<lparr>conn := (conn x)\<lparr>app_send_queue := mysock_enqueue_buffer [] (app_send_queue (conn x))\<rparr>\<rparr>) w)"
      by (rule put_hidden_ok(1) [OF x]) (simp_all add: face_def)
    ultimately show ?thesis by simp
  qed
qed

subsection \<open>Steps\<close>

lemma on_connection_ok:
  assumes "on_connection sd f p = Inr p'" "process_ok p" "\<And>s t. f s = Inr t \<Longrightarrow> flags_of t = flags_of s"
  shows "process_ok p'"
proof -
  obtain c s where c: "ctx p sd = Some c" "f (conn c) = Inr s" "p' = put_context (c\<lparr>conn := s\<rparr>) p"
    using assms(1,2) by (auto simp: on_connection_def and_then_eq_Inr get_context_Inr)
  have "listening s = listening (conn c)" "blocking s = blocking (conn c)"
    using assms(3) [OF c(2)] by (simp_all add: flags_of_def)
  then show ?thesis unfolding c(3)
    by (intro put_hidden_ok(1) [OF assms(2) c(1)]) (simp_all add: face_def)
qed

text \<open>
  What is asked of the application and of \<open>accept\<close>, which gives an address of sixteen bytes.  A mysocket
  that has a connection does not listen; one that listens may be given a larger backlog, unless
  \<open>realloc\<close> moves its array while connections wait to be accepted, and not a smaller one (see
  \<open>Stcp_Races\<close> for both); a mysocket in the queue of another is not closed by hand.
\<close>

fun legal :: "call \<Rightarrow> process \<Rightarrow> bool" where
  "legal (Mylisten sd backlog moved rc) p =
     (case ctx p sd of None \<Rightarrow> True | Some c \<Rightarrow> if \<not> is_listening c then \<not> thread_started c
        else case queues p sd of None \<Rightarrow> True | Some q \<Rightarrow> max_len q \<le> of_int backlog + 1 \<and>
          (max_len q < of_int backlog + 1 \<and> moved \<longrightarrow> completed_queue q = []))"
| "legal (Myclose woken sd) p = (\<not> pending (queues p) sd)"
| "legal (Receive sd ok accepted e stream fd) p =
     (case accepted of None \<Rightarrow> True | Some (f, addr) \<Rightarrow> length addr = sockaddr_size)"
| "legal c p = True"

lemma act_ok:
  assumes "act x p = Inr p'" "process_ok p" "legal x p"
  shows "process_ok p'"
proof (cases x)
  case (Mysocket fd r)
  then show ?thesis using assms new_mysocket_ok by (auto simp: and_then_eq_Inr)
next
  case (Mybind sd addr rc)
  then show ?thesis using assms mybind_ok by (auto simp: and_then_eq_Inr)
next
  case (Mylisten sd b moved rc)
  then obtain r where r: "mylisten sd b moved rc p = Inr (r, p')" using assms(1) by (auto simp: and_then_eq_Inr)
  show ?thesis
  proof (cases "\<exists>c. ctx p sd = Some c \<and> is_listening c")
    case False
    then have "\<not> is_listening c \<and> \<not> thread_started c" if "ctx p sd = Some c" for c
      using that assms(3) Mylisten by simp
    then show ?thesis using mylisten_ok [OF r assms(2)] by blast
  next
    case True
    then obtain c q where c: "ctx p sd = Some c" "is_listening c" "queues p sd = Some q"
      using listening_facts(4) [OF assms(2)] by blast
    then show ?thesis using mylisten_again_ok [OF r assms(2) c] assms(3) Mylisten by simp
  qed
next
  case (Myconnect sd name n rc)
  then show ?thesis using assms myconnect_ok by (auto simp: and_then_eq_Inr)
next
  case (Myaccept sd)
  then show ?thesis using assms myaccept_ok by (auto simp: and_then_eq_Inr)
next
  case (Mywrite sd buf)
  then have run: "on_connection sd (\<lambda>s. and_then (mywrite buf s) (\<lambda>(n, s). Inr s)) p = Inr p'" using assms(1) by simp
  show ?thesis by (rule on_connection_ok [OF run assms(2)]) (auto simp: and_then_eq_Inr dest: application_flags(1))
next
  case (Myread sd n)
  then have run: "on_connection sd (\<lambda>s. and_then (myread n s) (\<lambda>(r, buf, s). Inr s)) p = Inr p'" using assms(1) by simp
  show ?thesis by (rule on_connection_ok [OF run assms(2)]) (auto simp: and_then_eq_Inr dest: application_flags(2))
next
  case (Myclose_Begin sd)
  then show ?thesis using assms myclose_begin_ok by auto
next
  case (Myclose woken sd)
  then show ?thesis using assms myclose_ok by auto
next
  case (Receive sd ok accepted e stream fd)
  then show ?thesis using assms network_recv_round_ok by (fastforce simp: and_then_eq_Inr)
next
  case (Transport sd isn e)
  then show ?thesis using assms transport_thread_round_ok by auto
qed

text \<open>
  The states of a process whose threads take turns: a call of the application, a round of a receive thread
  or of a transport thread is done before the next begins.
\<close>

inductive process_reachable :: "process \<Rightarrow> bool" where
  process_start: "process_reachable (start_process ports ip s)"
| process_act: "process_reachable p \<Longrightarrow> legal x p \<Longrightarrow> act x p = Inr p' \<Longrightarrow> process_reachable p'"

lemma reachable_ok: "process_reachable p \<Longrightarrow> process_ok p"
proof (induction rule: process_reachable.induct)
  case (process_start ports ip s)
  have "ctx (start_process ports ip s) = Map.empty" by (auto simp: ctx_def start_process_def fun_eq_iff)
  moreover have "queues (start_process ports ip s) = Map.empty" by (simp add: start_process_def)
  ultimately show ?case
    by (simp add: process_ok_def tidy_tables_def demux_ok_def) (simp add: start_process_def)
next
  case (process_act p x p')
  then show ?case using act_ok by blast
qed

end
