(* ===== verification/Stcp_Service.thy ===== *)
theory Stcp_Service
  imports Stcp_Steps
begin

text \<open>
  The properties of listening sockets and of the datagrams under a mysocket, with witnesses on a
  process that has a listening socket and a connection in its queue.
\<close>

subsection \<open>A small server\<close>

definition blank :: stcp where
  "blank = \<lparr>network_recv_queue = [], app_send_queue = [], app_recv_queue = [], close_requested = False,
     eof = False, blocking = True, listening = False, is_reliable = True, local_addr = 0, local_port = 0,
     peer_addr = 0, peer_port = 0, random_seed = 0, rand_r = (\<lambda>r. (r, r)), copied = False, copy_buffer = [],
     send_ok = True, wire = [], connection_state = CSTATE_CLOSED, initial_sequence_num = 0, send_unack = 0,
     send_next = 0, send_wind = 0, recv_next = 0, recv_buffer = [], recv_indicator = [], rto = (0, 0), srtt = (0, 0),
     rttvar = (0, 0), rto_init = False, unackd_packets = [], clock = (0, 0), packtosend_set = False\<rparr>"

definition idle_process :: process where
  "idle_process = start_process (\<lambda>fd. 80) 1 blank"

definition inet_addr :: "byte \<Rightarrow> sockaddr" where
  "inet_addr a = bytes16 AF_INET @ bytes16 99 @ [10, 0, 0, a] @ replicate 8 0"

definition syn_packet :: "byte list" where
  "syn_packet = make_stcp_packet TH_SYN 7 0 0"

text \<open>A socket that listens with a backlog of one, before and after its first request.\<close>

definition to_listener :: "call list" where
  "to_listener = [Mysocket 3 True, Mybind 0 (inet_addr 0) 0, Mylisten 0 0 False 0]"

definition request :: call where
  "request = Receive 0 True (Some (7, inet_addr 1)) 0 [datagram_frame syn_packet] 8"

definition after_calls :: "call list \<Rightarrow> process" where
  "after_calls xs = (case for_each xs act idle_process of Inl e \<Rightarrow> idle_process | Inr p \<Rightarrow> p)"

abbreviation listener :: process where "listener \<equiv> after_calls to_listener"
abbreviation full_listener :: process where "full_listener \<equiv> after_calls (to_listener @ [request])"

definition succeed :: "call list \<Rightarrow> bool" where
  "succeed xs = (case for_each xs act idle_process of Inl e \<Rightarrow> False | Inr p \<Rightarrow> True)"

lemma after_calls_step:
  assumes "succeed (xs @ [x])"
  shows "act x (after_calls xs) = Inr (after_calls (xs @ [x]))"
  using assms by (auto simp: succeed_def after_calls_def for_each_append and_then_eq_Inr split: sum.splits)

lemma after_calls_reachable:
  assumes "process_reachable (after_calls xs)" "legal x (after_calls xs)" "succeed (xs @ [x])"
  shows "process_reachable (after_calls (xs @ [x]))"
  by (rule process_act [OF assms(1,2) after_calls_step [OF assms(3)]])

definition socket_at :: "process \<Rightarrow> int \<Rightarrow> (sock_context \<Rightarrow> bool) \<Rightarrow> bool" where
  "socket_at p sd f = (case mysock_get_context sd p of Inl e \<Rightarrow> False | Inr c \<Rightarrow> f c)"

definition queue_at :: "process \<Rightarrow> int \<Rightarrow> (listen_queue \<Rightarrow> bool) \<Rightarrow> bool" where
  "queue_at p sd f = (case hash_get_entry sd (listen_table p) of Inr (Some q) \<Rightarrow> f q | _ \<Rightarrow> False)"

lemma socket_at_ctx: "socket_at p sd f \<Longrightarrow> \<exists>c. ctx p sd = Some c \<and> f c"
  by (auto simp: socket_at_def mysock_get_context_def ctx_def split: if_splits option.splits)

lemma queue_at_queues: "queue_at p sd f \<Longrightarrow> 0 \<le> sd \<Longrightarrow> \<exists>q. queues p sd = Some q \<and> f q"
  by (auto simp: queue_at_def table.contents_def split: sum.splits option.splits)

lemma listener_sockets:
  "\<exists>c. ctx listener 0 = Some c \<and> is_listening c \<and> \<not> is_active c"
  "\<exists>q. queues listener 0 = Some q \<and> max_len q = 1 \<and> cur_len q = 0 \<and> connection_queue q = [INVALIDATE_CONNECT_REQUEST]"
  "ctx listener 1 = None"
proof -
  have "socket_at listener 0 (\<lambda>c. is_listening c \<and> \<not> is_active c)" unfolding to_listener_def by code_simp
  from socket_at_ctx [OF this] show "\<exists>c. ctx listener 0 = Some c \<and> is_listening c \<and> \<not> is_active c" .
  have "queue_at listener 0 (\<lambda>q. max_len q = 1 \<and> cur_len q = 0 \<and> connection_queue q = [INVALIDATE_CONNECT_REQUEST])"
    unfolding to_listener_def by code_simp
  from queue_at_queues [OF this] show "\<exists>q. queues listener 0 = Some q \<and> max_len q = 1 \<and> cur_len q = 0 \<and>
    connection_queue q = [INVALIDATE_CONNECT_REQUEST]" by simp
  have "case global_ctx listener ! 1 of None \<Rightarrow> True | Some c \<Rightarrow> False" unfolding to_listener_def by code_simp
  then show "ctx listener 1 = None" by (simp add: ctx_def split: option.splits)
qed

lemma full_listener_sockets:
  "\<exists>c. ctx full_listener 0 = Some c \<and> is_listening c \<and> \<not> is_active c"
  "\<exists>q. queues full_listener 0 = Some q \<and> max_len q = 1 \<and> cur_len q = 1 \<and>
     connection_queue q = [\<lparr>req_peer = inet_addr 1, req_peer_len = 16, req_sd = 1\<rparr>]"
  "\<exists>c. ctx full_listener 1 = Some c \<and> blocking (conn c) \<and> \<not> is_listening c"
proof -
  have "socket_at full_listener 0 (\<lambda>c. is_listening c \<and> \<not> is_active c)"
    unfolding to_listener_def request_def by code_simp
  from socket_at_ctx [OF this] show "\<exists>c. ctx full_listener 0 = Some c \<and> is_listening c \<and> \<not> is_active c" .
  have "queue_at full_listener 0 (\<lambda>q. max_len q = 1 \<and> cur_len q = 1 \<and>
     connection_queue q = [\<lparr>req_peer = inet_addr 1, req_peer_len = 16, req_sd = 1\<rparr>])"
    unfolding to_listener_def request_def by code_simp
  from queue_at_queues [OF this] show "\<exists>q. queues full_listener 0 = Some q \<and> max_len q = 1 \<and> cur_len q = 1 \<and>
     connection_queue q = [\<lparr>req_peer = inet_addr 1, req_peer_len = 16, req_sd = 1\<rparr>]" by simp
  have "socket_at full_listener 1 (\<lambda>c. blocking (conn c) \<and> \<not> is_listening c)"
    unfolding to_listener_def request_def by code_simp
  from socket_at_ctx [OF this] show "\<exists>c. ctx full_listener 1 = Some c \<and> blocking (conn c) \<and> \<not> is_listening c" .
qed

lemma listeners_reachable: "process_reachable listener" "process_reachable full_listener"
proof -
  let ?m = "Mysocket 3 True" and ?b = "Mybind 0 (inet_addr 0) 0" and ?l = "Mylisten 0 0 False 0"
  have "process_reachable (after_calls [])"
    by (simp add: after_calls_def idle_process_def process_start)
  moreover have "succeed [?m]" by code_simp
  ultimately have "process_reachable (after_calls [?m])"
    using after_calls_reachable [of "[]" ?m] by simp
  moreover have "succeed [?m, ?b]" by code_simp
  ultimately have "process_reachable (after_calls [?m, ?b])"
    using after_calls_reachable [of "[?m]" ?b] by simp
  moreover have "succeed [?m, ?b, ?l]" by code_simp
  moreover have "case global_ctx (after_calls [?m, ?b]) ! 0 of None \<Rightarrow> True
      | Some c \<Rightarrow> \<not> is_listening c \<and> \<not> thread_started c" by code_simp
  then have "legal ?l (after_calls [?m, ?b])" by (simp add: ctx_def split: option.splits)
  ultimately show r: "process_reachable listener"
    using after_calls_reachable [of "[?m, ?b]" ?l] by (simp add: to_listener_def)
  have "succeed (to_listener @ [request])" unfolding to_listener_def request_def by code_simp
  moreover have "legal request listener" by (simp add: request_def inet_addr_def)
  ultimately show "process_reachable full_listener" using r by (intro after_calls_reachable)
qed

text \<open>The same process when the connection of the request is established.\<close>

definition established :: "sr_fault + process" where
  "established = and_then (mysock_get_context 1 full_listener) (\<lambda>c.
     announce 0 (c\<lparr>conn := (conn c)\<lparr>blocking := False\<rparr>\<rparr>) full_listener)"

lemma established_sockets:
  "\<exists>p l c q. established = Inr p \<and> process_ok p \<and> ctx p 0 = Some l \<and> is_listening l \<and> ctx p 1 = Some c \<and> stcp_errno c = 0 \<and>
     queues p 0 = Some q \<and> map snd (completed_queue q) = [0] \<and> cur_len q = 1 \<and>
     connection_queue q = [\<lparr>req_peer = inet_addr 1, req_peer_len = 16, req_sd = 1\<rparr>]"
proof -
  let ?Q = "\<lambda>q. map snd (completed_queue q) = [0] \<and> cur_len q = 1 \<and>
     connection_queue q = [\<lparr>req_peer = inet_addr 1, req_peer_len = 16, req_sd = 1\<rparr>]"
  have "case established of Inl e \<Rightarrow> False | Inr p \<Rightarrow> socket_at p 0 is_listening \<and>
      socket_at p 1 (\<lambda>c. stcp_errno c = 0) \<and> queue_at p 0 ?Q"
    unfolding established_def to_listener_def request_def by code_simp
  then obtain p where p: "established = Inr p" "socket_at p 0 is_listening" "socket_at p 1 (\<lambda>c. stcp_errno c = 0)" "queue_at p 0 ?Q"
    by (auto split: sum.splits)
  obtain c where c: "ctx full_listener 1 = Some c" "blocking (conn c)" "\<not> is_listening c"
    using full_listener_sockets(3) by blast
  have ok: "process_ok full_listener" by (rule reachable_ok [OF listeners_reachable(2)])
  have "mysock_get_context 1 full_listener = Inr c" using c(1) process_ok_tidy [OF ok] by (simp add: get_context_Inr)
  then have "announce 0 (c\<lparr>conn := (conn c)\<lparr>blocking := False\<rparr>\<rparr>) full_listener = Inr p"
    using p(1) by (simp add: established_def)
  then have "process_ok p" using announce_ok [OF _ ok c(1)] c(2,3) my_sd_ok [OF ok c(1)] by (simp add: face_def)
  then show ?thesis
    using p(1) socket_at_ctx [OF p(2)] socket_at_ctx [OF p(3)] queue_at_queues [OF p(4)] by auto
qed

subsection \<open>The backlog\<close>

text \<open>
  C36.  As long as the calls of the application and the rounds of the threads take turns, each done
  before the next begins, and a second \<open>mylisten\<close> neither lowers the backlog of its socket nor moves the array
  of requests while connections wait in it, a listening socket has a queue in which \<open>cur_len\<close> counts the
  requests and never exceeds \<open>max_len\<close>.  Each request has a mysocket of its own that was made for it, with
  the address of the peer; no two come from the same address; and the completed entries are, each once,
  the requests whose mysocket is no longer blocked.  The program enforces none of the three conditions:
  \<open>cur_len_race\<close>, \<open>lowered_backlog\<close> and \<open>moved_requests_dangle\<close> of \<open>Stcp_Races\<close> show what is lost without them.
\<close>

theorem backlog_is_kept:
  assumes "process_reachable p" and "ctx p L = Some l" and "is_listening l"
  shows "\<exists>q. queues p L = Some q \<and> unat (cur_len q) = card (slots q) \<and> cur_len q \<le> max_len q \<and>
    (\<forall>k \<in> slots q. child_of (ctx p) L (connection_queue q ! k)) \<and>
    inj_on (\<lambda>k. req_sd (connection_queue q ! k)) (slots q) \<and>
    inj_on (\<lambda>k. req_peer (connection_queue q ! k)) (slots q) \<and>
    distinct (completed_queue q) \<and>
    snd ` set (completed_queue q) = {k \<in> slots q. \<not> blocked (ctx p) (req_sd (connection_queue q ! k))}"
proof -
  obtain q where q: "queues p L = Some q" "queue_ok (ctx p) L q"
    using listening_facts(4) [OF reachable_ok assms(2,3)] assms(1) by blast
  have "slots q \<subseteq> {..<length (connection_queue q)}" by (auto simp: slots_def)
  from card_mono [OF _ this] q(2) have "unat (cur_len q) \<le> unat (max_len q)" by (simp add: queue_ok_def)
  then have "cur_len q \<le> max_len q" by (simp add: word_le_nat_alt)
  moreover have "snd ` set (completed_queue q) = {k \<in> slots q. \<not> blocked (ctx p) (req_sd (connection_queue q ! k))}"
    using q(2) by (auto simp: queue_ok_def image_iff)
  ultimately show ?thesis using q by (auto simp: queue_ok_def)
qed

text \<open>The listening socket with its request, after its backlog was raised to two.\<close>

abbreviation grown_listener :: process where
  "grown_listener \<equiv> after_calls (to_listener @ [request] @ [Mylisten 0 1 False 0])"

lemma grown_reachable: "process_reachable grown_listener"
proof -
  have "succeed ((to_listener @ [request]) @ [Mylisten 0 1 False 0])"
    unfolding to_listener_def request_def by code_simp
  moreover have "legal (Mylisten 0 1 False 0) full_listener"
    using full_listener_sockets(1,2) by (auto simp: word_le_nat_alt)
  ultimately show ?thesis using after_calls_reachable [OF listeners_reachable(2)] by simp
qed

lemma grown_listener_sockets:
  "\<exists>c. ctx grown_listener 0 = Some c \<and> is_listening c"
  "\<exists>c. ctx grown_listener 1 = Some c \<and> blocking (conn c)"
  "\<exists>q. queues grown_listener 0 = Some q \<and> max_len q = 2 \<and> cur_len q = 1 \<and>
     connection_queue q = [\<lparr>req_peer = inet_addr 1, req_peer_len = 16, req_sd = 1\<rparr>, INVALIDATE_CONNECT_REQUEST]"
proof -
  have "socket_at grown_listener 0 is_listening" unfolding to_listener_def request_def by code_simp
  from socket_at_ctx [OF this] show "\<exists>c. ctx grown_listener 0 = Some c \<and> is_listening c" .
  have "socket_at grown_listener 1 (\<lambda>c. blocking (conn c))" unfolding to_listener_def request_def by code_simp
  from socket_at_ctx [OF this] show "\<exists>c. ctx grown_listener 1 = Some c \<and> blocking (conn c)" .
  have "queue_at grown_listener 0 (\<lambda>q. max_len q = 2 \<and> cur_len q = 1 \<and>
     connection_queue q = [\<lparr>req_peer = inet_addr 1, req_peer_len = 16, req_sd = 1\<rparr>, INVALIDATE_CONNECT_REQUEST])"
    unfolding to_listener_def request_def by code_simp
  from queue_at_queues [OF this] show "\<exists>q. queues grown_listener 0 = Some q \<and> max_len q = 2 \<and> cur_len q = 1 \<and>
     connection_queue q = [\<lparr>req_peer = inet_addr 1, req_peer_len = 16, req_sd = 1\<rparr>, INVALIDATE_CONNECT_REQUEST]" by simp
qed

theorem backlog_is_kept_witness:
  "process_reachable grown_listener \<and> (\<exists>l. ctx grown_listener 0 = Some l \<and> is_listening l) \<and>
   (\<exists>q. queues grown_listener 0 = Some q \<and> slots q = {0} \<and> cur_len q = 1 \<and> max_len q = 2 \<and>
     child_of (ctx grown_listener) 0 (connection_queue q ! 0) \<and> completed_queue q = [])"
proof -
  obtain l c q where l: "ctx grown_listener 0 = Some l" "is_listening l"
    and c: "ctx grown_listener 1 = Some c" "blocking (conn c)" and q: "queues grown_listener 0 = Some q"
    "max_len q = 2 \<and> cur_len q = 1 \<and>
     connection_queue q = [\<lparr>req_peer = inet_addr 1, req_peer_len = 16, req_sd = 1\<rparr>, INVALIDATE_CONNECT_REQUEST]"
    using grown_listener_sockets by blast
  have s: "slots q = {0}" using q(2) by (auto simp: slots_def less_Suc_eq INVALIDATE_CONNECT_REQUEST_def)
  from backlog_is_kept [OF grown_reachable l] q(1)
  have k: "child_of (ctx grown_listener) 0 (connection_queue q ! 0)"
    "snd ` set (completed_queue q) = {k \<in> slots q. \<not> blocked (ctx grown_listener) (req_sd (connection_queue q ! k))}"
    by (simp_all add: s)
  have "blocked (ctx grown_listener) (req_sd (connection_queue q ! 0))" using q(2) c by (simp add: blocked_def)
  then have none: "{k \<in> slots q. \<not> blocked (ctx grown_listener) (req_sd (connection_queue q ! k))} = {}"
    by (auto simp: s intro!: gr0I)
  have "child_of (ctx grown_listener) 0 (connection_queue q ! 0) \<and> completed_queue q = []"
    using k(1) k(2) [unfolded none] by simp
  then show ?thesis using grown_reachable l q s by simp
qed

text \<open>
  C38.  \<open>myaccept\<close> hands out the completed connections in the order in which they were completed: it
  waits while there is none; otherwise it returns the descriptor of the first one with the address of
  its peer, or -1 and the error of the connection, and frees its place in the queue.
\<close>

theorem accept_in_order:
  assumes "process_ok p" and "ctx p L = Some l" and "is_listening l" and "queues p L = Some q"
  shows "case completed_queue q of
      [] \<Rightarrow> myaccept L p = Inl Would_Block
    | (a, k) # rest \<Rightarrow>
        \<exists>c p'. ctx p (req_sd (connection_queue q ! k)) = Some c \<and> \<not> blocking (conn c) \<and>
          myaccept L p = Inr
            (if stcp_errno c = 0 then (req_sd (connection_queue q ! k), Some (req_peer (connection_queue q ! k), 16), p')
             else (-1, None, p')) \<and>
          errno p' = stcp_errno c \<and> ctx p' = ctx p \<and>
          queues p' = (queues p)(L \<mapsto> q\<lparr>completed_queue := rest, cur_len := cur_len q - 1,
            connection_queue := (connection_queue q)[k := INVALIDATE_CONNECT_REQUEST]\<rparr>)"
proof -
  have g: "mysock_get_context L p = Inr l" using assms(1,2) by (simp add: get_context_Inr)
  note d = dequeue_result [OF assms]
  show ?thesis
  proof (cases "completed_queue q")
    case Nil
    then show ?thesis using d g assms(3) by (simp add: myaccept_def)
  next
    case (Cons e rest)
    obtain a k where e: "e = (a, k)" by (cases e)
    have q: "queue_ok (ctx p) L q" by (rule queue_facts(1) [OF assms(1,4)])
    have k: "k \<in> slots q" "\<not> blocked (ctx p) (req_sd (connection_queue q ! k))"
      using q Cons e by (auto simp: queue_ok_def)
    then have "child_of (ctx p) L (connection_queue q ! k)" using q by (simp add: queue_ok_def)
    then obtain c where c: "ctx p (req_sd (connection_queue q ! k)) = Some c" "listen_sd c = L"
      "peer_sockaddr c = req_peer (connection_queue q ! k)" "peer_addr_len c = 16" by (auto simp: child_of_def)
    have m: "my_sd c = req_sd (connection_queue q ! k)" by (rule my_sd_ok [OF assms(1) c(1)])
    obtain u where u: "put_queue L (q\<lparr>completed_queue := rest, cur_len := cur_len q - 1,
        connection_queue := (connection_queue q)[k := INVALIDATE_CONNECT_REQUEST]\<rparr>) p = Inr u"
      using put_queue_views [OF process_ok_tidy [OF assms(1)], of L] ctx_range [OF assms(2)] by blast
    note v = put_queue_done [OF u process_ok_tidy [OF assms(1)]]
    have "ctx (u\<lparr>errno := stcp_errno c\<rparr>) = ctx u" by (rule ctx_same) simp
    then show ?thesis
      using d g assms(3) Cons e c m u v ctx_range [OF assms(2)] k(2)
      by (auto simp: myaccept_def blocked_def intro!: exI [of _ "u\<lparr>errno := stcp_errno c\<rparr>"])
  qed
qed

theorem accept_in_order_witness:
  "\<exists>p p' q. established = Inr p \<and> process_ok p \<and> myaccept 0 p = Inr (1, Some (inet_addr 1, 16), p') \<and> ctx p' = ctx p \<and>
     queues p' 0 = Some q \<and> completed_queue q = [] \<and> cur_len q = 0 \<and> connection_queue q = [INVALIDATE_CONNECT_REQUEST]"
proof -
  obtain p l c q where p: "established = Inr p" "process_ok p" "ctx p 0 = Some l" "is_listening l" "ctx p 1 = Some c"
    "stcp_errno c = 0" "queues p 0 = Some q" "map snd (completed_queue q) = [0]" "cur_len q = 1"
    "connection_queue q = [\<lparr>req_peer = inet_addr 1, req_peer_len = 16, req_sd = 1\<rparr>]"
    using established_sockets by metis
  obtain a where "completed_queue q = [(a, 0)]" using p(8) by auto
  with accept_in_order [OF p(2-4,7)] p(5,6,9,10) obtain p' where
    "myaccept 0 p = Inr (1, Some (inet_addr 1, 16), p')" "ctx p' = ctx p"
    "queues p' = (queues p)(0 \<mapsto> q\<lparr>completed_queue := [], cur_len := 0, connection_queue := [INVALIDATE_CONNECT_REQUEST]\<rparr>)"
    by auto
  then show ?thesis using p(1,2) by (intro exI [of _ p] exI [of _ p']) auto
qed

lemma enqueue_runs:
  assumes "process_ok p" "ctx p L = Some l" "is_listening l" "queues p L = Some q"
    and "length addr = 16" "sa_family addr = AF_INET" "0 \<le> fd"
  shows "\<exists>b p'. mysock_enqueue_connection l syn addr 16 fd p = Inr (b, p')"
proof -
  note m = my_sd_ok [OF assms(1,2)] and r = ctx_range [OF assms(2)] and t = process_ok_tidy [OF assms(1)]
  note f = listening_facts [OF assms(1-3)]
  have q: "queue_ok (ctx p) L q" by (rule queue_facts(1) [OF assms(1,4)])
  have g: "get_connection_queue l p = Inr (Some q)" using get_queue_eq [OF t, of l] m r assms f(1) by simp
  note dup = is_queued_eq [OF q assms(5,6)]
  show ?thesis
  proof (cases "length syn < 20 \<or> \<not> has_flag syn TH_SYN \<or> (\<exists>k \<in> slots q. req_peer (connection_queue q ! k) = addr)
      \<or> \<not> cur_len q < max_len q")
    case True
    then show ?thesis using g dup assms f(1) by (auto simp: mysock_enqueue_connection_def queue_slot_def)
  next
    case False
    obtain k where k: "queue_slot q = Inr (Some k)" "req_sd (connection_queue q ! k) = -1"
      using queue_slot_eq [OF q] False by metis
    obtain sd u where u: "mysock_new_mysocket fd (is_reliable (conn l)) p = Inr (sd, u)"
      using assms(7) by (cases "List.find (\<lambda>k. global_ctx p ! k = None) [0..<64]")
        (simp_all add: mysock_new_mysocket_def mysock_allocate_context_def)
    have run: "mysock_enqueue_connection l syn addr 16 fd p =
      (if sd < 0 then and_then (put_queue L (q\<lparr>connection_queue :=
          (connection_queue q)[k := INVALIDATE_CONNECT_REQUEST]\<rparr>) u) (\<lambda>p. Inr (False, p))
        else and_then (put_queue L (q\<lparr>cur_len := cur_len q + 1, connection_queue :=
          (connection_queue q)[k := \<lparr>req_peer = addr, req_peer_len = 16, req_sd = sd\<rparr>]\<rparr>) u) (\<lambda>p.
          and_then (establish l syn addr 16 sd p) (\<lambda>p. Inr (True, p))))"
      using g dup assms f(1) False k u m by (simp add: mysock_enqueue_connection_def)
    show ?thesis
      using u t
    proof (cases rule: new_mysocket_cases)
      case (full c)
      have "ctx u = ctx p" by (rule ctx_same) (simp add: full(2))
      then have "tidy_tables u" using t by (simp add: tidy_tables_def full(2))
      then obtain w where "put_queue L (q\<lparr>connection_queue :=
          (connection_queue q)[k := INVALIDATE_CONNECT_REQUEST]\<rparr>) u = Inr w"
        using put_queue_views [of u L] r by blast
      then show ?thesis using run full(1) by (auto intro: exI [of _ False])
    next
      case (fresh c)
      have v: "tidy_tables u" "ctx u = (ctx p)(sd \<mapsto> c\<lparr>my_sd := sd\<rparr>)"
        unfolding fresh(4) using put_context_views [OF t, of "c\<lparr>my_sd := sd\<rparr>"] fresh(1,2) by simp_all
      obtain w where w: "put_queue L (q\<lparr>cur_len := cur_len q + 1, connection_queue :=
          (connection_queue q)[k := \<lparr>req_peer = addr, req_peer_len = 16, req_sd = sd\<rparr>]\<rparr>) u = Inr w"
        using put_queue_views [OF v(1)] r by blast
      note x = put_queue_done [OF w v(1)]
      have ne: "L \<noteq> sd" using assms(2) fresh(3) by auto
      have cw: "ctx w sd = Some (c\<lparr>my_sd := sd\<rparr>)" "ctx w L = Some l" "tidy_tables w" using x v(2) assms(2) ne r by simp_all
      obtain p' where "establish l syn addr 16 sd w = Inr p'"
        by (rule establish_views [OF cw(3,1) _ _ m cw(2) ne, of syn addr 16])
          (use allocated_fields [OF fresh(5)] in \<open>auto intro: that\<close>)
      then show ?thesis using run w fresh(1) by (auto intro: exI [of _ True])
    qed
  qed
qed

text \<open>
  C37.  A SYN for a listening socket gets a place in the queue and the first free descriptor exactly when no
  request of the same peer is waiting, the backlog is not reached and there is a descriptor.  The new
  mysocket has the address of the peer, the socket that was accepted and the SYN as its input; a request that is
  dropped changes neither mysockets nor queues.
\<close>

theorem requests_are_queued:
  assumes "process_ok p" and "ctx p L = Some l" and "is_listening l" and "queues p L = Some q"
    and "length addr = 16" and "sa_family addr = AF_INET" and "0 \<le> fd" and "20 \<le> length syn" and "has_flag syn TH_SYN"
  shows "\<exists>b p'. mysock_enqueue_connection l syn addr 16 fd p = Inr (b, p') \<and>
    b = ((\<forall>k \<in> slots q. req_peer (connection_queue q ! k) \<noteq> addr) \<and> cur_len q < max_len q \<and>
      (\<exists>sd. 0 \<le> sd \<and> sd < 64 \<and> ctx p sd = None)) \<and>
    (if b then
       \<exists>k sd c. k \<notin> slots q \<and> ctx p sd = None \<and> (\<forall>j. 0 \<le> j \<and> j < sd \<longrightarrow> ctx p j \<noteq> None) \<and>
         ctx p' = (ctx p)(L \<mapsto> l\<lparr>new_socket := -1\<rparr>, sd \<mapsto> c) \<and>
         queues p' = (queues p)(L \<mapsto> q\<lparr>cur_len := cur_len q + 1, connection_queue :=
           (connection_queue q)[k := \<lparr>req_peer = addr, req_peer_len = 16, req_sd = sd\<rparr>]\<rparr>) \<and>
         my_sd c = sd \<and> listen_sd c = L \<and> peer_sockaddr c = addr \<and> socket_fd c = new_socket l \<and>
         network_recv_queue (conn c) = [syn] \<and> thread_started c \<and> thread c = None
     else ctx p' = ctx p \<and> queues p' = queues p)"
proof -
  obtain b p' where run: "mysock_enqueue_connection l syn addr 16 fd p = Inr (b, p')"
    using enqueue_runs [OF assms(1-7)] by blast
  show ?thesis
    using run assms(1-5)
  proof (cases rule: enqueue_cases)
    case dropped
    then show ?thesis using run assms(8,9) by (intro exI [of _ b] exI [of _ p']) auto
  next
    case (queued k sd c)
    have "sd < 64" using ctx_range [of p' sd c] queued(12) by simp
    then have "b = ((\<forall>k \<in> slots q. req_peer (connection_queue q ! k) \<noteq> addr) \<and> cur_len q < max_len q \<and>
      (\<exists>sd. 0 \<le> sd \<and> sd < 64 \<and> ctx p sd = None))" using queued by auto
    moreover have "\<exists>k sd c. k \<notin> slots q \<and> ctx p sd = None \<and> (\<forall>j. 0 \<le> j \<and> j < sd \<longrightarrow> ctx p j \<noteq> None) \<and>
         ctx p' = (ctx p)(L \<mapsto> l\<lparr>new_socket := -1\<rparr>, sd \<mapsto> c) \<and>
         queues p' = (queues p)(L \<mapsto> q\<lparr>cur_len := cur_len q + 1, connection_queue :=
           (connection_queue q)[k := \<lparr>req_peer = addr, req_peer_len = 16, req_sd = sd\<rparr>]\<rparr>) \<and>
         my_sd c = sd \<and> listen_sd c = L \<and> peer_sockaddr c = addr \<and> socket_fd c = new_socket l \<and>
         network_recv_queue (conn c) = [syn] \<and> thread_started c \<and> thread c = None"
      by (rule exI [of _ k], rule exI [of _ sd], rule exI [of _ c]) (use queued in simp)
    ultimately show ?thesis using run queued(1) by auto
  qed
qed

theorem requests_are_queued_witness:
  "\<exists>l p' c. ctx listener 0 = Some l \<and> mysock_enqueue_connection l syn_packet (inet_addr 1) 16 8 listener = Inr (True, p') \<and>
     ctx p' = (ctx listener)(0 \<mapsto> l\<lparr>new_socket := -1\<rparr>, 1 \<mapsto> c) \<and> peer_sockaddr c = inet_addr 1 \<and>
     network_recv_queue (conn c) = [syn_packet] \<and> (\<exists>q. queues p' 0 = Some q \<and> cur_len q = 1)"
proof -
  obtain l where l: "ctx listener 0 = Some l" "is_listening l" using listener_sockets(1) by blast
  obtain q where q: "queues listener 0 = Some q" "max_len q = 1" "cur_len q = 0"
    "connection_queue q = [INVALIDATE_CONNECT_REQUEST]" using listener_sockets(2) by blast
  have s: "slots q = {}" by (auto simp: slots_def q(4) INVALIDATE_CONNECT_REQUEST_def intro!: gr0I)
  have a: "length (inet_addr 1) = 16" "sa_family (inet_addr 1) = AF_INET" "20 \<le> length syn_packet" "has_flag syn_packet TH_SYN"
    by code_simp+
  have free: "0 \<le> (1::int) \<and> (1::int) < 64 \<and> ctx listener 1 = None" using listener_sockets(3) by simp
  let ?Q = "\<lambda>p' k sd c. k \<notin> slots q \<and> ctx listener sd = None \<and> (\<forall>j. 0 \<le> j \<and> j < sd \<longrightarrow> ctx listener j \<noteq> None) \<and>
    ctx p' = (ctx listener)(0 \<mapsto> l\<lparr>new_socket := -1\<rparr>, sd \<mapsto> c) \<and>
    queues p' = (queues listener)(0 \<mapsto> q\<lparr>cur_len := cur_len q + 1, connection_queue :=
      (connection_queue q)[k := \<lparr>req_peer = inet_addr 1, req_peer_len = 16, req_sd = sd\<rparr>]\<rparr>) \<and>
    my_sd c = sd \<and> listen_sd c = 0 \<and> peer_sockaddr c = inet_addr 1 \<and> socket_fd c = new_socket l \<and>
    network_recv_queue (conn c) = [syn_packet] \<and> thread_started c \<and> thread c = None"
  obtain b p' where run: "mysock_enqueue_connection l syn_packet (inet_addr 1) 16 8 listener = Inr (b, p')"
    "b = ((\<forall>k \<in> slots q. req_peer (connection_queue q ! k) \<noteq> inet_addr 1) \<and> cur_len q < max_len q \<and>
      (\<exists>sd. 0 \<le> sd \<and> sd < 64 \<and> ctx listener sd = None))"
    "if b then \<exists>k sd c. ?Q p' k sd c else ctx p' = ctx listener \<and> queues p' = queues listener"
    using requests_are_queued [OF reachable_ok [OF listeners_reachable(1)] l q(1) a(1,2) _ a(3,4), of 8] by auto
  have b unfolding run(2) using exI [of "\<lambda>sd. 0 \<le> sd \<and> sd < 64 \<and> ctx listener sd = None", OF free] by (simp add: s q(2,3))
  then obtain k sd c where r: "ctx listener sd = None" "\<forall>j. 0 \<le> j \<and> j < sd \<longrightarrow> ctx listener j \<noteq> None"
    "ctx p' = (ctx listener)(0 \<mapsto> l\<lparr>new_socket := -1\<rparr>, sd \<mapsto> c)"
    "queues p' = (queues listener)(0 \<mapsto> q\<lparr>cur_len := cur_len q + 1, connection_queue :=
       (connection_queue q)[k := \<lparr>req_peer = inet_addr 1, req_peer_len = 16, req_sd = sd\<rparr>]\<rparr>)"
    "peer_sockaddr c = inet_addr 1" "network_recv_queue (conn c) = [syn_packet]" using run(3) by auto
  have "0 \<le> sd" using ctx_range [of p' sd c] r(3) by simp
  moreover have "sd \<noteq> 0" using r(1) l(1) by auto
  moreover have "\<not> 1 < sd" using spec [OF r(2), of 1] free by auto
  ultimately have "sd = 1" by simp
  then show ?thesis using l(1) run(1) \<open>b\<close> r q(3) by (intro exI [of _ l] exI [of _ p'] exI [of _ c]) simp
qed

text \<open>
  C39.  A request that is dropped leaves the socket of its connection behind in \<open>new_socket\<close>, and the next
  connection to the listening socket fails the assertion of \<open>_network_recv_packet\<close>: when the backlog is
  reached, one more client ends the program.
\<close>

theorem refused_request_crashes:
  assumes "process_ok p" and "ctx p L = Some l" and "is_listening l" and "queues p L = Some q" and "\<not> is_active l"
    and "length addr = 16" and "f \<noteq> -1" and "read_packet e 1500 stream = (rc, syn, rest)" and "0 < rc"
    and "max_len q \<le> cur_len q \<or> (\<exists>k \<in> slots q. req_peer (connection_queue q ! k) = addr) \<or> \<not> has_flag syn TH_SYN"
    and "network_recv_round L ok (Some (f, addr)) e stream fd p = Inr (rest', p')"
  shows "network_recv_round L ok' (Some (f', addr')) e' stream' fd' p' = Inl Assertion_Failed"
proof -
  note m = my_sd_ok [OF assms(1,2)] and r = ctx_range [OF assms(2)]
  let ?l = "l\<lparr>peer_addr_len := 16, peer_sockaddr := addr, new_socket := f\<rparr>"
  have g: "mysock_get_context L p = Inr l" using assms(1,2) by (simp add: get_context_Inr)
  note run = assms(11) [unfolded network_recv_round_def g and_then_simps]
  have s: "0 \<le> socket_fd l" "new_socket l = -1" "recv_thread_started l" "\<not> recv_thread_over l"
    using run assms(3,5) by (auto simp: network_recv_packet_def split: if_splits)
  have pkt: "network_recv_packet ok (Some (f, addr)) e 1500 stream l = Inr (rc, syn, rest, ?l)"
    using assms(3,5,8) s by (simp add: network_recv_packet_def)
  obtain b where enq: "mysock_enqueue_connection ?l syn addr 16 fd (put_context ?l p) = Inr (b, p')"
    using run pkt s assms(3,9) by (auto simp: and_then_eq_Inr Let_def split: if_splits)
  have ok: "process_ok (put_context ?l p)" "ctx (put_context ?l p) L = Some ?l"
    by (rule put_context_ok [OF assms(1,2)]; use listening_facts [OF assms(1-3)] m in simp)+
  have q: "queues (put_context ?l p) L = Some q" using assms(4) by simp
  have "\<not> b \<and> tidy_tables p' \<and> ctx p' L = Some ?l"
    by (rule enqueue_cases [OF enq ok _ q assms(6)]) (use assms(3,10) ok(2) in auto)
  then have g': "mysock_get_context L p' = Inr ?l" by (simp add: get_context_Inr)
  have "network_recv_packet ok' (Some (f', addr')) e' 1500 stream' ?l = Inl Assertion_Failed"
    using assms(3,5,7) s(1) by (simp add: network_recv_packet_def)
  then show ?thesis using g' s(3,4) by (simp add: network_recv_round_def)
qed

text \<open>A second client of the process whose backlog is reached.\<close>

definition second :: "sr_fault + byte list list \<times> process" where
  "second = network_recv_round 0 True (Some (9, inet_addr 2)) 0 [datagram_frame syn_packet] 10 full_listener"

theorem refused_request_crashes_witness:
  "\<exists>rest p'. second = Inr (rest, p') \<and>
     network_recv_round 0 True (Some (11, inet_addr 3)) 0 [datagram_frame syn_packet] 12 p' = Inl Assertion_Failed"
proof -
  obtain l where l: "ctx full_listener 0 = Some l" "is_listening l" "\<not> is_active l" using full_listener_sockets(1) by blast
  obtain q where q: "queues full_listener 0 = Some q" "max_len q = 1" "cur_len q = 1"
    using full_listener_sockets(2) by blast
  have "case second of Inl e \<Rightarrow> False | Inr r \<Rightarrow> True"
    unfolding second_def to_listener_def request_def by code_simp
  then obtain rest p' where run: "second = Inr (rest, p')" by (auto split: sum.splits)
  have r: "read_packet 0 1500 [datagram_frame syn_packet] = (20, syn_packet, [])" by code_simp
  have a: "length (inet_addr 2) = 16" by code_simp
  have "network_recv_round 0 True (Some (11, inet_addr 3)) 0 [datagram_frame syn_packet] 12 p' = Inl Assertion_Failed"
    using q(2,3)
    by (intro refused_request_crashes [OF reachable_ok [OF listeners_reachable(2)] l(1,2) q(1) l(3) a _ r _ _ run [unfolded second_def]])
      simp_all
  with run show ?thesis by blast
qed

subsection \<open>Datagrams\<close>

text \<open>
  C40.  The packets a mysocket sends are the packets its peer receives, in order and with nothing left
  over, however \<open>write\<close> splits what is written and however \<open>read\<close> splits the stream: each \<open>read\<close> finds
  one of the pieces of \<open>stream\<close>.  No \<open>write\<close> returns zero, and packets have at most 1500 bytes.
\<close>

theorem datagrams_cross:
  assumes "send_packets xs a = Inr (rs, out, a')" and "\<forall>r \<in> set rs. 0 \<le> r"
    and "\<forall>(ws, ws', p) \<in> set xs. 0 \<notin> set ws \<union> set ws' \<and> 0 < length p \<and> length p \<le> 1500"
    and "concat stream = out" and "[] \<notin> set stream" and "on_line b"
  shows "recv_packets e (length xs) stream b = Inr (map (\<lambda>(ws, ws', p). p) xs, [], b)"
proof -
  have "out = concat (map (\<lambda>(ws, ws', p). datagram_frame p) xs)"
    by (rule send_packets_frames [OF assms(1,2)]) (use assms(3) in auto)
  then have c: "concat stream = concat (map datagram_frame (map (\<lambda>(ws, ws', p). p) xs))"
    using assms(4) by (simp add: comp_def case_prod_beta')
  have "recv_packets e (length (map (\<lambda>(ws, ws', p). p) xs)) stream b = Inr (map (\<lambda>(ws, ws', p). p) xs, [], b)"
    by (rule recv_packets_frames [OF assms(6) _ c]) (use assms(3,5) in \<open>auto simp: nonempty_reads_def\<close>)
  then show ?thesis by simp
qed

text \<open>Three packets, the first one written byte by byte, on a stream whose pieces cross the packets.\<close>

definition three_packets :: "(int list \<times> int list \<times> byte list) list" where
  "three_packets = [([1, 1], [1, 1, 1], [1, 2, 3]), ([2], [1], [4]), ([2], [2], [5, 6])]"

definition end_point :: sock_context where
  "end_point = \<lparr>conn = blank, is_active = True, bound = False, my_sd = 0, listen_sd = -1, stcp_errno = 0,
     thread_started = True, thread = None, local_sockaddr = null_sockaddr, peer_sockaddr = inet_addr 1, peer_addr_len = 16,
     peer_addr_valid = True, socket_fd = 4, recv_thread_started = True, recv_thread_over = False, new_socket = -1,
     connected = True, connect_locked = False\<rparr>"

theorem datagrams_cross_witness:
  "recv_packets 0 3 [[0], [3, 1, 2], [3, 0, 1, 4, 0], [2, 5, 6]] end_point = Inr ([[1, 2, 3], [4], [5, 6]], [], end_point)"
proof -
  have "case send_packets three_packets end_point of Inl e \<Rightarrow> False
    | Inr (rs, out, a) \<Rightarrow> out = [0, 3, 1, 2, 3, 0, 1, 4, 0, 2, 5, 6] \<and> (\<forall>r \<in> set rs. 0 \<le> r)"
    by code_simp
  then obtain rs out a where s: "send_packets three_packets end_point = Inr (rs, out, a)"
    "out = [0, 3, 1, 2, 3, 0, 1, 4, 0, 2, 5, 6]" "\<forall>r \<in> set rs. 0 \<le> r"
    by (auto split: sum.splits)
  have "on_line end_point" by code_simp
  from datagrams_cross [OF s(1,3) _ _ _ this, of "[[0], [3, 1, 2], [3, 0, 1, 4, 0], [2, 5, 6]]" 0] s(2)
  have "recv_packets 0 (length three_packets) [[0], [3, 1, 2], [3, 0, 1, 4, 0], [2, 5, 6]] end_point =
    Inr (map (\<lambda>(ws, ws', p). p) three_packets, [], end_point)" by (simp add: three_packets_def del: recv_packets.simps)
  moreover have "length three_packets = 3" "map (\<lambda>(ws, ws', p). p) three_packets = [[1, 2, 3], [4], [5, 6]]"
    by (simp_all add: three_packets_def)
  ultimately show ?thesis by simp
qed

end
