(* ===== verification/Stcp_Races.thy ===== *)
theory Stcp_Races
  imports Stcp_Wire Stcp_Service
begin

text \<open>
  What the invariant of the queues of requests does not survive: two threads that overlap, and a second
  \<open>mylisten\<close> that lowers the backlog or moves the array under completed requests.

  \<open>_mysock_enqueue_connection\<close> and \<open>_mysock_dequeue_connection\<close> both hold \<open>listen_lock\<close> for reading, which any
  number of threads may, and only the second holds \<open>connection_lock\<close> when it changes \<open>cur_len\<close>
  (\<open>connection_demux.c:113\<close>; the first does so at lines 201 and 216 without it).  Here the first is cut inside
  \<open>++q->cur_len\<close>, between the read of the counter and the write.
\<close>

subsection \<open>A request in two pieces\<close>

text \<open>Up to the read of the counter: the place for the request and the value read.\<close>

definition enqueue_read ::
  "sock_context \<Rightarrow> byte list \<Rightarrow> sockaddr \<Rightarrow> nat \<Rightarrow> process \<Rightarrow> sr_fault + (nat \<times> 32 word) option" where
  "enqueue_read c syn addr alen p =
     (if \<not> is_listening c \<or> \<not> bound c \<or> alen = 0 \<or> sa_family addr \<noteq> AF_INET then Inl Assertion_Failed
      else if length syn < 20 \<or> \<not> has_flag syn TH_SYN then Inr None
      else
        and_then (get_connection_queue c p) (\<lambda>q.
        case q of
          None \<Rightarrow> Inr None
        | Some q \<Rightarrow>
            and_then (is_queued addr alen (take (unat (max_len q)) (connection_queue q))) (\<lambda>queued.
            if queued then Inr None
            else and_then (queue_slot q) (\<lambda>slot. Inr (map_option (\<lambda>k. (k, cur_len q)) slot)))))"

text \<open>From the write on: \<open>n\<close> is the value that was read, \<open>k\<close> the place that was found.\<close>

definition enqueue_write ::
  "sock_context \<Rightarrow> byte list \<Rightarrow> sockaddr \<Rightarrow> nat \<Rightarrow> int \<Rightarrow> nat \<Rightarrow> 32 word \<Rightarrow> process \<Rightarrow> sr_fault + bool \<times> process" where
  "enqueue_write c syn addr alen fd k n p =
     and_then (get_connection_queue c p) (\<lambda>q.
     case q of
       None \<Rightarrow> Inl Use_After_Free
     | Some q \<Rightarrow>
         if req_sd (connection_queue q ! k) \<noteq> -1 then Inl Assertion_Failed
         else
           and_then (mysock_new_mysocket fd (is_reliable (conn c)) p) (\<lambda>(sd, p).
           if sd < 0 then
             and_then (put_queue (my_sd c) (q\<lparr>cur_len := n, connection_queue :=
               (connection_queue q)[k := INVALIDATE_CONNECT_REQUEST]\<rparr>) p) (\<lambda>p. Inr (False, p))
           else
             and_then (put_queue (my_sd c) (q\<lparr>cur_len := n + 1, connection_queue :=
               (connection_queue q)[k := \<lparr>req_peer = addr, req_peer_len = alen, req_sd = sd\<rparr>]\<rparr>) p) (\<lambda>p.
             and_then (establish c syn addr alen sd p) (\<lambda>p. Inr (True, p)))))"

text \<open>With nothing in between the two pieces are the function.\<close>

lemma enqueue_pieces:
  "mysock_enqueue_connection c syn addr alen fd p =
     and_then (enqueue_read c syn addr alen p) (\<lambda>found.
     case found of None \<Rightarrow> Inr (False, p) | Some (k, n) \<Rightarrow> enqueue_write c syn addr alen fd k n p)"
proof (cases "get_connection_queue c p")
  case (Inr r)
  show ?thesis
  proof (cases r)
    case (Some q)
    have same: "q\<lparr>cur_len := cur_len q, connection_queue := rs\<rparr> = q\<lparr>connection_queue := rs\<rparr>" for rs by simp
    note defs = mysock_enqueue_connection_def enqueue_read_def enqueue_write_def
    let ?dup = "is_queued addr alen (take (unat (max_len q)) (connection_queue q))"
    show ?thesis
    proof (cases "?dup")
      case dup: (Inr b)
      show ?thesis
      proof (cases "queue_slot q")
        case (Inr slot)
        then show ?thesis
          using \<open>get_connection_queue c p = Inr r\<close> Some dup by (cases slot) (simp_all add: defs same cong: if_cong)
      qed (use Inr Some dup in \<open>simp add: defs\<close>)
    qed (use Inr Some in \<open>simp add: defs\<close>)
  qed (use Inr in \<open>simp add: mysock_enqueue_connection_def enqueue_read_def\<close>)
qed (simp add: mysock_enqueue_connection_def enqueue_read_def)

subsection \<open>A connection that waits\<close>

text \<open>
  A server with a backlog of two places and one request, from its calls, and the same when the connection
  of the request is established: what is seen of it is the invariant of the reachable states.
\<close>

definition to_server :: "call list" where
  "to_server = [Mysocket 3 True, Mybind 0 (inet_addr 0) 0, Mylisten 0 1 False 0, request]"

abbreviation server :: process where "server \<equiv> after_calls to_server"

definition waiting_server :: "sr_fault + process" where
  "waiting_server = and_then (mysock_get_context 1 server) (\<lambda>c.
     announce 0 (c\<lparr>conn := (conn c)\<lparr>blocking := False\<rparr>\<rparr>) server)"

lemma server_reachable: "process_reachable server"
proof -
  let ?m = "Mysocket 3 True" and ?b = "Mybind 0 (inet_addr 0) 0" and ?l = "Mylisten 0 1 False 0"
  have "process_reachable (after_calls [])"
    by (simp add: after_calls_def idle_process_def process_start)
  moreover have "succeed [?m]" by code_simp
  ultimately have "process_reachable (after_calls [?m])"
    using after_calls_reachable [of "[]" ?m] by simp
  moreover have "succeed [?m, ?b]" by code_simp
  ultimately have "process_reachable (after_calls [?m, ?b])"
    using after_calls_reachable [of "[?m]" ?b] by simp
  moreover have "succeed [?m, ?b, ?l]" by code_simp
  moreover have "case global_ctx (after_calls [?m, ?b]) ! 0 of None \<Rightarrow> True
      | Some c \<Rightarrow> \<not> is_listening c \<and> \<not> thread_started c" by code_simp
  then have "legal ?l (after_calls [?m, ?b])" by (simp add: ctx_def split: option.splits)
  ultimately have "process_reachable (after_calls [?m, ?b, ?l])"
    using after_calls_reachable [of "[?m, ?b]" ?l] by simp
  moreover have "succeed [?m, ?b, ?l, request]" unfolding request_def by code_simp
  moreover have "legal request (after_calls [?m, ?b, ?l])" by (simp add: request_def inet_addr_def)
  ultimately show ?thesis
    using after_calls_reachable [of "[?m, ?b, ?l]" request] by (simp add: to_server_def)
qed

text \<open>What the races do to it, on the functions of the code.\<close>

definition counted_at :: "process \<Rightarrow> 32 word \<Rightarrow> nat list \<Rightarrow> bool" where
  "counted_at p n ks = queue_at p 0 (\<lambda>q. cur_len q = n \<and>
     filter (\<lambda>k. req_sd (connection_queue q ! k) \<noteq> -1) [0..<length (connection_queue q)] = ks)"

text \<open>
  One thread reads the counter for a second request, another accepts the first connection, the first
  thread goes on.
\<close>

definition accept_in_between :: "process \<Rightarrow> sr_fault + process" where
  "accept_in_between p =
     and_then (mysock_get_context 0 p) (\<lambda>l.
     and_then (enqueue_read l syn_packet (inet_addr 2) 16 p) (\<lambda>found.
     and_then (myaccept 0 p) (\<lambda>(sd, from, p).
     case found of None \<Rightarrow> Inr p
     | Some (k, n) \<Rightarrow>
         and_then (mysock_get_context 0 p) (\<lambda>l.
         and_then (enqueue_write (l\<lparr>new_socket := 8\<rparr>) syn_packet (inet_addr 2) 16 9 k n p) (\<lambda>(ok, p). Inr p)))))"

lemma accept_in_between_runs:
  "case and_then waiting_server accept_in_between of Inl e \<Rightarrow> False | Inr p \<Rightarrow> counted_at p 2 [1]"
  unfolding waiting_server_def to_server_def request_def by code_simp

lemma one_after_the_other_runs:
  "case and_then waiting_server (\<lambda>p.
      and_then (mysock_get_context 0 p) (\<lambda>l.
      and_then (mysock_enqueue_connection (l\<lparr>new_socket := 8\<rparr>) syn_packet (inet_addr 2) 16 9 p) (\<lambda>(ok, p).
      and_then (myaccept 0 p) (\<lambda>(sd, from, p). Inr p)))) of
    Inl e \<Rightarrow> False | Inr p \<Rightarrow> counted_at p 1 [1]"
  unfolding waiting_server_def to_server_def request_def by code_simp

lemma slots_filter:
  "slots q = set (filter (\<lambda>k. req_sd (connection_queue q ! k) \<noteq> -1) [0..<length (connection_queue q)])"
  by (auto simp: slots_def)

lemma counted_at_queue:
  "counted_at p n ks \<Longrightarrow> \<exists>q. queues p 0 = Some q \<and> cur_len q = n \<and> slots q = set ks"
  unfolding counted_at_def slots_filter by (drule queue_at_queues) auto

lemma waiting_server_ok: "\<exists>p. waiting_server = Inr p \<and> process_ok p"
proof -
  have "socket_at server 1 (\<lambda>c. blocking (conn c) \<and> \<not> is_listening c)"
    unfolding to_server_def request_def by code_simp
  from socket_at_ctx [OF this] obtain c where c: "ctx server 1 = Some c" "blocking (conn c)" "\<not> is_listening c"
    by blast
  have ok: "process_ok server" by (rule reachable_ok [OF server_reachable])
  have g: "mysock_get_context 1 server = Inr c" using c(1) process_ok_tidy [OF ok] by (simp add: get_context_Inr)
  have "waiting_server \<noteq> Inl e" for e using accept_in_between_runs by (metis and_then_simps(1) sum.case(1))
  then obtain p where p: "waiting_server = Inr p" by (cases waiting_server) auto
  with g have "announce 0 (c\<lparr>conn := (conn c)\<lparr>blocking := False\<rparr>\<rparr>) server = Inr p"
    by (simp add: waiting_server_def)
  then have "process_ok p" using announce_ok [OF _ ok c(1)] c(2,3) my_sd_ok [OF ok c(1)] by (simp add: face_def)
  with p show ?thesis by blast
qed

text \<open>
  The decrement of \<open>myaccept\<close> is lost: the counter is two, and there is one request.  From then on the
  backlog is smaller by one.  One after the other the two calls leave the counter right.
\<close>

lemma cur_len_race:
  "\<exists>p p' q. waiting_server = Inr p \<and> process_ok p \<and> accept_in_between p = Inr p' \<and>
     queues p' 0 = Some q \<and> slots q = {1} \<and> cur_len q = 2 \<and> \<not> process_ok p'"
proof -
  obtain p where p: "waiting_server = Inr p" "process_ok p" using waiting_server_ok by blast
  then obtain p' where p': "accept_in_between p = Inr p'" "counted_at p' 2 [1]"
    using accept_in_between_runs [unfolded p(1) and_then_simps] by (cases "accept_in_between p") simp_all
  from counted_at_queue [OF this(2)] obtain q where q: "queues p' 0 = Some q" "cur_len q = 2" "slots q = {1}"
    by auto
  moreover have "\<not> process_ok p'"
  proof
    assume "process_ok p'"
    from queue_facts(1) [OF this q(1)] q(2,3) show False by (simp add: queue_ok_def)
  qed
  ultimately show ?thesis using p p' by blast
qed

subsection \<open>A second mylisten\<close>

text \<open>A smaller backlog is taken over although more requests are in the queue.\<close>

lemma lowered_backlog:
  assumes "mylisten sd backlog moved rc p = Inr (r, p')" "process_ok p"
    and "ctx p sd = Some c" "is_listening c" "queues p sd = Some q"
    and "of_int backlog + 1 < cur_len q"
  shows "\<exists>q'. queues p' sd = Some q' \<and> max_len q' < cur_len q' \<and> \<not> process_ok p'"
proof -
  obtain u a where u: "queues u = (queues p)(sd \<mapsto> resize_queue (of_int backlog + 1) moved a q)"
    "p' = u \<or> p' = put_context (network_start_recv_thread c) u"
    using mylisten_again [OF assms(1-5)] by blast
  have q: "queue_ok (ctx p) sd q" by (rule queue_facts(1) [OF assms(2,5)])
  have "unat (cur_len q) \<le> unat (max_len q)"
    using q card_mono [of "{..<length (connection_queue q)}" "slots q"] by (auto simp: queue_ok_def slots_def)
  then have "\<not> max_len q < of_int backlog + 1" using assms(6) by (simp add: word_less_nat_alt)
  then have "queues p' sd = Some (q\<lparr>max_len := of_int backlog + 1\<rparr>)" using u by (auto simp: resize_queue_def)
  moreover have "\<not> process_ok p'"
  proof
    assume "process_ok p'"
    from queue_facts(1) [OF this calculation] have "length (connection_queue q) = unat (of_int backlog + 1 :: 32 word)"
      by (simp add: queue_ok_def)
    then show False using q assms(6) card_mono [of "{..<length (connection_queue q)}" "slots q"]
      by (auto simp: queue_ok_def slots_def word_less_nat_alt)
  qed
  ultimately show ?thesis using assms(6) by auto
qed

text \<open>A larger one that makes \<open>realloc\<close> move the array leaves the completed queue pointing into the old block.\<close>

lemma moved_requests_dangle:
  "\<exists>p p'. waiting_server = Inr p \<and> process_ok p \<and> mylisten 0 3 True 0 p = Inr (0, p') \<and>
     myaccept 0 p' = Inl Use_After_Free"
proof -
  have runs: "case waiting_server of Inl e \<Rightarrow> False | Inr p \<Rightarrow>
      (case mylisten 0 3 True 0 p of Inl e \<Rightarrow> False | Inr (r, p') \<Rightarrow> r = 0 \<and>
        (case myaccept 0 p' of Inl e \<Rightarrow> e = Use_After_Free | Inr x \<Rightarrow> False))"
    unfolding waiting_server_def to_server_def request_def by code_simp
  obtain p where p: "waiting_server = Inr p" "process_ok p" using waiting_server_ok by blast
  from runs [unfolded p(1) sum.case] obtain p' where p': "mylisten 0 3 True 0 p = Inr (0, p')"
    and run: "case myaccept 0 p' of Inl e \<Rightarrow> e = Use_After_Free | Inr x \<Rightarrow> False"
    by (cases "mylisten 0 3 True 0 p") auto
  from run have "myaccept 0 p' = Inl Use_After_Free" by (cases "myaccept 0 p'") simp_all
  then show ?thesis using p p' by blast
qed

end
