(* ===== verification/Spec2Isabelle.thy ===== *)
theory Spec2Isabelle
  imports Chirc_Properties Sr_Guarantees Sr_Protocol Sr_Dump Stcp_Properties Stcp_Races
begin

text \<open>
  A verification library for three programs of a networks course: \<open>chirc\<close>, an IRC server
  (\<open>src/src\<close>), \<open>sr\<close>, an IP router for the virtual network VNS (\<open>src/stub_sr\<close>), and \<open>stcp\<close>, a
  reliable transport layer over datagrams with the mysocket layer around it (\<open>src/stcp\<close>).  The
  programs share no code but the list library simclist and run apart from each other; the
  development models each of them from its source and shares a prelude, the list, and between
  router and transport layer the bytes of memory and the Internet checksum.

  \<^bold>\<open>Conventions.\<close>  A C function is a HOL function on the state it reads and writes, in the order of
  its statements.  What may stop the run is a value of a sum type: \<open>Inl\<close> a fault or the end of the
  thread, \<open>Inr\<close> the result; \<open>and_then\<close> is the sequence of statements.  Undefined behaviour that the
  code can reach (a NULL pointer, an access past a buffer, a use after free, an overlapping
  \<open>memcpy\<close>, a failed assertion) is a fault, not a chosen value; the model of the router and of
  STCP uses the type \<open>sr_fault\<close>, that of chirc the type \<open>stop\<close>.  \<open>Would_Block\<close> is no fault: the
  call waits until the state changes.  Loops over lists are recursive functions; the endless
  loops of the programs are step relations or functions for one round.  Memory that is not
  initialised is a parameter (\<open>junk\<close>, \<open>stack_char\<close>); the machine is little endian; words have the
  width of the source (\<open>8 word\<close>, \<open>16 word\<close>, \<open>32 word\<close>), \<open>int\<close>s of the source that only count are
  \<open>int\<close>.  What the operating system decides (whether a send succeeds, the random generator, the
  clock, the result of \<open>snprintf\<close>'s buffer size) is a field of the state, so every
  theorem holds for all its values unless it says otherwise.  \<open>malloc\<close> does
  not fail; how many bytes of a block are usable is a field of the state of chirc (\<open>usable\<close>), of which
  nothing is assumed but what a theorem states.

  \<^bold>\<open>Shared.\<close>  \<open>Prelude\<close> has the statements that may stop, lookups by key and the C string functions;
  \<open>Clist\<close> the operations of \<open>simclist.c\<close> the programs call, with the lock of its iterator.

  \<^bold>\<open>chirc.\<close>  \<open>Chirc_State\<close> is \<open>ircstructs.h\<close> (users, channels, mutexes, the log of sends), with the
  seekers and \<open>user_exit\<close> of \<open>utils.c\<close>; \<open>Chirc_Reply\<close> the replies of \<open>constr_reply\<close>; \<open>Chirc_Channel\<close>,
  \<open>Chirc_Handlers\<close>, \<open>Chirc_Queries\<close> and \<open>Chirc_Mode\<close> the relays and the message handlers of
  \<open>handlers.c\<close> and \<open>channel.c\<close>; \<open>Chirc_Parser\<close> is \<open>parser.c\<close> and \<open>Chirc_Server\<close> \<open>main.c\<close> and
  \<open>server.c\<close>, with the relation \<open>serial_step\<close> of the server: a client connects, one of its messages is
  handled, or its connection ends, each as a whole, so that \<open>serially_reachable\<close> is what the server
  comes to when its threads take turns.  The mutexes of the program do not enforce that:
  \<open>Chirc_Races\<close> cuts NICK and the part of JOIN in \<open>channel.c\<close> where the code gives up \<open>lock\<close> or \<open>chan_lock\<close>,
  shows that the pieces without a break are the handlers, and runs two clients whose pieces alternate.  \<open>Chirc_Sends\<close>, \<open>Chirc_Core\<close> and \<open>Chirc_Membership\<close> say what each
  handler changes; the locale \<open>server_invariant\<close> of \<open>Chirc_Invariants\<close> is the contract of an
  invariant, interpreted by \<open>Chirc_Unique\<close> (nicks, channels and sockets are unique) and \<open>Chirc_Counts\<close>
  (the counters of channels are right).  \<open>Chirc_Delivery\<close>, \<open>Chirc_Total\<close> and \<open>Chirc_Stream\<close> are about
  who gets a message, about JOIN and PART reaching their end or overflowing a block of the heap, and
  about the reader against the messages of the stream, the pieces that break a CR LF included.
  \<open>Chirc_Properties\<close> states C1 to C8.

  \<^bold>\<open>Router.\<close>  \<open>Sr_Memory\<close> lays the structures of \<open>sr_protocol.h\<close> over bytes.  \<open>Sr_Tables\<close> has the state,
  the interfaces (\<open>sr_if.c\<close>), the routes (\<open>sr_rt.c\<close>) and sending (\<open>sr_vns_comm.c\<close>); \<open>Sr_Frame\<close> the frames,
  \<open>Sr_Arp\<close> the ARP cache and the queue, \<open>Sr_Router\<close> \<open>sr_handlepacket\<close> and the commands of the VNS
  server (\<open>sr_router.c\<close>).  \<open>Sr_Checksum\<close>, \<open>Sr_Datagram\<close> and \<open>Sr_Messages\<close> read the frames as abstract
  datagrams and messages, \<open>Sr_Handling\<close> gives every branch of \<open>sr_handlepacket\<close> as a function of them,
  \<open>Sr_Routing\<close> the routing table against the rule of the longest prefix.  The locales
  \<open>packet_invariant\<close> and \<open>router_invariant\<close> of \<open>Sr_Invariants\<close> list the changes the code makes and are
  interpreted for cache, queue and sending; \<open>Sr_Safety\<close> shows that handling returns.
  \<open>Sr_Properties\<close> states C9 to C15, \<open>Sr_Guarantees\<close> C16 to C22.

  \<^bold>\<open>Session of the router.\<close>  \<open>Sr_Sha1\<close> is the hash of \<open>sha1.c\<close>, with the byte buffer and the word
  array of its context, beside the SHA-1 of FIPS 180-4; C25 says that the code computes it however the input is
  cut into pieces.  \<open>Sr_Session\<close> is the life of the program around \<open>sr_handlepacket\<close>: \<open>sr_main.c\<close> after the options
  are parsed, and in \<open>sr_vns_comm.c\<close> the connection, the assembly of a message from what \<open>recv\<close>
  returns, the authentication with the key file and the commands of the server.  The server is a list of
  \<open>arrival\<close>s (bytes, an interrupted call, an error, the end), the files are arguments.  \<open>Sr_Protocol\<close> has the
  session seen as a list of messages: C23 (the loop performs the messages that the bytes encode), C24 (the opening)
  and C26 (what a hostile server can do).  \<open>Sr_Dump\<close> is \<open>sr_dumper.c\<close> with a reader of the file format;
  the log is a list of bytes of its own, and the session of \<open>Sr_Session\<close> is the one without a log file.

  \<^bold>\<open>Transport layer.\<close>  \<open>Stcp_Sock\<close> is the mysocket layer around a connection (\<open>mysock.c\<close>, \<open>mysock_api.c\<close>,
  \<open>stcp_api.c\<close>, \<open>network.c\<close>, \<open>tcp_sum.c\<close>): the queues, the wait for an event, the simulated loss of
  packets, the checksum.  \<open>Stcp_Transport\<close> and \<open>Stcp_Control\<close> are \<open>transport.c\<close>: the context, the list
  of unacknowledged packets, the receipt of a packet, a round of each loop, and the step relation in
  which rounds, calls of the application and packets alternate.  \<open>Stcp_Wire\<close> shows that what is
  sent verifies at the peer, \<open>Stcp_Receive\<close> and \<open>Stcp_Stream\<close> that the receiver refines an abstract one
  that knows the number of bytes delivered and the set of bytes received, \<open>Stcp_Send\<close> what is sent and sent
  again, \<open>Stcp_Loop\<close> what every round keeps, \<open>Stcp_Open\<close> the handshake, \<open>Stcp_Across\<close> the sender
  against the stream of its application and a burst of writes that fits the window (\<open>burst_goes_across\<close>),
  \<open>Stcp_Exchange\<close> any number of writes after a handshake, each acknowledged before the next.  \<open>Stcp_Properties\<close> states C27 to C35.

  \<^bold>\<open>Mysockets of a process.\<close>  \<open>Stcp_Hash\<close> is the hash table of \<open>mysock_hash.h\<close> as an instance of
  the locale \<open>finite_map\<close>; \<open>Stcp_Network\<close> the packets on a TCP connection, with the results of the calls
  of the socket library as arguments (\<open>network_io_tcp.c\<close>, \<open>network_io_socket.c\<close>); \<open>Stcp_Process\<close> the table
  of descriptors and the queues of requests (\<open>mysock.c\<close>, \<open>connection_demux.c\<close>); \<open>Stcp_Api\<close> the calls of an
  application and the two threads of a mysocket (\<open>mysock_api.c\<close>), each a step of \<open>act\<close>.  \<open>Stcp_Flags\<close>
  says which fields the rounds of the transport thread leave alone, \<open>Stcp_Backlog\<close> has the invariant of tables
  and queues and the changes that keep it, \<open>Stcp_Demux\<close> and \<open>Stcp_Steps\<close> show that every call and every
  round keeps it.  \<open>process_reachable\<close> has the steps of \<open>act\<close> that are \<open>legal\<close>: a mysocket does not listen after
  it was connected, a mysocket that listens is asked again only for as large a backlog or a larger one (and while
  connections wait to be accepted only if \<open>realloc\<close> leaves the array where it is), an application closes no
  mysocket that \<open>myaccept\<close> has not returned, and \<open>accept\<close> gives an address of 16 bytes.  The steps take
  turns, which the locks of the tables do not enforce: \<open>Stcp_Races\<close> cuts the arrival of a request
  where its function gives up the lock, shows what a call of \<open>myaccept\<close> in between does to \<open>cur_len\<close>,
  and what the two calls of \<open>mylisten\<close> that are not \<open>legal\<close> do.  A mysocket in a queue never
  listens, so two levels of recursion are enough for \<open>myclose\<close>.  \<open>Stcp_Service\<close> states C36 to C40.

  \<^bold>\<open>Bounds.\<close>  The window of the receiver is 3072 bytes and a segment carries at most 536.  Theorems
  about a stream assume that the first sequence number plus the length of the stream stays
  under \<open>2 ^ 31\<close>, since the code compares sequence numbers without regard to wrap-around.  The clock
  stands during a round and may advance by any amount between rounds; C29 holds for every value the timeout
  takes from a handshake.  The number of rounds in a statement is that of the packets
  given, so no fuel is guessed.  Names and
  lines of chirc are bounded by the buffers of the program; C3 and C4 say what happens for every size
  of the blocks that \<open>malloc\<close> returns.

  \<^bold>\<open>Not modelled.\<close>  The parsing of the router's command line, the pipe that wakes a receive thread, the name service, the creation of threads,
  the example programs \<open>client.c\<close> and \<open>server.c\<close>, printing and debug output, the
  memory cells inside simclist and its functions nobody calls, and \<open>channeluser.c\<close>, which is empty.
  A mutex of chirc that its thread takes twice is a fault and one given back by a thread that does not hold it is
  recorded, but waiting for another thread is not modelled.  The interleavings that are modelled are those of \<open>Chirc_Races\<close> and
  \<open>Stcp_Races\<close>; all other handlers of chirc, calls of a mysocket and rounds of its threads are one step,
  and a statement about reachable states is about steps that take turns.  A call that waits has no step until it
  can go on.
\<close>

end
